(* ===== verification/Prelude.thy ===== *)
theory Prelude
  imports Main "HOL-Library.Word"
begin

text \<open>
  Shared vocabulary of the development: Go's run-time panics as values of a sum type, byte slices,
  the checked slice operations, hexadecimal encoding (\<open>encoding/hex\<close>, which the code uses to turn
  identifiers into map keys), and generic facts on lists that several components need.
  The collection \<open>go_simps\<close> holds the computation rules of the panic sum.
\<close>

unbundle bit_operations_syntax

named_theorems go_simps

type_synonym byte = "8 word"
type_synonym bytes = "8 word list"

section \<open>Panics\<close>

text \<open>
  A Go statement that faults at run time unwinds the goroutine. The model returns the fault as the
  left summand; a value of type \<open>'a go\<close> is a computation that panics or returns an \<open>'a\<close>.
\<close>

datatype go_panic =
    NilDereference
  | IndexOutOfRange
  | SliceOutOfRange
  | FailedTypeAssertion
  | ExplicitPanic

type_synonym 'a go = "go_panic + 'a"

definition go_bind :: "'a go \<Rightarrow> ('a \<Rightarrow> 'b go) \<Rightarrow> 'b go" where
  "go_bind m f = (case m of Inl e \<Rightarrow> Inl e | Inr v \<Rightarrow> f v)"

lemma go_bind_Inr [simp, go_simps]: "go_bind (Inr v) f = f v"
  by (simp add: go_bind_def)

lemma go_bind_Inl [simp, go_simps]: "go_bind (Inl e) f = Inl e"
  by (simp add: go_bind_def)

lemma go_bind_eq_Inr: "go_bind m f = Inr w \<longleftrightarrow> (\<exists>v. m = Inr v \<and> f v = Inr w)"
  by (cases m) simp_all

lemma go_bind_eq_Inl: "go_bind m f = Inl e \<longleftrightarrow> m = Inl e \<or> (\<exists>v. m = Inr v \<and> f v = Inl e)"
  by (cases m) simp_all

lemma go_bind_cong [fundef_cong]:
  "m = m' \<Longrightarrow> (\<And>v. m' = Inr v \<Longrightarrow> f v = g v) \<Longrightarrow> go_bind m f = go_bind m' g"
  by (cases m') simp_all

lemma go_bind_assoc: "go_bind (go_bind m f) g = go_bind m (\<lambda>v. go_bind (f v) g)"
  by (cases m) simp_all

text \<open>A Go loop over a slice whose body may panic.\<close>

fun go_foldM :: "('s \<Rightarrow> 'a \<Rightarrow> 's go) \<Rightarrow> 's \<Rightarrow> 'a list \<Rightarrow> 's go" where
  "go_foldM f s [] = Inr s"
| "go_foldM f s (x # xs) = go_bind (f s x) (\<lambda>s'. go_foldM f s' xs)"

lemma go_foldM_append: "go_foldM f s (xs @ ys) = go_bind (go_foldM f s xs) (\<lambda>s'. go_foldM f s' ys)"
  by (induction xs arbitrary: s) (simp_all add: go_bind_assoc)

definition go_deref :: "'a option \<Rightarrow> 'a go" where
  "go_deref p = (case p of None \<Rightarrow> Inl NilDereference | Some v \<Rightarrow> Inr v)"

lemma go_deref_simps [simp, go_simps]:
  "go_deref (Some v) = Inr v" "go_deref None = Inl NilDereference"
  by (simp_all add: go_deref_def)

lemma go_deref_eq_Inr [simp]: "go_deref p = Inr v \<longleftrightarrow> p = Some v"
  by (cases p) simp_all

definition go_nth :: "'a list \<Rightarrow> nat \<Rightarrow> 'a go" where
  "go_nth xs i = (if i < length xs then Inr (xs ! i) else Inl IndexOutOfRange)"

text \<open>
  \<open>xs[i:j]\<close>. Go allows the upper bound to reach the capacity of the slice; the model takes the
  capacity to be the length, so a bound beyond the length faults.
\<close>

definition go_slice :: "'a list \<Rightarrow> nat \<Rightarrow> nat \<Rightarrow> 'a list go" where
  "go_slice xs i j =
     (if i \<le> j \<and> j \<le> length xs then Inr (take (j - i) (drop i xs)) else Inl SliceOutOfRange)"

lemma go_nth_in [simp, go_simps]: "i < length xs \<Longrightarrow> go_nth xs i = Inr (xs ! i)"
  by (simp add: go_nth_def)

lemma go_nth_out [simp, go_simps]: "length xs \<le> i \<Longrightarrow> go_nth xs i = Inl IndexOutOfRange"
  by (simp add: go_nth_def)

lemma go_slice_in [simp, go_simps]:
  "i \<le> j \<Longrightarrow> j \<le> length xs \<Longrightarrow> go_slice xs i j = Inr (take (j - i) (drop i xs))"
  by (simp add: go_slice_def)

lemma go_slice_out [simp, go_simps]: "length xs < j \<Longrightarrow> go_slice xs i j = Inl SliceOutOfRange"
  by (simp add: go_slice_def)

section \<open>Hexadecimal keys\<close>

definition hexdigits :: string where
  "hexdigits = ''0123456789abcdef''"

fun EncodeToString :: "bytes \<Rightarrow> string" where
  "EncodeToString [] = []"
| "EncodeToString (b # bs) =
     hexdigits ! (unat b div 16) # hexdigits ! (unat b mod 16) # EncodeToString bs"

lemma length_EncodeToString [simp]: "length (EncodeToString bs) = 2 * length bs"
  by (induction bs) simp_all

lemma distinct_hexdigits: "distinct hexdigits" and length_hexdigits: "length hexdigits = 16"
  by (simp_all add: hexdigits_def)

lemma hexdigit_inj: "i < 16 \<Longrightarrow> j < 16 \<Longrightarrow> hexdigits ! i = hexdigits ! j \<longleftrightarrow> i = j"
  by (simp add: nth_eq_iff_index_eq distinct_hexdigits length_hexdigits)

lemma byte_bound: "unat (b :: byte) < 256"
  using unsigned_less [of b] by simp

lemma byte_eqI: "unat (a :: byte) div 16 = unat b div 16 \<Longrightarrow> unat a mod 16 = unat b mod 16 \<Longrightarrow> a = b"
  by (metis div_mult_mod_eq word_unat_eq_iff)

text \<open>Distinct byte slices have distinct hexadecimal keys, whatever their lengths.\<close>

lemma EncodeToString_inj: "EncodeToString xs = EncodeToString ys \<longleftrightarrow> xs = ys"
proof (induction xs arbitrary: ys)
  case Nil
  then show ?case by (cases ys) simp_all
next
  case (Cons x xs)
  show ?case
  proof (cases ys)
    case Nil
    then show ?thesis by simp
  next
    case (Cons y ys')
    have "unat x div 16 < 16" "unat y div 16 < 16"
      using byte_bound [of x] byte_bound [of y] by simp_all
    then have "EncodeToString (x # xs) = EncodeToString (y # ys') \<longleftrightarrow>
        unat x div 16 = unat y div 16 \<and> unat x mod 16 = unat y mod 16 \<and> xs = ys'"
      by (simp add: hexdigit_inj Cons.IH)
    with Cons show ?thesis using byte_eqI [of x y] by auto
  qed
qed

lemma inj_EncodeToString: "inj EncodeToString"
  by (simp add: inj_def EncodeToString_inj)

section \<open>Strings and fixed-width integers as bytes\<close>

definition string_bytes :: "string \<Rightarrow> bytes" where
  "string_bytes s = map (\<lambda>c. of_nat (of_char c)) s"

definition bytes_string :: "bytes \<Rightarrow> string" where
  "bytes_string bs = map (\<lambda>b. char_of (unat b)) bs"

lemma bytes_string_string_bytes [simp]: "bytes_string (string_bytes s) = s"
proof -
  have "char_of (unat (of_nat (of_char c) :: byte)) = c" for c
    by (simp add: unat_of_nat)
  then show ?thesis by (simp add: bytes_string_def string_bytes_def o_def)
qed

lemma length_string_bytes [simp]: "length (string_bytes s) = length s"
  by (simp add: string_bytes_def)

text \<open>\<open>binary.LittleEndian.PutUint64\<close>.\<close>

definition PutUint64 :: "64 word \<Rightarrow> bytes" where
  "PutUint64 w = map (\<lambda>i. ucast (drop_bit (8 * i) w)) [0..<8]"

lemma length_PutUint64 [simp]: "length (PutUint64 w) = 8"
  by (simp add: PutUint64_def)

lemma PutUint64_inj: "PutUint64 v = PutUint64 w \<longleftrightarrow> v = w"
proof
  assume eq: "PutUint64 v = PutUint64 w"
  show "v = w"
  proof (rule bit_eqI)
    fix n assume "possible_bit TYPE(64 word) n"
    then have n: "n < 64" by simp
    then have i: "n div 8 < 8" by simp
    have "PutUint64 v ! (n div 8) = PutUint64 w ! (n div 8)" using eq by simp
    then have "bit (ucast (drop_bit (8 * (n div 8)) v) :: byte) (n mod 8) =
        bit (ucast (drop_bit (8 * (n div 8)) w) :: byte) (n mod 8)"
      using i by (simp add: PutUint64_def nth_upt)
    then show "bit v n = bit w n" by (simp add: bit_ucast_iff bit_drop_bit_eq)
  qed
qed simp

text \<open>\<open>strings.Split\<close> for a one-character separator.\<close>

fun strings_Split :: "char \<Rightarrow> string \<Rightarrow> string list" where
  "strings_Split sep [] = [[]]"
| "strings_Split sep (c # cs) =
     (if c = sep then [] # strings_Split sep cs
      else case strings_Split sep cs of [] \<Rightarrow> [[c]] | w # ws \<Rightarrow> (c # w) # ws)"

end
