(* ===== verification/XorMetric.thy ===== *)
theory XorMetric
  imports Prelude
begin

text \<open>
  The identifier arithmetic of the distributed store (\<open>src/storage/utils.go\<close>): 8-byte node
  identifiers compared as little-endian integers, their bitwise XOR distance, single bits, common
  prefixes and prefix replacement. Every Go loop is a recursion over the loop index. The lemmas relate the
  byte loops to the 64-bit integer \<open>le_val\<close> a slice stands for and establish the metric laws
  Kademlia's lookup relies on, stated once as the locale \<open>xor_metric\<close>.
\<close>

unbundle bit_operations_syntax

section \<open>The byte routines\<close>

definition DStoreIDSize :: nat where
  "DStoreIDSize = 8"

fun Compare_loop :: "bytes \<Rightarrow> bytes \<Rightarrow> nat \<Rightarrow> int" where
  "Compare_loop a b 0 = 0"
| "Compare_loop a b (Suc i) =
     (if a ! i < b ! i then -1 else if a ! i > b ! i then 1 else Compare_loop a b i)"

definition Compare :: "bytes \<Rightarrow> bytes \<Rightarrow> int" where
  "Compare a b = (if length a \<noteq> length b then 0 else Compare_loop a b (length a))"

definition Min :: "int \<Rightarrow> int \<Rightarrow> int" where
  "Min a b = (if a < b then a else b)"

text \<open>Go's \<open>nil\<close> slice has length 0 and no caller tells it from the empty slice.\<close>

definition XorDistance :: "bytes \<Rightarrow> bytes \<Rightarrow> bytes" where
  "XorDistance a b =
     (if length a \<noteq> DStoreIDSize \<or> length b \<noteq> DStoreIDSize then []
      else map2 (\<lambda>x y. x XOR y) a b)"

definition GetBit :: "bytes \<Rightarrow> nat \<Rightarrow> byte" where
  "GetBit bs index = drop_bit (index mod 8) (bs ! (index div 8)) AND 1"

fun prefix_mask :: "nat \<Rightarrow> byte" where
  "prefix_mask 0 = 0"
| "prefix_mask (Suc j) = prefix_mask j OR push_bit (7 - j) 1"

fun SetPrefix_loop :: "bytes \<Rightarrow> bytes \<Rightarrow> nat \<Rightarrow> nat \<Rightarrow> bytes" where
  "SetPrefix_loop bs pref prefLen 0 = bs"
| "SetPrefix_loop bs pref prefLen (Suc i) =
     (if 8 \<le> prefLen then SetPrefix_loop (bs[i := pref ! i]) pref (prefLen - 8) i
      else let mask = prefix_mask prefLen
           in bs[i := (bs ! i AND NOT mask) OR (mask AND pref ! i)])"

definition SetPrefix :: "bytes \<Rightarrow> bytes \<Rightarrow> nat \<Rightarrow> bytes" where
  "SetPrefix bs pref prefLen = SetPrefix_loop bs pref prefLen (length bs)"

fun MaxPrefixLen_loop :: "bytes \<Rightarrow> bytes \<Rightarrow> nat \<Rightarrow> int \<Rightarrow> int" where
  "MaxPrefixLen_loop ident target 0 res = res"
| "MaxPrefixLen_loop ident target (Suc i) res =
     (if GetBit ident i \<noteq> GetBit target i then res
      else MaxPrefixLen_loop ident target i (res + 1))"

definition MaxPrefixLen :: "bytes \<Rightarrow> bytes \<Rightarrow> int" where
  "MaxPrefixLen ident target =
     (if length target \<noteq> DStoreIDSize \<or> length ident \<noteq> DStoreIDSize then -1
      else MaxPrefixLen_loop ident target (DStoreIDSize * 8) 0)"

section \<open>Slices as little-endian integers\<close>

fun le_val :: "bytes \<Rightarrow> nat" where
  "le_val [] = 0"
| "le_val (b # bs) = unat b + 256 * le_val bs"

lemma le_val_append: "le_val (xs @ ys) = le_val xs + 256 ^ length xs * le_val ys"
  by (induction xs) (simp_all add: algebra_simps)

lemma le_val_bound: "le_val bs < 256 ^ length bs"
proof (induction bs)
  case Nil
  then show ?case by simp
next
  case (Cons b bs)
  have "unat b + 256 * le_val bs < 256 + 256 * le_val bs"
    using byte_bound [of b] by simp
  also have "\<dots> \<le> 256 * 256 ^ length bs"
    using Cons by (metis Suc_leI mult_Suc_right mult_le_mono2)
  finally show ?case by simp
qed

lemma digit_eq:
  assumes "u < (m::nat)" "v < m" "u + m * x = v + m * y"
  shows "u = v \<and> x = y"
proof -
  have "u = v"
    using assms by (metis mod_less mod_mult_self2)
  with assms show ?thesis by simp
qed

lemma le_val_inj: "length a = length b \<Longrightarrow> le_val a = le_val b \<Longrightarrow> a = b"
proof (induction a b rule: list_induct2)
  case Nil
  then show ?case by simp
next
  case (Cons x xs y ys)
  have "unat x = unat y" "le_val xs = le_val ys"
    using Cons.prems digit_eq [OF byte_bound [of x] byte_bound [of y]] by simp_all
  with Cons.IH show ?case by (simp add: word_unat_eq_iff)
qed

lemma le_val_take_Suc:
  "i < length a \<Longrightarrow> le_val (take (Suc i) a) = le_val (take i a) + 256 ^ i * unat (a ! i)"
  by (simp add: take_Suc_conv_app_nth le_val_append)

lemma le_val_take_bound: "i \<le> length a \<Longrightarrow> le_val (take i a) < 256 ^ i"
  using le_val_bound [of "take i a"] by simp

lemma digit_less:
  assumes "u < (m::nat)" "v < m" "x < y"
  shows "u + m * x < v + m * y"
proof -
  have "u + m * x < m * Suc x" using assms(1) by simp
  also have "\<dots> \<le> m * y" using assms(3) by (intro mult_le_mono) simp_all
  finally show ?thesis by simp
qed

lemma Compare_loop_val:
  "length a = length b \<Longrightarrow> i \<le> length a \<Longrightarrow>
   Compare_loop a b i = sgn (int (le_val (take i a)) - int (le_val (take i b)))"
proof (induction i)
  case 0
  then show ?case by simp
next
  case (Suc i)
  let ?u = "le_val (take i a)" and ?v = "le_val (take i b)"
  have b: "?u < 256 ^ i" "?v < 256 ^ i"
    using Suc.prems by (simp_all add: le_val_take_bound)
  have e: "le_val (take (Suc i) a) = ?u + 256 ^ i * unat (a ! i)"
    "le_val (take (Suc i) b) = ?v + 256 ^ i * unat (b ! i)"
    using Suc.prems by (simp_all add: le_val_take_Suc)
  consider "a ! i < b ! i" | "b ! i < a ! i" | "a ! i = b ! i" by (rule linorder_cases)
  then show ?case
  proof cases
    case 1
    then have "le_val (take (Suc i) a) < le_val (take (Suc i) b)"
      unfolding e by (intro digit_less b) (simp add: word_less_nat_alt)
    with 1 show ?thesis by simp
  next
    case 2
    then have "le_val (take (Suc i) b) < le_val (take (Suc i) a)"
      unfolding e by (intro digit_less b) (simp add: word_less_nat_alt)
    with 2 show ?thesis by (simp add: not_less_iff_gr_or_eq)
  next
    case 3
    with Suc show ?thesis by (simp add: e)
  qed
qed

lemma Compare_val: "length a = length b \<Longrightarrow> Compare a b = sgn (int (le_val a) - int (le_val b))"
  using Compare_loop_val [of a b "length a"] by (simp add: Compare_def)

lemma Compare_less_iff: "length a = length b \<Longrightarrow> Compare a b < 0 \<longleftrightarrow> le_val a < le_val b"
  by (simp add: Compare_val sgn_if)

section \<open>Bits of a slice\<close>

lemma le_val_digit:
  assumes "u < (256::nat)"
  shows "take_bit 8 (u + 256 * v) = u" "drop_bit 8 (u + 256 * v) = v"
  using assms by (simp_all add: take_bit_eq_mod drop_bit_eq_div)

lemma bit_le_digit:
  assumes "u < (256::nat)"
  shows "bit (u + 256 * v) i \<longleftrightarrow> (if i < 8 then bit u i else bit v (i - 8))"
proof (cases "i < 8")
  case True
  then have "bit (u + 256 * v) i = bit (take_bit 8 (u + 256 * v)) i"
    by (simp add: bit_take_bit_iff)
  with True show ?thesis by (simp only: le_val_digit(1) [OF assms] if_True)
next
  case False
  then have "bit (u + 256 * v) i = bit (drop_bit 8 (u + 256 * v)) (i - 8)"
    by (simp add: bit_drop_bit_eq)
  with False show ?thesis by (simp only: le_val_digit(2) [OF assms] if_False)
qed

lemma bit_unat_byte: "bit (unat (b :: byte)) i \<longleftrightarrow> bit b i"
  by (simp add: bit_unsigned_iff)

lemma bit_le_val: "i < 8 * length a \<Longrightarrow> bit (le_val a) i \<longleftrightarrow> bit (a ! (i div 8)) (i mod 8)"
proof (induction a arbitrary: i)
  case Nil
  then show ?case by simp
next
  case (Cons x xs)
  show ?case
  proof (cases "i < 8")
    case True
    then show ?thesis by (simp add: bit_le_digit [OF byte_bound] bit_unat_byte)
  next
    case False
    then obtain j where j: "i = j + 8" by (metis le_add_diff_inverse2 not_less)
    then have "i div 8 = Suc (j div 8)" "i mod 8 = j mod 8" by simp_all
    with j Cons show ?thesis
      by (simp add: bit_le_digit [OF byte_bound])
  qed
qed

lemma GetBit_val: "i < 8 * length a \<Longrightarrow> GetBit a i = of_bool (bit (le_val a) i)"
  by (simp add: GetBit_def and_one_eq mod_2_eq_odd bit_le_val)
    (simp add: bit_iff_odd_drop_bit)

lemma GetBit_eq_iff:
  "i < 8 * length a \<Longrightarrow> i < 8 * length b \<Longrightarrow>
   GetBit a i = GetBit b i \<longleftrightarrow> \<not> bit (le_val a XOR le_val b) i"
  by (simp add: GetBit_val bit_xor_iff)

lemma xor_digit:
  assumes "u < (256::nat)" "v < 256"
  shows "(u + 256 * x) XOR (v + 256 * y) = (u XOR v) + 256 * (x XOR y)"
proof -
  have "push_bit 8 (drop_bit 8 ((u + 256 * x) XOR (v + 256 * y))) +
      take_bit 8 ((u + 256 * x) XOR (v + 256 * y)) = push_bit 8 (x XOR y) + (u XOR v)"
    by (simp only: drop_bit_xor take_bit_xor le_val_digit assms)
  then show ?thesis
    by (simp only: bits_ident) (simp add: push_bit_eq_mult)
qed

lemma le_val_xor: "length a = length b \<Longrightarrow> le_val (map2 (XOR) a b) = le_val a XOR le_val b"
proof (induction a b rule: list_induct2)
  case Nil
  then show ?case by simp
next
  case (Cons x xs y ys)
  then show ?case
    by (simp add: xor_digit [OF byte_bound byte_bound] unsigned_xor_eq)
qed

lemma XorDistance_val:
  "length a = DStoreIDSize \<Longrightarrow> length b = DStoreIDSize \<Longrightarrow>
   le_val (XorDistance a b) = le_val a XOR le_val b"
  by (simp add: XorDistance_def le_val_xor)

lemma length_XorDistance:
  "length (XorDistance a b) =
     (if length a = DStoreIDSize \<and> length b = DStoreIDSize then DStoreIDSize else 0)"
  by (simp add: XorDistance_def)

section \<open>The metric laws as an interface\<close>

text \<open>
  Kademlia's lookup relies on four laws: the distance is zero only between equal identifiers, it is
  symmetric, it satisfies the triangle inequality, and from a fixed target different identifiers have
  different distances. The client lemma \<open>closest_unique\<close> is what makes the order of a lookup
  result independent of the sorting algorithm.
\<close>

locale xor_metric =
  fixes carrier :: "'i \<Rightarrow> bool" and dist :: "'i \<Rightarrow> 'i \<Rightarrow> nat"
  assumes dist_zero: "carrier a \<Longrightarrow> carrier b \<Longrightarrow> dist a b = 0 \<longleftrightarrow> a = b"
    and dist_sym: "carrier a \<Longrightarrow> carrier b \<Longrightarrow> dist a b = dist b a"
    and dist_triangle:
      "carrier a \<Longrightarrow> carrier b \<Longrightarrow> carrier c \<Longrightarrow> dist a c \<le> dist a b + dist b c"
    and dist_unique:
      "carrier t \<Longrightarrow> carrier a \<Longrightarrow> carrier b \<Longrightarrow> dist t a = dist t b \<Longrightarrow> a = b"
begin

lemma inj_on_dist: "carrier t \<Longrightarrow> \<forall>x\<in>A. carrier x \<Longrightarrow> inj_on (dist t) A"
  by (auto intro!: inj_onI dest: dist_unique)

lemma closest_unique:
  assumes "carrier t" "\<forall>x\<in>set xs. carrier x"
    and "sorted (map (dist t) xs)" "sorted (map (dist t) ys)"
    and "distinct xs" "distinct ys" "set xs = set ys"
  shows "xs = ys"
proof -
  have inj: "inj_on (dist t) (set xs)"
    using assms(1,2) by (rule inj_on_dist)
  have "distinct (map (dist t) xs)" "distinct (map (dist t) ys)"
    using assms inj by (simp_all add: distinct_map)
  then have "map (dist t) xs = map (dist t) ys"
    using assms by (intro sorted_distinct_set_unique) simp_all
  with inj assms(7) show ?thesis by (metis map_inj_on Un_absorb)
qed

end

lemma xor_le_add: "(x::nat) XOR y \<le> x + y"
proof (induction x arbitrary: y rule: less_induct)
  case (less x)
  show ?case
  proof (cases "x = 0")
    case True
    then show ?thesis by simp
  next
    case False
    then have IH: "(x div 2) XOR (y div 2) \<le> x div 2 + y div 2"
      by (intro less.IH) simp
    have "x XOR y = of_bool (odd x \<noteq> odd y) + 2 * ((x div 2) XOR (y div 2))"
      by (rule xor_rec)
    also have "\<dots> \<le> of_bool (odd x \<noteq> odd y) + 2 * (x div 2) + 2 * (y div 2)"
      using IH by simp
    also have "\<dots> \<le> x + y"
      by (auto elim!: oddE evenE)
    finally show ?thesis .
  qed
qed

lemma xor_cancel_left: "(t::nat) XOR a = t XOR b \<longleftrightarrow> a = b"
proof
  assume "t XOR a = t XOR b"
  then have "t XOR (t XOR a) = t XOR (t XOR b)" by simp
  then show "a = b" by (simp flip: xor.assoc)
qed simp

lemma xor_eq_0_iff: "(a::nat) XOR b = 0 \<longleftrightarrow> a = b"
  using xor_cancel_left [of a b a] by (simp only: xor_self_eq) auto

abbreviation valid_id :: "bytes \<Rightarrow> bool" where
  "valid_id ident \<equiv> length ident = DStoreIDSize"

definition xor_dist :: "bytes \<Rightarrow> bytes \<Rightarrow> nat" where
  "xor_dist a b = le_val (XorDistance a b)"

lemma xor_dist_val: "valid_id a \<Longrightarrow> valid_id b \<Longrightarrow> xor_dist a b = le_val a XOR le_val b"
  by (simp add: xor_dist_def XorDistance_val)

interpretation xd: xor_metric valid_id xor_dist
proof unfold_locales
  fix a b c t :: bytes
  assume a: "valid_id a" and b: "valid_id b"
  show "xor_dist a b = 0 \<longleftrightarrow> a = b"
    using a b by (auto simp: xor_dist_val xor_eq_0_iff intro: le_val_inj)
  show "xor_dist a b = xor_dist b a"
    using a b by (simp add: xor_dist_val xor.commute)
  show "xor_dist a c \<le> xor_dist a b + xor_dist b c" if "valid_id c"
  proof -
    have "le_val a XOR le_val c = (le_val a XOR le_val b) XOR (le_val b XOR le_val c)"
      by (simp add: xor.assoc) (simp flip: xor.assoc)
    then show ?thesis
      using a b that by (simp add: xor_dist_val xor_le_add)
  qed
  show "a = b" if "valid_id t" "xor_dist t a = xor_dist t b"
    using a b that by (auto simp: xor_dist_val xor_cancel_left intro: le_val_inj)
qed

section \<open>Common prefixes and distances\<close>

text \<open>
  The loop of \<open>MaxPrefixLen\<close> from bit \<open>i\<close> downwards counts the equal leading bits: the XOR of
  the two integers, cut to its low \<open>i\<close> bits, lies between the two powers of two the count names.
\<close>

lemma take_bit_Suc_top:
  "take_bit (Suc i) (n::nat) = take_bit i n + (if bit n i then 2 ^ i else 0)"
  by (simp add: take_bit_Suc_from_most)

lemma MaxPrefixLen_loop_spec:
  assumes "length a = length b" "i \<le> 8 * length a"
  shows "\<exists>p \<le> i. MaxPrefixLen_loop a b i res = res + int p \<and>
    take_bit i (le_val a XOR le_val b) < 2 ^ (i - p) \<and>
    (p < i \<longrightarrow> 2 ^ (i - Suc p) \<le> take_bit i (le_val a XOR le_val b))"
  using assms(2)
proof (induction i arbitrary: res)
  case 0
  then show ?case by simp
next
  case (Suc i)
  let ?x = "le_val a XOR le_val b"
  have eq: "GetBit a i = GetBit b i \<longleftrightarrow> \<not> bit ?x i"
    using Suc.prems assms(1) by (intro GetBit_eq_iff) simp_all
  show ?case
  proof (cases "bit ?x i")
    case True
    have "take_bit i ?x < 2 ^ i" by (rule take_bit_nat_less_exp)
    with True eq show ?thesis
      by (intro exI [of _ 0]) (simp add: take_bit_Suc_top del: take_bit_xor)
  next
    case False
    from Suc.IH [of "res + 1"] Suc.prems obtain p where p: "p \<le> i"
      "MaxPrefixLen_loop a b i (res + 1) = res + 1 + int p"
      "take_bit i ?x < 2 ^ (i - p)" "p < i \<longrightarrow> 2 ^ (i - Suc p) \<le> take_bit i ?x"
      by auto
    with False eq show ?thesis
      by (intro exI [of _ "Suc p"]) (simp add: take_bit_Suc_top del: take_bit_xor)
  qed
qed

lemma MaxPrefixLen_cases:
  assumes "valid_id a" "valid_id b"
  obtains p where "p \<le> 64" "MaxPrefixLen a b = int p" "xor_dist a b < 2 ^ (64 - p)"
    "p < 64 \<longrightarrow> 2 ^ (63 - p) \<le> xor_dist a b"
proof -
  have "xor_dist a b < 256 ^ 8"
    using le_val_bound [of "XorDistance a b"] assms
    by (simp add: xor_dist_def length_XorDistance DStoreIDSize_def)
  then have "take_bit 64 (xor_dist a b) = xor_dist a b"
    by (simp add: take_bit_nat_eq_self)
  moreover obtain p where "p \<le> 64" "MaxPrefixLen_loop a b 64 0 = int p"
    "take_bit 64 (le_val a XOR le_val b) < 2 ^ (64 - p)"
    "p < 64 \<longrightarrow> 2 ^ (64 - Suc p) \<le> take_bit 64 (le_val a XOR le_val b)"
    using MaxPrefixLen_loop_spec [of a b 64 0] assms by (auto simp: DStoreIDSize_def)
  ultimately show thesis
    using assms that [of p] by (simp add: MaxPrefixLen_def xor_dist_val DStoreIDSize_def)
qed

lemma MaxPrefixLen_invalid:
  "\<not> (valid_id a \<and> valid_id b) \<Longrightarrow> MaxPrefixLen a b = -1"
  by (auto simp: MaxPrefixLen_def)

lemma MaxPrefixLen_sym: "MaxPrefixLen a b = MaxPrefixLen b a"
proof -
  have "MaxPrefixLen_loop a b i r = MaxPrefixLen_loop b a i r" for i r
    by (induction i arbitrary: r) auto
  then show ?thesis by (auto simp: MaxPrefixLen_def)
qed

text \<open>
  \<open>MaxPrefixLen\<close> is the bucket index of Kademlia: for two 8-byte identifiers it
  returns the number \<open>p\<close> of equal leading bits, so their XOR distance has exactly \<open>64 - p\<close>
  significant bits, and it is 64 exactly for equal identifiers; for a slice of any other length it returns -1.
\<close>

theorem MaxPrefixLen_distance:
  "(valid_id a \<and> valid_id b \<longrightarrow>
      (\<exists>p \<le> 64. MaxPrefixLen a b = int p \<and> (p = 64 \<longleftrightarrow> a = b) \<and>
         xor_dist a b < 2 ^ (64 - p) \<and> (p < 64 \<longrightarrow> 2 ^ (63 - p) \<le> xor_dist a b))) \<and>
   (\<not> (valid_id a \<and> valid_id b) \<longrightarrow> MaxPrefixLen a b = -1)"
proof (intro conjI impI)
  assume v: "valid_id a \<and> valid_id b"
  then obtain p where p: "p \<le> 64" "MaxPrefixLen a b = int p" "xor_dist a b < 2 ^ (64 - p)"
    "p < 64 \<longrightarrow> 2 ^ (63 - p) \<le> xor_dist a b"
    using MaxPrefixLen_cases by blast
  have "p < 64 \<Longrightarrow> 0 < xor_dist a b"
    using p(4) less_le_trans [of 0 "(2::nat) ^ (63 - p)"] by simp
  then have "p = 64 \<longleftrightarrow> xor_dist a b = 0"
    using p by (cases "p = 64") auto
  with v p show "\<exists>p \<le> 64. MaxPrefixLen a b = int p \<and> (p = 64 \<longleftrightarrow> a = b) \<and>
         xor_dist a b < 2 ^ (64 - p) \<and> (p < 64 \<longrightarrow> 2 ^ (63 - p) \<le> xor_dist a b)"
    by (auto simp: xd.dist_zero)
qed (rule MaxPrefixLen_invalid)

theorem MaxPrefixLen_distance_witness:
  "\<exists>p \<le> 64. MaxPrefixLen [0,0,0,0,0,0,0,64] [0,0,0,0,0,0,0,65] = int p \<and> p \<noteq> 64 \<and>
     xor_dist [0,0,0,0,0,0,0,64] [0,0,0,0,0,0,0,65] < 2 ^ (64 - p)"
  using MaxPrefixLen_distance [of "[0,0,0,0,0,0,0,64]" "[0,0,0,0,0,0,0,65]"]
  by (auto simp: DStoreIDSize_def)

section \<open>Prefix replacement\<close>

lemma bit_prefix_mask: "l < 8 \<Longrightarrow> bit (prefix_mask l) k \<longleftrightarrow> 8 - l \<le> k \<and> k < 8"
proof (induction l)
  case 0
  then show ?case by simp
next
  case (Suc l)
  have "bit (push_bit (7 - l) (1 :: byte)) k \<longleftrightarrow> k = 7 - l"
    using Suc.prems by (auto simp: bit_exp_iff)
  with Suc show ?case by (auto simp: bit_or_iff)
qed

lemma length_SetPrefix_loop [simp]: "length (SetPrefix_loop bs pref l i) = length bs"
  by (induction bs pref l i rule: SetPrefix_loop.induct) (simp_all add: Let_def)

lemma bit_SetPrefix_loop:
  assumes "i \<le> length bs" "j < length bs" "k < 8"
  shows "bit (SetPrefix_loop bs pref l i ! j) k \<longleftrightarrow>
    (if 8 * j + k < 8 * i \<and> 8 * i \<le> 8 * j + k + l then bit (pref ! j) k else bit (bs ! j) k)"
  using assms(1,2)
proof (induction bs pref l i rule: SetPrefix_loop.induct)
  case (1 bs pref l)
  then show ?case by simp
next
  case (2 bs pref l i)
  show ?case
  proof (cases "8 \<le> l")
    case True
    have IH: "bit (SetPrefix_loop (bs[i := pref ! i]) pref (l - 8) i ! j) k \<longleftrightarrow>
      (if 8 * j + k < 8 * i \<and> 8 * i \<le> 8 * j + k + (l - 8) then bit (pref ! j) k
       else bit (bs[i := pref ! i] ! j) k)"
      using 2 True by simp
    have le: "8 * i \<le> 8 * j + k + (l - 8) \<longleftrightarrow> 8 * Suc i \<le> 8 * j + k + l"
      using True by auto
    show ?thesis
    proof (cases "j = i")
      case jeq: True
      with IH True 2(2-) assms(3) show ?thesis by simp
    next
      case False
      then have "8 * j + k < 8 * Suc i \<longleftrightarrow> 8 * j + k < 8 * i"
        using assms(3) by auto
      with False True IH le show ?thesis by simp
    qed
  next
    case False
    then have l: "l < 8" by simp
    show ?thesis
      using False 2 assms(3)
      by (cases "j = i")
        (auto simp: Let_def bit_or_iff bit_and_iff bit_not_iff bit_prefix_mask [OF l])
  qed
qed

text \<open>
  \<open>SetPrefix\<close> copies exactly the most significant \<open>l\<close> bits: bit \<open>q\<close> of the result is
  the prefix's for the top \<open>l\<close> positions and the original's below, for every \<open>l\<close>.
\<close>

theorem SetPrefix_bits:
  assumes "q < 8 * length bs" "length pref = length bs"
  shows "GetBit (SetPrefix bs pref l) q =
    (if 8 * length bs \<le> q + l then GetBit pref q else GetBit bs q)"
proof -
  have "q div 8 < length bs" using assms(1) by (simp add: less_mult_imp_div_less mult.commute)
  moreover have "q = 8 * (q div 8) + q mod 8" by simp
  ultimately have "bit (SetPrefix bs pref l ! (q div 8)) (q mod 8) \<longleftrightarrow>
      (if 8 * length bs \<le> q + l then bit (pref ! (q div 8)) (q mod 8)
       else bit (bs ! (q div 8)) (q mod 8))"
    using bit_SetPrefix_loop [of "length bs" bs "q div 8" "q mod 8" pref l] assms(1)
    by (auto simp: SetPrefix_def)
  then show ?thesis
    by (simp add: GetBit_def and_one_eq mod_2_eq_odd bit_iff_odd_drop_bit)
qed

theorem SetPrefix_bits_witness:
  "GetBit (SetPrefix [1, 0] [0, 255] 3) 13 = GetBit [0, 255] 13 \<and>
   GetBit (SetPrefix [1, 0] [0, 255] 3) 0 = GetBit [1, 0] 0"
  using SetPrefix_bits [of 13 "[1, 0]" "[0, 255]" 3] SetPrefix_bits [of 0 "[1, 0]" "[0, 255]" 3]
  by simp

end
