(* ===== verification/Bucket.thy ===== *)
theory Bucket
  imports XorMetric "HOL-Library.AList"
begin

text \<open>
  A Kademlia bucket (\<open>src/storage/rtable.go\<close>) at the level of Go pointers: a doubly linked list of
  nodes between \<open>Head\<close> and \<open>Tail\<close>, and a map from hexadecimal identifiers to nodes. The body of
  \<open>Update\<close> that works under the bucket's mutex is modelled statement by statement on a store of
  nodes, a nil dereference being a panic. The abstraction \<open>bucket_rep\<close> ties the pointers to a plain list
  of entries, and the refinement lemma says that the pointer code computes the abstract
  least-recently-seen policy \<open>lru_update\<close>. The locale \<open>lru_bucket\<close> is the interface the routing table
  uses.
\<close>

section \<open>The pointer structure\<close>

record RoutingEntry =
  ID :: bytes
  Address :: string

record RoutingEntryNode =
  prev :: "nat option"
  nxt :: "nat option"
  entry :: RoutingEntry

text \<open>
  Node pointers are numbers; \<open>nodes\<close> is the part of the heap this bucket owns and \<open>fresh\<close> the next
  address the allocator hands out.
\<close>

record Bucket =
  EntryMap :: "(string \<times> nat) list"
  Head :: "nat option"
  Tail :: "nat option"
  nodes :: "nat \<rightharpoonup> RoutingEntryNode"
  fresh :: nat

definition NewBucket :: Bucket where
  "NewBucket = \<lparr>EntryMap = [], Head = None, Tail = None, nodes = Map.empty, fresh = 0\<rparr>"

definition store_next :: "(nat \<rightharpoonup> RoutingEntryNode) \<Rightarrow> nat \<Rightarrow> nat option \<Rightarrow> (nat \<rightharpoonup> RoutingEntryNode)" where
  "store_next h p v = h(p := map_option (\<lambda>n. n\<lparr>nxt := v\<rparr>) (h p))"

definition store_prev :: "(nat \<rightharpoonup> RoutingEntryNode) \<Rightarrow> nat \<Rightarrow> nat option \<Rightarrow> (nat \<rightharpoonup> RoutingEntryNode)" where
  "store_prev h p v = h(p := map_option (\<lambda>n. n\<lparr>prev := v\<rparr>) (h p))"

definition set_next :: "Bucket \<Rightarrow> nat \<Rightarrow> nat option \<Rightarrow> Bucket" where
  "set_next b p v = b\<lparr>nodes := store_next (nodes b) p v\<rparr>"

definition set_prev :: "Bucket \<Rightarrow> nat \<Rightarrow> nat option \<Rightarrow> Bucket" where
  "set_prev b p v = b\<lparr>nodes := store_prev (nodes b) p v\<rparr>"

definition next_of :: "Bucket \<Rightarrow> nat \<Rightarrow> nat option" where
  "next_of b p = Option.bind (nodes b p) nxt"

definition prev_of :: "Bucket \<Rightarrow> nat \<Rightarrow> nat option" where
  "prev_of b p = Option.bind (nodes b p) prev"

definition move_to_tail :: "Bucket \<Rightarrow> nat \<Rightarrow> Bucket go" where
  "move_to_tail b p =
     (if Tail b = Some p then Inr b
      else
        let b1 = (case prev_of b p of
                    None \<Rightarrow> b\<lparr>Head := next_of b p\<rparr>
                  | Some q \<Rightarrow> set_next b q (next_of b p));
            b2 = (case next_of b1 p of
                    None \<Rightarrow> b1
                  | Some r \<Rightarrow> set_prev b1 r (prev_of b1 p))
        in go_bind (go_deref (Tail b2)) (\<lambda>t.
             let b3 = set_next b2 t (Some p);
                 b4 = set_prev b3 p (Tail b3);
                 b5 = set_next b4 p None
             in Inr (b5\<lparr>Tail := Some p\<rparr>)))"

definition append_entry :: "Bucket \<Rightarrow> string \<Rightarrow> RoutingEntry \<Rightarrow> Bucket go" where
  "append_entry b idStr re =
     (let p = fresh b;
          b0 = b\<lparr>nodes := (nodes b)(p \<mapsto> \<lparr>prev = None, nxt = None, entry = re\<rparr>), fresh := Suc p\<rparr>
      in go_bind
           (case Head b0 of
              None \<Rightarrow> Inr (b0\<lparr>Head := Some p, Tail := Some p\<rparr>)
            | Some _ \<Rightarrow> go_bind (go_deref (Tail b0)) (\<lambda>t.
                let b1 = set_next b0 t (Some p);
                    b2 = set_prev b1 p (Tail b1)
                in Inr (b2\<lparr>Tail := Some p\<rparr>)))
           (\<lambda>b'. Inr (b'\<lparr>EntryMap := AList.update idStr p (EntryMap b')\<rparr>)))"

definition evict_head :: "Bucket \<Rightarrow> Bucket go" where
  "evict_head b =
     go_bind (go_deref (Head b)) (\<lambda>h.
     go_bind (go_deref (nodes b h)) (\<lambda>n.
       let b1 = b\<lparr>EntryMap := AList.delete (EncodeToString (ID (entry n))) (EntryMap b)\<rparr>;
           b2 = (case next_of b1 h of None \<Rightarrow> b1 | Some r \<Rightarrow> set_prev b1 r None)
       in Inr (b2\<lparr>Head := next_of b2 h\<rparr>)))"

text \<open>
  The locked part of \<open>Update\<close>: \<open>k\<close> is the store's \<open>replicationParam\<close>, \<open>ping\<close> the outcome of
  \<open>PingNode\<close> for each address at this moment.
\<close>

definition bucket_update :: "nat \<Rightarrow> (string \<Rightarrow> bool) \<Rightarrow> Bucket \<Rightarrow> RoutingEntry \<Rightarrow> Bucket go" where
  "bucket_update k ping b re =
     (let idStr = EncodeToString (ID re) in
      case map_of (EntryMap b) idStr of
        Some p \<Rightarrow> move_to_tail b p
      | None \<Rightarrow>
          if length (EntryMap b) < k then append_entry b idStr re
          else
            go_bind (go_deref (Head b)) (\<lambda>h.
            go_bind (go_deref (nodes b h)) (\<lambda>n.
              if \<not> ping (Address (entry n))
              then go_bind (evict_head b) (\<lambda>b'. append_entry b' idStr re)
              else Inr b)))"

text \<open>The traversal \<open>for x != nil { ...; x = x.next }\<close>; not returning is \<open>None\<close>.\<close>

partial_function (option) walk :: "(nat \<rightharpoonup> RoutingEntryNode) \<Rightarrow> nat option \<Rightarrow> RoutingEntry list option" where
  "walk h x =
     (case x of
        None \<Rightarrow> Some []
      | Some p \<Rightarrow>
          (case h p of
             None \<Rightarrow> None
           | Some n \<Rightarrow> Option.bind (walk h (nxt n)) (\<lambda>es. Some (entry n # es))))"

section \<open>Linked segments\<close>

fun hd_or :: "nat list \<Rightarrow> nat option \<Rightarrow> nat option" where
  "hd_or [] x = x"
| "hd_or (p # _) x = Some p"

fun last_or :: "nat list \<Rightarrow> nat option \<Rightarrow> nat option" where
  "last_or [] x = x"
| "last_or (p # ps) x = last_or ps (Some p)"

fun dseg :: "(nat \<rightharpoonup> RoutingEntryNode) \<Rightarrow> nat option \<Rightarrow> nat list \<Rightarrow> nat option \<Rightarrow> bool" where
  "dseg h pr [] nx \<longleftrightarrow> True"
| "dseg h pr (p # ps) nx \<longleftrightarrow>
     (\<exists>n. h p = Some n \<and> prev n = pr \<and> nxt n = hd_or ps nx) \<and> dseg h (Some p) ps nx"

lemma hd_or_append [simp]: "hd_or (us @ vs) x = hd_or us (hd_or vs x)"
  by (cases us) simp_all

lemma last_or_append [simp]: "last_or (us @ vs) x = last_or vs (last_or us x)"
  by (induction us arbitrary: x) simp_all

lemma last_or_conv: "last_or ps x = (if ps = [] then x else Some (last ps))"
  by (induction ps arbitrary: x) simp_all

lemma hd_or_conv: "hd_or ps x = (if ps = [] then x else Some (hd ps))"
  by (cases ps) simp_all

lemma dseg_append [simp]:
  "dseg h pr (us @ vs) nx \<longleftrightarrow> dseg h pr us (hd_or vs nx) \<and> dseg h (last_or us pr) vs nx"
  by (induction us arbitrary: pr) auto

lemma dseg_cong: "(\<And>p. p \<in> set ps \<Longrightarrow> h p = h' p) \<Longrightarrow> dseg h pr ps nx \<longleftrightarrow> dseg h' pr ps nx"
  by (induction ps arbitrary: pr) auto

lemma dseg_dom: "dseg h pr ps nx \<Longrightarrow> p \<in> set ps \<Longrightarrow> \<exists>n. h p = Some n"
  by (induction ps arbitrary: pr) auto

lemma store_other [simp]:
  "q \<noteq> p \<Longrightarrow> store_next h p v q = h q" "q \<noteq> p \<Longrightarrow> store_prev h p v q = h q"
  by (simp_all add: store_next_def store_prev_def)

lemma store_same [simp]:
  "store_next h p v p = map_option (\<lambda>n. n\<lparr>nxt := v\<rparr>) (h p)"
  "store_prev h p v p = map_option (\<lambda>n. n\<lparr>prev := v\<rparr>) (h p)"
  by (simp_all add: store_next_def store_prev_def)

lemma store_entry [simp]:
  "map_option entry (store_next h p v q) = map_option entry (h q)"
  "map_option entry (store_prev h p v q) = map_option entry (h q)"
  by (auto simp: store_next_def store_prev_def option.map_comp o_def)

lemma store_None_iff [simp]:
  "store_next h p v q = None \<longleftrightarrow> h q = None" "store_prev h p v q = None \<longleftrightarrow> h q = None"
  by (auto simp: store_next_def store_prev_def)

lemma dseg_store_frame [simp]:
  "q \<notin> set ps \<Longrightarrow> dseg (store_next h q v) pr ps nx \<longleftrightarrow> dseg h pr ps nx"
  "q \<notin> set ps \<Longrightarrow> dseg (store_prev h q v) pr ps nx \<longleftrightarrow> dseg h pr ps nx"
  by (rule dseg_cong, metis store_other)+

lemma dseg_store_next_last:
  "dseg h pr ps nx \<Longrightarrow> ps \<noteq> [] \<Longrightarrow> distinct ps \<Longrightarrow> dseg (store_next h (last ps) v) pr ps v"
proof (induction ps arbitrary: pr)
  case Nil
  then show ?case by simp
next
  case (Cons p ps)
  show ?case
  proof (cases "ps = []")
    case True
    with Cons show ?thesis by auto
  next
    case False
    then have "p \<noteq> last ps" using Cons.prems(3) last_in_set by fastforce
    with False Cons show ?thesis by (auto simp: hd_or_conv)
  qed
qed

lemma dseg_store_prev_hd:
  "dseg h pr (r # ps) nx \<Longrightarrow> distinct (r # ps) \<Longrightarrow> dseg (store_prev h r v) v (r # ps) nx"
  by auto

lemma walk_dseg:
  "dseg h pr ps None \<Longrightarrow> walk h (hd_or ps None) = Some (map (\<lambda>p. entry (the (h p))) ps)"
proof (induction ps arbitrary: pr)
  case Nil
  then show ?case by (simp add: walk.simps)
next
  case (Cons p ps)
  then obtain n where "h p = Some n" "nxt n = hd_or ps None" and "dseg h (Some p) ps None"
    by auto
  with Cons.IH show ?case by (subst walk.simps) simp
qed

section \<open>Representation invariant and abstraction\<close>

abbreviation entry_at :: "(nat \<rightharpoonup> RoutingEntryNode) \<Rightarrow> nat \<Rightarrow> RoutingEntry" where
  "entry_at h p \<equiv> entry (the (h p))"

abbreviation key_of :: "RoutingEntry \<Rightarrow> string" where
  "key_of re \<equiv> EncodeToString (ID re)"

definition bucket_rep :: "Bucket \<Rightarrow> nat list \<Rightarrow> bool" where
  "bucket_rep b ps \<longleftrightarrow>
     dseg (nodes b) None ps None \<and> distinct ps \<and>
     Head b = hd_or ps None \<and> (ps \<noteq> [] \<longrightarrow> Tail b = Some (last ps)) \<and>
     (\<forall>p \<in> set ps. p < fresh b) \<and>
     distinct (map fst (EntryMap b)) \<and> length (EntryMap b) = length ps \<and>
     set (EntryMap b) = (\<lambda>p. (key_of (entry_at (nodes b) p), p)) ` set ps \<and>
     inj_on (\<lambda>p. ID (entry_at (nodes b) p)) (set ps)"

definition bucket_inv :: "Bucket \<Rightarrow> bool" where
  "bucket_inv b \<longleftrightarrow> (\<exists>ps. bucket_rep b ps)"

definition bucket_list :: "Bucket \<Rightarrow> RoutingEntry list" where
  "bucket_list b = (case walk (nodes b) (Head b) of None \<Rightarrow> [] | Some es \<Rightarrow> es)"

lemma bucket_rep_walk:
  "bucket_rep b ps \<Longrightarrow> walk (nodes b) (Head b) = Some (map (entry_at (nodes b)) ps)"
  using walk_dseg by (auto simp: bucket_rep_def)

lemma bucket_rep_list: "bucket_rep b ps \<Longrightarrow> bucket_list b = map (entry_at (nodes b)) ps"
  by (simp add: bucket_list_def bucket_rep_walk)

lemma bucket_rep_length: "bucket_rep b ps \<Longrightarrow> length (EntryMap b) = length (bucket_list b)"
  by (simp add: bucket_rep_list) (simp add: bucket_rep_def)

lemma bucket_rep_lookup_Some:
  assumes "bucket_rep b ps" "map_of (EntryMap b) (EncodeToString x) = Some p"
  shows "p \<in> set ps" "ID (entry_at (nodes b) p) = x"
proof -
  have "(EncodeToString x, p) \<in> (\<lambda>p. (key_of (entry_at (nodes b) p), p)) ` set ps"
    using assms map_of_SomeD [of "EntryMap b"] by (auto simp: bucket_rep_def)
  then show "p \<in> set ps" "ID (entry_at (nodes b) p) = x"
    by (auto simp: EncodeToString_inj)
qed

lemma bucket_rep_lookup_None:
  assumes "bucket_rep b ps" "map_of (EntryMap b) (EncodeToString x) = None"
  shows "x \<notin> ID ` set (bucket_list b)"
proof
  assume "x \<in> ID ` set (bucket_list b)"
  then obtain p where "p \<in> set ps" "x = ID (entry_at (nodes b) p)"
    using assms(1) by (auto simp: bucket_rep_list)
  then have "(EncodeToString x, p) \<in> set (EntryMap b)"
    using assms(1) by (auto simp: bucket_rep_def)
  then show False
    using assms(2) by (auto simp: map_of_eq_None_iff image_iff)
qed

text \<open>The policy the pointer code implements, on plain lists from least to most recently seen.\<close>

definition lru_update :: "nat \<Rightarrow> (string \<Rightarrow> bool) \<Rightarrow> RoutingEntry list \<Rightarrow> RoutingEntry \<Rightarrow> RoutingEntry list" where
  "lru_update k ping xs re =
     (case List.find (\<lambda>x. ID x = ID re) xs of
        Some x \<Rightarrow> filter (\<lambda>y. ID y \<noteq> ID re) xs @ [x]
      | None \<Rightarrow>
          if length xs < k then xs @ [re]
          else if \<not> ping (Address (hd xs)) then tl xs @ [re] else xs)"

section \<open>The pointer steps on represented buckets\<close>

lemma bucket_rep_Tail: "bucket_rep b ps \<Longrightarrow> ps \<noteq> [] \<Longrightarrow> Tail b = Some (last ps)"
  by (simp add: bucket_rep_def)

lemma move_to_tail_pointers:
  assumes seg: "dseg (nodes b) None (us @ p # vs) None" and d: "distinct (us @ p # vs)"
    and vs: "vs \<noteq> []" and hd: "Head b = hd_or (us @ p # vs) None" and tl: "Tail b = Some (last vs)"
  shows "\<exists>h. move_to_tail b p = Inr (b\<lparr>nodes := h, Head := hd_or (us @ vs @ [p]) None, Tail := Some p\<rparr>) \<and>
     dseg h None (us @ vs @ [p]) None \<and> (\<forall>q. map_option entry (h q) = map_option entry (nodes b q))"
proof -
  obtain r vs' where vs': "vs = r # vs'" using vs by (cases vs) auto
  obtain n where n: "nodes b p = Some n" "prev n = last_or us None" "nxt n = Some r"
    using seg vs' by auto
  have dis: "x \<in> set us \<Longrightarrow> x \<notin> set vs" and pn: "p \<notin> set us" "p \<notin> set vs" for x
    using d by auto
  have "last vs \<in> set vs" "r \<in> set vs" "us \<noteq> [] \<Longrightarrow> last us \<in> set us"
    using vs vs' by simp_all
  then have neq: "last vs \<noteq> p" "r \<noteq> p" "us \<noteq> [] \<Longrightarrow> last us \<noteq> p" "p \<notin> set us" "p \<notin> set vs"
      "us \<noteq> [] \<Longrightarrow> last us \<notin> set vs" "r \<notin> set us" "last vs \<notin> set us"
    using dis pn by metis+
  define h1 where "h1 = (if us = [] then nodes b else store_next (nodes b) (last us) (Some r))"
  define h2 where "h2 = store_prev h1 r (last_or us None)"
  define h3 where "h3 = store_next h2 (last vs) (Some p)"
  define h4 where "h4 = store_next (store_prev h3 p (Some (last vs))) p None"
  have run: "move_to_tail b p = Inr (b\<lparr>nodes := h4, Head := hd_or (us @ vs @ [p]) None, Tail := Some p\<rparr>)"
  proof (cases "us = []")
    case True
    with n tl neq(1) vs' show ?thesis
      by (simp add: move_to_tail_def prev_of_def next_of_def set_next_def set_prev_def Let_def
          h4_def h3_def h2_def h1_def)
  next
    case False
    then have l: "prev n = Some (last us)" and b1: "store_next (nodes b) (last us) (Some r) p = Some n"
      using n neq(3) by (simp_all add: last_or_conv)
    have H: "Head b = hd_or (us @ vs @ [p]) None"
      using hd False by (simp add: hd_or_conv)
    show ?thesis
      using False n l b1 tl neq(1) H vs'
      by (simp add: move_to_tail_def prev_of_def next_of_def set_next_def set_prev_def Let_def
          h4_def h3_def h2_def h1_def last_or_conv)
  qed
  have s1: "dseg h1 None us (Some r)" "dseg h1 (Some p) vs None"
    using seg d neq vs' by (auto simp: h1_def dseg_store_next_last)
  have s2: "dseg h2 None us (Some r)" "dseg h2 (last_or us None) vs None"
    using s1 neq d vs' by (auto simp: h2_def)
  have s3: "dseg h3 None us (Some r)" "dseg h3 (last_or us None) vs (Some p)"
    using s2 neq d vs by (auto simp: h3_def dseg_store_next_last)
  have s4: "dseg h4 None us (Some r)" "dseg h4 (last_or us None) vs (Some p)"
    using s3 neq by (simp_all add: h4_def)
  have "h1 p = Some n"
    using n neq(3) by (cases "us = []") (simp_all add: h1_def not_sym)
  then have "h4 p = Some (n\<lparr>prev := Some (last vs), nxt := None\<rparr>)"
    using neq by (simp add: h4_def h3_def h2_def not_sym)
  then have "dseg h4 None (us @ vs @ [p]) None"
    using s4 vs vs' by (simp add: last_or_conv)
  moreover have "map_option entry (h4 q) = map_option entry (nodes b q)" for q
    by (simp add: h4_def h3_def h2_def h1_def)
  ultimately show ?thesis using run by blast
qed

lemma entry_at_cong:
  "map_option entry (h q) = map_option entry (h' q) \<Longrightarrow> h' q \<noteq> None \<Longrightarrow> entry_at h q = entry_at h' q"
  by (cases "h q"; cases "h' q") auto

lemma bucket_rep_relink:
  assumes rep: "bucket_rep b ps" and ps': "set ps' = set ps" "distinct ps'" "ps' \<noteq> []"
    and seg: "dseg h None ps' None"
    and ent: "\<And>q. q \<in> set ps \<Longrightarrow> entry_at h q = entry_at (nodes b) q"
  shows "bucket_rep (b\<lparr>nodes := h, Head := hd_or ps' None, Tail := Some (last ps')\<rparr>) ps'"
proof -
  have "length ps' = length ps"
    using rep ps' by (metis bucket_rep_def distinct_card)
  moreover have "inj_on (\<lambda>p. ID (entry_at h p)) (set ps)"
    using rep ent by (simp add: bucket_rep_def inj_on_def)
  moreover have "(\<lambda>p. (key_of (entry_at h p), p)) ` set ps =
      (\<lambda>p. (key_of (entry_at (nodes b) p), p)) ` set ps"
    using ent by (intro image_cong) simp_all
  ultimately show ?thesis
    using rep ps' seg by (simp add: bucket_rep_def)
qed

lemma move_to_tail_rep:
  assumes rep: "bucket_rep b ps" and p: "p \<in> set ps"
  shows "\<exists>b'. move_to_tail b p = Inr b' \<and> bucket_rep b' (remove1 p ps @ [p]) \<and>
    (\<forall>q \<in> set ps. entry_at (nodes b') q = entry_at (nodes b) q)"
proof (cases "last ps = p")
  case True
  then have "Tail b = Some p"
    using rep p by (auto simp: bucket_rep_def)
  moreover have "remove1 p ps @ [p] = ps"
  proof -
    from p True have ps: "ps = butlast ps @ [p]" by (metis append_butlast_last_id empty_iff list.set(1))
    have "distinct (butlast ps @ [p])" using rep ps by (simp add: bucket_rep_def)
    then have "remove1 p (butlast ps @ [p]) = butlast ps" by (simp add: remove1_append)
    with ps show ?thesis by metis
  qed
  ultimately show ?thesis
    using rep by (simp add: move_to_tail_def)
next
  case False
  obtain us vs where ps: "ps = us @ p # vs" using p split_list by metis
  with False have vs: "vs \<noteq> []" by auto
  have d: "distinct (us @ p # vs)" and seg: "dseg (nodes b) None (us @ p # vs) None"
    and hd: "Head b = hd_or (us @ p # vs) None" and tl: "Tail b = Some (last vs)"
    using rep ps vs by (simp_all add: bucket_rep_def)
  obtain h where run: "move_to_tail b p =
      Inr (b\<lparr>nodes := h, Head := hd_or (us @ vs @ [p]) None, Tail := Some p\<rparr>)"
    and h: "dseg h None (us @ vs @ [p]) None" "\<forall>q. map_option entry (h q) = map_option entry (nodes b q)"
    using move_to_tail_pointers [OF seg d vs hd tl] by auto
  have ent: "entry_at h q = entry_at (nodes b) q" if "q \<in> set ps" for q
    using h(2) dseg_dom [OF seg, of q] that ps by (intro entry_at_cong) auto
  have r: "remove1 p ps @ [p] = us @ vs @ [p]"
    using d ps by (simp add: remove1_append)
  have "bucket_rep (b\<lparr>nodes := h, Head := hd_or (us @ vs @ [p]) None,
      Tail := Some (last (us @ vs @ [p]))\<rparr>) (us @ vs @ [p])"
    by (rule bucket_rep_relink [OF rep]) (use d ps h(1) ent in auto)
  with run r ent show ?thesis by auto
qed

lemma update_fresh_key: "k \<notin> fst ` set al \<Longrightarrow> AList.update k v al = al @ [(k, v)]"
  by (induction al) auto

lemma append_entry_rep:
  assumes rep: "bucket_rep b ps" and new: "ID re \<notin> ID ` set (bucket_list b)"
  shows "\<exists>b'. append_entry b (key_of re) re = Inr b' \<and> bucket_rep b' (ps @ [fresh b]) \<and>
    (\<forall>q \<in> set ps. entry_at (nodes b') q = entry_at (nodes b) q) \<and>
    entry_at (nodes b') (fresh b) = re"
proof -
  let ?p = "fresh b"
  let ?n = "\<lparr>prev = None, nxt = None, entry = re\<rparr>"
  let ?hz = "(nodes b)(?p \<mapsto> ?n)"
  let ?h = "if ps = [] then ?hz
    else store_prev (store_next ?hz (last ps) (Some ?p)) ?p (Some (last ps))"
  let ?b' = "b\<lparr>nodes := ?h, fresh := Suc ?p, Head := hd_or (ps @ [?p]) None, Tail := Some ?p,
      EntryMap := EntryMap b @ [(key_of re, ?p)]\<rparr>"
  have pn: "?p \<notin> set ps" using rep by (auto simp: bucket_rep_def)
  have lp: "ps \<noteq> [] \<Longrightarrow> last ps \<noteq> ?p" using pn last_in_set by fastforce
  have new': "key_of re \<notin> fst ` set (EntryMap b)"
    using rep new by (auto simp: bucket_rep_def bucket_rep_list [OF rep] EncodeToString_inj)
  have run: "append_entry b (key_of re) re = Inr ?b'"
  proof (cases "ps = []")
    case True
    with rep new' show ?thesis
      by (simp add: append_entry_def bucket_rep_def update_fresh_key Let_def)
  next
    case False
    with rep new' show ?thesis
      by (simp add: append_entry_def bucket_rep_def update_fresh_key hd_or_conv set_next_def
          set_prev_def Let_def)
  qed
  have seg0: "dseg ?hz None ps None"
  proof -
    have "dseg ?hz None ps None \<longleftrightarrow> dseg (nodes b) None ps None"
      using pn by (intro dseg_cong) auto
    with rep show ?thesis by (simp add: bucket_rep_def)
  qed
  have seg: "dseg ?h None (ps @ [?p]) None"
  proof (cases "ps = []")
    case True
    then show ?thesis by simp
  next
    case False
    have "dseg (store_next ?hz (last ps) (Some ?p)) None ps (Some ?p)"
      using seg0 False rep by (intro dseg_store_next_last) (simp_all add: bucket_rep_def)
    with False pn lp show ?thesis by (simp add: last_or_conv not_sym)
  qed
  have ent: "entry_at ?h q = (if q = ?p then re else entry_at (nodes b) q)" if "q \<in> set (ps @ [?p])" for q
  proof -
    have "map_option entry (?h q) = map_option entry (?hz q)"
      by (cases "ps = []") (simp_all only: if_True if_False store_entry simp_thms)
    moreover have "?hz q \<noteq> None"
      using that dseg_dom [OF seg0, of q] by (auto split: if_splits)
    ultimately have "entry_at ?h q = entry_at ?hz q" by (rule entry_at_cong)
    then show ?thesis by simp
  qed
  have keep: "q \<in> set ps \<Longrightarrow> entry_at ?h q = entry_at (nodes b) q" and new1: "entry_at ?h ?p = re" for q
    using ent pn by auto
  have inj: "inj_on (\<lambda>p. ID (entry_at ?h p)) (insert ?p (set ps))"
  proof (subst inj_on_insert, intro conjI)
    show "inj_on (\<lambda>p. ID (entry_at ?h p)) (set ps)"
      using rep keep by (simp add: bucket_rep_def inj_on_def)
    have "(\<lambda>p. ID (entry_at ?h p)) ` set ps = ID ` set (bucket_list b)"
      using keep by (simp add: bucket_rep_list [OF rep] image_image)
    then show "ID (entry_at ?h ?p) \<notin> (\<lambda>p. ID (entry_at ?h p)) ` (set ps - {?p})"
      using new new1 pn by simp
  qed
  have img: "(\<lambda>p. (key_of (entry_at ?h p), p)) ` set ps =
      (\<lambda>p. (key_of (entry_at (nodes b) p), p)) ` set ps"
    using keep by (intro image_cong) simp_all
  have "bucket_rep ?b' (ps @ [?p])"
    unfolding bucket_rep_def using rep seg inj new' pn img new1
    by (auto simp: bucket_rep_def)
  with run keep new1 show ?thesis by auto
qed

lemma filter_keyed:
  "f h \<notin> f ` A \<Longrightarrow> {x \<in> (\<lambda>p. (f p, p)) ` insert h A. fst x \<noteq> f h} = (\<lambda>p. (f p, p)) ` A"
  by (auto simp: image_iff)

lemma evict_head_rep:
  assumes rep: "bucket_rep b (h # ps)"
  shows "\<exists>b'. evict_head b = Inr b' \<and> bucket_rep b' ps \<and>
    (\<forall>q \<in> set ps. entry_at (nodes b') q = entry_at (nodes b) q)"
proof -
  obtain n where n: "nodes b h = Some n" "nxt n = hd_or ps None" and seg: "dseg (nodes b) (Some h) ps None"
    using rep by (auto simp: bucket_rep_def)
  let ?m = "AList.delete (key_of (entry n)) (EntryMap b)"
  let ?h = "case ps of [] \<Rightarrow> nodes b | r # _ \<Rightarrow> store_prev (nodes b) r None"
  let ?b' = "b\<lparr>nodes := ?h, Head := hd_or ps None, EntryMap := ?m\<rparr>"
  have d: "distinct (h # ps)" using rep by (simp add: bucket_rep_def)
  have run: "evict_head b = Inr ?b'"
    using rep n d
    by (cases ps) (auto simp: evict_head_def bucket_rep_def next_of_def set_prev_def Let_def)
  have seg': "dseg ?h None ps None"
    using seg d by (cases ps) auto
  have keep: "entry_at ?h q = entry_at (nodes b) q" if "q \<in> set ps" for q
    using dseg_dom [OF seg that] by (intro entry_at_cong) (simp_all split: list.split)
  have "inj_on (\<lambda>p. ID (entry_at (nodes b) p)) (set (h # ps))"
    using rep unfolding bucket_rep_def by blast
  then have inj: "inj_on (\<lambda>p. ID (entry_at (nodes b) p)) (insert h (set ps))"
    by (simp only: list.set)
  have hn: "ID (entry_at (nodes b) h) \<notin> (\<lambda>p. ID (entry_at (nodes b) p)) ` set ps"
  proof -
    have "set ps - {h} = set ps" using d by auto
    then show ?thesis using inj unfolding inj_on_insert by metis
  qed
  have img: "(\<lambda>p. (key_of (entry_at ?h p), p)) ` set ps =
      (\<lambda>p. (key_of (entry_at (nodes b) p), p)) ` set ps"
    using keep by (intro image_cong) simp_all
  have set_m: "set ?m = (\<lambda>p. (key_of (entry_at (nodes b) p), p)) ` set ps"
  proof -
    have "set ?m = {x \<in> set (EntryMap b). fst x \<noteq> key_of (entry_at (nodes b) h)}"
      using n by (auto simp: AList.delete_eq)
    also have "set (EntryMap b) = (\<lambda>p. (key_of (entry_at (nodes b) p), p)) ` insert h (set ps)"
      using rep by (simp add: bucket_rep_def)
    finally show ?thesis
      using hn by (subst (asm) filter_keyed) (auto simp: EncodeToString_inj)
  qed
  have "distinct (map fst ?m)"
    using rep by (simp add: bucket_rep_def distinct_delete)
  then have len: "length ?m = length ps"
    using set_m d distinct_card [of ?m] distinct_card [of ps]
    by (simp add: distinct_map card_image inj_on_def)
  have "bucket_rep ?b' ps"
    unfolding bucket_rep_def
    using rep seg' len set_m img \<open>distinct (map fst ?m)\<close> inj keep
    by (auto simp: bucket_rep_def inj_on_def)
  with run keep show ?thesis by auto
qed

section \<open>Refinement\<close>

lemma find_bucket:
  assumes "inj_on (\<lambda>p. ID (f p)) (set ps)" "p \<in> set ps" "ID (f p) = x"
  shows "List.find (\<lambda>y. ID y = x) (map f ps) = Some (f p)"
    "filter (\<lambda>y. ID y \<noteq> x) (map f ps) = map f (filter (\<lambda>q. q \<noteq> p) ps)"
proof -
  have iff: "q \<in> set ps \<Longrightarrow> ID (f q) = x \<longleftrightarrow> q = p" for q
    using assms by (auto dest: inj_onD)
  then show "filter (\<lambda>y. ID y \<noteq> x) (map f ps) = map f (filter (\<lambda>q. q \<noteq> p) ps)"
    by (simp add: filter_map o_def) (rule arg_cong [where f = "map f"], rule filter_cong, simp_all)
  from iff assms(2) show "List.find (\<lambda>y. ID y = x) (map f ps) = Some (f p)"
    by (induction ps) auto
qed

lemma find_None_ID: "x \<notin> ID ` set xs \<Longrightarrow> List.find (\<lambda>y. ID y = x) xs = None"
  by (auto simp: find_None_iff)

lemma remove1_filter: "distinct xs \<Longrightarrow> remove1 x xs = filter (\<lambda>y. y \<noteq> x) xs"
  by (rule distinct_remove1_removeAll [THEN trans]) (simp_all add: removeAll_filter_not_eq eq_commute)

lemma bucket_update_hit:
  assumes rep: "bucket_rep b ps" and hit: "map_of (EntryMap b) (key_of re) = Some p"
  shows "\<exists>b'. bucket_update k ping b re = Inr b' \<and> bucket_inv b' \<and>
    bucket_list b' = lru_update k ping (bucket_list b) re"
proof -
  have p: "p \<in> set ps" and id: "ID (entry_at (nodes b) p) = ID re"
    using bucket_rep_lookup_Some [OF rep hit] by auto
  obtain b' where b': "move_to_tail b p = Inr b'" and rep': "bucket_rep b' (remove1 p ps @ [p])"
    and ent: "\<forall>q \<in> set ps. entry_at (nodes b') q = entry_at (nodes b) q"
    using move_to_tail_rep [OF rep p] by blast
  have inj: "inj_on (\<lambda>p. ID (entry_at (nodes b) p)) (set ps)" and d: "distinct ps"
    using rep by (simp_all add: bucket_rep_def)
  have "bucket_list b' = map (entry_at (nodes b)) (remove1 p ps @ [p])"
    unfolding bucket_rep_list [OF rep'] by (rule map_cong) (use ent p notin_set_remove1 in auto)
  also have "\<dots> = lru_update k ping (bucket_list b) re"
    using find_bucket [OF inj p id] d
    by (simp add: lru_update_def bucket_rep_list [OF rep] remove1_filter)
  finally show ?thesis
    using b' hit rep' by (auto simp: bucket_update_def bucket_inv_def)
qed

lemma bucket_append_list:
  assumes rep: "bucket_rep b ps" and new: "ID re \<notin> ID ` set (bucket_list b)"
  shows "\<exists>b'. append_entry b (key_of re) re = Inr b' \<and> bucket_inv b' \<and>
    bucket_list b' = bucket_list b @ [re]"
proof -
  obtain b' where b': "append_entry b (key_of re) re = Inr b'" "bucket_rep b' (ps @ [fresh b])"
    "\<forall>q \<in> set ps. entry_at (nodes b') q = entry_at (nodes b) q" "entry_at (nodes b') (fresh b) = re"
    using append_entry_rep [OF rep new] by blast
  then have "bucket_list b' = bucket_list b @ [re]"
    by (simp add: bucket_rep_list [OF rep] bucket_rep_list [OF b'(2)])
  with b' show ?thesis by (auto simp: bucket_inv_def)
qed

lemma bucket_update_refines:
  assumes inv: "bucket_inv b" and k: "0 < k"
  shows "\<exists>b'. bucket_update k ping b re = Inr b' \<and> bucket_inv b' \<and>
    bucket_list b' = lru_update k ping (bucket_list b) re"
proof -
  obtain ps where rep: "bucket_rep b ps" using inv by (auto simp: bucket_inv_def)
  show ?thesis
  proof (cases "map_of (EntryMap b) (key_of re)")
    case (Some p)
    with rep show ?thesis by (rule bucket_update_hit)
  next
    case None
    have new: "ID re \<notin> ID ` set (bucket_list b)"
      using bucket_rep_lookup_None [OF rep None] .
    note spec = lru_update_def find_None_ID [OF new] bucket_rep_length [OF rep]
    show ?thesis
    proof (cases "length (EntryMap b) < k")
      case True
      with None bucket_append_list [OF rep new] show ?thesis
        by (auto simp: bucket_update_def spec)
    next
      case False
      with k have "ps \<noteq> []" using rep by (auto simp: bucket_rep_def)
      then obtain h qs where ps: "ps = h # qs" by (cases ps) auto
      obtain n where n: "Head b = Some h" "nodes b h = Some n"
        using rep ps by (auto simp: bucket_rep_def)
      have lst: "bucket_list b = entry n # map (entry_at (nodes b)) qs"
        using rep ps n by (simp add: bucket_rep_list)
      obtain b1 where b1: "evict_head b = Inr b1" and rep1: "bucket_rep b1 qs"
        and ent1: "\<forall>q \<in> set qs. entry_at (nodes b1) q = entry_at (nodes b) q"
        using evict_head_rep rep ps by blast
      have lst1: "bucket_list b1 = tl (bucket_list b)"
        using ent1 by (simp add: bucket_rep_list [OF rep1] lst)
      have new1: "ID re \<notin> ID ` set (bucket_list b1)"
        using new lst1 lst by auto
      have abs: "lru_update k ping (bucket_list b) re =
          (if ping (Address (entry n)) then bucket_list b else tl (bucket_list b) @ [re])"
        unfolding lru_update_def find_None_ID [OF new]
        using False bucket_rep_length [OF rep] lst by simp
      show ?thesis
      proof (cases "ping (Address (entry n))")
        case True
        with None False n rep show ?thesis
          by (auto simp: bucket_update_def abs bucket_inv_def)
      next
        case False
        with None \<open>\<not> length (EntryMap b) < k\<close> n b1 bucket_append_list [OF rep1 new1] show ?thesis
          by (auto simp: bucket_update_def abs lst1)
      qed
    qed
  qed
qed

lemma bucket_inv_New: "bucket_inv NewBucket" "bucket_list NewBucket = []"
proof -
  have "bucket_rep NewBucket []"
    by (simp add: bucket_rep_def NewBucket_def)
  then show "bucket_inv NewBucket" "bucket_list NewBucket = []"
    by (auto simp: bucket_inv_def bucket_rep_list)
qed

section \<open>The bucket as an interface\<close>

text \<open>
  What the routing table and the lookups need of a bucket: an update that never faults while the
  capacity is positive and acts on the list of entries as \<open>lru_update\<close>. The client lemmas derive
  what any sequence of updates keeps.
\<close>

locale lru_bucket =
  fixes empty :: "'b"
    and upd :: "nat \<Rightarrow> (string \<Rightarrow> bool) \<Rightarrow> 'b \<Rightarrow> RoutingEntry \<Rightarrow> 'b go"
    and items :: "'b \<Rightarrow> RoutingEntry list"
    and ok :: "'b \<Rightarrow> bool"
  assumes ok_empty: "ok empty" and items_empty: "items empty = []"
    and upd_refines: "ok b \<Longrightarrow> 0 < k \<Longrightarrow>
      \<exists>b'. upd k ping b re = Inr b' \<and> ok b' \<and> items b' = lru_update k ping (items b) re"
begin

lemma upds_refines:
  "ok b \<Longrightarrow> 0 < k \<Longrightarrow>
   \<exists>b'. go_foldM (upd k ping) b res = Inr b' \<and> ok b' \<and> items b' = foldl (lru_update k ping) (items b) res"
proof (induction res arbitrary: b)
  case Nil
  then show ?case by simp
next
  case (Cons re res)
  with upd_refines [of b k ping re] show ?case by fastforce
qed

end

interpretation bucket: lru_bucket NewBucket bucket_update bucket_list bucket_inv
  by unfold_locales (simp_all add: bucket_inv_New bucket_update_refines)

section \<open>What the policy keeps\<close>

lemma find_Some_props:
  "List.find (\<lambda>x. ID x = i) xs = Some x \<Longrightarrow> x \<in> set xs \<and> ID x = i"
  by (auto simp: find_Some_iff)

lemma find_None_props: "List.find (\<lambda>x. ID x = i) xs = None \<Longrightarrow> i \<notin> ID ` set xs"
  by (auto simp: find_None_iff)

lemma distinct_map_snoc: "distinct (map f xs) \<Longrightarrow> f x \<notin> f ` set xs \<Longrightarrow> distinct (map f (xs @ [x]))"
  by simp

lemma distinct_map_tl_snoc:
  "distinct (map f xs) \<Longrightarrow> f x \<notin> f ` set xs \<Longrightarrow> distinct (map f (tl xs @ [x]))"
  by (cases xs) auto

lemma lru_update_distinct:
  assumes "distinct (map ID xs)"
  shows "distinct (map ID (lru_update k ping xs re))"
proof (cases "List.find (\<lambda>x. ID x = ID re) xs")
  case None
  then have eq: "lru_update k ping xs re =
      (if length xs < k then xs @ [re] else if \<not> ping (Address (hd xs)) then tl xs @ [re] else xs)"
    by (simp add: lru_update_def)
  have "ID re \<notin> ID ` set xs" by (rule find_None_props [OF None])
  with assms distinct_map_tl_snoc [of ID xs re] distinct_map_snoc [of ID xs re] show ?thesis
    by (simp only: eq split: if_split) blast
next
  case (Some x)
  then have eq: "lru_update k ping xs re = filter (\<lambda>y. ID y \<noteq> ID re) xs @ [x]"
    by (simp add: lru_update_def)
  have "distinct (map ID (filter (\<lambda>y. ID y \<noteq> ID re) xs))"
    using assms by (rule distinct_map_filter)
  with find_Some_props [OF Some] show ?thesis
    unfolding eq by (intro distinct_map_snoc) auto
qed

lemma length_filter_removed:
  "distinct (map ID xs) \<Longrightarrow> x \<in> set xs \<Longrightarrow> Suc (length (filter (\<lambda>y. ID y \<noteq> ID x) xs)) = length xs"
proof (induction xs)
  case Nil
  then show ?case by simp
next
  case (Cons a xs)
  show ?case
  proof (cases "ID a = ID x")
    case True
    with Cons.prems have "filter (\<lambda>y. ID y \<noteq> ID x) xs = xs"
      by (auto simp: filter_id_conv image_iff)
    with True show ?thesis by simp
  next
    case False
    with Cons show ?thesis by auto
  qed
qed

lemma lru_update_length:
  assumes "distinct (map ID xs)" "length xs \<le> k" "0 < k"
  shows "length (lru_update k ping xs re) \<le> k"
proof (cases "List.find (\<lambda>x. ID x = ID re) xs")
  case None
  with assms show ?thesis by (auto simp: lru_update_def)
next
  case (Some x)
  with assms length_filter_removed [of xs x] find_Some_props [OF Some] show ?thesis
    by (simp add: lru_update_def)
qed

lemma lru_update_set: "set (lru_update k ping xs re) \<subseteq> insert re (set xs)"
  by (cases xs) (auto simp: lru_update_def split: option.split dest: find_Some_props)

lemma foldl_lru_invariant:
  assumes "distinct (map ID xs)" "length xs \<le> k" "0 < k"
  shows "distinct (map ID (foldl (lru_update k ping) xs res)) \<and>
    length (foldl (lru_update k ping) xs res) \<le> k"
  using assms(1,2)
  by (induction res arbitrary: xs) (simp_all add: lru_update_distinct lru_update_length assms(3))

text \<open>
  Claim C13. Refinement of \<open>RoutingTable.Update\<close>'s locked part: on every well-formed bucket and for
  every positive replication parameter the pointer manipulations (unlink, relink at the tail, append,
  evict the head) raise no nil dereference, restore the well-formedness of the doubly linked list and its index
  map, and change the list of entries exactly as the least-recently-seen policy prescribes.
\<close>

theorem bucket_update_implements_lru:
  assumes "bucket_inv b" and "0 < k"
  shows "\<exists>b'. bucket_update k ping b re = Inr b' \<and> bucket_inv b' \<and>
    bucket_list b' = lru_update k ping (bucket_list b) re"
  using bucket.upd_refines [OF assms] .

lemma bucket_update_implements_lru_witness:
  "\<exists>b'. bucket_update 3 (\<lambda>_. True) NewBucket \<lparr>ID = [1], Address = ''a''\<rparr> = Inr b' \<and> bucket_inv b' \<and>
    bucket_list b' = [\<lparr>ID = [1], Address = ''a''\<rparr>]"
  using bucket_update_implements_lru [OF bucket_inv_New(1), of 3 "\<lambda>_. True" "\<lparr>ID = [1], Address = ''a''\<rparr>"]
  by (simp add: lru_update_def bucket_inv_New)

text \<open>
  Running any sequence of updates from an empty bucket never panics, keeps at most
  \<open>replicationParam\<close> entries, and never stores two entries with one identifier.
\<close>

theorem bucket_run_invariant:
  assumes "0 < k"
  shows "\<exists>b. go_foldM (bucket_update k ping) NewBucket res = Inr b \<and> bucket_inv b \<and>
    length (bucket_list b) \<le> k \<and> distinct (map ID (bucket_list b))"
  using bucket.upds_refines [OF bucket.ok_empty assms, of ping res]
    foldl_lru_invariant [of "[]" k ping res] assms
  by (auto simp: bucket.items_empty)

theorem bucket_run_invariant_witness:
  "\<exists>b. go_foldM (bucket_update 2 (\<lambda>_. False)) NewBucket
      [\<lparr>ID = [1], Address = ''a''\<rparr>, \<lparr>ID = [2], Address = ''b''\<rparr>, \<lparr>ID = [3], Address = ''c''\<rparr>] = Inr b \<and>
    length (bucket_list b) \<le> 2"
  using bucket_run_invariant [of 2 "\<lambda>_. False"
      "[\<lparr>ID = [1], Address = ''a''\<rparr>, \<lparr>ID = [2], Address = ''b''\<rparr>, \<lparr>ID = [3], Address = ''c''\<rparr>]"]
  by auto

end
