(* ===== verification/RoutingTable.thy ===== *)
theory RoutingTable
  imports Bucket
begin

text \<open>
  The Kademlia routing table (\<open>src/storage/rtable.go\<close>): \<open>Update\<close> selects a bucket by the length of
  the common prefix with the node's own identifier, \<open>FindKClosest\<close> collects all entries, sorts them
  by XOR distance and returns the first \<open>k\<close>. The bucket itself enters through the interface
  \<open>lru_bucket\<close>. \<open>sort.Slice\<close> is unstable, so the model's insertion sort is one admissible
  behaviour; \<open>FindKClosest_exact\<close> shows that no other sorting procedure can return another list.
\<close>

section \<open>The table\<close>

type_synonym RTable = "Bucket list"

definition NewRoutingTable :: RTable where
  "NewRoutingTable = map (\<lambda>_. NewBucket) [0..<DStoreIDSize]"

definition Update :: "bytes \<Rightarrow> nat \<Rightarrow> (string \<Rightarrow> bool) \<Rightarrow> RTable \<Rightarrow> RoutingEntry \<Rightarrow> RTable go" where
  "Update dStoreID k ping rt re =
     (let maxPrefLen = MaxPrefixLen dStoreID (ID re) in
      if maxPrefLen < 0 \<or> 8 * int DStoreIDSize \<le> maxPrefLen then Inr rt
      else
        go_bind (go_nth rt (nat maxPrefLen)) (\<lambda>bucket.
        go_bind (bucket_update k ping bucket re) (\<lambda>bucket'.
          Inr (rt[nat maxPrefLen := bucket']))))"

fun insert_by :: "('a \<Rightarrow> 'a \<Rightarrow> bool) \<Rightarrow> 'a \<Rightarrow> 'a list \<Rightarrow> 'a list" where
  "insert_by lessf x [] = [x]"
| "insert_by lessf x (y # ys) = (if lessf y x then y # insert_by lessf x ys else x # y # ys)"

definition sort_Slice :: "('a \<Rightarrow> 'a \<Rightarrow> bool) \<Rightarrow> 'a list \<Rightarrow> 'a list" where
  "sort_Slice lessf xs = foldr (insert_by lessf) xs []"

fun collect :: "bytes \<Rightarrow> RTable \<Rightarrow> (bytes \<times> RoutingEntry) list option" where
  "collect target [] = Some []"
| "collect target (b # bs) =
     Option.bind (walk (nodes b) (Head b)) (\<lambda>es.
     Option.bind (collect target bs) (\<lambda>rest.
       Some (map (\<lambda>e. (XorDistance target (ID e), e)) es @ rest)))"

definition FindKClosest :: "RTable \<Rightarrow> bytes \<Rightarrow> nat \<Rightarrow> RoutingEntry list option" where
  "FindKClosest rt target k =
     Option.bind (collect target rt) (\<lambda>lst.
       Some (map snd (take k (sort_Slice (\<lambda>x y. Compare (fst x) (fst y) < 0) lst))))"

section \<open>Invariant\<close>

definition rt_entries :: "RTable \<Rightarrow> RoutingEntry list" where
  "rt_entries rt = concat (map bucket_list rt)"

definition rt_inv :: "bytes \<Rightarrow> nat \<Rightarrow> RTable \<Rightarrow> bool" where
  "rt_inv dStoreID k rt \<longleftrightarrow>
     valid_id dStoreID \<and> length rt = DStoreIDSize \<and>
     (\<forall>i < length rt. bucket_inv (rt ! i) \<and> length (bucket_list (rt ! i)) \<le> k \<and>
        distinct (map ID (bucket_list (rt ! i))) \<and>
        (\<forall>e \<in> set (bucket_list (rt ! i)). MaxPrefixLen dStoreID (ID e) = int i))"

lemma rt_inv_New: "valid_id dStoreID \<Longrightarrow> rt_inv dStoreID k NewRoutingTable"
  by (simp add: rt_inv_def NewRoutingTable_def bucket_inv_New)

lemma rt_inv_prefix:
  "rt_inv i k rt \<Longrightarrow> j < length rt \<Longrightarrow> e \<in> set (bucket_list (rt ! j)) \<Longrightarrow> MaxPrefixLen i (ID e) = int j"
  by (simp add: rt_inv_def)

lemma rt_inv_entry_valid:
  assumes "rt_inv i k rt" "e \<in> set (rt_entries rt)"
  shows "valid_id (ID e)"
proof (rule ccontr)
  assume "\<not> valid_id (ID e)"
  then have "MaxPrefixLen i (ID e) = -1" by (intro MaxPrefixLen_invalid) simp
  moreover obtain j where "j < length rt" "e \<in> set (bucket_list (rt ! j))"
    using assms(2) unfolding rt_entries_def by (auto, metis in_set_conv_nth)
  ultimately show False using rt_inv_prefix [OF assms(1)] by fastforce
qed

lemma distinct_concat_disjoint:
  assumes "\<And>i. i < length xss \<Longrightarrow> distinct (map f (xss ! i))"
    and "\<And>i j x y. i < length xss \<Longrightarrow> j < length xss \<Longrightarrow> x \<in> set (xss ! i) \<Longrightarrow> y \<in> set (xss ! j) \<Longrightarrow>
      f x = f y \<Longrightarrow> i = j"
  shows "distinct (map f (concat xss))"
  using assms
proof (induction xss)
  case Nil
  then show ?case by simp
next
  case (Cons xs xss)
  have "distinct (map f (concat xss))"
  proof (rule Cons.IH)
    show "distinct (map f (xss ! i))" if "i < length xss" for i
      using Cons.prems(1) [of "Suc i"] that by simp
    show "i = j" if "i < length xss" "j < length xss" "x \<in> set (xss ! i)" "y \<in> set (xss ! j)" "f x = f y"
      for i j x y
      using Cons.prems(2) [of "Suc i" "Suc j" x y] that by simp
  qed
  moreover have "distinct (map f xs)"
    using Cons.prems(1) [of 0] by simp
  moreover have "f ` set xs \<inter> f ` set (concat xss) = {}"
  proof -
    have False if "x \<in> set xs" "ys \<in> set xss" "y \<in> set ys" "f x = f y" for x ys y
    proof -
      obtain j where "j < length xss" "xss ! j = ys" using \<open>ys \<in> set xss\<close> by (auto simp: in_set_conv_nth)
      then show False
        using Cons.prems(2) [of 0 "Suc j" x y] that by simp
    qed
    then show ?thesis by fastforce
  qed
  ultimately show ?case by simp
qed

lemma rt_inv_distinct: "rt_inv i k rt \<Longrightarrow> distinct (map ID (rt_entries rt))"
  unfolding rt_entries_def
proof (rule distinct_concat_disjoint)
  assume inv: "rt_inv i k rt"
  show "distinct (map ID (map bucket_list rt ! j))" if "j < length (map bucket_list rt)" for j
    using inv that by (simp add: rt_inv_def)
  show "j = l" if "j < length (map bucket_list rt)" "l < length (map bucket_list rt)"
    "x \<in> set (map bucket_list rt ! j)" "y \<in> set (map bucket_list rt ! l)" "ID x = ID y" for j l x y
    using that rt_inv_prefix [OF inv, of j x] rt_inv_prefix [OF inv, of l y] by simp
qed

section \<open>Updates\<close>

lemma Update_step:
  assumes inv: "rt_inv i k rt" and k: "0 < k"
    and m: "MaxPrefixLen i (ID re) = int m" "m < DStoreIDSize"
  shows "\<exists>b. Update i k ping rt re = Inr (rt[m := b]) \<and> bucket_inv b \<and>
    bucket_list b = lru_update k ping (bucket_list (rt ! m)) re"
proof -
  have len: "m < length rt" and b: "bucket_inv (rt ! m)"
    using inv m by (simp_all add: rt_inv_def)
  from bucket.upd_refines [OF b k] obtain b' where
    "bucket_update k ping (rt ! m) re = Inr b'" "bucket_inv b'"
    "bucket_list b' = lru_update k ping (bucket_list (rt ! m)) re"
    by blast
  with len m show ?thesis by (auto simp: Update_def DStoreIDSize_def)
qed

lemma Update_step_inv:
  assumes inv: "rt_inv i k rt" and k: "0 < k" and m: "MaxPrefixLen i (ID re) = int m" "m < DStoreIDSize"
    and b: "bucket_inv b" "bucket_list b = lru_update k ping (bucket_list (rt ! m)) re"
  shows "rt_inv i k (rt[m := b])"
proof -
  have old: "distinct (map ID (bucket_list (rt ! m)))" "length (bucket_list (rt ! m)) \<le> k"
    "\<forall>e \<in> set (bucket_list (rt ! m)). MaxPrefixLen i (ID e) = int m"
    using inv m by (auto simp: rt_inv_def)
  have "\<forall>e \<in> set (bucket_list b). MaxPrefixLen i (ID e) = int m"
    using lru_update_set [of k ping "bucket_list (rt ! m)" re] old m b by auto
  moreover have "distinct (map ID (bucket_list b))" "length (bucket_list b) \<le> k"
    using b lru_update_distinct [OF old(1)] lru_update_length [OF old(1,2) k] by simp_all
  ultimately show ?thesis
    using inv b(1) unfolding rt_inv_def length_list_update
    by (metis nth_list_update_eq nth_list_update_neq)
qed

lemma Update_ignored:
  "MaxPrefixLen i (ID re) \<notin> {0..<64} \<Longrightarrow> Update i k ping rt re = Inr rt"
  by (auto simp: Update_def DStoreIDSize_def Let_def)

lemma prefix_top_byte:
  assumes a: "valid_id a" and b: "valid_id b"
  shows "8 \<le> MaxPrefixLen a b \<longleftrightarrow> a ! 7 = b ! 7"
proof -
  have split: "le_val c = le_val (take 7 c) + 256 ^ 7 * unat (c ! 7)"
    and bound: "le_val (take 7 c) < 256 ^ 7" if "valid_id c" for c
    using that le_val_take_Suc [of 7 c] le_val_take_bound [of 7 c] by (simp_all add: DStoreIDSize_def)
  have top: "drop_bit 56 (le_val c) = unat (c ! 7)" if "valid_id c" for c
    using bound [OF that] by (subst split [OF that]) (simp add: drop_bit_eq_div)
  have x: "drop_bit 56 (xor_dist a b) = unat (a ! 7) XOR unat (b ! 7)"
    using a b by (simp add: xor_dist_val drop_bit_xor top)
  obtain p where p: "p \<le> 64" "MaxPrefixLen a b = int p" "xor_dist a b < 2 ^ (64 - p)"
    "p < 64 \<longrightarrow> 2 ^ (63 - p) \<le> xor_dist a b"
    using MaxPrefixLen_cases [OF a b] by blast
  have "a ! 7 = b ! 7 \<longleftrightarrow> xor_dist a b < 2 ^ 56"
  proof -
    have "a ! 7 = b ! 7 \<longleftrightarrow> drop_bit 56 (xor_dist a b) = 0"
      unfolding x xor_eq_0_iff by (simp add: word_unat_eq_iff)
    then show ?thesis by (simp add: drop_bit_eq_div div_eq_0_iff)
  qed
  also have "\<dots> \<longleftrightarrow> 8 \<le> p"
  proof
    assume "xor_dist a b < 2 ^ 56"
    show "8 \<le> p"
    proof (rule ccontr)
      assume "\<not> 8 \<le> p"
      then have "(2::nat) ^ 56 \<le> 2 ^ (63 - p)" "p < 64" by (rule_tac power_increasing, auto)
      with p(4) \<open>xor_dist a b < 2 ^ 56\<close> show False by linarith
    qed
  next
    assume "8 \<le> p"
    then have "(2::nat) ^ (64 - p) \<le> 2 ^ 56" by (intro power_increasing) auto
    with p(3) show "xor_dist a b < 2 ^ 56" by linarith
  qed
  finally show ?thesis using p(2) by simp
qed

section \<open>Closest nodes\<close>

lemma insert_by_key:
  "(\<And>y. y \<in> set ys \<Longrightarrow> lessf y x \<longleftrightarrow> f y < (f x :: nat)) \<Longrightarrow> insert_by lessf x ys = insort_key f x ys"
  by (induction ys) (auto simp: not_le)

lemma set_insert_by: "set (insert_by lessf x ys) = insert x (set ys)"
  by (induction ys) auto

lemma set_sort_Slice: "set (sort_Slice lessf xs) = set xs"
  by (induction xs) (auto simp: sort_Slice_def set_insert_by)

lemma sort_Slice_key:
  assumes "\<And>x y. x \<in> set xs \<Longrightarrow> y \<in> set xs \<Longrightarrow> lessf x y \<longleftrightarrow> f x < (f y :: nat)"
  shows "sort_Slice lessf xs = sort_key f xs"
  using assms
proof (induction xs)
  case Nil
  then show ?case by (simp add: sort_Slice_def)
next
  case (Cons x xs)
  have IH: "foldr (insert_by lessf) xs [] = sort_key f xs"
    using Cons by (simp add: sort_Slice_def)
  have "insert_by lessf x (sort_key f xs) = insort_key f x (sort_key f xs)"
    using Cons.prems by (intro insert_by_key) simp
  then show ?case by (simp add: sort_Slice_def IH)
qed

lemma insort_key_map_pair:
  "insort_key (\<lambda>x. f (fst x)) (g e, e) (map (\<lambda>e. (g e, e)) es) =
   map (\<lambda>e. (g e, e)) (insort_key (\<lambda>e. f (g e)) e es)"
  by (induction es) auto

lemma sort_key_map_pair:
  "sort_key (\<lambda>x. f (fst x)) (map (\<lambda>e. (g e, e)) es) = map (\<lambda>e. (g e, e)) (sort_key (\<lambda>e. f (g e)) es)"
  by (induction es) (simp_all add: insort_key_map_pair)

lemma bucket_inv_walk: "bucket_inv b \<Longrightarrow> walk (nodes b) (Head b) = Some (bucket_list b)"
  by (auto simp: bucket_inv_def bucket_rep_walk bucket_rep_list)

lemma collect_entries:
  "\<forall>b \<in> set rt. bucket_inv b \<Longrightarrow>
   collect target rt = Some (map (\<lambda>e. (XorDistance target (ID e), e)) (rt_entries rt))"
  by (induction rt) (simp_all add: rt_entries_def bucket_inv_walk)

lemma rt_inv_buckets: "rt_inv i k rt \<Longrightarrow> \<forall>b \<in> set rt. bucket_inv b"
  by (auto simp: rt_inv_def in_set_conv_nth)

definition entry_dist :: "bytes \<Rightarrow> RoutingEntry \<Rightarrow> nat" where
  "entry_dist target e = xor_dist target (ID e)"

lemma FindKClosest_sorted:
  assumes inv: "rt_inv i k rt" and t: "valid_id target"
  shows "FindKClosest rt target n = Some (take n (sort_key (entry_dist target) (rt_entries rt)))"
proof -
  let ?pair = "\<lambda>e. (XorDistance target (ID e), e)"
  let ?xs = "map ?pair (rt_entries rt)"
  have "sort_Slice (\<lambda>x y. Compare (fst x) (fst y) < 0) ?xs = sort_key (\<lambda>x. le_val (fst x)) ?xs"
  proof (rule sort_Slice_key)
    fix x y assume "x \<in> set ?xs" "y \<in> set ?xs"
    then have "length (fst x) = length (fst y)"
      using rt_inv_entry_valid [OF inv] t by (auto simp: length_XorDistance)
    then show "Compare (fst x) (fst y) < 0 \<longleftrightarrow> le_val (fst x) < le_val (fst y)"
      by (rule Compare_less_iff)
  qed
  moreover have "map snd (sort_key (\<lambda>x. le_val (fst x)) ?xs) = sort_key (entry_dist target) (rt_entries rt)"
    by (simp add: sort_key_map_pair [of le_val "\<lambda>e. XorDistance target (ID e)"] o_def
        entry_dist_def [abs_def] xor_dist_def)
  ultimately show ?thesis
    by (simp add: FindKClosest_def collect_entries [OF rt_inv_buckets [OF inv]] take_map [symmetric])
qed

lemma map_ID_inj: "distinct (map ID xs) \<Longrightarrow> x \<in> set xs \<Longrightarrow> y \<in> set xs \<Longrightarrow> ID x = ID y \<Longrightarrow> x = y"
  by (simp add: distinct_map inj_on_def)

lemma sorted_by_dist_unique:
  assumes t: "valid_id target" and v: "\<forall>e \<in> set xs. valid_id (ID e)" and dx: "distinct (map ID xs)"
    and zs: "set zs = set xs" "distinct zs" "sorted (map (entry_dist target) zs)"
    and xs: "sorted (map (entry_dist target) xs)"
  shows "zs = xs"
proof -
  have inj: "inj_on ID (set xs)" using dx by (simp add: distinct_map)
  then have dz: "distinct (map ID zs)" using zs by (simp add: distinct_map)
  have "map ID zs = map ID xs"
  proof (rule xd.closest_unique [OF t])
    show "\<forall>x \<in> set (map ID zs). valid_id x" using v zs(1) by simp
    show "sorted (map (xor_dist target) (map ID zs))" "sorted (map (xor_dist target) (map ID xs))"
      using zs(3) xs by (simp_all add: entry_dist_def [abs_def] o_def)
    show "set (map ID zs) = set (map ID xs)" using zs(1) by simp
  qed (rule dz, rule dx)
  with inj zs(1) show ?thesis by (metis map_inj_on Un_absorb)
qed

text \<open>
  Claim C14. \<open>FindKClosest\<close> is exact and independent of the sorting algorithm: on a well-formed table
  and a target of identifier length it returns the first \<open>n\<close> entries of the one duplicate-free
  arrangement of the table's entries that is sorted by XOR distance.
\<close>

theorem FindKClosest_exact:
  assumes inv: "rt_inv i k rt" and t: "valid_id target"
    and zs: "set zs = set (rt_entries rt)" "distinct zs" "sorted (map (entry_dist target) zs)"
  shows "FindKClosest rt target n = Some (take n zs)"
proof -
  let ?s = "sort_key (entry_dist target) (rt_entries rt)"
  have d: "distinct (map ID (rt_entries rt))" by (rule rt_inv_distinct [OF inv])
  then have "distinct (map ID ?s)"
    by (metis distinct_map distinct_sort set_sort)
  then have "zs = ?s"
    using rt_inv_entry_valid [OF inv] zs by (intro sorted_by_dist_unique [OF t]) simp_all
  then show ?thesis by (simp add: FindKClosest_sorted [OF inv t])
qed

theorem FindKClosest_exact_witness:
  "FindKClosest NewRoutingTable [0,0,0,0,0,0,0,0] 3 = Some (take 3 [])"
  by (rule FindKClosest_exact [of "[0,0,0,0,0,0,0,1]" 3])
    (simp_all add: rt_inv_New DStoreIDSize_def, simp add: rt_entries_def NewRoutingTable_def bucket_inv_New)

text \<open>
  No entry left out is closer than an entry returned, and the result has
  \<open>min n (number of entries)\<close> elements.
\<close>

theorem FindKClosest_closest:
  assumes inv: "rt_inv i k rt" and t: "valid_id target"
  shows "\<exists>res. FindKClosest rt target n = Some res \<and> set res \<subseteq> set (rt_entries rt) \<and>
    length res = min n (length (rt_entries rt)) \<and> sorted (map (entry_dist target) res) \<and>
    (\<forall>x \<in> set res. \<forall>y \<in> set (rt_entries rt) - set res. entry_dist target x < entry_dist target y)"
proof -
  let ?s = "sort_key (entry_dist target) (rt_entries rt)"
  have srt: "sorted (map (entry_dist target) ?s)" by (rule sorted_sort_key)
  have far: "entry_dist target x < entry_dist target y"
    if x: "x \<in> set (take n ?s)" and y: "y \<in> set (rt_entries rt) - set (take n ?s)" for x y
  proof -
    have "y \<in> set (drop n ?s)"
      using y set_append [of "take n ?s" "drop n ?s"] by auto
    moreover have "sorted (map (entry_dist target) (take n ?s) @ map (entry_dist target) (drop n ?s))"
      using srt by (simp only: map_append [symmetric] append_take_drop_id)
    ultimately have "entry_dist target x \<le> entry_dist target y"
      using x by (auto simp: sorted_append)
    moreover have "entry_dist target x \<noteq> entry_dist target y"
    proof
      have xe: "x \<in> set (rt_entries rt)" using x by (metis in_set_takeD set_sort)
      assume "entry_dist target x = entry_dist target y"
      then have "ID x = ID y"
        using xe y rt_inv_entry_valid [OF inv] xd.dist_unique [OF t] by (auto simp: entry_dist_def)
      then have "x = y" using map_ID_inj [OF rt_inv_distinct [OF inv]] xe y by blast
      with x y show False by blast
    qed
    ultimately show ?thesis by simp
  qed
  have "set (take n ?s) \<subseteq> set (rt_entries rt)" using set_take_subset [of n ?s] by simp
  moreover have "sorted (map (entry_dist target) (take n ?s))"
    using srt by (simp add: sorted_wrt_take flip: take_map)
  ultimately show ?thesis
    using far by (intro exI [of _ "take n ?s"]) (simp add: FindKClosest_sorted [OF inv t] min.commute)
qed

theorem FindKClosest_closest_witness:
  "\<exists>res. FindKClosest NewRoutingTable [0,0,0,0,0,0,0,0] 3 = Some res \<and>
    length res = min 3 (length (rt_entries NewRoutingTable))"
  using FindKClosest_closest [of "[0,0,0,0,0,0,0,1]" 3 NewRoutingTable "[0,0,0,0,0,0,0,0]" 3]
  by (auto simp: rt_inv_New DStoreIDSize_def)

section \<open>The table under updates\<close>

text \<open>
  Claim C15. As long as the sender's most significant identifier byte differs from the node's own,
  \<open>Update\<close> returns, keeps the table invariant (bucket index equals prefix length, at most
  \<open>replicationParam\<close> entries per bucket, unique identifiers) and applies the least-recently-seen policy
  to exactly the bucket of the common prefix.
\<close>

theorem Update_preserves:
  assumes inv: "rt_inv i k rt" and k: "0 < k" and v: "valid_id (ID re)" and top: "ID re ! 7 \<noteq> i ! 7"
  shows "\<exists>m rt'. MaxPrefixLen i (ID re) = int m \<and> Update i k ping rt re = Inr rt' \<and> rt_inv i k rt' \<and>
    map bucket_list rt' = (map bucket_list rt)[m := lru_update k ping (bucket_list (rt ! m)) re]"
proof -
  have vi: "valid_id i" using inv by (simp add: rt_inv_def)
  obtain m where m: "MaxPrefixLen i (ID re) = int m"
    using MaxPrefixLen_cases [OF vi v] by blast
  have lt: "m < DStoreIDSize"
    using prefix_top_byte [OF vi v] top m by (simp add: DStoreIDSize_def)
  obtain b where b: "Update i k ping rt re = Inr (rt[m := b])" "bucket_inv b"
    "bucket_list b = lru_update k ping (bucket_list (rt ! m)) re"
    using Update_step [OF inv k m lt] by blast
  have "map bucket_list (rt[m := b]) = (map bucket_list rt)[m := lru_update k ping (bucket_list (rt ! m)) re]"
    using b by (simp add: map_update)
  with m b Update_step_inv [OF inv k m lt b(2,3)] show ?thesis by blast
qed

theorem Update_preserves_witness:
  "\<exists>rt'. Update [0,0,0,0,0,0,0,1] 3 (\<lambda>_. True) NewRoutingTable
       \<lparr>ID = [0,0,0,0,0,0,0,2], Address = ''a''\<rparr> = Inr rt' \<and> rt_inv [0,0,0,0,0,0,0,1] 3 rt'"
  using Update_preserves [of "[0,0,0,0,0,0,0,1]" 3 NewRoutingTable
      "\<lparr>ID = [0,0,0,0,0,0,0,2], Address = ''a''\<rparr>" "\<lambda>_. True"]
  by (auto simp: rt_inv_New DStoreIDSize_def)

text \<open>
  The table has \<open>DStoreIDSize\<close> = 8 buckets although the prefix length ranges over 0..64 bits
  and the guard admits every value below 64: a message from any other node whose identifier has the same
  most significant byte makes \<open>Update\<close> index out of range and panic.
\<close>

theorem Update_shared_byte_panics:
  assumes len: "length rt = DStoreIDSize" and v: "valid_id i" "valid_id (ID re)"
    and top: "ID re ! 7 = i ! 7" and other: "ID re \<noteq> i"
  shows "Update i k ping rt re = Inl IndexOutOfRange"
proof -
  obtain p where p: "p \<le> 64" "MaxPrefixLen i (ID re) = int p" "p = 64 \<longleftrightarrow> i = ID re"
    using MaxPrefixLen_distance [of i "ID re"] v by auto
  have "8 \<le> p" "p < 64"
    using prefix_top_byte [OF v] p top other by auto
  with p len show ?thesis by (simp add: Update_def DStoreIDSize_def)
qed

theorem Update_shared_byte_panics_witness:
  "Update [0,0,0,0,0,0,0,1] 3 (\<lambda>_. True) NewRoutingTable
     \<lparr>ID = [9,0,0,0,0,0,0,1], Address = ''a''\<rparr> = Inl IndexOutOfRange"
  by (rule Update_shared_byte_panics) (simp_all add: NewRoutingTable_def DStoreIDSize_def)

end
