(* ===== verification/Packets.thy ===== *)
theory Packets
  imports Complex_Main RoutingTable
begin

text \<open>
  The wire messages: \<open>src/storage/message.go\<close> and \<open>src/gossiper/header.go\<close>, one record per Go struct with an
  option for every pointer, the classification of packets (\<open>src/gossiper/utils.go\<close>), and the
  operation modes (\<open>src/gossiper/gossiper.go\<close>). Socket addresses are the strings \<open>UDPAddr.String()\<close> gives; the
  code compares addresses only through them.
\<close>

type_synonym address = string
type_synonym uint32 = "32 word"
type_synonym uint64 = "64 word"

section \<open>Floating-point values\<close>

text \<open>
  A \<open>float32\<close> or \<open>float64\<close> received from the network is a finite number, an infinity or NaN. Only
  comparisons of such values are modelled; every comparison with NaN is false.
\<close>

datatype go_float = Fin rat | PInf | NInf | NaN

fun float_less :: "go_float \<Rightarrow> go_float \<Rightarrow> bool" where
  "float_less (Fin a) (Fin b) \<longleftrightarrow> a < b"
| "float_less (Fin a) PInf \<longleftrightarrow> True"
| "float_less NInf (Fin b) \<longleftrightarrow> True"
| "float_less NInf PInf \<longleftrightarrow> True"
| "float_less _ _ \<longleftrightarrow> False"

lemma float_less_irrefl [simp]: "\<not> float_less a a"
  by (cases a) simp_all

lemma float_less_trans: "float_less a b \<Longrightarrow> float_less b c \<Longrightarrow> float_less a c"
  by (cases a; cases b; cases c) simp_all

section \<open>Messages of the distributed store\<close>

record FindNodeRequest =
  fnq_Target :: bytes

record FindNodeReply =
  fnr_Nodes :: "RoutingEntry list"

record StoreRequest =
  srq_Key :: bytes
  srq_Value :: bytes
  srq_ExpiryTime :: uint64
  srq_RePublishTime :: uint64

record StoreReply =
  srp_Key :: bytes
  srp_Value :: bytes

record FindValueRequest =
  fvq_Key :: bytes

text \<open>A nil \<open>Value\<close> is different from a value that is present.\<close>

record FindValueReply =
  fvr_Key :: bytes
  fvr_Value :: "bytes option"
  fvr_Nodes :: "RoutingEntry list"

record DStoreMessage =
  ds_SourceID :: bytes
  ds_RPCID :: string
  ds_PingRequest :: "unit option"
  ds_PingReply :: "unit option"
  ds_FindNodeRequest :: "FindNodeRequest option"
  ds_FindNodeReply :: "FindNodeReply option"
  ds_StoreRequest :: "StoreRequest option"
  ds_StoreReply :: "StoreReply option"
  ds_FindValueRequest :: "FindValueRequest option"
  ds_FindValueReply :: "FindValueReply option"

definition empty_DStoreMessage :: DStoreMessage where
  "empty_DStoreMessage = \<lparr>ds_SourceID = [], ds_RPCID = [], ds_PingRequest = None, ds_PingReply = None,
     ds_FindNodeRequest = None, ds_FindNodeReply = None, ds_StoreRequest = None, ds_StoreReply = None,
     ds_FindValueRequest = None, ds_FindValueReply = None\<rparr>"

definition NewPingRequest :: DStoreMessage where
  "NewPingRequest = empty_DStoreMessage\<lparr>ds_PingRequest := Some ()\<rparr>"

definition NewFindNodeRequest :: "bytes \<Rightarrow> DStoreMessage" where
  "NewFindNodeRequest target = empty_DStoreMessage\<lparr>ds_FindNodeRequest := Some \<lparr>fnq_Target = target\<rparr>\<rparr>"

definition NewStoreRequest :: "bytes \<Rightarrow> bytes \<Rightarrow> uint64 \<Rightarrow> uint64 \<Rightarrow> DStoreMessage" where
  "NewStoreRequest key value te tr = empty_DStoreMessage\<lparr>ds_StoreRequest :=
     Some \<lparr>srq_Key = key, srq_Value = value, srq_ExpiryTime = te, srq_RePublishTime = tr\<rparr>\<rparr>"

definition NewFindValueRequest :: "bytes \<Rightarrow> DStoreMessage" where
  "NewFindValueRequest key = empty_DStoreMessage\<lparr>ds_FindValueRequest := Some \<lparr>fvq_Key = key\<rparr>\<rparr>"

section \<open>Gossip packets\<close>

record SimpleMessage =
  sm_OriginalName :: string
  sm_RelayPeerAddr :: address
  sm_Contents :: string

record RumorMessage =
  rum_Origin :: string
  rum_ID :: uint32
  rum_Text :: string

record PeerStatus =
  ps_Identifier :: string
  ps_NextID :: uint32

record StatusPacket =
  st_Want :: "PeerStatus list"

text \<open>\<open>TLCAck\<close> is declared as the type \<open>PrivateMessage\<close>.\<close>

record PrivateMessage =
  pm_Origin :: string
  pm_ID :: uint32
  pm_Text :: string
  pm_Destination :: string
  pm_HopLimit :: uint32

record DataRequest =
  dq_Origin :: string
  dq_Destination :: string
  dq_HopLimit :: uint32
  dq_HashValue :: bytes

record DataReply =
  dr_Origin :: string
  dr_Destination :: string
  dr_HopLimit :: uint32
  dr_HashValue :: bytes
  dr_Data :: "bytes option"

record SearchRequest =
  sq_Origin :: string
  sq_Budget :: uint64
  sq_Keywords :: "string list"

record SearchResult =
  res_FileName :: string
  res_MetafileHash :: bytes
  res_ChunkMap :: "uint64 list"
  res_ChunkCount :: uint64

record SearchReply =
  sr_Origin :: string
  sr_Destination :: string
  sr_HopLimit :: uint32
  sr_Results :: "SearchResult list"

record TxPublish =
  tx_Name :: string
  tx_Size :: "64 word"
  tx_MetafileHash :: bytes

record BlockPublish =
  bp_PrevHash :: bytes
  bp_Transaction :: TxPublish

record TLCMessage =
  tlc_Origin :: string
  tlc_ID :: uint32
  tlc_Confirmed :: "64 word"
  tlc_TxBlock :: BlockPublish
  tlc_VectorClock :: "StatusPacket option"
  tlc_Fitness :: go_float

record WhisperPacket =
  wp_Code :: uint32
  wp_Size :: uint32
  wp_Payload :: bytes

record WhisperStatus =
  ws_Origin :: string
  ws_ID :: uint32
  ws_Code :: uint32
  ws_Bloom :: "bytes option"
  ws_Pow :: go_float

record GossipPacket =
  gp_Simple :: "SimpleMessage option"
  gp_Rumor :: "RumorMessage option"
  gp_Status :: "StatusPacket option"
  gp_Private :: "PrivateMessage option"
  gp_DataRequest :: "DataRequest option"
  gp_DataReply :: "DataReply option"
  gp_SearchRequest :: "SearchRequest option"
  gp_SearchReply :: "SearchReply option"
  gp_TLCMessage :: "TLCMessage option"
  gp_Ack :: "PrivateMessage option"
  gp_WhisperPacket :: "WhisperPacket option"
  gp_WhisperStatus :: "WhisperStatus option"
  gp_DStoreMessage :: "DStoreMessage option"

definition empty_packet :: GossipPacket where
  "empty_packet = \<lparr>gp_Simple = None, gp_Rumor = None, gp_Status = None, gp_Private = None, gp_DataRequest = None,
     gp_DataReply = None, gp_SearchRequest = None, gp_SearchReply = None, gp_TLCMessage = None, gp_Ack = None,
     gp_WhisperPacket = None, gp_WhisperStatus = None, gp_DStoreMessage = None\<rparr>"

record ExtendedGossipPacket =
  ext_Packet :: GossipPacket
  ext_SenderAddr :: address

section \<open>Classification\<close>

definition getTypeFromGossip :: "GossipPacket \<Rightarrow> string" where
  "getTypeFromGossip packet =
     (if gp_Simple packet \<noteq> None then ''simple''
      else if gp_Rumor packet \<noteq> None then ''rumor''
      else if gp_Private packet \<noteq> None then ''private''
      else if gp_Status packet \<noteq> None then ''status''
      else if gp_DataRequest packet \<noteq> None then ''dataRequest''
      else if gp_DataReply packet \<noteq> None then ''dataReply''
      else if gp_SearchRequest packet \<noteq> None then ''searchRequest''
      else if gp_SearchReply packet \<noteq> None then ''searchReply''
      else if gp_TLCMessage packet \<noteq> None then ''tlcMes''
      else if gp_Ack packet \<noteq> None then ''tlcAck''
      else if gp_WhisperPacket packet \<noteq> None then ''whisperPacket''
      else if gp_WhisperStatus packet \<noteq> None then ''whisperStatus''
      else if gp_DStoreMessage packet \<noteq> None then ''dstorageMessage''
      else ''unknown'')"

text \<open>The client's message, \<open>src/helpers/generalhelpers.go\<close>.\<close>

record ClientMessage =
  cm_Text :: string
  cm_Destination :: "string option"
  cm_File :: "string option"
  cm_Request :: "bytes option"
  cm_Keywords :: "string option"
  cm_Budget :: "uint64 option"
  cm_Identity :: "string option"

definition getTypeFromMessage :: "bool \<Rightarrow> ClientMessage \<Rightarrow> string" where
  "getTypeFromMessage simpleMode message =
     (if simpleMode then ''simple''
      else if cm_Destination message \<noteq> None \<and> cm_Text message \<noteq> [] \<and> cm_File message = None \<and>
        cm_Request message = None \<and> cm_Keywords message = None then ''private''
      else if cm_Text message = [] \<and> cm_File message \<noteq> None \<and> cm_Request message \<noteq> None \<and>
        cm_Keywords message = None then ''dataRequest''
      else if cm_Destination message = None \<and> cm_Text message = [] \<and> cm_File message \<noteq> None \<and>
        cm_Request message = None \<and> cm_Keywords message = None then ''file''
      else if cm_Destination message = None \<and> cm_Text message = [] \<and> cm_File message = None \<and>
        cm_Request message = None \<and> cm_Keywords message \<noteq> None then ''searchRequest''
      else if cm_Text message \<noteq> [] \<and> cm_Destination message = None \<and> cm_File message = None \<and>
        cm_Request message = None \<and> cm_Keywords message = None then ''rumor''
      else ''unknown'')"

section \<open>Hashed keys\<close>

text \<open>\<open>H\<close> is SHA-256. \<open>array32\<close> is the copy of a slice into an array of 32 bytes.\<close>

definition array32 :: "bytes \<Rightarrow> bytes" where
  "array32 bs = take 32 (bs @ replicate (32 - length bs) 0)"

definition GetKeyFromString :: "(bytes \<Rightarrow> bytes) \<Rightarrow> string \<Rightarrow> string" where
  "GetKeyFromString H text = EncodeToString (H (string_bytes text))"

definition checkHash :: "(bytes \<Rightarrow> bytes) \<Rightarrow> bytes \<Rightarrow> bytes \<Rightarrow> bool" where
  "checkHash H hash data \<longleftrightarrow> array32 hash = H data"

section \<open>Modes and the packet channels\<close>

definition modeTypes :: "string list" where
  "modeTypes = [''simple'', ''rumor'', ''status'', ''private'', ''dataRequest'', ''dataReply'', ''searchRequest'',
     ''searchReply'', ''tlcMes'', ''tlcAck'', ''clientBlock'', ''tlcCausal'', ''whisperPacket'', ''whisperStatus'',
     ''dstorageMessage'']"

record AppConstants =
  app_simpleMode :: bool
  app_hw3ex2Mode :: bool
  app_hw3ex3Mode :: bool
  app_hw3ex4Mode :: bool
  app_ackAllMode :: bool
  app_SignalMode :: bool
  app_hopLimit :: nat
  app_stubbornTimeout :: nat
  app_routeRumorTimeout :: nat
  app_antiEntropyTimeout :: nat

definition SetAppConstants ::
  "bool \<Rightarrow> bool \<Rightarrow> bool \<Rightarrow> bool \<Rightarrow> bool \<Rightarrow> bool \<Rightarrow> nat \<Rightarrow> nat \<Rightarrow> nat \<Rightarrow> nat \<Rightarrow> AppConstants" where
  "SetAppConstants simple hw3ex2 hw3ex3 hw3ex4 ackAll signal hopLimitVal stubbornTimeoutVal rtimer antiEntropy =
     (let ex3 = (if hw3ex4 then True else hw3ex3);
          ex3' = (if ex3 then True else ex3)
      in \<lparr>app_simpleMode = simple, app_hw3ex2Mode = hw3ex2, app_hw3ex3Mode = ex3', app_hw3ex4Mode = hw3ex4,
          app_ackAllMode = ackAll, app_SignalMode = signal, app_hopLimit = hopLimitVal,
          app_stubbornTimeout = stubbornTimeoutVal, app_routeRumorTimeout = rtimer,
          app_antiEntropyTimeout = antiEntropy\<rparr>)"

definition initPacketChannels :: "bool \<Rightarrow> string set" where
  "initPacketChannels simpleMode =
     set (filter (\<lambda>t. (t \<noteq> ''simple'' \<and> \<not> simpleMode) \<or> (t = ''simple'' \<and> simpleMode)) modeTypes)"

text \<open>
  The dispatch of \<open>receivePacketsFromPeers\<close>: the channel a decoded packet is sent to. The code compares with
  \<open>unknwon\<close>, which no packet has as its type.
\<close>

definition receive_channel :: "bool \<Rightarrow> GossipPacket \<Rightarrow> string option" where
  "receive_channel simpleMode packet =
     (let modeType = getTypeFromGossip packet
      in if modeType \<noteq> ''unknwon'' then
           if (modeType = ''simple'' \<and> simpleMode) \<or> (modeType \<noteq> ''simple'' \<and> \<not> simpleMode)
           then Some modeType else None
         else None)"

text \<open>
  Dispatch: outside simple mode every packet with a non-nil field other than \<open>Simple\<close> goes to a channel
  that \<open>initPacketChannels\<close> created, while an empty packet, which any datagram that fails to decode leaves behind, is sent to a
  channel that does not exist: the guard misspells \<open>unknown\<close>, and the sending goroutine blocks for ever.
\<close>

theorem receive_dispatch:
  "(gp_Simple p = None \<longrightarrow> receive_channel False p = Some (getTypeFromGossip p)) \<and>
   (gp_Simple p = None \<and> p \<noteq> empty_packet \<longrightarrow> getTypeFromGossip p \<in> initPacketChannels False) \<and>
   receive_channel False empty_packet = Some ''unknown'' \<and> ''unknown'' \<notin> initPacketChannels False"
proof (intro conjI impI)
  assume s: "gp_Simple p = None"
  then show "receive_channel False p = Some (getTypeFromGossip p)"
    by (simp add: receive_channel_def getTypeFromGossip_def Let_def)
next
  assume a: "gp_Simple p = None \<and> p \<noteq> empty_packet"
  have "gp_Rumor p \<noteq> None \<or> gp_Status p \<noteq> None \<or> gp_Private p \<noteq> None \<or> gp_DataRequest p \<noteq> None \<or> gp_DataReply p \<noteq> None \<or>
      gp_SearchRequest p \<noteq> None \<or> gp_SearchReply p \<noteq> None \<or> gp_TLCMessage p \<noteq> None \<or> gp_Ack p \<noteq> None \<or>
      gp_WhisperPacket p \<noteq> None \<or> gp_WhisperStatus p \<noteq> None \<or> gp_DStoreMessage p \<noteq> None"
    using a by (cases p) (auto simp: empty_packet_def)
  with a show "getTypeFromGossip p \<in> initPacketChannels False"
    by (simp add: getTypeFromGossip_def initPacketChannels_def modeTypes_def) auto
next
  show "receive_channel False empty_packet = Some ''unknown''"
    by (simp add: receive_channel_def getTypeFromGossip_def empty_packet_def)
  show "''unknown'' \<notin> initPacketChannels False"
    by (simp add: initPacketChannels_def modeTypes_def)
qed

theorem receive_dispatch_witness:
  "getTypeFromGossip (empty_packet\<lparr>gp_Status := Some \<lparr>st_Want = []\<rparr>\<rparr>) \<in> initPacketChannels False"
proof -
  have "empty_packet\<lparr>gp_Status := Some \<lparr>st_Want = []\<rparr>\<rparr> \<noteq> empty_packet" by (simp add: empty_packet_def)
  then show ?thesis
    using receive_dispatch [of "empty_packet\<lparr>gp_Status := Some \<lparr>st_Want = []\<rparr>\<rparr>"] by (simp add: empty_packet_def)
qed

end
