(* ===== verification/Gossip.thy ===== *)
theory Gossip
  imports Packets
begin

text \<open>
  Message storage and vector clocks of the gossip protocol (\<open>src/gossiper/gossiphandler.go\<close>,
  \<open>src/gossiper/status.go\<close>). A \<open>sync.Map\<close> or a Go map is a partial map; where the code ranges over a map, the
  order the run time picks is an argument that enumerates it. The loop of \<open>updateStatus\<close> ends only if an
  identifier is missing, so it is a partial function. The abstract contract of the clock is that the
  entry of an origin is its least unknown identifier (\<open>least_unknown\<close>).
\<close>

section \<open>State and operations\<close>

record GossipHandler =
  gh_seqID :: uint32
  gh_messageStorage :: "string \<rightharpoonup> (uint32 \<rightharpoonup> GossipPacket)"
  gh_Entries :: "string \<rightharpoonup> uint32"

definition NewGossipHandler :: GossipHandler where
  "NewGossipHandler = \<lparr>gh_seqID = 1, gh_messageStorage = Map.empty, gh_Entries = Map.empty\<rparr>"

partial_function (option) updateStatus_loop :: "(uint32 \<rightharpoonup> GossipPacket) \<Rightarrow> uint32 \<Rightarrow> uint32 option" where
  "updateStatus_loop mapValue maxID =
     (let maxID' = maxID + 1
      in if mapValue maxID' \<noteq> None then updateStatus_loop mapValue maxID' else Some maxID')"

definition updateStatus ::
  "GossipHandler \<Rightarrow> string \<Rightarrow> uint32 \<Rightarrow> (uint32 \<rightharpoonup> GossipPacket) \<Rightarrow> GossipHandler option" where
  "updateStatus gh origin i mapValue =
     (let maxID = (case gh_Entries gh origin of None \<Rightarrow> 1 | Some v \<Rightarrow> v)
      in if maxID \<le> i \<and> mapValue maxID \<noteq> None then
           Option.bind (updateStatus_loop mapValue maxID) (\<lambda>n.
             Some (gh\<lparr>gh_Entries := (gh_Entries gh)(origin \<mapsto> n)\<rparr>))
         else Some gh)"

text \<open>The result tells whether the message was known (\<open>LoadOrStore\<close>'s \<open>loaded\<close>).\<close>

definition storeMessage ::
  "GossipHandler \<Rightarrow> GossipPacket \<Rightarrow> string \<Rightarrow> uint32 \<Rightarrow> (bool \<times> GossipHandler) option" where
  "storeMessage gh packet origin i =
     (let mapValue = (case gh_messageStorage gh origin of None \<Rightarrow> Map.empty | Some m \<Rightarrow> m);
          loaded = (mapValue i \<noteq> None);
          mapValue' = (if loaded then mapValue else mapValue(i \<mapsto> packet));
          gh' = gh\<lparr>gh_messageStorage := (gh_messageStorage gh)(origin \<mapsto> mapValue')\<rparr>
      in Option.bind (updateStatus gh' origin i mapValue') (\<lambda>gh''. Some (loaded, gh'')))"

definition createMyStatusPacket :: "(string \<times> uint32) list \<Rightarrow> StatusPacket" where
  "createMyStatusPacket order = \<lparr>st_Want = map (\<lambda>(origin, n). \<lparr>ps_Identifier = origin, ps_NextID = n\<rparr>) order\<rparr>"

fun getPeerStatusForPeer_loop :: "(string \<rightharpoonup> uint32) \<Rightarrow> (string \<times> uint32) list \<Rightarrow> PeerStatus option" where
  "getPeerStatusForPeer_loop originIDMap [] = None"
| "getPeerStatusForPeer_loop originIDMap ((origin, nextID) # rest) =
     (case originIDMap origin of
        None \<Rightarrow> Some \<lparr>ps_Identifier = origin, ps_NextID = 1\<rparr>
      | Some i \<Rightarrow> if nextID > i then Some \<lparr>ps_Identifier = origin, ps_NextID = i\<rparr>
                  else getPeerStatusForPeer_loop originIDMap rest)"

definition status_entry :: "(string \<rightharpoonup> uint32) \<Rightarrow> PeerStatus \<Rightarrow> string \<rightharpoonup> uint32" where
  "status_entry m elem = m(ps_Identifier elem \<mapsto> ps_NextID elem)"

definition getPeerStatusForPeer :: "(string \<times> uint32) list \<Rightarrow> PeerStatus list \<Rightarrow> PeerStatus option" where
  "getPeerStatusForPeer order otherStatus =
     getPeerStatusForPeer_loop (foldl status_entry Map.empty otherStatus) order"

fun checkIfINeedPeerStatus :: "(string \<rightharpoonup> uint32) \<Rightarrow> PeerStatus list \<Rightarrow> bool" where
  "checkIfINeedPeerStatus entries [] = False"
| "checkIfINeedPeerStatus entries (elem # rest) =
     (case entries (ps_Identifier elem) of
        None \<Rightarrow> True
      | Some i \<Rightarrow> if ps_NextID elem > i then True else checkIfINeedPeerStatus entries rest)"

text \<open>Both type assertions panic on the nil interface that a missing key yields.\<close>

definition getPacketFromPeerStatus :: "GossipHandler \<Rightarrow> PeerStatus \<Rightarrow> GossipPacket go" where
  "getPacketFromPeerStatus gh ps =
     (case gh_messageStorage gh (ps_Identifier ps) of
        None \<Rightarrow> Inl FailedTypeAssertion
      | Some idMessages \<Rightarrow>
          (case idMessages (ps_NextID ps) of None \<Rightarrow> Inl FailedTypeAssertion | Some message \<Rightarrow> Inr message))"

text \<open>
  Own messages take the next sequence number. The code reads the number and advances it in two atomic operations, \<open>load_seqID\<close> and
  \<open>add_seqID\<close>, between which other goroutines may run; what a publisher does with the number \<open>i\<close> it has read is the rest.
  \<open>self\<close> and \<open>addr\<close> are the node's name and address. The whole functions are the three parts in a row.
\<close>

definition load_seqID :: "GossipHandler \<Rightarrow> uint32" where
  "load_seqID gh = gh_seqID gh"

definition add_seqID :: "GossipHandler \<Rightarrow> GossipHandler" where
  "add_seqID gh = gh\<lparr>gh_seqID := gh_seqID gh + 1\<rparr>"

definition publish_rumor ::
  "string \<Rightarrow> address \<Rightarrow> GossipHandler \<Rightarrow> uint32 \<Rightarrow> string \<Rightarrow> (ExtendedGossipPacket \<times> GossipHandler) option" where
  "publish_rumor self addr gh i text =
     (let rumorPacket = \<lparr>rum_Origin = self, rum_ID = i, rum_Text = text\<rparr>;
          extPacket = \<lparr>ext_Packet = empty_packet\<lparr>gp_Rumor := Some rumorPacket\<rparr>, ext_SenderAddr = addr\<rparr>
      in Option.bind (storeMessage gh (ext_Packet extPacket) self i) (\<lambda>(_, gh').
           Some (extPacket, gh')))"

definition publish_status :: "string \<Rightarrow> GossipHandler \<Rightarrow> uint32 \<Rightarrow> WhisperStatus \<Rightarrow> (GossipPacket \<times> GossipHandler) option" where
  "publish_status self gh i status =
     (let packet = empty_packet\<lparr>gp_WhisperStatus := Some (status\<lparr>ws_Origin := self, ws_ID := i\<rparr>)\<rparr>
      in Option.bind (storeMessage gh packet self i) (\<lambda>(_, gh'). Some (packet, gh')))"

definition CreateRumorMessage ::
  "string \<Rightarrow> address \<Rightarrow> GossipHandler \<Rightarrow> string \<Rightarrow> (ExtendedGossipPacket \<times> GossipHandler) option" where
  "CreateRumorMessage self addr gh text = (let i = load_seqID gh; gh' = add_seqID gh in publish_rumor self addr gh' i text)"

definition SendWhisperStatus ::
  "string \<Rightarrow> GossipHandler \<Rightarrow> WhisperStatus \<Rightarrow> (GossipPacket \<times> GossipHandler) option" where
  "SendWhisperStatus self gh status = (let i = load_seqID gh; gh' = add_seqID gh in publish_status self gh' i status)"

section \<open>The least unknown identifier\<close>

definition stored :: "GossipHandler \<Rightarrow> string \<Rightarrow> uint32 \<rightharpoonup> GossipPacket" where
  "stored gh origin = (case gh_messageStorage gh origin of None \<Rightarrow> Map.empty | Some m \<Rightarrow> m)"

definition least_unknown :: "(uint32 \<rightharpoonup> GossipPacket) \<Rightarrow> uint32" where
  "least_unknown m = (LEAST i. i \<noteq> 0 \<and> m i = None)"

definition room :: "(uint32 \<rightharpoonup> GossipPacket) \<Rightarrow> bool" where
  "room m \<longleftrightarrow> (\<exists>i. i \<noteq> 0 \<and> m i = None)"

definition clock_inv :: "GossipHandler \<Rightarrow> bool" where
  "clock_inv gh \<longleftrightarrow> (\<forall>origin. room (stored gh origin) \<and>
     gh_Entries gh origin = (if stored gh origin 1 = None then None else Some (least_unknown (stored gh origin))))"

lemma least_unknownI:
  assumes "room m"
  shows "least_unknown m \<noteq> 0" "m (least_unknown m) = None" "i \<noteq> 0 \<Longrightarrow> i < least_unknown m \<Longrightarrow> m i \<noteq> None"
proof -
  have "least_unknown m \<noteq> 0 \<and> m (least_unknown m) = None"
    unfolding least_unknown_def by (rule LeastI_ex [OF assms [unfolded room_def]])
  then show "least_unknown m \<noteq> 0" "m (least_unknown m) = None" by simp_all
  show "i \<noteq> 0 \<Longrightarrow> i < least_unknown m \<Longrightarrow> m i \<noteq> None"
    unfolding least_unknown_def using not_less_Least [of i "\<lambda>i. i \<noteq> 0 \<and> m i = None"] by simp
qed

lemma least_unknown_eq:
  "v \<noteq> 0 \<Longrightarrow> m v = None \<Longrightarrow> (\<And>i. i \<noteq> 0 \<Longrightarrow> i < v \<Longrightarrow> m i \<noteq> None) \<Longrightarrow> least_unknown m = v"
  unfolding least_unknown_def by (rule Least_equality) (simp, metis not_less)

lemma word_one_less: "(v :: uint32) \<noteq> 0 \<Longrightarrow> v \<noteq> 1 \<Longrightarrow> 1 < v"
  by (metis linorder_neqE word_less_1)

lemma updateStatus_loop_least:
  assumes r: "room m"
  shows "k < least_unknown m \<Longrightarrow> updateStatus_loop m k = Some (least_unknown m)"
proof (induction "unat (least_unknown m) - unat k" arbitrary: k rule: less_induct)
  case less
  let ?n = "least_unknown m"
  have kn: "unat k < unat ?n" using less.prems by (simp add: word_less_nat_alt)
  moreover have "unat ?n < 2 ^ 32" using unsigned_less [of ?n] by simp
  ultimately have k: "unat (k + 1) = unat k + 1" "unat k < unat ?n"
    by (simp_all add: unat_word_ariths)
  then have le: "k + 1 \<le> ?n" "k + 1 \<noteq> 0" by (auto simp: word_le_nat_alt)
  show ?case
  proof (cases "k + 1 = ?n")
    case True
    then show ?thesis
      using least_unknownI(2) [OF r] by (subst updateStatus_loop.simps) (simp add: Let_def)
  next
    case False
    then have lt: "k + 1 < ?n" using le by simp
    then have "updateStatus_loop m (k + 1) = Some ?n" using k less.hyps [of "k + 1"] by simp
    moreover have "m (k + 1) \<noteq> None" by (rule least_unknownI(3) [OF r le(2) lt])
    ultimately show ?thesis by (subst updateStatus_loop.simps) (simp add: Let_def)
  qed
qed

lemma updateStatus_clock:
  assumes r: "room m'" and old: "gh_Entries gh origin = (if m 1 = None then None else Some (least_unknown m))" "room m"
    and m': "m' = (if m i = None then m(i \<mapsto> p) else m)"
  shows "updateStatus gh origin i m' =
    Some (gh\<lparr>gh_Entries := (gh_Entries gh)(origin := (if m' 1 = None then None else Some (least_unknown m')))\<rparr>)"
proof -
  define v where "v = (case gh_Entries gh origin of None \<Rightarrow> 1 | Some v \<Rightarrow> v)"
  have v: "v \<noteq> 0" "m v = None" "\<And>j. j \<noteq> 0 \<Longrightarrow> j < v \<Longrightarrow> m j \<noteq> None"
    using old least_unknownI [OF old(2)] by (auto simp: v_def word_less_1 split: if_splits)
  have sub: "\<And>j. m j \<noteq> None \<Longrightarrow> m' j \<noteq> None" using m' by auto
  show ?thesis
  proof (cases "v \<le> i \<and> m' v \<noteq> None")
    case True
    have "v < least_unknown m'"
      using least_unknownI(1,2) [OF r] v sub True by (metis linorder_neqE)
    then have "updateStatus gh origin i m' = Some (gh\<lparr>gh_Entries := (gh_Entries gh)(origin \<mapsto> least_unknown m')\<rparr>)"
      using True updateStatus_loop_least [OF r] by (simp add: updateStatus_def v_def [symmetric] Let_def)
    moreover have "m' 1 \<noteq> None"
      using True v(3) [of 1] sub [of 1] word_one_less [OF v(1)] by (cases "v = 1") auto
    ultimately show ?thesis by auto
  next
    case False
    have "i \<noteq> v \<or> m' v = None" using False by auto
    then have v': "m' v = None" using m' v(2) by (auto split: if_splits)
    then have lu: "least_unknown m' = v" using v sub by (intro least_unknown_eq) auto
    have "gh_Entries gh origin = (if m' 1 = None then None else Some v)"
      using old(1) v' m' v_def least_unknownI [OF old(2)] by (auto split: if_splits)
    then have "gh\<lparr>gh_Entries := (gh_Entries gh)(origin := (if m' 1 = None then None else Some (least_unknown m')))\<rparr> = gh"
      using lu by (simp add: fun_upd_idem)
    with False show ?thesis by (auto simp: updateStatus_def v_def [symmetric] Let_def)
  qed
qed

section \<open>Storing a message\<close>

lemma clock_inv_New: "clock_inv NewGossipHandler"
  by (simp add: clock_inv_def NewGossipHandler_def stored_def room_def) (metis zero_neq_one)

lemma storeMessage_clock:
  assumes inv: "clock_inv gh" and r: "\<exists>j. j \<noteq> 0 \<and> j \<noteq> i \<and> stored gh origin j = None"
  shows "\<exists>gh'. storeMessage gh p origin i = Some (stored gh origin i \<noteq> None, gh') \<and> clock_inv gh' \<and>
    gh_seqID gh' = gh_seqID gh \<and>
    stored gh' = (stored gh)(origin := (if stored gh origin i = None then (stored gh origin)(i \<mapsto> p) else stored gh origin))"
proof -
  let ?m = "stored gh origin"
  define m' where "m' = (if ?m i = None then ?m(i \<mapsto> p) else ?m)"
  let ?gh = "gh\<lparr>gh_messageStorage := (gh_messageStorage gh)(origin \<mapsto> m')\<rparr>"
  let ?e = "if m' 1 = None then None else Some (least_unknown m')"
  let ?gh' = "?gh\<lparr>gh_Entries := (gh_Entries ?gh)(origin := ?e)\<rparr>"
  have old: "gh_Entries ?gh origin = (if ?m 1 = None then None else Some (least_unknown ?m))" "room ?m"
    using inv by (simp_all add: clock_inv_def)
  have r': "room m'" using r by (auto simp: room_def m'_def)
  have "updateStatus ?gh origin i m' = Some ?gh'"
    by (rule updateStatus_clock [OF r' old]) (simp add: m'_def)
  moreover have "storeMessage gh p origin i =
      Option.bind (updateStatus ?gh origin i m') (\<lambda>gh''. Some (?m i \<noteq> None, gh''))"
    by (cases "?m i") (simp_all add: storeMessage_def Let_def stored_def [symmetric] m'_def)
  ultimately have s: "storeMessage gh p origin i = Some (?m i \<noteq> None, ?gh')" by simp
  have st: "stored ?gh' = (stored gh)(origin := m')"
    by (rule ext) (simp add: stored_def)
  have "clock_inv ?gh'"
    using inv r' unfolding clock_inv_def st by simp
  with s st show ?thesis by (intro exI [of _ ?gh']) (simp add: m'_def)
qed

text \<open>
  Claim C12. Storing a gossip message ends, reports whether it was known, never replaces a stored message, and
  keeps the vector clock exact: the entry of every origin is its least unknown identifier, and absent
  while message 1 is missing. The only condition is that some identifier of the origin stays free.
\<close>

theorem storeMessage_keeps_clock:
  assumes "clock_inv gh" and "\<exists>j. j \<noteq> 0 \<and> j \<noteq> i \<and> stored gh origin j = None"
  shows "\<exists>gh'. storeMessage gh p origin i = Some (stored gh origin i \<noteq> None, gh') \<and> clock_inv gh' \<and>
    (\<forall>o' j. stored gh' o' j = (if o' = origin \<and> j = i \<and> stored gh origin i = None then Some p else stored gh o' j))"
  using storeMessage_clock [OF assms, of p] by auto

theorem storeMessage_keeps_clock_witness:
  "\<exists>gh'. storeMessage NewGossipHandler empty_packet ''a'' 1 = Some (False, gh') \<and> clock_inv gh'"
proof -
  have "\<exists>j. j \<noteq> 0 \<and> j \<noteq> 1 \<and> stored NewGossipHandler ''a'' j = None"
    by (rule exI [of _ 2]) (simp add: stored_def NewGossipHandler_def)
  from storeMessage_keeps_clock [OF clock_inv_New this, of empty_packet] show ?thesis
    by (auto simp: stored_def NewGossipHandler_def)
qed

section \<open>Anti-entropy\<close>

text \<open>An enumeration of a vector clock, in the order a Go \<open>range\<close> happens to produce.\<close>

definition enumerates :: "(string \<times> uint32) list \<Rightarrow> (string \<rightharpoonup> uint32) \<Rightarrow> bool" where
  "enumerates order entries \<longleftrightarrow> distinct (map fst order) \<and> map_of order = entries"

lemma status_map:
  "distinct (map fst order) \<Longrightarrow>
   foldl status_entry m (st_Want (createMyStatusPacket order)) = m ++ map_of order"
proof (induction order arbitrary: m)
  case Nil
  then show ?case by (simp add: createMyStatusPacket_def)
next
  case (Cons p order)
  obtain origin n where p: "p = (origin, n)" by fastforce
  have "map_of order origin = None" using Cons.prems p by (simp add: map_of_eq_None_iff)
  then have "m(origin \<mapsto> n) ++ map_of order = m ++ (map_of order)(origin \<mapsto> n)"
    by (auto simp: map_add_def fun_eq_iff split: option.splits)
  moreover have "foldl status_entry m (st_Want (createMyStatusPacket (p # order))) =
      foldl status_entry (m(origin \<mapsto> n)) (st_Want (createMyStatusPacket order))"
    by (simp add: createMyStatusPacket_def p status_entry_def)
  ultimately show ?case using Cons p by (simp del: fun_upd_apply)
qed

lemma getPeerStatusForPeer_loop_Some:
  assumes "getPeerStatusForPeer_loop m order = Some ps"
  shows "\<exists>n. (ps_Identifier ps, n) \<in> set order \<and>
    ps_NextID ps = (case m (ps_Identifier ps) of None \<Rightarrow> 1 | Some i \<Rightarrow> i) \<and>
    (\<forall>i. m (ps_Identifier ps) = Some i \<longrightarrow> i < n)"
  using assms
proof (induction order)
  case Nil
  then show ?case by simp
next
  case (Cons p order)
  obtain origin n where p: "p = (origin, n)" by fastforce
  show ?case
  proof (cases "m origin")
    case None
    with Cons.prems p show ?thesis by auto
  next
    case (Some i)
    with Cons p show ?thesis by (cases "i < n") auto
  qed
qed

lemma getPeerStatusForPeer_loop_None:
  "getPeerStatusForPeer_loop m order = None \<longleftrightarrow> (\<forall>(origin, n) \<in> set order. \<exists>i. m origin = Some i \<and> n \<le> i)"
  by (induction order) (auto split: option.splits if_splits)

lemma checkIfINeed_iff:
  "\<not> checkIfINeedPeerStatus entries want \<longleftrightarrow>
   (\<forall>e \<in> set want. \<exists>i. entries (ps_Identifier e) = Some i \<and> ps_NextID e \<le> i)"
  by (induction want) (auto split: option.splits if_splits)

lemma map_of_mem: "distinct (map fst xs) \<Longrightarrow> (a, b) \<in> set xs \<longleftrightarrow> map_of xs a = Some b"
  by (metis map_of_SomeD map_of_is_SomeI)

text \<open>
  Two nodes stop exchanging (neither has anything the other lacks) exactly when their vector clocks
  are equal, whatever the order in which the maps are ranged over.
\<close>

theorem in_sync_iff:
  assumes a: "enumerates orderA A" and b: "enumerates orderB B"
  shows "getPeerStatusForPeer orderA (st_Want (createMyStatusPacket orderB)) = None \<and>
    \<not> checkIfINeedPeerStatus A (st_Want (createMyStatusPacket orderB)) \<longleftrightarrow> A = B"
proof -
  have m: "foldl status_entry Map.empty (st_Want (createMyStatusPacket orderB)) = B"
    using b status_map [of orderB Map.empty] by (simp add: enumerates_def)
  have sa: "(origin, n) \<in> set orderA \<longleftrightarrow> A origin = Some n" for origin n
    using a map_of_mem [of orderA origin n] by (simp add: enumerates_def)
  have sb: "(origin, n) \<in> set orderB \<longleftrightarrow> B origin = Some n" for origin n
    using b map_of_mem [of orderB origin n] by (simp add: enumerates_def)
  have g: "getPeerStatusForPeer orderA (st_Want (createMyStatusPacket orderB)) = None \<longleftrightarrow>
      (\<forall>origin n. A origin = Some n \<longrightarrow> (\<exists>i. B origin = Some i \<and> n \<le> i))"
    unfolding getPeerStatusForPeer_def m getPeerStatusForPeer_loop_None using sa by fast
  have n: "\<not> checkIfINeedPeerStatus A (st_Want (createMyStatusPacket orderB)) \<longleftrightarrow>
      (\<forall>origin n. B origin = Some n \<longrightarrow> (\<exists>i. A origin = Some i \<and> n \<le> i))"
  proof -
    have "(\<forall>e \<in> set (st_Want (createMyStatusPacket orderB)). \<exists>i. A (ps_Identifier e) = Some i \<and> ps_NextID e \<le> i) \<longleftrightarrow>
        (\<forall>(origin, n) \<in> set orderB. \<exists>i. A origin = Some i \<and> n \<le> i)"
      by (auto simp: createMyStatusPacket_def case_prod_unfold)
    then show ?thesis unfolding checkIfINeed_iff using sb by fast
  qed
  show ?thesis
  proof
    assume "A = B"
    then show "getPeerStatusForPeer orderA (st_Want (createMyStatusPacket orderB)) = None \<and>
        \<not> checkIfINeedPeerStatus A (st_Want (createMyStatusPacket orderB))"
      unfolding g n by auto
  next
    assume "getPeerStatusForPeer orderA (st_Want (createMyStatusPacket orderB)) = None \<and>
        \<not> checkIfINeedPeerStatus A (st_Want (createMyStatusPacket orderB))"
    then have ab: "\<And>origin n. A origin = Some n \<Longrightarrow> \<exists>i. B origin = Some i \<and> n \<le> i"
      and ba: "\<And>origin n. B origin = Some n \<Longrightarrow> \<exists>i. A origin = Some i \<and> n \<le> i"
      unfolding g n by auto
    show "A = B"
    proof
      fix origin
      show "A origin = B origin"
        using ab [of origin] ba [of origin]
        by (cases "A origin"; cases "B origin") auto
    qed
  qed
qed

theorem in_sync_iff_witness:
  "getPeerStatusForPeer [(''a'', 3), (''b'', 2)] (st_Want (createMyStatusPacket [(''b'', 2), (''a'', 3)])) = None"
proof -
  have "enumerates [(''a'', 3), (''b'', 2)] [''a'' \<mapsto> 3, ''b'' \<mapsto> 2]"
    "enumerates [(''b'', 2), (''a'', 3)] [''a'' \<mapsto> 3, ''b'' \<mapsto> 2]"
    by (auto simp: enumerates_def fun_eq_iff)
  from in_sync_iff [OF this] show ?thesis by simp
qed

text \<open>
  Claim C11. Anti-entropy makes progress. If node A answers node B's status with a message, it has that message
  (no panic), B lacks it, and storing it strictly raises B's entry of that origin; A only ever sends the identifier B is
  waiting for, so B's clock never has a gap.
\<close>

theorem anti_entropy_step:
  assumes A: "clock_inv A" "enumerates orderA (gh_Entries A)" and B: "clock_inv B" "enumerates orderB (gh_Entries B)"
    and ps: "getPeerStatusForPeer orderA (st_Want (createMyStatusPacket orderB)) = Some ps"
    and r: "\<exists>j. j \<noteq> 0 \<and> j \<noteq> ps_NextID ps \<and> stored B (ps_Identifier ps) j = None"
  shows "\<exists>p B' n. getPacketFromPeerStatus A ps = Inr p \<and>
    storeMessage B p (ps_Identifier ps) (ps_NextID ps) = Some (False, B') \<and> clock_inv B' \<and>
    gh_Entries B' (ps_Identifier ps) = Some n \<and> ps_NextID ps < n \<and>
    (\<forall>i. gh_Entries B (ps_Identifier ps) = Some i \<longrightarrow> i < n)"
proof -
  let ?o = "ps_Identifier ps" and ?i = "ps_NextID ps"
  have m: "foldl status_entry Map.empty (st_Want (createMyStatusPacket orderB)) = gh_Entries B"
    using B(2) status_map [of orderB Map.empty] by (simp add: enumerates_def)
  obtain n where n: "(?o, n) \<in> set orderA" "?i = (case gh_Entries B ?o of None \<Rightarrow> 1 | Some i \<Rightarrow> i)"
    "\<forall>i. gh_Entries B ?o = Some i \<longrightarrow> i < n"
    using getPeerStatusForPeer_loop_Some [OF ps [unfolded getPeerStatusForPeer_def m]] by blast
  have An: "gh_Entries A ?o = Some n" using A(2) n(1) by (metis enumerates_def map_of_mem)
  have rA: "room (stored A ?o)" and rB: "room (stored B ?o)" using A(1) B(1) by (simp_all add: clock_inv_def)
  have A1: "stored A ?o 1 \<noteq> None" "n = least_unknown (stored A ?o)"
    using A(1) An by (auto simp: clock_inv_def split: if_splits)
  have eB: "gh_Entries B ?o = (if stored B ?o 1 = None then None else Some (least_unknown (stored B ?o)))"
    using B(1) by (simp add: clock_inv_def)
  have i0: "?i \<noteq> 0" using n(2) eB least_unknownI(1) [OF rB] by (auto split: if_splits)
  have lack: "stored B ?o ?i = None" using n(2) eB least_unknownI(2) [OF rB] by (auto split: if_splits)
  have iv: "?i \<noteq> 1 \<longrightarrow> stored B ?o 1 \<noteq> None" using n(2) eB by (auto split: if_splits)
  have "?i = 1 \<or> ?i < n" using n(2,3) by (auto split: option.splits)
  then obtain p where p: "stored A ?o ?i = Some p"
    using A1 least_unknownI(3) [OF rA i0] by auto
  then have "getPacketFromPeerStatus A ps = Inr p"
    by (auto simp: getPacketFromPeerStatus_def stored_def split: option.splits)
  moreover obtain B' where B': "storeMessage B p ?o ?i = Some (False, B')" "clock_inv B'"
    "stored B' = (stored B)(?o := (stored B ?o)(?i \<mapsto> p))"
    using storeMessage_clock [OF B(1) r, of p] lack by auto
  have rB': "room (stored B' ?o)" and e': "gh_Entries B' ?o = (if stored B' ?o 1 = None then None else Some (least_unknown (stored B' ?o)))"
    using B'(2) by (simp_all add: clock_inv_def)
  have "gh_Entries B' ?o = Some (least_unknown (stored B' ?o))" using e' iv B'(3) by auto
  moreover have lt: "?i < least_unknown (stored B' ?o)"
  proof (rule ccontr)
    let ?l = "least_unknown (stored B' ?o)"
    assume "\<not> ?i < ?l"
    moreover have "?l \<noteq> ?i" using least_unknownI(2) [OF rB'] B'(3) by auto
    ultimately have l: "?l < ?i" by simp
    then have "?i \<noteq> 1" using least_unknownI(1) [OF rB'] by auto
    then have "?i = least_unknown (stored B ?o)" using n(2) eB by (auto split: if_splits)
    then have "stored B ?o ?l \<noteq> None" using least_unknownI(3) [OF rB least_unknownI(1) [OF rB']] l by simp
    moreover have "stored B' ?o j = stored B ?o j" if "j \<noteq> ?i" for j using that B'(3) by simp
    ultimately show False using least_unknownI(2) [OF rB'] less_imp_neq [OF l] by metis
  qed
  moreover have "\<forall>i. gh_Entries B ?o = Some i \<longrightarrow> i < least_unknown (stored B' ?o)"
    using lt n(2) by (cases "gh_Entries B ?o") simp_all
  ultimately show ?thesis using B'(1,2) by blast
qed

text \<open>
  A status entry with \<open>NextID\<close> 0, which no honest node sends but nothing rejects, makes the receiver
  look up a message numbered 0 and fail a type assertion, as soon as it knows the origin.
\<close>

theorem status_zero_panics:
  assumes "gh_Entries gh origin = Some n" "0 < n" "stored gh origin 0 = None" "order = [(origin, n)]"
  shows "\<exists>ps. getPeerStatusForPeer order [\<lparr>ps_Identifier = origin, ps_NextID = 0\<rparr>] = Some ps \<and>
    getPacketFromPeerStatus gh ps = Inl FailedTypeAssertion"
  using assms
  by (auto simp: getPeerStatusForPeer_def getPacketFromPeerStatus_def stored_def status_entry_def split: option.splits)

theorem anti_entropy_step_witness:
  "\<exists>A order ps p. clock_inv A \<and>
    getPeerStatusForPeer order (st_Want (createMyStatusPacket [])) = Some ps \<and> getPacketFromPeerStatus A ps = Inr p"
proof -
  have r: "\<exists>j. j \<noteq> 0 \<and> j \<noteq> 1 \<and> stored NewGossipHandler ''a'' j = None"
    by (rule exI [of _ 2]) (simp add: stored_def NewGossipHandler_def)
  obtain A where A: "clock_inv A" "stored A = (stored NewGossipHandler)(''a'' := [1 \<mapsto> empty_packet])"
    using storeMessage_clock [OF clock_inv_New r, of empty_packet] by (auto simp: stored_def NewGossipHandler_def)
  have "gh_Entries A origin = (if origin = ''a'' then Some (least_unknown [1 \<mapsto> empty_packet]) else None)" for origin
    using A by (simp add: clock_inv_def stored_def NewGossipHandler_def)
  then have e: "enumerates [(''a'', least_unknown [1 \<mapsto> empty_packet])] (gh_Entries A)"
    by (auto simp: enumerates_def fun_eq_iff)
  have B: "enumerates [] (gh_Entries NewGossipHandler)" by (simp add: enumerates_def NewGossipHandler_def)
  have ps: "getPeerStatusForPeer [(''a'', least_unknown [1 \<mapsto> empty_packet])] (st_Want (createMyStatusPacket [])) =
      Some \<lparr>ps_Identifier = ''a'', ps_NextID = 1\<rparr>"
    by (simp add: getPeerStatusForPeer_def createMyStatusPacket_def)
  from anti_entropy_step [OF A(1) e clock_inv_New B this] r show ?thesis
    using A(1) ps by fastforce
qed

theorem status_zero_panics_witness:
  "\<exists>ps. getPeerStatusForPeer [(''a'', 2)] [\<lparr>ps_Identifier = ''a'', ps_NextID = 0\<rparr>] = Some ps \<and>
    getPacketFromPeerStatus (NewGossipHandler\<lparr>gh_Entries := [''a'' \<mapsto> 2]\<rparr>) ps = Inl FailedTypeAssertion"
  by (rule status_zero_panics) (simp_all add: stored_def NewGossipHandler_def)

end
