(* ===== verification/Routing.thy ===== *)
theory Routing
  imports Gossip
begin

text \<open>
  Destination routing of the gossiper (\<open>src/gossiper/routinghandler.go\<close>) and the peer list
  (\<open>src/gossiper/peers.go\<close>). The locale \<open>freshness_filter\<close> is the contract of \<open>updateLastOriginID\<close>: accept exactly
  the identifiers above the last one of their origin. It is interpreted for the gossiper here and for the
  Whisper routing handler in its own theory.
\<close>

section \<open>Fresh identifiers\<close>

fun accepted :: "((string \<rightharpoonup> uint32) \<Rightarrow> string \<Rightarrow> uint32 \<Rightarrow> bool \<times> (string \<rightharpoonup> uint32)) \<Rightarrow> (string \<rightharpoonup> uint32) \<Rightarrow>
    (string \<times> uint32 \<times> 'a) list \<Rightarrow> (string \<times> uint32 \<times> 'a) list" where
  "accepted upd m [] = []"
| "accepted upd m ((origin, i, a) # us) =
     (case upd m origin i of (isNew, m') \<Rightarrow>
        if isNew then (origin, i, a) # accepted upd m' us else accepted upd m' us)"

locale freshness_filter =
  fixes upd :: "(string \<rightharpoonup> uint32) \<Rightarrow> string \<Rightarrow> uint32 \<Rightarrow> bool \<times> (string \<rightharpoonup> uint32)"
  assumes fresh_iff: "fst (upd m origin i) \<longleftrightarrow> (\<forall>j. m origin = Some j \<longrightarrow> j < i)"
    and fresh_upd: "snd (upd m origin i) = (if fst (upd m origin i) then m(origin \<mapsto> i) else m)"
begin

lemma upd_cases: "upd m origin i = (\<forall>j. m origin = Some j \<longrightarrow> j < i, if \<forall>j. m origin = Some j \<longrightarrow> j < i then m(origin \<mapsto> i) else m)"
  by (rule prod_eqI) (simp_all add: fresh_iff fresh_upd)

lemma accepted_above:
  "(origin, i, a) \<in> set (accepted upd m us) \<Longrightarrow> m origin = Some j \<Longrightarrow> j < i"
proof (induction us arbitrary: m j)
  case Nil
  then show ?case by simp
next
  case (Cons u us)
  obtain o' i' a' where u: "u = (o', i', a')" by (metis surj_pair)
  show ?case
  proof (cases "\<forall>j. m o' = Some j \<longrightarrow> j < i'")
    case True
    then have up: "upd m o' i' = (True, m(o' \<mapsto> i'))" by (simp add: upd_cases)
    show ?thesis
    proof (cases "(origin, i, a) = (o', i', a')")
      case True
      with Cons.prems(2) \<open>\<forall>j. m o' = Some j \<longrightarrow> j < i'\<close> show ?thesis by auto
    next
      case False
      then have mem: "(origin, i, a) \<in> set (accepted upd (m(o' \<mapsto> i')) us)" using Cons.prems(1) u up by auto
      show ?thesis
      proof (cases "origin = o'")
        case True
        then have "i' < i" using Cons.IH [OF mem, of i'] by simp
        moreover have "j < i'" using True Cons.prems(2) \<open>\<forall>j. m o' = Some j \<longrightarrow> j < i'\<close> by simp
        ultimately show ?thesis by simp
      next
        case False
        with Cons.IH [OF mem, of j] Cons.prems(2) show ?thesis by simp
      qed
    qed
  next
    case False
    then have "upd m o' i' = (False, m)" by (auto simp: upd_cases)
    with Cons u show ?thesis by simp
  qed
qed

text \<open>No update is applied twice, and the updates of an origin are applied in increasing order.\<close>

lemma accepted_increasing:
  "sorted_wrt (\<lambda>(o1, i1, a1) (o2, i2, a2). o1 = o2 \<longrightarrow> i1 < i2) (accepted upd m us)"
proof (induction us arbitrary: m)
  case Nil
  then show ?case by simp
next
  case (Cons u us)
  obtain origin i a where u: "u = (origin, i, a)" by (metis surj_pair)
  show ?case
  proof (cases "\<forall>j. m origin = Some j \<longrightarrow> j < i")
    case True
    then have up: "upd m origin i = (True, m(origin \<mapsto> i))" by (simp add: upd_cases)
    have "\<forall>y \<in> set (accepted upd (m(origin \<mapsto> i)) us). case y of (o2, i2, a2) \<Rightarrow> origin = o2 \<longrightarrow> i < i2"
      using accepted_above [of _ _ _ "m(origin \<mapsto> i)" us] by auto
    with Cons up u show ?thesis by simp
  next
    case False
    then have "upd m origin i = (False, m)" by (auto simp: upd_cases)
    with Cons u show ?thesis by simp
  qed
qed

end

section \<open>The routing handler\<close>

record RoutingHandler =
  rh_routingTable :: "string \<rightharpoonup> address"
  rh_originLastID :: "string \<rightharpoonup> uint32"

definition NewRoutingHandler :: RoutingHandler where
  "NewRoutingHandler = \<lparr>rh_routingTable = Map.empty, rh_originLastID = Map.empty\<rparr>"

definition updateLastOriginID :: "(string \<rightharpoonup> uint32) \<Rightarrow> string \<Rightarrow> uint32 \<Rightarrow> bool \<times> (string \<rightharpoonup> uint32)" where
  "updateLastOriginID entries origin i =
     (case entries origin of
        None \<Rightarrow> (True, entries(origin \<mapsto> i))
      | Some originMaxID \<Rightarrow> if i > originMaxID then (True, entries(origin \<mapsto> i)) else (False, entries))"

definition updateRoutingTable :: "RoutingHandler \<Rightarrow> string \<Rightarrow> uint32 \<Rightarrow> address \<Rightarrow> RoutingHandler" where
  "updateRoutingTable rh origin idPacket addr =
     (case updateLastOriginID (rh_originLastID rh) origin idPacket of (isNew, entries) \<Rightarrow>
        if isNew then \<lparr>rh_routingTable = (rh_routingTable rh)(origin \<mapsto> addr), rh_originLastID = entries\<rparr>
        else rh\<lparr>rh_originLastID := entries\<rparr>)"

text \<open>The new hop limit and the next hop the packet is sent to, if any.\<close>

definition forwardPrivateMessage :: "RoutingHandler \<Rightarrow> uint32 \<Rightarrow> string \<Rightarrow> uint32 \<times> address option" where
  "forwardPrivateMessage rh hopLimit destination =
     (if hopLimit > 0 then (hopLimit - 1, rh_routingTable rh destination) else (hopLimit, None))"

interpretation gossip_ids: freshness_filter updateLastOriginID
  by unfold_locales (auto simp: updateLastOriginID_def split: option.splits)

section \<open>Peers\<close>

text \<open>\<open>resolve\<close> stands for \<open>net.ResolveUDPAddr\<close>, which fails on a malformed address.\<close>

definition createPeersData :: "(string \<Rightarrow> address option) \<Rightarrow> string \<Rightarrow> address list" where
  "createPeersData resolve peers =
     (let peersList = (if peers \<noteq> [] then strings_Split (CHR '','') peers else [])
      in List.map_filter resolve peersList)"

definition AddPeer :: "address \<Rightarrow> address list \<Rightarrow> address \<Rightarrow> address list" where
  "AddPeer self peers peer = (if peer = self then peers else if peer \<in> set peers then peers else peers @ [peer])"

fun GetPeerFromString :: "address list \<Rightarrow> string \<Rightarrow> address option" where
  "GetPeerFromString [] addr = None"
| "GetPeerFromString (p # ps) addr = (if p = addr then Some p else GetPeerFromString ps addr)"

text \<open>\<open>helpers.DifferenceString\<close>: the addresses of the first list that are not in the second.\<close>

definition DifferenceString :: "address list \<Rightarrow> address list \<Rightarrow> address list" where
  "DifferenceString list1 list2 = filter (\<lambda>x. x \<notin> set list2) list1"

lemma AddPeer_distinct: "distinct peers \<Longrightarrow> self \<notin> set peers \<Longrightarrow>
  distinct (AddPeer self peers p) \<and> self \<notin> set (AddPeer self peers p)"
  by (auto simp: AddPeer_def)

section \<open>Freshest routes\<close>

lemma updateRoutingTable_other:
  "o' \<noteq> origin \<Longrightarrow> rh_routingTable (updateRoutingTable rh origin i a) o' = rh_routingTable rh o' \<and>
   rh_originLastID (updateRoutingTable rh origin i a) o' = rh_originLastID rh o'"
  by (auto simp: updateRoutingTable_def updateLastOriginID_def split: option.splits)

lemma updateRoutingTable_fresh:
  "\<forall>j. rh_originLastID rh origin = Some j \<longrightarrow> j < i \<Longrightarrow>
   rh_routingTable (updateRoutingTable rh origin i a) origin = Some a \<and>
   rh_originLastID (updateRoutingTable rh origin i a) origin = Some i"
  by (auto simp: updateRoutingTable_def gossip_ids.upd_cases)

lemma updateRoutingTable_stale:
  "rh_originLastID rh origin = Some j \<Longrightarrow> i \<le> j \<Longrightarrow> updateRoutingTable rh origin i a = rh"
  by (auto simp: updateRoutingTable_def updateLastOriginID_def)

abbreviation run_updates :: "RoutingHandler \<Rightarrow> (string \<times> uint32 \<times> address) list \<Rightarrow> RoutingHandler" where
  "run_updates rh us \<equiv> foldl (\<lambda>rh (origin, i, a). updateRoutingTable rh origin i a) rh us"

lemma run_updates_below:
  "\<forall>(o', j, b) \<in> set us. o' = origin \<longrightarrow> j < i \<Longrightarrow> \<forall>j. rh_originLastID rh origin = Some j \<longrightarrow> j < i \<Longrightarrow>
   \<forall>j. rh_originLastID (run_updates rh us) origin = Some j \<longrightarrow> j < i"
proof (induction us arbitrary: rh)
  case Nil
  then show ?case by simp
next
  case (Cons u us)
  obtain o' k b where u: "u = (o', k, b)" by (metis surj_pair)
  have "\<forall>j. rh_originLastID (updateRoutingTable rh o' k b) origin = Some j \<longrightarrow> j < i"
    using Cons.prems u by (auto simp: updateRoutingTable_def gossip_ids.upd_cases split: if_splits)
  with Cons u show ?case by simp
qed

lemma run_updates_stale:
  "\<forall>(o', j, b) \<in> set us. o' = origin \<longrightarrow> j \<le> i \<Longrightarrow> rh_originLastID rh origin = Some i \<Longrightarrow>
   rh_routingTable (run_updates rh us) origin = rh_routingTable rh origin \<and>
   rh_originLastID (run_updates rh us) origin = Some i"
proof (induction us arbitrary: rh)
  case Nil
  then show ?case by simp
next
  case (Cons u us)
  obtain o' k b where u: "u = (o', k, b)" by (metis surj_pair)
  show ?case
  proof (cases "o' = origin")
    case True
    then have "updateRoutingTable rh o' k b = rh"
      using Cons.prems u by (intro updateRoutingTable_stale) auto
    with Cons u show ?thesis by simp
  next
    case False
    then have "origin \<noteq> o'" by simp
    from updateRoutingTable_other [OF this, of rh k b] Cons u show ?thesis by simp
  qed
qed

text \<open>
  Routes follow the freshest message: after any sequence of updates the next hop of an origin is the
  neighbour through which the highest-numbered message of that origin arrived first; late, repeated and
  reordered updates change nothing.
\<close>

theorem routing_freshest:
  assumes new: "\<forall>j. rh_originLastID rh origin = Some j \<longrightarrow> j < i"
    and before: "\<forall>(o', j, b) \<in> set xs. o' = origin \<longrightarrow> j < i" and after_: "\<forall>(o', j, b) \<in> set ys. o' = origin \<longrightarrow> j \<le> i"
  shows "rh_routingTable (foldl (\<lambda>rh (origin, i, a). updateRoutingTable rh origin i a) rh (xs @ (origin, i, a) # ys)) origin = Some a \<and>
    rh_originLastID (foldl (\<lambda>rh (origin, i, a). updateRoutingTable rh origin i a) rh (xs @ (origin, i, a) # ys)) origin = Some i"
proof -
  let ?rh = "updateRoutingTable (run_updates rh xs) origin i a"
  have "rh_routingTable ?rh origin = Some a" "rh_originLastID ?rh origin = Some i"
    using updateRoutingTable_fresh [OF run_updates_below [OF before new]] by simp_all
  with run_updates_stale [OF after_, of ?rh] show ?thesis by simp
qed

theorem routing_freshest_witness:
  "rh_routingTable (foldl (\<lambda>rh (origin, i, a). updateRoutingTable rh origin i a) NewRoutingHandler
     ([(''x'', 1, ''n1'')] @ (''x'', 3, ''n2'') # [(''x'', 3, ''n3''), (''x'', 2, ''n1'')])) ''x'' = Some ''n2''"
  using routing_freshest [of NewRoutingHandler "''x''" 3 "[(''x'', 1, ''n1'')]" "[(''x'', 3, ''n3''), (''x'', 2, ''n1'')]" "''n2''"]
  by (simp add: NewRoutingHandler_def)

end
