(* ===== verification/GossipNode.thy ===== *)
theory GossipNode
  imports Routing
begin

text \<open>
  A gossip node as a state machine: the handlers that tie message storage, vector clock, routing and forwarding
  together (\<open>HandleGossipMessage\<close>, \<open>handlePeerStatus\<close>, \<open>StartRumorMongering\<close>, and the private-message and
  acknowledgement loops of \<open>src/gossiper/mainhandler.go\<close>). A handler returns the new node and the list of actions it
  starts: packets sent, goroutines begun, values put on a channel. Random choices and received answers are arguments.
\<close>

section \<open>Nodes and actions\<close>

record Node =
  nd_Name :: string
  nd_Address :: address
  nd_Peers :: "address list"
  nd_gossip :: GossipHandler
  nd_routing :: RoutingHandler

datatype action =
    SendPacket GossipPacket address
  | LatestRumor RumorMessage
  | StartMongering ExtendedGossipPacket string uint32
  | TLCAckChannel PrivateMessage
  | TLCCausalChannel ExtendedGossipPacket
  | SignalChannel ClientMessage

text \<open>\<open>rng\<close> is the order in which the run time ranges over a vector clock.\<close>

type_synonym clock_range = "(string \<rightharpoonup> uint32) \<Rightarrow> (string \<times> uint32) list"

definition status_packet :: "clock_range \<Rightarrow> GossipHandler \<Rightarrow> GossipPacket" where
  "status_packet rng gh = empty_packet\<lparr>gp_Status := Some (createMyStatusPacket (rng (gh_Entries gh)))\<rparr>"

section \<open>Handlers\<close>

text \<open>A rumor with a text is shown to the user the first time it is seen.\<close>

definition rumor_actions :: "GossipPacket \<Rightarrow> action list" where
  "rumor_actions packet =
     (if getTypeFromGossip packet = ''rumor'' then
        case gp_Rumor packet of
          Some r \<Rightarrow> if rum_Text r \<noteq> [] then [LatestRumor r] else []
        | None \<Rightarrow> []
      else [])"

definition HandleGossipMessage ::
  "clock_range \<Rightarrow> Node \<Rightarrow> ExtendedGossipPacket \<Rightarrow> string \<Rightarrow> uint32 \<Rightarrow> (Node \<times> action list) option" where
  "HandleGossipMessage rng nd ext origin i =
     Option.bind
       (if origin \<noteq> nd_Name nd then
          let nd1 = nd\<lparr>nd_routing := updateRoutingTable (nd_routing nd) origin i (ext_SenderAddr ext)\<rparr>
          in Option.bind (storeMessage (nd_gossip nd1) (ext_Packet ext) origin i) (\<lambda>(loaded, gh).
               Some (loaded, nd1\<lparr>nd_gossip := gh\<rparr>))
        else Some (True, nd))
       (\<lambda>(isMessageKnown, nd').
          Some (nd', SendPacket (status_packet rng (nd_gossip nd')) (ext_SenderAddr ext) #
            (if isMessageKnown then [] else rumor_actions (ext_Packet ext) @ [StartMongering ext origin i])))"

definition handlePeerStatus :: "clock_range \<Rightarrow> Node \<Rightarrow> ExtendedGossipPacket \<Rightarrow> action list go" where
  "handlePeerStatus rng nd ext =
     go_bind (go_deref (gp_Status (ext_Packet ext))) (\<lambda>status.
       case getPeerStatusForPeer (rng (gh_Entries (nd_gossip nd))) (st_Want status) of
         Some toSend \<Rightarrow>
           go_bind (getPacketFromPeerStatus (nd_gossip nd) toSend) (\<lambda>packetToSend.
             Inr [SendPacket packetToSend (ext_SenderAddr ext)])
       | None \<Rightarrow>
           if checkIfINeedPeerStatus (gh_Entries (nd_gossip nd)) (st_Want status)
           then Inr [SendPacket (status_packet rng (nd_gossip nd)) (ext_SenderAddr ext)]
           else Inr [])"

definition processRumorMessages ::
  "clock_range \<Rightarrow> Node \<Rightarrow> ExtendedGossipPacket \<Rightarrow> (Node \<times> action list) option go" where
  "processRumorMessages rng nd ext =
     go_bind (go_deref (gp_Rumor (ext_Packet ext))) (\<lambda>r.
       Inr (HandleGossipMessage rng nd ext (rum_Origin r) (rum_ID r)))"

definition processTLCMessage ::
  "AppConstants \<Rightarrow> clock_range \<Rightarrow> Node \<Rightarrow> ExtendedGossipPacket \<Rightarrow> (Node \<times> action list) option go" where
  "processTLCMessage app rng nd ext =
     go_bind (go_deref (gp_TLCMessage (ext_Packet ext))) (\<lambda>t.
       Inr (Option.bind (HandleGossipMessage rng nd ext (tlc_Origin t) (tlc_ID t)) (\<lambda>(nd', acts).
         Some (nd', acts @
           (if (app_hw3ex2Mode app \<or> app_hw3ex3Mode app \<or> app_hw3ex4Mode app) \<and> tlc_Origin t \<noteq> nd_Name nd
            then [TLCCausalChannel ext] else [])))))"

text \<open>
  The packet is forwarded through a pointer to its hop limit, so the copy that leaves carries the decremented one.
\<close>

definition forward_private :: "Node \<Rightarrow> PrivateMessage \<Rightarrow> PrivateMessage \<times> address option" where
  "forward_private nd pm =
     (case forwardPrivateMessage (nd_routing nd) (pm_HopLimit pm) (pm_Destination pm) of
        (h, next_hop) \<Rightarrow> (pm\<lparr>pm_HopLimit := h\<rparr>, next_hop))"

definition processPrivateMessages :: "Node \<Rightarrow> ExtendedGossipPacket \<Rightarrow> (Node \<times> action list) go" where
  "processPrivateMessages nd ext =
     go_bind (go_deref (gp_Private (ext_Packet ext))) (\<lambda>pm.
       let nd' = nd\<lparr>nd_routing := updateRoutingTable (nd_routing nd) (pm_Destination pm) (pm_ID pm) (ext_SenderAddr ext)\<rparr>
       in if pm_Destination pm = nd_Name nd then
            Inr (nd', [LatestRumor \<lparr>rum_Origin = pm_Origin pm, rum_ID = 0, rum_Text = pm_Text pm\<rparr>])
          else
            case forward_private nd' pm of
              (pm', None) \<Rightarrow> Inr (nd', [])
            | (pm', Some next_hop) \<Rightarrow>
                Inr (nd', [SendPacket ((ext_Packet ext)\<lparr>gp_Private := Some pm'\<rparr>) next_hop]))"

definition processTLCAck :: "Node \<Rightarrow> ExtendedGossipPacket \<Rightarrow> (Node \<times> action list) go" where
  "processTLCAck nd ext =
     go_bind (go_deref (gp_Ack (ext_Packet ext))) (\<lambda>ack.
       if pm_Destination ack = nd_Name nd then Inr (nd, [TLCAckChannel ack])
       else
         case forward_private nd ack of
           (ack', None) \<Rightarrow> Inr (nd, [])
         | (ack', Some next_hop) \<Rightarrow> Inr (nd, [SendPacket ((ext_Packet ext)\<lparr>gp_Ack := Some ack'\<rparr>) next_hop]))"

definition BroadcastToPeers :: "ExtendedGossipPacket \<Rightarrow> address list \<Rightarrow> action list" where
  "BroadcastToPeers ext peers =
     map (SendPacket (ext_Packet ext)) (filter (\<lambda>peer. peer \<noteq> ext_SenderAddr ext) peers)"

definition processSimpleMessages :: "Node \<Rightarrow> ExtendedGossipPacket \<Rightarrow> action list go" where
  "processSimpleMessages nd ext =
     go_bind (go_deref (gp_Simple (ext_Packet ext))) (\<lambda>sm.
       Inr (BroadcastToPeers
         (ext\<lparr>ext_Packet := (ext_Packet ext)\<lparr>gp_Simple := Some (sm\<lparr>sm_RelayPeerAddr := nd_Address nd\<rparr>)\<rparr>\<rparr>) (nd_Peers nd)))"

section \<open>Rumor mongering\<close>

text \<open>
  One element of the list per iteration: whether a status arrived before the timeout, the coin, the peers known then,
  and the random draw that picks the next peer. The result lists the peers the rumor is sent to. When the list ends the
  loop is still running.
\<close>

definition getRandomPeer :: "address list \<Rightarrow> nat \<Rightarrow> address" where
  "getRandomPeer availablePeers draw = availablePeers ! (draw mod length availablePeers)"

fun mongering_loop :: "(bool \<times> nat \<times> address list \<times> nat) list \<Rightarrow> address \<Rightarrow> address list" where
  "mongering_loop [] randomPeer = [randomPeer]"
| "mongering_loop ((statusReceived, coin, peers, draw) # events) randomPeer =
     randomPeer #
     (if (if statusReceived then coin mod 2 else 0) = 0 then
        let availablePeers = DifferenceString peers [randomPeer]
        in if availablePeers = [] then []
           else mongering_loop events (getRandomPeer availablePeers draw)
      else [])"

definition StartRumorMongering ::
  "(bool \<times> nat \<times> address list \<times> nat) list \<Rightarrow> address list \<Rightarrow> address \<Rightarrow> nat \<Rightarrow> address list" where
  "StartRumorMongering events peers snd_addr draw =
     (let availablePeers = DifferenceString peers [snd_addr]
      in if availablePeers = [] then [] else mongering_loop events (getRandomPeer availablePeers draw))"

section \<open>Client messages\<close>

text \<open>
  The branches of \<open>processClientMessages\<close> that concern gossip and private messages. \<open>getTypeFromMessage\<close> never returns
  \<open>ratchet\<close>, so that case of the code is never taken.
\<close>

definition client_private :: "AppConstants \<Rightarrow> Node \<Rightarrow> ClientMessage \<Rightarrow> action list go" where
  "client_private app nd message =
     (if app_SignalMode app then Inr [SignalChannel message]
      else go_bind (go_deref (cm_Destination message)) (\<lambda>dest.
        let pm = \<lparr>pm_Origin = nd_Name nd, pm_ID = 0, pm_Text = cm_Text message, pm_Destination = dest,
                  pm_HopLimit = of_nat (app_hopLimit app)\<rparr>
        in Inr (LatestRumor \<lparr>rum_Origin = pm_Origin pm, rum_ID = 0, rum_Text = pm_Text pm\<rparr> #
             (case forward_private nd pm of
                (pm', None) \<Rightarrow> []
              | (pm', Some next_hop) \<Rightarrow> [SendPacket (empty_packet\<lparr>gp_Private := Some pm'\<rparr>) next_hop]))))"

definition client_rumor :: "Node \<Rightarrow> ClientMessage \<Rightarrow> (Node \<times> action list) option" where
  "client_rumor nd message =
     Option.bind (CreateRumorMessage (nd_Name nd) (nd_Address nd) (nd_gossip nd) (cm_Text message)) (\<lambda>(ext, gh).
       Some (nd\<lparr>nd_gossip := gh\<rparr>,
         (case gp_Rumor (ext_Packet ext) of
            Some r \<Rightarrow> (if cm_Text message \<noteq> [] then [LatestRumor r] else []) @ [StartMongering ext (nd_Name nd) (rum_ID r)]
          | None \<Rightarrow> [])))"

section \<open>Gossip is handled once\<close>

lemma getType_rumor [simp]: "getTypeFromGossip (empty_packet\<lparr>gp_Rumor := Some r\<rparr>) = ''rumor''"
  by (simp add: getTypeFromGossip_def empty_packet_def)

text \<open>
  A gossip message of another origin is answered with the node's vector clock, is mongered exactly when it
  was not stored before, and is stored afterwards; so a second copy is never mongered again. The clock stays exact.
\<close>

theorem gossip_handled_once:
  assumes inv: "clock_inv (nd_gossip nd)" and other: "origin \<noteq> nd_Name nd"
    and r: "\<exists>j. j \<noteq> 0 \<and> j \<noteq> i \<and> stored (nd_gossip nd) origin j = None"
  shows "\<exists>nd' acts. HandleGossipMessage rng nd ext origin i = Some (nd', acts) \<and> clock_inv (nd_gossip nd') \<and>
    SendPacket (status_packet rng (nd_gossip nd')) (ext_SenderAddr ext) \<in> set acts \<and>
    (StartMongering ext origin i \<in> set acts \<longleftrightarrow> stored (nd_gossip nd) origin i = None) \<and>
    stored (nd_gossip nd') origin i \<noteq> None \<and>
    (\<exists>nd'' acts'. HandleGossipMessage rng nd' ext origin i = Some (nd'', acts') \<and> StartMongering ext origin i \<notin> set acts')"
proof -
  let ?p = "ext_Packet ext"
  let ?known = "stored (nd_gossip nd) origin i \<noteq> None"
  obtain gh where gh: "storeMessage (nd_gossip nd) ?p origin i = Some (?known, gh)" "clock_inv gh"
    "stored gh = (stored (nd_gossip nd))(origin := (if stored (nd_gossip nd) origin i = None
       then (stored (nd_gossip nd) origin)(i \<mapsto> ?p) else stored (nd_gossip nd) origin))"
    using storeMessage_clock [OF inv r, of ?p] by blast
  let ?nd = "nd\<lparr>nd_routing := updateRoutingTable (nd_routing nd) origin i (ext_SenderAddr ext), nd_gossip := gh\<rparr>"
  have st: "stored gh origin i \<noteq> None" using gh(3) by auto
  have "\<exists>j. j \<noteq> 0 \<and> j \<noteq> i \<and> stored gh origin j = None" using r gh(3) by auto
  from storeMessage_clock [OF gh(2) this, of ?p] st
  obtain gh2 where gh2: "storeMessage gh ?p origin i = Some (True, gh2)" by auto
  have lr: "StartMongering ext origin i \<notin> set (rumor_actions ?p)"
    unfolding rumor_actions_def by (cases "gp_Rumor ?p"; cases "getTypeFromGossip ?p = ''rumor''") simp_all
  obtain acts where acts: "HandleGossipMessage rng nd ext origin i = Some (?nd, acts)"
    "SendPacket (status_packet rng gh) (ext_SenderAddr ext) \<in> set acts"
    "StartMongering ext origin i \<in> set acts \<longleftrightarrow> \<not> ?known"
    using other gh(1) lr by (cases "stored (nd_gossip nd) origin i") (auto simp: HandleGossipMessage_def)
  obtain nd2 acts2 where "HandleGossipMessage rng ?nd ext origin i = Some (nd2, acts2)"
    "StartMongering ext origin i \<notin> set acts2"
    using other gh2 by (auto simp: HandleGossipMessage_def)
  with acts st gh(2) show ?thesis by (intro exI [of _ ?nd] exI [of _ acts]) auto
qed

theorem gossip_handled_once_witness:
  "\<exists>nd' acts. HandleGossipMessage (\<lambda>_. []) \<lparr>nd_Name = ''me'', nd_Address = ''m'', nd_Peers = [], nd_gossip = NewGossipHandler,
       nd_routing = NewRoutingHandler\<rparr> \<lparr>ext_Packet = empty_packet, ext_SenderAddr = ''s''\<rparr> ''a'' 1 = Some (nd', acts) \<and>
     StartMongering \<lparr>ext_Packet = empty_packet, ext_SenderAddr = ''s''\<rparr> ''a'' 1 \<in> set acts"
proof -
  have "\<exists>j. j \<noteq> 0 \<and> j \<noteq> 1 \<and> stored NewGossipHandler ''a'' j = None"
    by (rule exI [of _ 2]) (simp add: stored_def NewGossipHandler_def)
  then show ?thesis
    using gossip_handled_once [of "\<lparr>nd_Name = ''me'', nd_Address = ''m'', nd_Peers = [], nd_gossip = NewGossipHandler,
       nd_routing = NewRoutingHandler\<rparr>" "''a''" 1 "\<lambda>_. []" "\<lparr>ext_Packet = empty_packet, ext_SenderAddr = ''s''\<rparr>"]
      clock_inv_New by (auto simp: stored_def NewGossipHandler_def)
qed

text \<open>
  Rumor mongering never starts at the peer the rumor came from, never sends to the same peer twice in a
  row, and only ever sends to known peers, whatever the coins and draws.
\<close>

theorem mongering_targets:
  assumes "StartRumorMongering events peers snd_addr draw = targets"
  shows "snd_addr \<notin> set (take 1 targets) \<and> distinct_adj targets \<and>
    set targets \<subseteq> set peers \<union> (\<Union>(st, coin, ps, d) \<in> set events. set ps)"
proof -
  have pick: "getRandomPeer xs d \<in> set xs" if "xs \<noteq> []" for xs :: "address list" and d
    using that by (simp add: getRandomPeer_def)
  have loop: "mongering_loop evs p \<noteq> [] \<and> hd (mongering_loop evs p) = p \<and> distinct_adj (mongering_loop evs p) \<and>
      set (mongering_loop evs p) \<subseteq> insert p (\<Union>(st, coin, ps, d) \<in> set evs. set ps)" for evs p
  proof (induction evs arbitrary: p)
    case Nil
    then show ?case by simp
  next
    case (Cons e evs)
    obtain st coin ps d where e: "e = (st, coin, ps, d)" by (metis surj_pair)
    let ?av = "DifferenceString ps [p]"
    let ?q = "getRandomPeer ?av d"
    show ?case
    proof (cases "(if st then coin mod 2 else 0) = 0 \<and> ?av \<noteq> []")
      case True
      then have q: "?q \<in> set ps" "?q \<noteq> p" using pick [of ?av d] by (auto simp: DifferenceString_def)
      have m: "mongering_loop (e # evs) p = p # mongering_loop evs ?q" using True e by (simp add: Let_def)
      have "distinct_adj (p # mongering_loop evs ?q)"
        using Cons.IH [of ?q] q(2) by (simp add: distinct_adj_Cons)
      then show ?thesis using Cons.IH [of ?q] q e unfolding m by auto
    next
      case False
      then have "mongering_loop (e # evs) p = [p]" using e by (auto simp: Let_def)
      then show ?thesis by simp
    qed
  qed
  let ?av = "DifferenceString peers [snd_addr]"
  show ?thesis
  proof (cases "?av = []")
    case True
    with assms show ?thesis by (auto simp: StartRumorMongering_def)
  next
    case False
    let ?q = "getRandomPeer ?av draw"
    have q: "?q \<in> set peers" "?q \<noteq> snd_addr" using pick [OF False, of draw] by (auto simp: DifferenceString_def)
    have t: "targets = mongering_loop events ?q" using assms False by (simp add: StartRumorMongering_def Let_def)
    have "take 1 targets = [?q]" using loop [of events ?q] unfolding t by (cases "mongering_loop events ?q") auto
    with q loop [of events ?q] show ?thesis unfolding t by auto
  qed
qed

theorem mongering_targets_witness:
  "distinct_adj (StartRumorMongering [(True, 0, [''a'', ''b''], 1), (False, 1, [''a'', ''b''], 0)] [''a'', ''b''] ''b'' 5)"
  using mongering_targets [OF refl] by blast

end
