(* ===== verification/Curve.thy ===== *)
theory Curve
  imports Prelude
begin

text \<open>
  Elliptic-curve points and their compressed encoding (\<open>src/adssignal/adsElliptic.go\<close>). The curve
  (\<open>elliptic.P256()\<close>) enters through its parameters, as in the code, which only reads
  \<open>curve.Params()\<close>; \<open>*big.Int\<close> values are integers behind a pointer that may be nil.
  The lemmas show that the square-and-multiply loop \<open>ModSqrt\<close> computes the power \<open>(P+1)/4\<close>, that this is a
  square root for a prime \<open>P\<close> congruent to 3 modulo 4 (with Fermat's little theorem proved here
  from the binomial theorem), and hence that decompression inverts compression on the curve.
\<close>

section \<open>Big integers\<close>

fun BitLen :: "nat \<Rightarrow> nat" where
  "BitLen n = (if n = 0 then 0 else Suc (BitLen (n div 2)))"

declare BitLen.simps [simp del]

text \<open>\<open>big.Int.Bytes\<close> and \<open>SetBytes\<close>: minimal big-endian, and back.\<close>

fun le_bytes :: "nat \<Rightarrow> bytes" where
  "le_bytes n = (if n = 0 then [] else of_nat (n mod 256) # le_bytes (n div 256))"

declare le_bytes.simps [simp del]

definition big_Bytes :: "int \<Rightarrow> bytes" where
  "big_Bytes x = rev (le_bytes (nat \<bar>x\<bar>))"

definition big_SetBytes :: "bytes \<Rightarrow> int" where
  "big_SetBytes bs = foldl (\<lambda>acc b. 256 * acc + uint b) 0 bs"

section \<open>Points\<close>

text \<open>The fields of \<open>elliptic.CurveParams\<close>.\<close>

record CurveParams =
  cP :: int
  cN :: int
  cB :: int
  cGx :: int
  cGy :: int
  cBitSize :: nat

definition P256 :: CurveParams where
  "P256 = \<lparr>cP = 115792089210356248762697446949407573530086143415290314195533631308867097853951,
    cN = 115792089210356248762697446949407573529996955224135760342422259061068512044369,
    cB = 0x5ac635d8aa3a93e7b3ebbd55769886bc651d06b0cc53b0f63bce3c3e27d2604b,
    cGx = 0x6b17d1f2e12c4247f8bce6e563a440f277037d812deb33a0f4a13945d898c296,
    cGy = 0x4fe342e2fe1a7f9b8ee7eb4a7c0f9e162bce33576b315ececbb6406837bf51f5,
    cBitSize = 256\<rparr>"

record EllipticPoint =
  pt_C :: CurveParams
  pt_x :: "int option"
  pt_y :: "int option"

record DHPair =
  PubKey :: EllipticPoint
  PrivKey :: bytes

definition curve_byteLen :: "CurveParams \<Rightarrow> nat" where
  "curve_byteLen c = (cBitSize c + 7) div 8"

definition on_curve :: "CurveParams \<Rightarrow> int \<Rightarrow> int \<Rightarrow> bool" where
  "on_curve c x y \<longleftrightarrow> (y * y) mod cP c = (x * x * x - 3 * x + cB c) mod cP c"

section \<open>Compression\<close>

definition Marshal :: "CurveParams \<Rightarrow> int option \<Rightarrow> int option \<Rightarrow> bytes go" where
  "Marshal c px py =
     go_bind (go_deref py) (\<lambda>y. go_bind (go_deref px) (\<lambda>x.
       let byteLen = curve_byteLen c; xBytes = big_Bytes x
       in if byteLen + 1 < length xBytes then Inl SliceOutOfRange
          else let off = 1 + byteLen - length xBytes;
                   ret = (2 + of_int (y mod 2)) # replicate byteLen 0
               in Inr (take off ret @ xBytes)))"

fun ModSqrt_loop :: "int \<Rightarrow> nat \<Rightarrow> int \<Rightarrow> nat \<Rightarrow> int \<Rightarrow> int" where
  "ModSqrt_loop p p1 a 0 result = result"
| "ModSqrt_loop p p1 a (Suc i) result =
     (if 1 < Suc i then
        let r1 = (result * result) mod p;
            r2 = (if bit p1 (Suc i) then (r1 * a) mod p else r1)
        in ModSqrt_loop p p1 a i r2
      else result)"

definition ModSqrt :: "CurveParams \<Rightarrow> int \<Rightarrow> int" where
  "ModSqrt c a = (let p1 = nat (1 + cP c) in ModSqrt_loop (cP c) p1 a (BitLen p1 - 1) 1)"

text \<open>
  \<open>elliptic.Unmarshal\<close>, the fallback for anything that is not a compressed point: only a well-formed
  uncompressed point on the curve gives coordinates, everything else gives nil pointers.
\<close>

definition elliptic_Unmarshal :: "CurveParams \<Rightarrow> bytes \<Rightarrow> int option \<times> int option" where
  "elliptic_Unmarshal c data =
     (let byteLen = curve_byteLen c
      in if length data \<noteq> 1 + 2 * byteLen \<or> hd data \<noteq> 4 then (None, None)
         else let x = big_SetBytes (take byteLen (drop 1 data));
                  y = big_SetBytes (drop (1 + byteLen) data)
              in if cP c \<le> x \<or> cP c \<le> y \<or> \<not> on_curve c x y then (None, None) else (Some x, Some y))"

definition Unmarshal :: "CurveParams \<Rightarrow> bytes \<Rightarrow> int option \<times> int option \<times> CurveParams" where
  "Unmarshal c data =
     (let byteLen = curve_byteLen c
      in if length data \<noteq> 1 + byteLen \<or> data ! 0 \<noteq> 2 \<and> data ! 0 \<noteq> 3 then
           let (x, y) = elliptic_Unmarshal c data in (x, y, c)
         else
           let x = big_SetBytes (take byteLen (drop 1 data));
               y0 = ((x * x - 3) * x + cB c) mod cP c;
               y1 = ModSqrt c y0;
               y2 = (if y1 mod 2 \<noteq> uint (data ! 0 AND 1) then cP c - y1 else y1)
           in (Some x, Some y2, c))"

definition CompressPoint :: "CurveParams \<Rightarrow> EllipticPoint \<Rightarrow> bytes go" where
  "CompressPoint c Q = Marshal c (pt_x Q) (pt_y Q)"

definition UncompressPoint :: "CurveParams \<Rightarrow> bytes \<Rightarrow> EllipticPoint" where
  "UncompressPoint c data =
     (let (x, y, C) = Unmarshal c data in \<lparr>pt_C = C, pt_x = x, pt_y = y\<rparr>)"

text \<open>\<open>||\<close> evaluates the second comparison only when the first one finds equal abscissas.\<close>

definition ComparePoints :: "EllipticPoint \<Rightarrow> EllipticPoint \<Rightarrow> bool go" where
  "ComparePoints p1 p2 =
     go_bind (go_deref (pt_x p1)) (\<lambda>x1. go_bind (go_deref (pt_x p2)) (\<lambda>x2.
       if x1 \<noteq> x2 then Inr False
       else go_bind (go_deref (pt_y p1)) (\<lambda>y1. go_bind (go_deref (pt_y p2)) (\<lambda>y2. Inr (y1 = y2)))))"

section \<open>Byte encodings of integers\<close>

lemma BitLen_pow: "n < 2 ^ BitLen n"
proof (induction n rule: BitLen.induct)
  case (1 n)
  show ?case
  proof (cases "n = 0")
    case True
    then show ?thesis by simp
  next
    case False
    then have "n div 2 < 2 ^ BitLen (n div 2)" and "BitLen n = Suc (BitLen (n div 2))"
      using 1 by (simp_all add: BitLen.simps [of n])
    then show ?thesis by simp
  qed
qed

lemma foldl_SetBytes:
  "foldl (\<lambda>acc b. 256 * acc + uint b) a (bs :: bytes) =
   a * 256 ^ length bs + foldl (\<lambda>acc b. 256 * acc + uint b) 0 bs"
proof (induction bs rule: rev_induct)
  case Nil
  then show ?case by simp
next
  case (snoc b bs)
  have "foldl (\<lambda>acc b. 256 * acc + uint b) a (bs @ [b]) =
      256 * foldl (\<lambda>acc b. 256 * acc + uint b) a bs + uint b" by simp
  also note snoc
  finally show ?case by (simp add: algebra_simps)
qed

lemma SetBytes_append: "big_SetBytes (xs @ ys) = big_SetBytes xs * 256 ^ length ys + big_SetBytes ys"
  unfolding big_SetBytes_def foldl_append by (rule foldl_SetBytes)

lemma SetBytes_snoc [simp]: "big_SetBytes (xs @ [b]) = 256 * big_SetBytes xs + uint b"
  by (simp add: big_SetBytes_def)

lemma SetBytes_zeros [simp]: "big_SetBytes (replicate n 0 @ bs) = big_SetBytes bs"
proof -
  have "big_SetBytes (replicate n 0) = 0"
    by (induction n) (simp_all add: big_SetBytes_def)
  then show ?thesis by (simp add: SetBytes_append)
qed

lemma SetBytes_le_bytes: "big_SetBytes (rev (le_bytes n)) = int n"
proof (induction n rule: le_bytes.induct)
  case (1 n)
  show ?case
  proof (cases "n = 0")
    case True
    then show ?thesis by (subst le_bytes.simps) (simp add: big_SetBytes_def)
  next
    case False
    have "uint (of_nat (n mod 256) :: byte) = int (n mod 256)"
      by (simp add: uint_nat unat_of_nat)
    moreover have "256 * int (n div 256) + int (n mod 256) = int n"
      by (metis of_nat_add of_nat_mult of_nat_numeral mult_div_mod_eq)
    ultimately show ?thesis
      using 1 False by (subst le_bytes.simps) simp
  qed
qed

lemma SetBytes_Bytes [simp]: "0 \<le> x \<Longrightarrow> big_SetBytes (big_Bytes x) = x"
  by (simp add: big_Bytes_def SetBytes_le_bytes)

lemma length_le_bytes: "n < 256 ^ k \<Longrightarrow> length (le_bytes n) \<le> k"
proof (induction k arbitrary: n)
  case 0
  then show ?case by (subst le_bytes.simps) simp
next
  case (Suc k)
  then have "n div 256 < 256 ^ k" by (simp add: less_mult_imp_div_less mult.commute)
  with Suc.IH show ?case by (subst le_bytes.simps) simp
qed

lemma length_big_Bytes: "0 \<le> x \<Longrightarrow> x < 256 ^ k \<Longrightarrow> length (big_Bytes x) \<le> k"
  unfolding big_Bytes_def by (simp add: length_le_bytes nat_less_iff)

section \<open>Square roots modulo a prime\<close>

definition is_prime :: "int \<Rightarrow> bool" where
  "is_prime p \<longleftrightarrow> 1 < p \<and> (\<forall>d \<in> {2..<p}. \<not> d dvd p)"

lemma prime_coprime: "is_prime p \<Longrightarrow> 0 < k \<Longrightarrow> k < p \<Longrightarrow> coprime k p"
proof (rule coprimeI)
  fix d assume p: "is_prime p" "0 < k" "k < p" and d: "d dvd k" "d dvd p"
  then have "\<bar>d\<bar> \<le> k" by (simp add: zdvd_imp_le)
  moreover have "\<bar>d\<bar> dvd p" using d by simp
  moreover have "d \<noteq> 0" using d p by auto
  ultimately have "\<bar>d\<bar> = 1"
    using p unfolding is_prime_def by (metis atLeastLessThan_iff le_less_trans zabs_less_one_iff
        linorder_not_le int_one_le_iff_zero_less zero_less_abs_iff nle_le one_add_one zless_add1_eq
        zle_add1_eq_le add_le_cancel_left)
  then show "is_unit d" by simp
qed

lemma prime_dvd_mult:
  assumes p: "is_prime p" and d: "p dvd a * b"
  shows "p dvd a \<or> p dvd b"
proof (cases "a mod p = 0")
  case True
  then show ?thesis by auto
next
  case False
  have "0 < p" using p by (simp add: is_prime_def)
  then have "0 < a mod p" "a mod p < p" using False pos_mod_bound [of p a] pos_mod_sign [of p a] by linarith+
  then have "coprime (a mod p) p" using prime_coprime [OF p] by blast
  then have "coprime p a" using \<open>0 < p\<close> by (simp add: coprime_commute)
  then show ?thesis using d by (simp add: coprime_dvd_mult_right_iff)
qed

lemma prime_dvd_choose:
  assumes p: "is_prime (int p)" and k: "0 < k" "k < p"
  shows "p dvd (p choose k)"
proof -
  have "k * (p choose k) = p * (p - 1 choose (k - 1))"
    using k by (simp add: times_binomial_minus1_eq)
  then have "p dvd k * (p choose k)" by simp
  moreover have "coprime (int k) (int p)" using k by (intro prime_coprime [OF p]) simp_all
  then have "coprime p k" by (simp add: coprime_commute)
  ultimately show ?thesis by (simp add: coprime_dvd_mult_right_iff)
qed

lemma prime_pow_Suc:
  assumes p: "is_prime (int p)"
  shows "(a + 1) ^ p mod int p = (a ^ p + 1) mod int p"
proof -
  have p1: "1 < p" using p by (simp add: is_prime_def)
  have "(a + 1) ^ p = (\<Sum>k\<le>p. of_nat (p choose k) * a ^ k * 1 ^ (p - k))"
    by (rule binomial_ring)
  also have "{..p} = insert 0 (insert p {0<..<p})" using p1 by auto
  also have "(\<Sum>k\<in>insert 0 (insert p {0<..<p}). of_nat (p choose k) * a ^ k * 1 ^ (p - k)) =
      1 + a ^ p + (\<Sum>k\<in>{0<..<p}. of_nat (p choose k) * a ^ k)"
    using p1 by simp
  finally have "(a + 1) ^ p - (a ^ p + 1) = (\<Sum>k\<in>{0<..<p}. of_nat (p choose k) * a ^ k)" by simp
  moreover have "int p dvd (\<Sum>k\<in>{0<..<p}. of_nat (p choose k) * a ^ k)"
    by (rule dvd_sum) (simp add: prime_dvd_choose [OF p])
  ultimately show ?thesis by (simp add: mod_eq_dvd_iff)
qed

lemma fermat_nat:
  assumes p: "is_prime (int p)"
  shows "int n ^ p mod int p = int n mod int p"
proof (induction n)
  case 0
  have "0 < p" using p by (simp add: is_prime_def)
  then show ?case by (simp add: zero_power)
next
  case (Suc n)
  have "int (Suc n) ^ p mod int p = (int n ^ p mod int p + 1) mod int p"
    using prime_pow_Suc [OF p, of "int n"] by (simp add: add.commute mod_simps)
  also have "\<dots> = int (Suc n) mod int p" by (simp add: Suc mod_simps add.commute)
  finally show ?case .
qed

lemma fermat:
  assumes p: "is_prime p"
  shows "y ^ nat p mod p = y mod p"
proof -
  have pos: "0 < p" using p by (simp add: is_prime_def)
  have "y ^ nat p mod p = (y mod p) ^ nat p mod p" by (simp add: power_mod)
  also have "\<dots> = (y mod p) mod p"
    using fermat_nat [of "nat p" "nat (y mod p)"] p pos by simp
  finally show ?thesis by simp
qed

section \<open>The loop of ModSqrt\<close>

lemma div_pow_Suc: "(n :: nat) div 2 ^ i = 2 * (n div 2 ^ Suc i) + of_bool (bit n i)"
proof -
  have "of_bool (bit n i) = (n div 2 ^ i) mod 2" by (simp add: bit_iff_odd odd_iff_mod_2_eq_one)
  then show ?thesis by (simp add: div_mult2_eq mult.commute [of 2 "2 ^ i"])
qed

lemma ModSqrt_loop_power:
  assumes "result = a ^ (p1 div 2 ^ Suc i) mod p" "0 < i"
  shows "ModSqrt_loop p p1 a i result = a ^ (p1 div 4) mod p"
  using assms
proof (induction i arbitrary: result)
  case 0
  then show ?case by simp
next
  case (Suc i)
  show ?case
  proof (cases "i = 0")
    case True
    with Suc.prems show ?thesis by simp
  next
    case False
    let ?e = "p1 div 2 ^ Suc (Suc i)"
    have sq: "(result * result) mod p = a ^ (2 * ?e) mod p"
      by (simp only: Suc.prems(1) mod_mult_eq power_add mult_2)
    have ex: "p1 div 2 ^ Suc i = 2 * ?e + of_bool (bit p1 (Suc i))" by (rule div_pow_Suc)
    have "(if bit p1 (Suc i) then ((result * result) mod p * a) mod p else (result * result) mod p) =
        a ^ (p1 div 2 ^ Suc i) mod p"
      unfolding sq ex by (simp add: mod_mult_left_eq) (simp add: mod_mult_right_eq mult.commute [of a])
    with False show ?thesis by (simp add: Suc.IH Let_def)
  qed
qed

lemma BitLen_ge: "4 \<le> n \<Longrightarrow> 3 \<le> BitLen n"
  by (simp add: BitLen.simps [of n] BitLen.simps [of "n div 2"] BitLen.simps [of "n div 2 div 2"])

lemma ModSqrt_power:
  assumes p: "3 \<le> cP c"
  shows "ModSqrt c a = a ^ nat ((cP c + 1) div 4) mod cP c"
proof -
  let ?p1 = "nat (1 + cP c)"
  have b: "3 \<le> BitLen ?p1" using p by (intro BitLen_ge) simp
  have z: "?p1 div 2 ^ Suc (BitLen ?p1 - 1) = 0" using b BitLen_pow [of ?p1] by simp
  have "ModSqrt_loop (cP c) ?p1 a (BitLen ?p1 - 1) 1 = a ^ (?p1 div 4) mod cP c"
    by (rule ModSqrt_loop_power) (unfold z, use p b in simp_all)
  moreover have "?p1 div 4 = nat ((cP c + 1) div 4)" using p by (simp add: nat_div_distrib add.commute)
  ultimately show ?thesis by (simp add: ModSqrt_def Let_def)
qed

lemma ModSqrt_root:
  assumes p: "is_prime (cP c)" and m: "cP c mod 4 = 3" and a: "a mod cP c = (y * y) mod cP c"
  shows "0 \<le> ModSqrt c a \<and> ModSqrt c a < cP c \<and>
    (ModSqrt c a * ModSqrt c a) mod cP c = (y * y) mod cP c"
proof -
  let ?p = "cP c" and ?e = "nat ((cP c + 1) div 4)"
  have p3: "3 \<le> ?p" using p m by (auto simp: is_prime_def) presburger
  have "4 * ((?p + 1) div 4) = ?p + 1" using m by presburger
  then have e: "4 * ?e = nat ?p + 1" using p3 by (simp add: nat_eq_iff2 nat_add_distrib)
  have "ModSqrt c a * ModSqrt c a mod ?p = (a ^ ?e * a ^ ?e) mod ?p"
    by (simp add: ModSqrt_power [OF p3] mod_mult_eq)
  also have "\<dots> = a ^ (2 * ?e) mod ?p" by (simp add: mult_2 power_add)
  also have "\<dots> = (a mod ?p) ^ (2 * ?e) mod ?p" by (simp only: power_mod)
  also have "\<dots> = (y * y) ^ (2 * ?e) mod ?p" by (simp add: a power_mod)
  also have "\<dots> = y ^ (4 * ?e) mod ?p" by (simp add: power2_eq_square [symmetric] flip: power_mult)
  also have "\<dots> = (y ^ nat ?p mod ?p * y) mod ?p" by (simp add: e mod_mult_right_eq mult.commute [of _ y])
  also have "\<dots> = (y * y) mod ?p" by (simp add: fermat [OF p] mod_mult_left_eq)
  finally show ?thesis using p3 by (simp add: ModSqrt_power [OF p3])
qed

text \<open>
  For a prime modulus congruent to 3 modulo 4, the square-and-multiply loop \<open>ModSqrt\<close> returns
  a reduced square root of every square.
\<close>

theorem ModSqrt_square_root:
  assumes p: "is_prime (cP c)" and m: "cP c mod 4 = 3" and a: "a mod cP c = (y * y) mod cP c"
  shows "0 \<le> ModSqrt c a \<and> ModSqrt c a < cP c \<and>
    (ModSqrt c a * ModSqrt c a) mod cP c = (y * y) mod cP c"
  by (rule ModSqrt_root [OF p m a])

theorem ModSqrt_square_root_witness:
  "(ModSqrt \<lparr>cP = 11, cN = 0, cB = 0, cGx = 0, cGy = 0, cBitSize = 4\<rparr> 5 ^ 2) mod 11 = 5"
proof -
  have "{2..<11::int} = {2,3,4,5,6,7,8,9,10}" by auto
  then have "is_prime 11" by (simp add: is_prime_def)
  then show ?thesis
    using ModSqrt_square_root [of "\<lparr>cP = 11, cN = 0, cB = 0, cGx = 0, cGy = 0, cBitSize = 4\<rparr>" 5 4]
    by (simp add: power2_eq_square)
qed

section \<open>Round trip\<close>

definition valid_curve :: "CurveParams \<Rightarrow> bool" where
  "valid_curve c \<longleftrightarrow> is_prime (cP c) \<and> cP c mod 4 = 3 \<and> cP c < 256 ^ curve_byteLen c"

definition curve_point :: "CurveParams \<Rightarrow> int \<Rightarrow> int \<Rightarrow> bool" where
  "curve_point c x y \<longleftrightarrow> 0 \<le> x \<and> x < cP c \<and> 0 \<le> y \<and> y < cP c \<and> on_curve c x y"

definition wf_point :: "CurveParams \<Rightarrow> EllipticPoint \<Rightarrow> bool" where
  "wf_point c Q \<longleftrightarrow> pt_C Q = c \<and> (\<exists>x y. pt_x Q = Some x \<and> pt_y Q = Some y \<and> curve_point c x y)"

lemma Marshal_eq:
  assumes "0 \<le> x" "x < 256 ^ curve_byteLen c"
  shows "Marshal c (Some x) (Some y) = Inr ((2 + of_int (y mod 2)) #
    replicate (curve_byteLen c - length (big_Bytes x)) 0 @ big_Bytes x)"
proof -
  have "length (big_Bytes x) \<le> curve_byteLen c" by (rule length_big_Bytes) (use assms in auto)
  then show ?thesis by (simp add: Marshal_def Let_def take_Cons' Suc_diff_le min_def)
qed

lemma Marshal_ok:
  assumes v: "valid_curve c" and pt: "curve_point c x y"
  shows "\<exists>bs. Marshal c (Some x) (Some y) = Inr bs \<and> length bs = 1 + curve_byteLen c \<and>
    bs ! 0 \<in> {2, 3} \<and> uint (bs ! 0 AND 1) = y mod 2 \<and> big_SetBytes (take (curve_byteLen c) (drop 1 bs)) = x"
proof -
  have x: "0 \<le> x" "x < 256 ^ curve_byteLen c" using v pt by (auto simp: valid_curve_def curve_point_def)
  have l: "length (big_Bytes x) \<le> curve_byteLen c" by (rule length_big_Bytes) (use x in auto)
  have "y mod 2 = 0 \<or> y mod 2 = 1" by presburger
  then show ?thesis using l x by (auto simp: Marshal_eq)
qed

lemma same_parity_root:
  fixes p :: int
  assumes p: "is_prime p" "p mod 2 = 1" and r: "0 \<le> r" "r < p" and y: "0 \<le> y" "y < p"
    and sq: "(r * r) mod p = (y * y) mod p"
  shows "(if r mod 2 \<noteq> y mod 2 then p - r else r) = y"
proof -
  have "p dvd (r - y) * (r + y)"
    using sq by (simp add: mod_eq_dvd_iff algebra_simps)
  then consider "p dvd r - y" | "p dvd r + y" using prime_dvd_mult [OF p(1)] by blast
  then show ?thesis
  proof cases
    case 1
    then have "r mod p = y mod p" by (simp add: mod_eq_dvd_iff)
    with r y show ?thesis by simp
  next
    case 2
    then obtain k where k: "r + y = p * k" by (auto elim: dvdE)
    have "0 \<le> p * k" "p * k < p * 2" using k r y by linarith+
    then have "0 \<le> k" "k < 2" using r by (simp_all add: zero_le_mult_iff)
    then consider "k = 0" | "k = 1" by linarith
    then show ?thesis using k r y p(2) by cases (auto, presburger+)
  qed
qed

lemma Unmarshal_Marshal:
  assumes v: "valid_curve c" and pt: "curve_point c x y" and bs: "Marshal c (Some x) (Some y) = Inr bs"
  shows "Unmarshal c bs = (Some x, Some y, c)"
proof -
  have b: "length bs = 1 + curve_byteLen c" "bs ! 0 \<in> {2, 3}" "uint (bs ! 0 AND 1) = y mod 2"
    "big_SetBytes (take (curve_byteLen c) (drop 1 bs)) = x"
    using Marshal_ok [OF v pt] bs by auto
  let ?a = "((x * x - 3) * x + cB c) mod cP c"
  have y: "0 \<le> y" "y < cP c" and oc: "(y * y) mod cP c = ?a"
    using pt by (auto simp: curve_point_def on_curve_def algebra_simps)
  have p: "is_prime (cP c)" "cP c mod 4 = 3" using v by (simp_all add: valid_curve_def)
  have "?a mod cP c = (y * y) mod cP c" by (simp add: oc)
  note root = ModSqrt_root [OF p this]
  have "cP c mod 2 = 1" using p(2) by presburger
  then have "(if ModSqrt c ?a mod 2 \<noteq> y mod 2 then cP c - ModSqrt c ?a else ModSqrt c ?a) = y"
    using root y by (intro same_parity_root [OF p(1)]) auto
  then show ?thesis using b by (auto simp: Unmarshal_def Let_def)
qed

text \<open>
  Claim C23. Point compression is lossless: \<open>CompressPoint\<close> returns \<open>1 + byteLen\<close> bytes for every point
  of the curve, without a panic, and \<open>UncompressPoint\<close> gives the same point back.
\<close>

theorem UncompressPoint_CompressPoint:
  assumes v: "valid_curve c" and Q: "wf_point c Q"
  shows "\<exists>bs. CompressPoint c Q = Inr bs \<and> length bs = 1 + curve_byteLen c \<and> UncompressPoint c bs = Q"
proof -
  obtain x y where q: "pt_C Q = c" "pt_x Q = Some x" "pt_y Q = Some y" "curve_point c x y"
    using Q by (auto simp: wf_point_def)
  then obtain bs where bs: "Marshal c (Some x) (Some y) = Inr bs" "length bs = 1 + curve_byteLen c"
    using Marshal_ok [OF v] by blast
  have "UncompressPoint c bs = Q"
    using q by (simp add: UncompressPoint_def Unmarshal_Marshal [OF v q(4) bs(1)])
  then show ?thesis using bs q by (simp add: CompressPoint_def)
qed

text \<open>A small curve of prime order 5 on which the hypotheses of the theorems are checked by evaluation.\<close>

definition toy_curve :: CurveParams where
  "toy_curve = \<lparr>cP = 7, cN = 5, cB = 1, cGx = 0, cGy = 1, cBitSize = 3\<rparr>"

lemma is_prime_7: "is_prime 7"
proof -
  have "{2..<7::int} = {2,3,4,5,6}" by auto
  then show ?thesis by (simp add: is_prime_def)
qed

lemma valid_toy_curve: "valid_curve toy_curve"
  by (simp add: valid_curve_def toy_curve_def is_prime_7 curve_byteLen_def)

theorem UncompressPoint_CompressPoint_witness:
  "\<exists>bs. CompressPoint toy_curve \<lparr>pt_C = toy_curve, pt_x = Some 4, pt_y = Some 5\<rparr> = Inr bs \<and> length bs = 2 \<and>
    UncompressPoint toy_curve bs = \<lparr>pt_C = toy_curve, pt_x = Some 4, pt_y = Some 5\<rparr>"
proof -
  have "wf_point toy_curve \<lparr>pt_C = toy_curve, pt_x = Some 4, pt_y = Some 5\<rparr>"
    by (simp add: wf_point_def curve_point_def on_curve_def toy_curve_def)
  moreover have "1 + curve_byteLen toy_curve = 2" by (simp add: toy_curve_def curve_byteLen_def)
  ultimately show ?thesis using UncompressPoint_CompressPoint [OF valid_toy_curve] by metis
qed

end
