(* ===== verification/GoFloat.thy ===== *)
theory GoFloat
  imports Packets Curve
begin

text \<open>
  The double-precision arithmetic the code uses: comparisons, \<open>math.Min\<close>, \<open>math.IsNaN\<close>, \<open>math.IsInf\<close>,
  conversion of integers, multiplication and division, rounded to nearest with ties to even on 53-bit
  significands. The sign of a zero is not kept: no comparison of the program can see it, and its divisors are
  never negative.
\<close>

section \<open>Comparison\<close>

definition float_geq :: "go_float \<Rightarrow> go_float \<Rightarrow> bool" where
  "float_geq a b \<longleftrightarrow> float_less b a \<or> a = b \<and> a \<noteq> NaN"

lemma float_geq_Fin [simp]: "float_geq (Fin a) (Fin b) \<longleftrightarrow> b \<le> a"
  by (auto simp: float_geq_def)

lemma float_geq_PInf [simp]: "float_geq PInf (Fin b)"
  by (simp add: float_geq_def)

lemma float_geq_trans: "float_geq a b \<Longrightarrow> float_geq b c \<Longrightarrow> float_geq a c"
  unfolding float_geq_def using float_less_trans by blast

lemma float_geq_not_less: "float_geq a b \<Longrightarrow> \<not> float_less a b"
  using float_less_trans float_less_irrefl unfolding float_geq_def by blast

definition float_Min :: "go_float \<Rightarrow> go_float \<Rightarrow> go_float" where
  "float_Min x y =
     (if x = NInf \<or> y = NInf then NInf
      else if x = NaN \<or> y = NaN then NaN
      else if float_less x y then x else y)"

lemma float_Min_Fin [simp]: "float_Min (Fin a) (Fin b) = Fin (min a b)"
  by (auto simp: float_Min_def min_def)

section \<open>Rounding\<close>

text \<open>\<open>n / d\<close> to the nearest integer, ties to even.\<close>

definition div_half_even :: "nat \<Rightarrow> nat \<Rightarrow> nat" where
  "div_half_even n d =
     (let q = n div d; r = n mod d
      in if 2 * r < d \<or> 2 * r = d \<and> even q then q else q + 1)"

text \<open>
  The positive fraction \<open>n / d\<close> scaled by \<open>2\<close> to the power \<open>-e\<close>, rounded to an integer significand, for the
  exponent \<open>e\<close> that gives it 53 bits (at least \<open>-1074\<close>, the subnormal range).
\<close>

definition scaled :: "nat \<Rightarrow> nat \<Rightarrow> int \<Rightarrow> nat \<times> nat" where
  "scaled n d e = (if 0 \<le> e then (n, d * 2 ^ nat e) else (n * 2 ^ nat (- e), d))"

definition float_exponent :: "nat \<Rightarrow> nat \<Rightarrow> int" where
  "float_exponent n d =
     (let e0 = int (BitLen n) - int (BitLen d) - 53;
          (n', d') = scaled n d e0;
          e = (if 2 ^ 53 * d' \<le> n' then e0 + 1 else e0)
      in max e (- 1074))"

definition float_round_pos :: "nat \<Rightarrow> nat \<Rightarrow> go_float" where
  "float_round_pos n d =
     (let e = float_exponent n d; (n', d') = scaled n d e; m = div_half_even n' d';
          v = (if 0 \<le> e then rat_of_nat m * 2 ^ nat e else rat_of_nat m / 2 ^ nat (- e))
      in if 2 ^ 1024 \<le> v then PInf else Fin v)"

text \<open>\<open>float64(n)\<close> of a non-negative integer.\<close>

definition float64_of :: "nat \<Rightarrow> go_float" where
  "float64_of n = (if n = 0 then Fin 0 else float_round_pos n 1)"

definition float_of_rat :: "rat \<Rightarrow> go_float" where
  "float_of_rat q =
     (if q = 0 then Fin 0
      else case quotient_of \<bar>q\<bar> of (n, d) \<Rightarrow>
        case float_round_pos (nat n) (nat d) of
          Fin v \<Rightarrow> Fin (if q < 0 then - v else v)
        | r \<Rightarrow> (if q < 0 then NInf else PInf))"

text \<open>Multiplication and division of values that are not negative.\<close>

fun float_mul :: "go_float \<Rightarrow> go_float \<Rightarrow> go_float" where
  "float_mul (Fin a) (Fin b) = float_of_rat (a * b)"
| "float_mul PInf (Fin b) = (if b = 0 then NaN else PInf)"
| "float_mul (Fin a) PInf = (if a = 0 then NaN else PInf)"
| "float_mul PInf PInf = PInf"
| "float_mul _ _ = NaN"

fun float_div :: "go_float \<Rightarrow> go_float \<Rightarrow> go_float" where
  "float_div (Fin a) (Fin b) = (if b = 0 then if a = 0 then NaN else PInf else float_of_rat (a / b))"
| "float_div PInf (Fin b) = PInf"
| "float_div (Fin a) PInf = Fin 0"
| "float_div _ _ = NaN"

section \<open>Exactness\<close>

lemma div_half_even_exact: "0 < d \<Longrightarrow> div_half_even (k * d) d = k"
  by (simp add: div_half_even_def)

lemma float_round_pos_not_NaN: "float_round_pos n d \<noteq> NaN" "float_round_pos n d \<noteq> NInf"
  by (simp_all add: float_round_pos_def Let_def split_beta)

lemma float64_of_0 [simp]: "float64_of 0 = Fin 0"
  by (simp add: float64_of_def)


text \<open>Integers below \<open>2\<close> to the power 52 convert without loss.\<close>

lemma BitLen_le: "n < 2 ^ k \<Longrightarrow> BitLen n \<le> k"
proof (induction n arbitrary: k rule: BitLen.induct)
  case (1 n)
  show ?case
  proof (cases "n = 0")
    case True
    then show ?thesis by (simp add: BitLen.simps)
  next
    case False
    with 1(2) have "0 < k" by (cases k) auto
    then have "n div 2 < 2 ^ (k - 1)" using 1(2) by (cases k) auto
    with 1(1) [OF False] have "BitLen (n div 2) \<le> k - 1" by blast
    with False \<open>0 < k\<close> show ?thesis by (simp add: BitLen.simps [of n])
  qed
qed

lemma div_half_even_1: "div_half_even n 1 = n"
  using div_half_even_exact [of 1 n] by simp

lemma float64_of_exact:
  assumes "n < 2 ^ 52"
  shows "float64_of n = Fin (rat_of_nat n)"
proof (cases "n = 0")
  case True
  then show ?thesis by simp
next
  case False
  let ?e = "float_exponent n 1"
  have "BitLen (Suc 0) = Suc 0" by (simp add: BitLen.simps)
  then have e: "?e < 0"
    using BitLen_le [OF assms] by (auto simp: float_exponent_def Let_def split_beta)
  have big: "rat_of_nat n < 2 ^ 1024"
  proof -
    have "n < 2 ^ 1024" using assms by (rule less_le_trans) simp
    then have "rat_of_nat n < rat_of_nat (2 ^ 1024)" by (simp only: of_nat_less_iff)
    then show ?thesis by simp
  qed
  have "scaled n 1 ?e = (n * 2 ^ nat (- ?e), 1)" using e by (simp add: scaled_def)
  then have "float_round_pos n 1 = Fin (rat_of_nat n)"
    using e big by (simp add: float_round_pos_def Let_def div_half_even_1 [simplified])
  with False show ?thesis by (simp add: float64_of_def)
qed

end
