(* ===== verification/Ledger.thy ===== *)
theory Ledger
  imports GossipNode GoFloat "HOL-Library.AList" "HOL-Library.Multiset"
begin

text \<open>
  The blockchain of shared files: transaction blocks and their hashes (\<open>src/gossiper/utils.go\<close>), the state of
  \<open>src/gossiper/blockchainhandler.go\<close>, gossiping with confirmation and rounds of threshold logical clocks
  (\<open>src/gossiper/tlc.go\<close>), and the consensus rounds \<open>src/gossiper/qsc.go\<close>. A Go map that the code ranges over or takes the length of
  is an association list with distinct keys; the order the run time ranges in is the argument \<open>ord\<close>, a rearrangement. SHA-256
  is the argument \<open>H\<close>. A goroutine that waits on channels consumes a list of events; \<open>None\<close> means that it still waits when
  the list ends.
\<close>

section \<open>Blocks\<close>

definition PutUint32_LE :: "uint32 \<Rightarrow> bytes" where
  "PutUint32_LE w = [ucast w, ucast (drop_bit 8 w), ucast (drop_bit 16 w), ucast (drop_bit 24 w)]"

definition zero32 :: bytes where "zero32 = replicate 32 0"

definition TxPublish_Hash :: "(bytes \<Rightarrow> bytes) \<Rightarrow> TxPublish \<Rightarrow> bytes" where
  "TxPublish_Hash H t = array32 (H (PutUint32_LE (of_nat (length (tx_Name t))) @ string_bytes (tx_Name t) @ tx_MetafileHash t))"

definition BlockPublish_Hash :: "(bytes \<Rightarrow> bytes) \<Rightarrow> BlockPublish \<Rightarrow> bytes" where
  "BlockPublish_Hash H b = array32 (H (bp_PrevHash b @ TxPublish_Hash H (bp_Transaction b)))"

section \<open>State\<close>

type_synonym tlc_map = "(string \<times> TLCMessage) list"

record BlockchainHandler =
  bh_myTime :: uint32
  bh_tlcStatus :: "string \<rightharpoonup> 64 word list"
  bh_confirmations :: "uint32 \<rightharpoonup> tlc_map"
  bh_messageSeen :: "uint32 \<rightharpoonup> tlc_map"
  bh_committedHistory :: "(bytes \<times> BlockPublish) list"
  bh_topBlockchainHash :: bytes
  bh_previousBlockHash :: bytes

definition NewBlockchainHandler :: BlockchainHandler where
  "NewBlockchainHandler = \<lparr>bh_myTime = 0, bh_tlcStatus = Map.empty, bh_confirmations = Map.empty, bh_messageSeen = Map.empty,
     bh_committedHistory = [], bh_topBlockchainHash = zero32, bh_previousBlockHash = zero32\<rparr>"

text \<open>The parts of a gossiper that the blockchain uses; \<open>ld_Size\<close> is the number of peers in the network.\<close>

record Ledger =
  ld_node :: Node
  ld_Size :: uint64
  ld_bc :: BlockchainHandler

record FileGUI =
  fg_Name :: string
  fg_MetaHash :: string
  fg_Size :: "64 word"

datatype ledger_action =
    Monger ExtendedGossipPacket string uint32
  | SendTo GossipPacket address
  | AckTo PrivateMessage "address option"
  | NotifyConfirm
  | Requeue ExtendedGossipPacket
  | ClientBlock ExtendedGossipPacket
  | FilesIndexed FileGUI

type_synonym tlc_order = "tlc_map \<Rightarrow> tlc_map"

definition block_FileGUI :: "BlockPublish \<Rightarrow> FileGUI" where
  "block_FileGUI b = \<lparr>fg_Name = tx_Name (bp_Transaction b), fg_MetaHash = EncodeToString (tx_MetafileHash (bp_Transaction b)),
     fg_Size = tx_Size (bp_Transaction b)\<rparr>"

definition saveConfirmation :: "BlockchainHandler \<Rightarrow> uint32 \<Rightarrow> string \<Rightarrow> TLCMessage \<Rightarrow> BlockchainHandler" where
  "saveConfirmation bh rnd origin tlc =
     (if rnd \<ge> bh_myTime bh then
        let tlcMap = (case bh_confirmations bh rnd of None \<Rightarrow> [] | Some m \<Rightarrow> m)
        in bh\<lparr>bh_confirmations := (bh_confirmations bh)(rnd \<mapsto> AList.update origin tlc tlcMap)\<rparr>
      else bh)"

definition saveMessageSeen :: "BlockchainHandler \<Rightarrow> uint32 \<Rightarrow> string \<Rightarrow> TLCMessage \<Rightarrow> BlockchainHandler" where
  "saveMessageSeen bh rnd origin tlc =
     (let tlcMap = (case bh_messageSeen bh rnd of None \<Rightarrow> [] | Some m \<Rightarrow> m)
      in bh\<lparr>bh_messageSeen := (bh_messageSeen bh)(rnd \<mapsto> AList.update origin tlc tlcMap)\<rparr>)"

text \<open>\<open>Confirmed\<close> is an \<open>int\<close> of 64 bits, negative for a message that confirms nothing.\<close>

definition tlc_ids :: "BlockchainHandler \<Rightarrow> string \<Rightarrow> 64 word list" where
  "tlc_ids bh origin = (case bh_tlcStatus bh origin of None \<Rightarrow> [] | Some ids \<Rightarrow> ids)"

definition getMessageOriginalRound :: "BlockchainHandler \<Rightarrow> string \<Rightarrow> uint32 \<Rightarrow> 64 word \<Rightarrow> uint32 \<times> BlockchainHandler" where
  "getMessageOriginalRound bh origin i confirmedID =
     (let ids = tlc_ids bh origin;
          earlier = (if sint confirmedID > - 1 then filter (\<lambda>key. sint confirmedID > sint key) ids
                     else filter (\<lambda>key. i > ucast key) ids)
      in (of_nat (length earlier), bh\<lparr>bh_tlcStatus := (bh_tlcStatus bh)(origin \<mapsto> ids)\<rparr>))"

text \<open>What is done with the number \<open>i\<close> that was read; the vector clock is taken before the message is stored.\<close>

definition publish_TLC ::
  "clock_range \<Rightarrow> Node \<Rightarrow> uint32 \<Rightarrow> BlockPublish \<Rightarrow> 64 word \<Rightarrow> go_float \<Rightarrow> (TLCMessage \<times> ExtendedGossipPacket \<times> Node) option" where
  "publish_TLC rng nd i block confirmedFlag fitness =
     (let gh = nd_gossip nd;
          tlc = \<lparr>tlc_Origin = nd_Name nd, tlc_ID = i, tlc_Confirmed = confirmedFlag, tlc_TxBlock = block,
                 tlc_VectorClock = Some (createMyStatusPacket (rng (gh_Entries gh))), tlc_Fitness = fitness\<rparr>;
          ext = \<lparr>ext_Packet = empty_packet\<lparr>gp_TLCMessage := Some tlc\<rparr>, ext_SenderAddr = nd_Address nd\<rparr>
      in Option.bind (storeMessage gh (ext_Packet ext) (nd_Name nd) i) (\<lambda>(_, gh').
           Some (tlc, ext, nd\<lparr>nd_gossip := gh'\<rparr>)))"

definition createTLCMessage ::
  "clock_range \<Rightarrow> Ledger \<Rightarrow> BlockPublish \<Rightarrow> 64 word \<Rightarrow> go_float \<Rightarrow> (TLCMessage \<times> ExtendedGossipPacket \<times> Ledger) option" where
  "createTLCMessage rng ld block confirmedFlag fitness =
     (let nd = ld_node ld; i = load_seqID (nd_gossip nd); nd' = nd\<lparr>nd_gossip := add_seqID (nd_gossip nd)\<rparr>
      in Option.bind (publish_TLC rng nd' i block confirmedFlag fitness) (\<lambda>(tlc, ext, nd'').
           Some (tlc, ext, ld\<lparr>ld_node := nd''\<rparr>)))"

section \<open>Incoming messages\<close>

definition checkForCausalProperty ::
  "clock_range \<Rightarrow> Ledger \<Rightarrow> string \<Rightarrow> StatusPacket option \<Rightarrow> 64 word \<Rightarrow> address \<Rightarrow> (bool \<times> Ledger \<times> ledger_action list) go" where
  "checkForCausalProperty rng ld origin receivedVC confirmedID addr =
     (if sint confirmedID > - 1 then
        go_bind (go_deref receivedVC) (\<lambda>vc.
          let gh = nd_gossip (ld_node ld)
          in if \<not> checkIfINeedPeerStatus (gh_Entries gh) (st_Want vc)
             then Inr (True, ld\<lparr>ld_bc := (ld_bc ld)\<lparr>bh_tlcStatus := (bh_tlcStatus (ld_bc ld))(origin \<mapsto>
                     List.insert confirmedID (tlc_ids (ld_bc ld) origin))\<rparr>\<rparr>, [])
             else Inr (False, ld, [SendTo (status_packet rng gh) addr]))
      else Inr (False, ld, []))"

text \<open>The history is followed from a block to the zero hash; on a cycle the loop does not end.\<close>

partial_function (option) known_history :: "(bytes \<times> BlockPublish) list \<Rightarrow> bytes \<Rightarrow> bool option" where
  "known_history history blockHash =
     (if blockHash \<noteq> zero32 then
        (case map_of history blockHash of
           None \<Rightarrow> Some False
         | Some block \<Rightarrow> known_history history (bp_PrevHash block))
      else Some True)"

declare known_history.simps [code] updateStatus_loop.simps [code]

definition isTxBlockValid :: "BlockchainHandler \<Rightarrow> BlockPublish \<Rightarrow> bool option" where
  "isTxBlockValid bh b =
     (if list_ex (\<lambda>(key, block). tx_Name (bp_Transaction block) = tx_Name (bp_Transaction b)) (bh_committedHistory bh)
      then Some False else known_history (bh_committedHistory bh) (bp_PrevHash b))"

definition ack_for :: "AppConstants \<Rightarrow> Ledger \<Rightarrow> TLCMessage \<Rightarrow> ledger_action" where
  "ack_for app ld t =
     (let ack = \<lparr>pm_Origin = nd_Name (ld_node ld), pm_ID = tlc_ID t, pm_Text = [], pm_Destination = tlc_Origin t,
                 pm_HopLimit = of_nat (app_hopLimit app)\<rparr>
      in case forward_private (ld_node ld) ack of (ack', next_hop) \<Rightarrow> AckTo ack' next_hop)"

definition handleTLCMessage ::
  "AppConstants \<Rightarrow> clock_range \<Rightarrow> Ledger \<Rightarrow> ExtendedGossipPacket \<Rightarrow> (Ledger \<times> ledger_action list) go option" where
  "handleTLCMessage app rng ld ext =
     (case gp_TLCMessage (ext_Packet ext) of None \<Rightarrow> Some (Inl NilDereference)
      | Some t \<Rightarrow>
          (case getMessageOriginalRound (ld_bc ld) (tlc_Origin t) (tlc_ID t) (tlc_Confirmed t) of (messageRound, bh1) \<Rightarrow>
           Option.bind (if app_hw3ex4Mode app then isTxBlockValid bh1 (tlc_TxBlock t) else Some True) (\<lambda>valid.
             let acked = valid \<and> (\<not> app_hw3ex3Mode app \<or> app_ackAllMode app \<or> messageRound \<ge> bh_myTime bh1) \<and>
                   \<not> sint (tlc_Confirmed t) > - 1;
                 bh2 = (if acked \<and> app_hw3ex4Mode app then saveMessageSeen bh1 messageRound (tlc_Origin t) t else bh1);
                 ld2 = ld\<lparr>ld_bc := bh2\<rparr>;
                 acks = (if acked then [ack_for app ld t] else [])
             in Some (if (app_hw3ex3Mode app \<or> app_hw3ex4Mode app) \<and> tlc_Confirmed t \<noteq> - 1 then
                  go_bind (checkForCausalProperty rng ld2 (tlc_Origin t) (tlc_VectorClock t) (tlc_Confirmed t) (ext_SenderAddr ext))
                    (\<lambda>(causal, ld3, sent).
                      if causal then
                        Inr (ld3\<lparr>ld_bc := saveConfirmation (ld_bc ld3) messageRound (tlc_Origin t) t\<rparr>, acks @ sent @ [NotifyConfirm])
                      else Inr (ld3, acks @ sent @ [Requeue ext]))
                else Inr (ld2, acks)))))"

section \<open>Gossiping with confirmation\<close>

definition majority :: "Ledger \<Rightarrow> nat \<Rightarrow> bool" where
  "majority ld n \<longleftrightarrow> n > unat (ld_Size ld) div 2"

definition sendGossipWithConfirmation :: "AppConstants \<Rightarrow> TLCMessage \<Rightarrow> ExtendedGossipPacket \<Rightarrow> ledger_action list" where
  "sendGossipWithConfirmation app tlc ext =
     Monger ext (tlc_Origin tlc) (tlc_ID tlc) # (if app_hw3ex4Mode app then [] else [FilesIndexed (block_FileGUI (tlc_TxBlock tlc))])"

text \<open>The message that announces that \<open>tlc\<close> has been witnessed, with what is done to send it.\<close>

definition confirm_message ::
  "AppConstants \<Rightarrow> clock_range \<Rightarrow> Ledger \<Rightarrow> TLCMessage \<Rightarrow> (TLCMessage \<times> Ledger \<times> ledger_action list) option" where
  "confirm_message app rng ld tlc =
     Option.bind (createTLCMessage rng ld (tlc_TxBlock tlc) (ucast (tlc_ID tlc)) (tlc_Fitness tlc)) (\<lambda>(c, cext, ld').
       Some (c, ld', sendGossipWithConfirmation app c cext))"

definition checkForConfirmationsMajority ::
  "AppConstants \<Rightarrow> clock_range \<Rightarrow> Ledger \<Rightarrow> TLCMessage \<Rightarrow> bool \<Rightarrow> (bool \<times> Ledger \<times> ledger_action list) option" where
  "checkForConfirmationsMajority app rng ld tlc delivered =
     (let bh = ld_bc ld
      in case bh_confirmations bh (bh_myTime bh) of
           None \<Rightarrow> Some (False, ld, [])
         | Some confirmations \<Rightarrow>
             if majority ld (length confirmations) then
               let ld1 = ld\<lparr>ld_bc := bh\<lparr>bh_myTime := bh_myTime bh + 1\<rparr>\<rparr>
               in if delivered then Some (True, ld1, [])
                  else Option.bind (confirm_message app rng ld1 tlc) (\<lambda>(_, ld2, acts). Some (True, ld2, acts))
             else Some (False, ld, []))"

text \<open>The loop of \<open>gossipWithConfirmation\<close>: what it remembers, what it waits for, and what happens meanwhile.\<close>

record Confirming =
  gc_tlc :: TLCMessage
  gc_ext :: ExtendedGossipPacket
  gc_wait :: bool
  gc_witnesses :: "string list"
  gc_delivered :: bool

datatype conf_event = Ack PrivateMessage | Confirm | Timer | Incoming ExtendedGossipPacket

definition conf_ack ::
  "AppConstants \<Rightarrow> clock_range \<Rightarrow> Ledger \<Rightarrow> Confirming \<Rightarrow> PrivateMessage \<Rightarrow> (bool \<times> Ledger \<times> Confirming \<times> ledger_action list) option" where
  "conf_ack app rng ld gc ack =
     (if pm_ID ack = tlc_ID (gc_tlc gc) \<and> \<not> gc_delivered gc then
        let gc1 = gc\<lparr>gc_witnesses := List.insert (pm_Origin ack) (gc_witnesses gc)\<rparr>
        in if majority ld (length (gc_witnesses gc1)) then
             Option.bind (confirm_message app rng ld (gc_tlc gc)) (\<lambda>(c, ld1, acts).
               if gc_wait gc then
                 Some (False, ld1\<lparr>ld_bc := saveConfirmation (ld_bc ld1) (bh_myTime (ld_bc ld1)) (tlc_Origin c) c\<rparr>,
                       gc1\<lparr>gc_delivered := True\<rparr>, acts @ [NotifyConfirm])
               else Some (True, ld1, gc1\<lparr>gc_delivered := True\<rparr>, acts))
           else Some (False, ld, gc1, [])
      else Some (False, ld, gc, []))"

fun conf_step ::
  "AppConstants \<Rightarrow> clock_range \<Rightarrow> Ledger \<Rightarrow> Confirming \<Rightarrow> conf_event \<Rightarrow> (bool \<times> Ledger \<times> Confirming \<times> ledger_action list) go option" where
  "conf_step app rng ld gc (Ack ack) = map_option Inr (conf_ack app rng ld gc ack)"
| "conf_step app rng ld gc Confirm =
     (if gc_wait gc then
        map_option (\<lambda>(r, ld', acts). Inr (r, ld', gc, acts)) (checkForConfirmationsMajority app rng ld (gc_tlc gc) (gc_delivered gc))
      else Some (Inr (False, ld, gc, [])))"
| "conf_step app rng ld gc Timer =
     Some (Inr (False, ld, gc, [Monger (gc_ext gc) (nd_Name (ld_node ld)) (tlc_ID (gc_tlc gc))]))"
| "conf_step app rng ld gc (Incoming ext) =
     map_option (\<lambda>r. go_bind r (\<lambda>(ld', acts). Inr (False, ld', gc, acts))) (handleTLCMessage app rng ld ext)"

text \<open>The result has the events that were not consumed.\<close>

fun conf_loop ::
  "AppConstants \<Rightarrow> clock_range \<Rightarrow> Ledger \<Rightarrow> Confirming \<Rightarrow> ledger_action list \<Rightarrow> conf_event list \<Rightarrow>
   (Ledger \<times> ledger_action list \<times> conf_event list) go option" where
  "conf_loop app rng ld gc acts [] = None"
| "conf_loop app rng ld gc acts (e # es) =
     (case conf_step app rng ld gc e of
        None \<Rightarrow> None
      | Some (Inl err) \<Rightarrow> Some (Inl err)
      | Some (Inr (returned, ld', gc', acts')) \<Rightarrow>
          if returned then Some (Inr (ld', acts @ acts', es)) else conf_loop app rng ld' gc' (acts @ acts') es)"

definition gossipWithConfirmation ::
  "AppConstants \<Rightarrow> clock_range \<Rightarrow> Ledger \<Rightarrow> TLCMessage \<Rightarrow> ExtendedGossipPacket \<Rightarrow> bool \<Rightarrow> conf_event list \<Rightarrow>
   (Ledger \<times> ledger_action list \<times> conf_event list) go option" where
  "gossipWithConfirmation app rng ld tlc ext wait events =
     (let start = [Monger ext (nd_Name (ld_node ld)) (tlc_ID tlc)]
      in Option.bind (if wait then checkForConfirmationsMajority app rng ld tlc False else Some (False, ld, []))
           (\<lambda>(returned, ld1, acts).
              if returned then Some (Inr (ld1, start @ acts, events))
              else if 0 < app_stubbornTimeout app then
                conf_loop app rng ld1
                  \<lparr>gc_tlc = tlc, gc_ext = ext, gc_wait = wait, gc_witnesses = [nd_Name (ld_node ld)], gc_delivered = False\<rparr>
                  (start @ acts) events
              else Some (Inr (ld1, start @ acts, events))))"

definition tlcRound ::
  "AppConstants \<Rightarrow> clock_range \<Rightarrow> Ledger \<Rightarrow> TLCMessage \<Rightarrow> ExtendedGossipPacket \<Rightarrow> conf_event list \<Rightarrow>
   (Ledger \<times> ledger_action list \<times> conf_event list) go option" where
  "tlcRound app rng ld tlc ext events = gossipWithConfirmation app rng ld tlc ext True events"

definition createAndPublishTxBlock ::
  "AppConstants \<Rightarrow> clock_range \<Rightarrow> Ledger \<Rightarrow> string \<Rightarrow> bytes \<Rightarrow> 64 word \<Rightarrow> go_float \<Rightarrow> conf_event list \<Rightarrow>
   (Ledger \<times> ledger_action list \<times> conf_event list) go option" where
  "createAndPublishTxBlock app rng ld name metahash sz fitness events =
     (let tx = \<lparr>tx_Name = name, tx_Size = sz, tx_MetafileHash = metahash\<rparr>;
          block = \<lparr>bp_PrevHash = bh_previousBlockHash (ld_bc ld), bp_Transaction = tx\<rparr>
      in Option.bind (createTLCMessage rng ld block (- 1) fitness) (\<lambda>(tlc, ext, ld').
           if app_hw3ex2Mode app \<and> \<not> app_hw3ex3Mode app \<and> \<not> app_hw3ex4Mode app
           then gossipWithConfirmation app rng ld' tlc ext False events
           else Some (Inr (ld', [ClientBlock ext], events))))"

section \<open>Que sera consensus\<close>

definition zero_TLC :: TLCMessage where
  "zero_TLC = \<lparr>tlc_Origin = [], tlc_ID = 0, tlc_Confirmed = 0,
     tlc_TxBlock = \<lparr>bp_PrevHash = zero32, bp_Transaction = \<lparr>tx_Name = [], tx_Size = 0, tx_MetafileHash = []\<rparr>\<rparr>,
     tlc_VectorClock = None, tlc_Fitness = Fin 0\<rparr>"

definition fitter :: "TLCMessage \<Rightarrow> string \<times> TLCMessage \<Rightarrow> TLCMessage" where
  "fitter best kv = (if float_less (tlc_Fitness best) (tlc_Fitness (snd kv)) then snd kv else best)"

definition getTLCWithHighestFitness :: "tlc_order \<Rightarrow> tlc_map \<Rightarrow> TLCMessage" where
  "getTLCWithHighestFitness ord confirmations = foldl fitter zero_TLC (ord confirmations)"

text \<open>The first loop is the one of \<open>getTLCWithHighestFitness\<close>; the order of the others does not matter.\<close>

definition checkIfConsensusReached ::
  "(bytes \<Rightarrow> bytes) \<Rightarrow> tlc_order \<Rightarrow> BlockchainHandler \<Rightarrow> tlc_map \<Rightarrow> tlc_map \<Rightarrow> uint32 \<Rightarrow> TLCMessage option go" where
  "checkIfConsensusReached H ord bh confirmationsRoundS confirmationsRoundS1 initialRound =
     (let best = foldl fitter zero_TLC (ord confirmationsRoundS); same = (\<lambda>m. BlockPublish_Hash H (tlc_TxBlock m) = BlockPublish_Hash H (tlc_TxBlock best))
      in case bh_messageSeen bh initialRound of
           None \<Rightarrow> Inl FailedTypeAssertion
         | Some messageSeen \<Rightarrow>
             Inr (if list_ex (\<lambda>(k, saw). float_geq (tlc_Fitness saw) (tlc_Fitness best) \<and> \<not> same saw) messageSeen then None
                  else if list_ex (\<lambda>(k, m1). same m1) confirmationsRoundS1 then Some best
                  else None))"

definition commit_block :: "(bytes \<Rightarrow> bytes) \<Rightarrow> BlockchainHandler \<Rightarrow> BlockPublish \<Rightarrow> BlockPublish \<times> BlockchainHandler" where
  "commit_block H bh block =
     (let chosen = block\<lparr>bp_PrevHash := bh_topBlockchainHash bh\<rparr>; h = BlockPublish_Hash H chosen
      in (chosen, bh\<lparr>bh_committedHistory := AList.update h chosen (bh_committedHistory bh),
                     bh_topBlockchainHash := h, bh_previousBlockHash := h\<rparr>))"

definition qsc_finish ::
  "(bytes \<Rightarrow> bytes) \<Rightarrow> tlc_order \<Rightarrow> Ledger \<Rightarrow> uint32 \<Rightarrow> tlc_map \<Rightarrow> tlc_map \<Rightarrow> TLCMessage \<Rightarrow> (Ledger \<times> ledger_action list) go" where
  "qsc_finish H ord ld roundS confirmationsRoundS confirmationsRoundS1 highest1 =
     go_bind (checkIfConsensusReached H ord (ld_bc ld) confirmationsRoundS confirmationsRoundS1 roundS) (\<lambda>r.
       case r of
         Some messageConsensus \<Rightarrow>
           (case commit_block H (ld_bc ld) (tlc_TxBlock messageConsensus) of (chosen, bh) \<Rightarrow>
              Inr (ld\<lparr>ld_bc := bh\<rparr>,
                   if tlc_Origin messageConsensus = nd_Name (ld_node ld) then [FilesIndexed (block_FileGUI chosen)] else []))
       | None \<Rightarrow>
           let chosen = tlc_TxBlock highest1
           in Inr (ld\<lparr>ld_bc := (ld_bc ld)\<lparr>bh_previousBlockHash := BlockPublish_Hash H chosen\<rparr>\<rparr>,
                   if tlc_Origin highest1 = nd_Name (ld_node ld) then [FilesIndexed (block_FileGUI chosen)] else []))"

text \<open>
  A round with the block of the fittest confirmed message, whose map is read when it is needed: the code keeps a reference to it.
  \<open>ords\<close> gives the order of each loop.
\<close>

definition confirmed_in :: "Ledger \<Rightarrow> uint32 \<Rightarrow> tlc_map" where
  "confirmed_in ld r = (case bh_confirmations (ld_bc ld) r of None \<Rightarrow> [] | Some m \<Rightarrow> m)"

definition next_round ::
  "AppConstants \<Rightarrow> clock_range \<Rightarrow> Ledger \<Rightarrow> TLCMessage \<Rightarrow> conf_event list \<Rightarrow> (Ledger \<times> ledger_action list \<times> conf_event list) go option" where
  "next_round app rng ld highest events =
     Option.bind (createTLCMessage rng ld (tlc_TxBlock highest) (- 1) (tlc_Fitness highest)) (\<lambda>(tlc, ext, ld').
       tlcRound app rng ld' tlc ext events)"

definition go_option_bind :: "'a go option \<Rightarrow> ('a \<Rightarrow> 'b go option) \<Rightarrow> 'b go option" where
  "go_option_bind m f = (case m of None \<Rightarrow> None | Some (Inl e) \<Rightarrow> Some (Inl e) | Some (Inr v) \<Rightarrow> f v)"

definition after :: "ledger_action list \<Rightarrow> (Ledger \<times> ledger_action list \<times> conf_event list) go option \<Rightarrow>
   (Ledger \<times> ledger_action list \<times> conf_event list) go option" where
  "after acts m = go_option_bind m (\<lambda>(ld, acts', events). Some (Inr (ld, acts @ acts', events)))"

text \<open>Round \<open>s + 2\<close> and the decision, round \<open>s + 1\<close> and what follows it, and the whole.\<close>

definition qsc_round2 ::
  "(bytes \<Rightarrow> bytes) \<Rightarrow> AppConstants \<Rightarrow> clock_range \<Rightarrow> (nat \<Rightarrow> tlc_order) \<Rightarrow> uint32 \<Rightarrow> Ledger \<Rightarrow>
   conf_event list \<Rightarrow> (Ledger \<times> ledger_action list \<times> conf_event list) go option" where
  "qsc_round2 H app rng ords roundS ld events =
     (let highest1 = getTLCWithHighestFitness (ords 1) (confirmed_in ld (roundS + 1))
      in go_option_bind (next_round app rng ld highest1 events) (\<lambda>(ld', acts, events').
           if bh_confirmations (ld_bc ld') (roundS + 2) = None then Some (Inr (ld', acts, events'))
           else Some (go_bind (qsc_finish H (ords 2) ld' roundS (confirmed_in ld' roundS) (confirmed_in ld' (roundS + 1)) highest1)
                  (\<lambda>(ld'', acts'). Inr (ld'', acts @ acts', events')))))"

definition qsc_round1 ::
  "(bytes \<Rightarrow> bytes) \<Rightarrow> AppConstants \<Rightarrow> clock_range \<Rightarrow> (nat \<Rightarrow> tlc_order) \<Rightarrow> uint32 \<Rightarrow> Ledger \<Rightarrow>
   conf_event list \<Rightarrow> (Ledger \<times> ledger_action list \<times> conf_event list) go option" where
  "qsc_round1 H app rng ords roundS ld events =
     (let highest = getTLCWithHighestFitness (ords 0) (confirmed_in ld roundS)
      in go_option_bind (next_round app rng ld highest events) (\<lambda>(ld', acts, events').
           if bh_confirmations (ld_bc ld') (roundS + 1) = None then Some (Inr (ld', acts, events'))
           else after acts (qsc_round2 H app rng ords roundS ld' events')))"

definition qscRound ::
  "(bytes \<Rightarrow> bytes) \<Rightarrow> AppConstants \<Rightarrow> clock_range \<Rightarrow> (nat \<Rightarrow> tlc_order) \<Rightarrow> Ledger \<Rightarrow> TLCMessage \<Rightarrow> ExtendedGossipPacket \<Rightarrow>
   conf_event list \<Rightarrow> (Ledger \<times> ledger_action list \<times> conf_event list) go option" where
  "qscRound H app rng ords ld tlc ext events =
     (let roundS = bh_myTime (ld_bc ld)
      in go_option_bind (tlcRound app rng ld tlc ext events) (\<lambda>(ld', acts, events').
           if bh_confirmations (ld_bc ld') roundS = None then Some (Inr (ld', acts, events'))
           else after acts (qsc_round1 H app rng ords roundS ld' events')))"

definition processClientBlock ::
  "(bytes \<Rightarrow> bytes) \<Rightarrow> AppConstants \<Rightarrow> clock_range \<Rightarrow> (nat \<Rightarrow> tlc_order) \<Rightarrow> Ledger \<Rightarrow> ExtendedGossipPacket \<Rightarrow>
   conf_event list \<Rightarrow> (Ledger \<times> ledger_action list \<times> conf_event list) go option" where
  "processClientBlock H app rng ords ld ext events =
     (case gp_TLCMessage (ext_Packet ext) of None \<Rightarrow> Some (Inl NilDereference)
      | Some tlc \<Rightarrow>
          if app_hw3ex4Mode app then qscRound H app rng ords ld tlc ext events else tlcRound app rng ld tlc ext events)"

section \<open>Reading the chain\<close>

text \<open>The loop looks up the top of the chain at every turn.\<close>

partial_function (option) GetBlockchain_loop :: "BlockchainHandler \<Rightarrow> FileGUI list \<Rightarrow> bytes \<Rightarrow> FileGUI list go option" where
  "GetBlockchain_loop bh filesConsensus blockHash =
     (if blockHash \<noteq> zero32 then
        (case map_of (bh_committedHistory bh) (bh_topBlockchainHash bh) of
           None \<Rightarrow> Some (Inl FailedTypeAssertion)
         | Some block \<Rightarrow> GetBlockchain_loop bh (filesConsensus @ [block_FileGUI block]) (bp_PrevHash block))
      else Some (Inr filesConsensus))"

declare GetBlockchain_loop.simps [code]

definition GetBlockchain :: "BlockchainHandler \<Rightarrow> FileGUI list go option" where
  "GetBlockchain bh = GetBlockchain_loop bh [] (bh_topBlockchainHash bh)"

section \<open>Rounds\<close>

lemma createTLCMessage_frame:
  "createTLCMessage rng ld b c f = Some (t, ext, ld') \<Longrightarrow>
   ld_bc ld' = ld_bc ld \<and> ld_Size ld' = ld_Size ld \<and> tlc_Confirmed t = c \<and> tlc_TxBlock t = b \<and> tlc_Fitness t = f \<and>
   gp_TLCMessage (ext_Packet ext) = Some t"
  by (auto simp: createTLCMessage_def publish_TLC_def Let_def bind_eq_Some_conv)

lemma confirm_message_frame:
  assumes "confirm_message app rng ld tlc = Some (c, ld', acts)"
  shows "ld_bc ld' = ld_bc ld \<and> ld_Size ld' = ld_Size ld"
  using assms createTLCMessage_frame by (force simp: confirm_message_def bind_eq_Some_conv)

text \<open>How often a list of actions announces that \<open>tlc\<close> has been witnessed.\<close>

fun announces :: "TLCMessage \<Rightarrow> ledger_action \<Rightarrow> bool" where
  "announces tlc (Monger e og i) = (case gp_TLCMessage (ext_Packet e) of None \<Rightarrow> False | Some t \<Rightarrow> tlc_Confirmed t = ucast (tlc_ID tlc))"
| "announces tlc _ = False"

definition announced :: "TLCMessage \<Rightarrow> ledger_action list \<Rightarrow> nat" where
  "announced tlc acts = length (filter (announces tlc) acts)"

lemma announced_simps [simp]:
  "announced tlc [] = 0" "announced tlc (a # as) = (if announces tlc a then 1 else 0) + announced tlc as"
  "announced tlc (as @ bs) = announced tlc as + announced tlc bs"
  by (simp_all add: announced_def)

lemma confirm_message_announces:
  assumes "confirm_message app rng ld tlc = Some (c, ld', acts)"
  shows "announced tlc acts = 1"
  using assms createTLCMessage_frame
  by (force simp: confirm_message_def bind_eq_Some_conv sendGossipWithConfirmation_def split: if_splits)

definition round_over :: "Ledger \<Rightarrow> Ledger \<Rightarrow> bool" where
  "round_over ld ld' \<longleftrightarrow> bh_myTime (ld_bc ld') = bh_myTime (ld_bc ld) + 1 \<and> ld_Size ld' = ld_Size ld \<and>
     (\<exists>m. bh_confirmations (ld_bc ld') (bh_myTime (ld_bc ld)) = Some m \<and> majority ld (length m))"

definition same_round :: "Ledger \<Rightarrow> Ledger \<Rightarrow> bool" where
  "same_round ld ld' \<longleftrightarrow> bh_myTime (ld_bc ld') = bh_myTime (ld_bc ld) \<and> ld_Size ld' = ld_Size ld"

lemma same_round_over: "same_round ld ld1 \<Longrightarrow> round_over ld1 ld' \<Longrightarrow> round_over ld ld'"
  by (simp add: same_round_def round_over_def majority_def)

lemma same_round_trans: "same_round ld ld1 \<Longrightarrow> same_round ld1 ld2 \<Longrightarrow> same_round ld ld2"
  by (simp add: same_round_def)

lemma checkForConfirmationsMajority_round:
  assumes "checkForConfirmationsMajority app rng ld tlc delivered = Some (r, ld', acts)"
  shows "(r \<longrightarrow> round_over ld ld' \<and> announced tlc acts = (if delivered then 0 else 1)) \<and> (\<not> r \<longrightarrow> ld' = ld \<and> acts = [])"
proof (cases "bh_confirmations (ld_bc ld) (bh_myTime (ld_bc ld))")
  case None
  with assms show ?thesis by (simp add: checkForConfirmationsMajority_def Let_def)
next
  case (Some m)
  show ?thesis
  proof (cases "majority ld (length m) \<and> \<not> delivered")
    case True
    with Some assms obtain c where "confirm_message app rng (ld\<lparr>ld_bc := (ld_bc ld)\<lparr>bh_myTime := bh_myTime (ld_bc ld) + 1\<rparr>\<rparr>) tlc =
        Some (c, ld', acts)" "r"
      by (auto simp: checkForConfirmationsMajority_def Let_def bind_eq_Some_conv)
    with True Some confirm_message_frame confirm_message_announces show ?thesis by (fastforce simp: round_over_def)
  next
    case False
    with Some assms show ?thesis
      by (auto simp: checkForConfirmationsMajority_def Let_def round_over_def split: if_splits)
  qed
qed

lemma saveConfirmation_time [simp]: "bh_myTime (saveConfirmation bh r og t) = bh_myTime bh"
  "bh_messageSeen (saveConfirmation bh r og t) = bh_messageSeen bh"
  by (simp_all add: saveConfirmation_def Let_def)

lemma getMessageOriginalRound_frame:
  "getMessageOriginalRound bh og i c = (r, bh') \<Longrightarrow> bh_myTime bh' = bh_myTime bh \<and> bh_messageSeen bh' = bh_messageSeen bh"
  by (auto simp: getMessageOriginalRound_def Let_def)

lemma checkForCausalProperty_frame:
  "checkForCausalProperty rng ld og vc c addr = Inr (b, ld', acts) \<Longrightarrow>
   bh_myTime (ld_bc ld') = bh_myTime (ld_bc ld) \<and> bh_messageSeen (ld_bc ld') = bh_messageSeen (ld_bc ld) \<and>
   ld_Size ld' = ld_Size ld \<and> (\<forall>tlc. announced tlc acts = 0)"
  by (auto simp: checkForCausalProperty_def go_bind_eq_Inr Let_def split: if_splits)

text \<open>The handler of incoming messages leaves the round alone, and records only unconfirmed messages as seen.\<close>

lemma handleTLCMessage_frame:
  assumes "handleTLCMessage app rng ld ext = Some (Inr (ld', acts))"
  shows "same_round ld ld' \<and> announced tlc acts = 0 \<and>
    (\<forall>t. gp_TLCMessage (ext_Packet ext) = Some t \<longrightarrow> sint (tlc_Confirmed t) > - 1 \<longrightarrow>
       bh_messageSeen (ld_bc ld') = bh_messageSeen (ld_bc ld))"
proof -
  obtain t where t: "gp_TLCMessage (ext_Packet ext) = Some t" using assms by (auto simp: handleTLCMessage_def split: option.splits)
  obtain r bh1 where g: "getMessageOriginalRound (ld_bc ld) (tlc_Origin t) (tlc_ID t) (tlc_Confirmed t) = (r, bh1)" by fastforce
  note f = getMessageOriginalRound_frame [OF g]
  have seen: "bh_myTime (saveMessageSeen bh1 r (tlc_Origin t) t) = bh_myTime bh1" by (simp add: saveMessageSeen_def Let_def)
  have ack: "\<not> announces tlc (ack_for app ld t)" by (simp add: ack_for_def Let_def split: prod.splits)
  show ?thesis
    using assms unfolding handleTLCMessage_def t option.case g prod.case
    by (auto simp: bind_eq_Some_conv Let_def go_bind_eq_Inr f seen ack same_round_def
        dest!: checkForCausalProperty_frame split: if_splits)
qed

lemma minus_one_not_id: "(- 1 :: 64 word) \<noteq> ucast (i :: uint32)"
proof
  assume "(- 1 :: 64 word) = ucast i"
  then have "uint (- 1 :: 64 word) = uint (ucast i :: 64 word)" by simp
  moreover have "uint (ucast i :: 64 word) = uint i" by (rule uint_up_ucast) (simp add: is_up)
  moreover have "uint (- 1 :: 64 word) = 18446744073709551615" by (simp add: unsigned_minus_1_eq_mask mask_eq_exp_minus_1)
  ultimately show False using unsigned_less [of i, where ?'a = int] by simp
qed

lemma conf_step_round:
  assumes "conf_step app rng ld gc e = Some (Inr (r, ld', gc', acts))" "gc_wait gc"
    and own: "gp_TLCMessage (ext_Packet (gc_ext gc)) = Some (gc_tlc gc)" "tlc_Confirmed (gc_tlc gc) = - 1"
  shows "gc_wait gc' \<and> gc_tlc gc' = gc_tlc gc \<and> gc_ext gc' = gc_ext gc \<and>
    (r \<longrightarrow> round_over ld ld' \<and> announced (gc_tlc gc) acts = (if gc_delivered gc then 0 else 1)) \<and>
    (\<not> r \<longrightarrow> same_round ld ld' \<and> announced (gc_tlc gc) acts + (if gc_delivered gc then 1 else 0) = (if gc_delivered gc' then 1 else 0))"
proof (cases e)
  case (Ack ack)
  show ?thesis
  proof (cases "pm_ID ack = tlc_ID (gc_tlc gc) \<and> \<not> gc_delivered gc")
    case True
    let ?gc = "gc\<lparr>gc_witnesses := List.insert (pm_Origin ack) (gc_witnesses gc)\<rparr>"
    show ?thesis
    proof (cases "majority ld (length (gc_witnesses ?gc))")
      case maj: True
      then obtain c ld1 a where "confirm_message app rng ld (gc_tlc gc) = Some (c, ld1, a)"
        using assms(1) True Ack by (auto simp: conf_ack_def Let_def bind_eq_Some_conv)
      with confirm_message_frame [OF this] confirm_message_announces [OF this] assms True Ack maj show ?thesis
        by (auto simp: conf_ack_def Let_def same_round_def)
    next
      case False
      with assms True Ack show ?thesis by (auto simp: conf_ack_def Let_def same_round_def)
    qed
  next
    case False
    with assms Ack show ?thesis by (auto simp: conf_ack_def same_round_def)
  qed
next
  case Confirm
  with assms checkForConfirmationsMajority_round show ?thesis by (fastforce simp: same_round_def)
next
  case Timer
  have "(- 1 :: 64 word) \<noteq> ucast (tlc_ID (gc_tlc gc))" by (rule minus_one_not_id)
  with Timer assms show ?thesis by (auto simp: same_round_def)
next
  case (Incoming ext)
  with assms show ?thesis by (auto simp: go_bind_eq_Inr dest!: handleTLCMessage_frame)
qed


lemma conf_loop_round:
  assumes "conf_loop app rng ld gc acts events = Some (Inr (ld', acts', rest))" "gc_wait gc"
    "gp_TLCMessage (ext_Packet (gc_ext gc)) = Some (gc_tlc gc)" "tlc_Confirmed (gc_tlc gc) = - 1"
  shows "round_over ld ld' \<and> announced (gc_tlc gc) acts' + (if gc_delivered gc then 1 else 0) = announced (gc_tlc gc) acts + 1"
  using assms
proof (induction events arbitrary: ld gc acts)
  case Nil
  then show ?case by simp
next
  case (Cons e es)
  obtain r ld1 gc1 a where st: "conf_step app rng ld gc e = Some (Inr (r, ld1, gc1, a))"
    using Cons.prems(1) by (auto split: option.splits sum.splits)
  note f = conf_step_round [OF st Cons.prems(2-)]
  show ?case
  proof (cases r)
    case True
    with Cons.prems(1) st f show ?thesis by auto
  next
    case False
    with Cons.prems st have "conf_loop app rng ld1 gc1 (acts @ a) es = Some (Inr (ld', acts', rest))" by simp
    from Cons.IH [OF this] f False Cons.prems show ?thesis by (auto intro: same_round_over)
  qed
qed

lemma tlcRound_over:
  assumes "tlcRound app rng ld tlc ext events = Some (Inr (ld', acts, rest))"
    and own: "gp_TLCMessage (ext_Packet ext) = Some tlc" "tlc_Confirmed tlc = - 1" and "0 < app_stubbornTimeout app"
  shows "round_over ld ld' \<and> announced tlc acts = 1"
proof -
  have start: "announced tlc [Monger ext (nd_Name (ld_node ld)) (tlc_ID tlc)] = 0" using own minus_one_not_id by simp
  obtain r ld1 a where c: "checkForConfirmationsMajority app rng ld tlc False = Some (r, ld1, a)"
    using assms(1) by (auto simp: tlcRound_def gossipWithConfirmation_def bind_eq_Some_conv Let_def)
  note f = checkForConfirmationsMajority_round [OF c]
  show ?thesis
  proof (cases r)
    case True
    with f c start assms(1) show ?thesis by (auto simp: tlcRound_def gossipWithConfirmation_def Let_def)
  next
    case False
    let ?gc = "\<lparr>gc_tlc = tlc, gc_ext = ext, gc_wait = True, gc_witnesses = [nd_Name (ld_node ld)], gc_delivered = False\<rparr>"
    have "conf_loop app rng ld ?gc [Monger ext (nd_Name (ld_node ld)) (tlc_ID tlc)] events = Some (Inr (ld', acts, rest))"
      using False f c assms(1,4) by (simp add: tlcRound_def gossipWithConfirmation_def Let_def)
    from conf_loop_round [OF this] own start show ?thesis by simp
  qed
qed

text \<open>
  Claim C17. A round of the logical clock ends only with a majority, and announces once: when \<open>tlcRound\<close> returns for a fresh
  message, whatever acknowledgements, confirmations, ticks and messages arrived in whatever order, the clock has advanced by exactly one, the
  round it left holds confirmations of more than half of the peers, and exactly one message confirming this one was sent.
\<close>

theorem tlcRound_completes:
  assumes "tlcRound app rng ld tlc ext events = Some (Inr (ld', acts, rest))"
    and own: "gp_TLCMessage (ext_Packet ext) = Some tlc" "tlc_Confirmed tlc = - 1" and "0 < app_stubbornTimeout app"
  shows "bh_myTime (ld_bc ld') = bh_myTime (ld_bc ld) + 1 \<and>
    (\<exists>m. bh_confirmations (ld_bc ld') (bh_myTime (ld_bc ld)) = Some m \<and> length m > unat (ld_Size ld) div 2) \<and>
    announced tlc acts = 1"
  using tlcRound_over [OF assms] by (auto simp: round_over_def majority_def)


section \<open>Consensus\<close>

definition confirmed_only :: "conf_event list \<Rightarrow> bool" where
  "confirmed_only events \<longleftrightarrow> (\<forall>ext t. Incoming ext \<in> set events \<longrightarrow> gp_TLCMessage (ext_Packet ext) = Some t \<longrightarrow> sint (tlc_Confirmed t) > - 1)"

abbreviation seen_in :: "Ledger \<Rightarrow> uint32 \<rightharpoonup> tlc_map" where
  "seen_in ld \<equiv> bh_messageSeen (ld_bc ld)"

lemma checkForConfirmationsMajority_seen:
  assumes "checkForConfirmationsMajority app rng ld tlc d = Some (r, ld', acts)"
  shows "seen_in ld' = seen_in ld"
  using assms
  by (auto simp: checkForConfirmationsMajority_def Let_def bind_eq_Some_conv dest!: confirm_message_frame split: option.splits if_splits)

lemma conf_step_seen:
  assumes "conf_step app rng ld gc e = Some (Inr (r, ld', gc', acts))" "confirmed_only [e]"
  shows "seen_in ld' = seen_in ld"
proof (cases e)
  case (Ack ack)
  with assms(1) show ?thesis
    by (auto simp: conf_ack_def Let_def bind_eq_Some_conv dest!: confirm_message_frame split: if_splits)
next
  case Confirm
  with assms(1) show ?thesis by (auto split: if_splits dest: checkForConfirmationsMajority_seen)
next
  case Timer
  with assms(1) show ?thesis by simp
next
  case (Incoming ext)
  then obtain a where h: "handleTLCMessage app rng ld ext = Some (Inr (ld', a))"
    using assms(1) by (auto simp: go_bind_eq_Inr)
  moreover obtain t where "gp_TLCMessage (ext_Packet ext) = Some t"
    using h by (auto simp: handleTLCMessage_def split: option.splits)
  ultimately show ?thesis using handleTLCMessage_frame [OF h] assms(2) Incoming by (simp add: confirmed_only_def)
qed

text \<open>Only what a round consumes can change what is recorded as seen.\<close>

lemma conf_loop_seen:
  "conf_loop app rng ld gc acts events = Some (Inr (ld', acts', rest)) \<Longrightarrow>
   \<exists>used. events = used @ rest \<and> (confirmed_only used \<longrightarrow> seen_in ld' = seen_in ld)"
proof (induction events arbitrary: ld gc acts)
  case (Cons e es)
  obtain r ld1 gc1 a where st: "conf_step app rng ld gc e = Some (Inr (r, ld1, gc1, a))"
    using Cons.prems by (auto split: option.splits sum.splits)
  show ?case
  proof (cases r)
    case True
    with Cons.prems st conf_step_seen [OF st] show ?thesis by (intro exI [of _ "[e]"]) auto
  next
    case False
    with Cons.prems st have "conf_loop app rng ld1 gc1 (acts @ a) es = Some (Inr (ld', acts', rest))" by simp
    from Cons.IH [OF this] obtain used where u: "es = used @ rest" "confirmed_only used \<longrightarrow> seen_in ld' = seen_in ld1" by blast
    with conf_step_seen [OF st] show ?thesis by (intro exI [of _ "e # used"]) (auto simp: confirmed_only_def)
  qed
qed simp

lemma tlcRound_seen:
  assumes "tlcRound app rng ld tlc ext events = Some (Inr (ld', acts, rest))"
  shows "\<exists>used. events = used @ rest \<and> (confirmed_only used \<longrightarrow> seen_in ld' = seen_in ld)"
proof -
  obtain r ld1 a where c: "checkForConfirmationsMajority app rng ld tlc False = Some (r, ld1, a)"
    using assms by (auto simp: tlcRound_def gossipWithConfirmation_def bind_eq_Some_conv Let_def)
  from checkForConfirmationsMajority_seen [OF c] assms c show ?thesis
    by (auto simp: tlcRound_def gossipWithConfirmation_def Let_def dest!: conf_loop_seen split: if_splits)
qed

text \<open>When old rounds are not acknowledged, a round that is over keeps what was seen in it.\<close>

definition only_current :: "AppConstants \<Rightarrow> bool" where
  "only_current app \<longleftrightarrow> app_hw3ex3Mode app \<and> \<not> app_ackAllMode app"

lemma handleTLCMessage_late:
  assumes "handleTLCMessage app rng ld ext = Some (Inr (ld', acts))" "only_current app" "r < bh_myTime (ld_bc ld)"
  shows "seen_in ld' r = seen_in ld r"
proof -
  obtain t where t: "gp_TLCMessage (ext_Packet ext) = Some t" using assms by (auto simp: handleTLCMessage_def split: option.splits)
  obtain q bh1 where g: "getMessageOriginalRound (ld_bc ld) (tlc_Origin t) (tlc_ID t) (tlc_Confirmed t) = (q, bh1)" by fastforce
  note f = getMessageOriginalRound_frame [OF g]
  have seen: "bh_messageSeen (saveMessageSeen bh1 q (tlc_Origin t) t) r = bh_messageSeen bh1 r" if "q \<noteq> r"
    using that by (simp add: saveMessageSeen_def Let_def)
  have ack: "ack_for app ld t \<noteq> NotifyConfirm" by (simp add: ack_for_def Let_def split: prod.splits)
  show ?thesis
    using assms unfolding handleTLCMessage_def t option.case g prod.case only_current_def
    by (auto simp: bind_eq_Some_conv Let_def go_bind_eq_Inr f seen ack dest!: checkForCausalProperty_frame split: if_splits)
qed

lemma conf_step_late:
  assumes "conf_step app rng ld gc e = Some (Inr (b, ld', gc', acts))" "only_current app" "r < bh_myTime (ld_bc ld)"
  shows "seen_in ld' r = seen_in ld r"
proof (cases "\<exists>ext. e = Incoming ext")
  case True
  then obtain ext where e: "e = Incoming ext" by blast
  obtain a where "handleTLCMessage app rng ld ext = Some (Inr (ld', a))" using assms(1) unfolding e by (auto simp: go_bind_eq_Inr)
  from handleTLCMessage_late [OF this assms(2,3)] show ?thesis .
next
  case False
  then have "confirmed_only [e]" by (auto simp: confirmed_only_def)
  with conf_step_seen [OF assms(1)] show ?thesis by simp
qed

lemma conf_loop_late:
  "conf_loop app rng ld gc acts events = Some (Inr (ld', acts', rest)) \<Longrightarrow> only_current app \<Longrightarrow> r < bh_myTime (ld_bc ld) \<Longrightarrow> gc_wait gc \<Longrightarrow>
   gp_TLCMessage (ext_Packet (gc_ext gc)) = Some (gc_tlc gc) \<Longrightarrow> tlc_Confirmed (gc_tlc gc) = - 1 \<Longrightarrow> seen_in ld' r = seen_in ld r"
proof (induction events arbitrary: ld gc acts)
  case (Cons e es)
  obtain b ld1 gc1 a where st: "conf_step app rng ld gc e = Some (Inr (b, ld1, gc1, a))"
    using Cons.prems(1) by (auto split: option.splits sum.splits)
  note late = conf_step_late [OF st Cons.prems(2,3)] and inv = conf_step_round [OF st Cons.prems(4-6)]
  show ?case
  proof (cases b)
    case True
    with Cons.prems(1) st late show ?thesis by auto
  next
    case False
    with Cons.prems(1) st have l: "conf_loop app rng ld1 gc1 (acts @ a) es = Some (Inr (ld', acts', rest))" by simp
    have "r < bh_myTime (ld_bc ld1)" using inv False Cons.prems(3) by (simp add: same_round_def)
    with Cons.IH [OF l Cons.prems(2) this] inv Cons.prems(5,6) late show ?thesis by simp
  qed
qed simp

lemma tlcRound_late:
  assumes "tlcRound app rng ld tlc ext events = Some (Inr (ld', acts, rest))" "only_current app" "r < bh_myTime (ld_bc ld)"
    and own: "gp_TLCMessage (ext_Packet ext) = Some tlc" "tlc_Confirmed tlc = - 1"
  shows "seen_in ld' r = seen_in ld r"
proof -
  obtain b ld1 a where c: "checkForConfirmationsMajority app rng ld tlc False = Some (b, ld1, a)"
    using assms(1) by (auto simp: tlcRound_def gossipWithConfirmation_def bind_eq_Some_conv Let_def)
  have "\<not> b \<Longrightarrow> ld1 = ld" using checkForConfirmationsMajority_round [OF c] by simp
  with checkForConfirmationsMajority_seen [OF c] assms c show ?thesis
    by (auto simp: tlcRound_def gossipWithConfirmation_def Let_def dest!: conf_loop_late [where r = r] split: if_splits)
qed

lemma next_round_start:
  assumes "next_round app rng ld highest events = Some (Inr (ld', acts, rest))"
  obtains tlc ext ld1 where "tlcRound app rng ld1 tlc ext events = Some (Inr (ld', acts, rest))" "ld_bc ld1 = ld_bc ld"
    "gp_TLCMessage (ext_Packet ext) = Some tlc" "tlc_Confirmed tlc = - 1"
  using assms createTLCMessage_frame by (auto simp: next_round_def bind_eq_Some_conv)

lemma go_option_bind_eq: "go_option_bind m f = Some (Inr w) \<longleftrightarrow> (\<exists>v. m = Some (Inr v) \<and> f v = Some (Inr w))"
  by (auto simp: go_option_bind_def split: option.splits sum.splits)

lemma fitter_props:
  "tlc_Fitness (foldl fitter b xs) \<noteq> NaN \<and> \<not> float_less (tlc_Fitness (foldl fitter b xs)) (tlc_Fitness b)"
  if "tlc_Fitness b \<noteq> NaN" for b
  using that
proof (induction xs arbitrary: b)
  case Nil
  then show ?case by simp
next
  case (Cons x xs)
  let ?b = "fitter b x"
  have b: "tlc_Fitness ?b \<noteq> NaN" "tlc_Fitness ?b = tlc_Fitness b \<or> float_less (tlc_Fitness b) (tlc_Fitness ?b)"
    using Cons.prems by (cases "tlc_Fitness b"; auto simp: fitter_def)+
  from Cons.IH [OF b(1)] b(2) show ?case
    using float_less_trans [of "tlc_Fitness (foldl fitter ?b xs)" "tlc_Fitness b" "tlc_Fitness ?b"] by auto
qed


lemma next_round_over:
  assumes "next_round app rng ld highest events = Some (Inr (ld', acts, rest))" "0 < app_stubbornTimeout app"
  shows "bh_myTime (ld_bc ld') = bh_myTime (ld_bc ld) + 1 \<and> bh_confirmations (ld_bc ld') (bh_myTime (ld_bc ld)) \<noteq> None \<and>
    (only_current app \<longrightarrow> r < bh_myTime (ld_bc ld) \<longrightarrow> seen_in ld' r = seen_in ld r)"
  using assms(1)
proof (rule next_round_start)
  fix tlc ext ld1
  assume n: "tlcRound app rng ld1 tlc ext events = Some (Inr (ld', acts, rest))" "ld_bc ld1 = ld_bc ld"
    "gp_TLCMessage (ext_Packet ext) = Some tlc" "tlc_Confirmed tlc = - 1"
  show ?thesis
    using tlcRound_over [OF n(1,3,4) assms(2)] tlcRound_late [OF n(1) _ _ n(3,4), of r] n(2) by (auto simp: round_over_def)
qed

lemma qsc_finish_exact:
  "if seen_in ld r = None then qsc_finish H ord ld r m m1 h = Inl FailedTypeAssertion else \<exists>res. qsc_finish H ord ld r m m1 h = Inr res"
  by (auto simp: qsc_finish_def checkIfConsensusReached_def commit_block_def Let_def)

text \<open>
  Claim C21. Consensus needs a competitor. When the three rounds of \<open>qscRound\<close> complete, the call panics, with a failed type
  assertion in the check for consensus, exactly when at the check no unconfirmed message of another node has been recorded as
  seen in the first round; otherwise it returns. A node that in the first round receives only confirmed messages of the others records none
  there. And when messages of old rounds are not acknowledged, as the program's flags have it, what is recorded later cannot
  help: the record of the first round is the one it had when that round ended.
\<close>

theorem qscRound_needs_competitor:
  fixes ld :: Ledger
  defines "s \<equiv> bh_myTime (ld_bc ld)"
  assumes own: "gp_TLCMessage (ext_Packet ext) = Some tlc" "tlc_Confirmed tlc = - 1" and to: "0 < app_stubbornTimeout app"
    and r0: "tlcRound app rng ld tlc ext events = Some (Inr (ld1, acts1, events1))"
    and r1: "next_round app rng ld1 (getTLCWithHighestFitness (ords 0) (confirmed_in ld1 s)) events1 = Some (Inr (ld2, acts2, events2))"
    and r2: "next_round app rng ld2 (getTLCWithHighestFitness (ords 1) (confirmed_in ld2 (s + 1))) events2 = Some (Inr (ld3, acts3, events3))"
  shows "(if bh_messageSeen (ld_bc ld3) s = None then qscRound H app rng ords ld tlc ext events = Some (Inl FailedTypeAssertion)
      else \<exists>r. qscRound H app rng ords ld tlc ext events = Some (Inr r)) \<and>
    (\<exists>used. events = used @ events1 \<and> (confirmed_only used \<longrightarrow> bh_messageSeen (ld_bc ld1) s = bh_messageSeen (ld_bc ld) s)) \<and>
    (app_hw3ex3Mode app \<and> \<not> app_ackAllMode app \<and> s < 2 ^ 32 - 2 \<longrightarrow> bh_messageSeen (ld_bc ld3) s = bh_messageSeen (ld_bc ld1) s)"
proof -
  have t1: "bh_myTime (ld_bc ld1) = s + 1" "bh_confirmations (ld_bc ld1) s \<noteq> None"
    using tlcRound_over [OF r0 own to] by (auto simp: round_over_def s_def)
  note n2 = next_round_over [OF r1 to, of s] and n3 = next_round_over [OF r2 to, of s]
  have t2: "bh_myTime (ld_bc ld2) = s + 2" "bh_confirmations (ld_bc ld2) (s + 1) \<noteq> None" using n2 t1(1) by simp_all
  obtain m where t3: "bh_confirmations (ld_bc ld3) (s + 2) = Some m" using n3 t2(1) by auto
  have "qsc_round2 H app rng ords s ld2 events2 = Some (go_bind (qsc_finish H (ords 2) ld3 s (confirmed_in ld3 s) (confirmed_in ld3 (s + 1))
      (getTLCWithHighestFitness (ords 1) (confirmed_in ld2 (s + 1)))) (\<lambda>(ld'', acts'). Inr (ld'', acts3 @ acts', events3)))"
    unfolding qsc_round2_def Let_def r2 go_option_bind_def using t3 by simp
  moreover have "qsc_round1 H app rng ords s ld1 events1 = after acts2 (qsc_round2 H app rng ords s ld2 events2)"
    unfolding qsc_round1_def Let_def r1 go_option_bind_def using t2(2) by auto
  moreover have "qscRound H app rng ords ld tlc ext events = after acts1 (qsc_round1 H app rng ords s ld1 events1)"
    unfolding qscRound_def Let_def r0 go_option_bind_def using t1(2) by (auto simp: s_def)
  ultimately have "if seen_in ld3 s = None then qscRound H app rng ords ld tlc ext events = Some (Inl FailedTypeAssertion)
      else \<exists>r. qscRound H app rng ords ld tlc ext events = Some (Inr r)"
    using qsc_finish_exact [of ld3 s H "ords 2" "confirmed_in ld3 s" "confirmed_in ld3 (s + 1)"
        "getTLCWithHighestFitness (ords 1) (confirmed_in ld2 (s + 1))"]
    by (auto simp: after_def go_option_bind_def split: if_splits)
  moreover have "\<exists>used. events = used @ events1 \<and> (confirmed_only used \<longrightarrow> seen_in ld1 s = seen_in ld s)"
    using tlcRound_seen [OF r0] by auto
  moreover have "seen_in ld3 s = seen_in ld1 s" if "only_current app" "s < 2 ^ 32 - 2"
  proof -
    have "s < s + 1" "s < s + 2" using that(2) by (simp_all add: word_less_nat_alt unat_word_ariths)
    with n2 n3 that(1) t1(1) t2(1) show ?thesis by simp
  qed
  ultimately show ?thesis unfolding only_current_def by blast
qed

text \<open>
  Claim C16. Consensus agrees: when two nodes find a consensus for the same round, and each has seen in that round the message the other
  decided for, they decided for the same block, and two chains with the same top have the same top after committing it,
  as long as the hash does not collide on the two blocks.
\<close>

theorem consensus_agreement:
  assumes A: "checkIfConsensusReached H ordA bhA sA s1A r = Inr (Some mA)" and B: "checkIfConsensusReached H ordB bhB sB s1B r = Inr (Some mB)"
    and seen: "bh_messageSeen bhA r = Some seenA" "(b, mB) \<in> set seenA" "bh_messageSeen bhB r = Some seenB" "(a, mA) \<in> set seenB"
    and no_collision: "BlockPublish_Hash H (tlc_TxBlock mA) = BlockPublish_Hash H (tlc_TxBlock mB) \<Longrightarrow>
      bp_PrevHash (tlc_TxBlock mA) @ TxPublish_Hash H (bp_Transaction (tlc_TxBlock mA)) =
      bp_PrevHash (tlc_TxBlock mB) @ TxPublish_Hash H (bp_Transaction (tlc_TxBlock mB))"
    and top: "bh_topBlockchainHash bhA = bh_topBlockchainHash bhB"
  shows "BlockPublish_Hash H (tlc_TxBlock mA) = BlockPublish_Hash H (tlc_TxBlock mB) \<and>
     bh_topBlockchainHash (snd (commit_block H bhA (tlc_TxBlock mA))) = bh_topBlockchainHash (snd (commit_block H bhB (tlc_TxBlock mB)))"
proof -
  let ?h = "\<lambda>m. BlockPublish_Hash H (tlc_TxBlock m)"
  have a: "tlc_Fitness mA \<noteq> NaN" "\<forall>(k, saw) \<in> set seenA. float_geq (tlc_Fitness saw) (tlc_Fitness mA) \<longrightarrow> ?h saw = ?h mA"
    using A seen(1) fitter_props [of zero_TLC]
    by (auto simp: checkIfConsensusReached_def Let_def list_ex_iff zero_TLC_def split: if_splits)
  have b: "tlc_Fitness mB \<noteq> NaN" "\<forall>(k, saw) \<in> set seenB. float_geq (tlc_Fitness saw) (tlc_Fitness mB) \<longrightarrow> ?h saw = ?h mB"
    using B seen(3) fitter_props [of zero_TLC]
    by (auto simp: checkIfConsensusReached_def Let_def list_ex_iff zero_TLC_def split: if_splits)
  have "float_geq (tlc_Fitness mA) (tlc_Fitness mB) \<or> float_geq (tlc_Fitness mB) (tlc_Fitness mA)"
    using a(1) b(1) by (cases "tlc_Fitness mA"; cases "tlc_Fitness mB") (auto simp: float_geq_def)
  then have h: "?h mA = ?h mB" using a(2) b(2) seen(2,4) by fastforce
  have "length (TxPublish_Hash H t) = 32" for t by (simp add: TxPublish_Hash_def array32_def)
  with no_collision [OF h]
  have "TxPublish_Hash H (bp_Transaction (tlc_TxBlock mA)) = TxPublish_Hash H (bp_Transaction (tlc_TxBlock mB))" by simp
  with h top show ?thesis by (simp add: commit_block_def Let_def BlockPublish_Hash_def)
qed

section \<open>The chain\<close>

text \<open>The hashes from \<open>h\<close> back to the first block.\<close>

fun chain :: "(bytes \<times> BlockPublish) list \<Rightarrow> bytes \<Rightarrow> bytes list \<Rightarrow> bool" where
  "chain history h [] \<longleftrightarrow> h = zero32"
| "chain history h (k # ks) \<longleftrightarrow> h = k \<and> k \<noteq> zero32 \<and>
     (case map_of history k of None \<Rightarrow> False | Some b \<Rightarrow> chain history (bp_PrevHash b) ks)"

definition committed :: "BlockchainHandler \<Rightarrow> bytes list \<Rightarrow> TxPublish list" where
  "committed bh hs = map (\<lambda>k. case map_of (bh_committedHistory bh) k of Some b \<Rightarrow> bp_Transaction b
     | None \<Rightarrow> \<lparr>tx_Name = [], tx_Size = 0, tx_MetafileHash = []\<rparr>) hs"

definition ledger_is :: "BlockchainHandler \<Rightarrow> TxPublish list \<Rightarrow> bool" where
  "ledger_is bh txs \<longleftrightarrow> (\<exists>hs. chain (bh_committedHistory bh) (bh_topBlockchainHash bh) hs \<and>
     set hs = fst ` set (bh_committedHistory bh) \<and> distinct (map fst (bh_committedHistory bh)) \<and> committed bh hs = txs)"

lemma chain_cong: "(\<And>k. k \<in> set hs \<Longrightarrow> map_of hist k = map_of hist' k) \<Longrightarrow> chain hist h hs = chain hist' h hs"
  by (induction hs arbitrary: h) (auto split: option.splits)

lemma known_history_step:
  "known_history history zero32 = Some True"
  "h \<noteq> zero32 \<Longrightarrow> map_of history h = None \<Longrightarrow> known_history history h = Some False"
  "h \<noteq> zero32 \<Longrightarrow> map_of history h = Some b \<Longrightarrow> known_history history h = known_history history (bp_PrevHash b)"
  by (subst known_history.simps, simp)+

lemma chain_known: "chain history h hs \<Longrightarrow> known_history history h = Some True"
proof (induction hs arbitrary: h)
  case Nil
  then show ?case by (simp add: known_history_step)
next
  case (Cons k ks)
  then obtain b where "h = k" "k \<noteq> zero32" "map_of history k = Some b" "chain history (bp_PrevHash b) ks"
    by (auto split: option.splits)
  with Cons.IH show ?case by (simp add: known_history_step)
qed

lemma chain_suffix: "chain history h hs \<Longrightarrow> k \<in> set hs \<Longrightarrow> \<exists>hs'. chain history k hs'"
proof (induction hs arbitrary: h)
  case Nil
  then show ?case by simp
next
  case (Cons x hs)
  show ?case
  proof (cases "k = x")
    case True
    with Cons.prems show ?thesis by (metis chain.simps(2))
  next
    case False
    with Cons show ?thesis by (auto split: option.splits)
  qed
qed

definition fresh_block :: "(bytes \<Rightarrow> bytes) \<Rightarrow> BlockchainHandler \<Rightarrow> BlockPublish \<Rightarrow> bool" where
  "fresh_block H bh b \<longleftrightarrow> (let h = BlockPublish_Hash H (b\<lparr>bp_PrevHash := bh_topBlockchainHash bh\<rparr>)
     in h \<noteq> zero32 \<and> h \<notin> fst ` set (bh_committedHistory bh))"

lemma ledger_is_New: "ledger_is NewBlockchainHandler []"
  by (auto simp: ledger_is_def NewBlockchainHandler_def committed_def intro!: exI [of _ "[]"])

lemma ledger_is_commit:
  assumes "ledger_is bh txs" "fresh_block H bh b"
  shows "ledger_is (snd (commit_block H bh b)) (bp_Transaction b # txs)"
proof -
  obtain hs where hs: "chain (bh_committedHistory bh) (bh_topBlockchainHash bh) hs"
    "set hs = fst ` set (bh_committedHistory bh)" "committed bh hs = txs" "distinct (map fst (bh_committedHistory bh))"
    using assms(1) by (auto simp: ledger_is_def)
  let ?b = "b\<lparr>bp_PrevHash := bh_topBlockchainHash bh\<rparr>"
  let ?h = "BlockPublish_Hash H ?b"
  let ?hist = "AList.update ?h ?b (bh_committedHistory bh)"
  have h: "?h \<noteq> zero32" "?h \<notin> set hs" using assms(2) hs(2) by (auto simp: fresh_block_def Let_def)
  then have same: "k \<in> set hs \<Longrightarrow> map_of ?hist k = map_of (bh_committedHistory bh) k" for k by (auto simp: update_conv')
  have c: "chain ?hist ?h (?h # hs)"
    using h(1) hs(1) chain_cong [of hs ?hist "bh_committedHistory bh"] same by (simp add: update_conv')
  have k: "set (?h # hs) = fst ` set ?hist" using hs(2) by (simp add: dom_update)
  have t: "committed (snd (commit_block H bh b)) (?h # hs) = bp_Transaction b # txs"
    using hs(3) same by (auto simp: committed_def commit_block_def Let_def update_conv' cong: map_cong)
  have e: "bh_committedHistory (snd (commit_block H bh b)) = ?hist" "bh_topBlockchainHash (snd (commit_block H bh b)) = ?h"
    by (simp_all add: commit_block_def Let_def)
  show ?thesis
    unfolding ledger_is_def e using distinct_update [OF hs(4), of ?h ?b] by (intro exI [of _ "?h # hs"] conjI c k t)
qed

text \<open>A log that only grows: what it shows after an entry was appended.\<close>

fun admissible_run :: "('s \<Rightarrow> 'b \<Rightarrow> bool) \<Rightarrow> ('b \<Rightarrow> 's \<Rightarrow> 's) \<Rightarrow> 's \<Rightarrow> 'b list \<Rightarrow> bool" where
  "admissible_run admissible grow s [] \<longleftrightarrow> True"
| "admissible_run admissible grow s (b # bs) \<longleftrightarrow>
     admissible s b \<and> admissible_run admissible grow (grow b s) bs"

locale append_log =
  fixes view :: "'s \<Rightarrow> 'e list \<Rightarrow> bool" and grow :: "'b \<Rightarrow> 's \<Rightarrow> 's" and content :: "'b \<Rightarrow> 'e"
    and admissible :: "'s \<Rightarrow> 'b \<Rightarrow> bool"
  assumes view_append: "view s es \<Longrightarrow> admissible s b \<Longrightarrow> view (grow b s) (content b # es)"
begin

lemma run_view:
  "admissible_run admissible grow s bs \<Longrightarrow> view s es \<Longrightarrow> view (fold grow bs s) (rev (map content bs) @ es)"
proof (induction bs arbitrary: s es)
  case Nil
  then show ?case by simp
next
  case (Cons b bs)
  then have "view (grow b s) (content b # es)" by (simp add: view_append)
  with Cons show ?case by fastforce
qed

end

definition commit :: "(bytes \<Rightarrow> bytes) \<Rightarrow> BlockPublish \<Rightarrow> BlockchainHandler \<Rightarrow> BlockchainHandler" where
  "commit H b bh = snd (commit_block H bh b)"

interpretation committed_log: append_log ledger_is "commit H" bp_Transaction "fresh_block H" for H
  by unfold_locales (simp add: commit_def ledger_is_commit)

text \<open>
  Claim C18. The committed history is a chain that records what was decided: after any sequence of commits without
  hash collision, following the previous hashes from the top goes through every committed block exactly once, the newest first, and
  shows the transactions of the commits in order.
\<close>

theorem commits_form_chain:
  assumes "admissible_run (fresh_block H) (commit H) NewBlockchainHandler bs"
  shows "ledger_is (fold (commit H) bs NewBlockchainHandler) (rev (map bp_Transaction bs))"
  using committed_log.run_view [OF assms ledger_is_New] by simp

text \<open>A hash that counts: it adds one to the first byte.\<close>

definition toy_count :: "bytes \<Rightarrow> bytes" where
  "toy_count bs = [hd bs + 1]"

definition toy_block :: "string \<Rightarrow> BlockPublish" where
  "toy_block name = \<lparr>bp_PrevHash = zero32, bp_Transaction = \<lparr>tx_Name = name, tx_Size = 3, tx_MetafileHash = [7]\<rparr>\<rparr>"

lemma toy_hashes:
  "bp_PrevHash b = x # xs \<Longrightarrow> BlockPublish_Hash toy_count b = (x + 1) # replicate 31 0"
  "zero32 = 0 # replicate 31 0"
  by (simp_all add: BlockPublish_Hash_def toy_count_def array32_def zero32_def numeral_eq_Suc)

theorem commits_form_chain_witness:
  "ledger_is (fold (commit toy_count) [toy_block ''a'', toy_block ''b''] NewBlockchainHandler)
    (map bp_Transaction [toy_block ''b'', toy_block ''a''])"
proof -
  have "admissible_run (fresh_block toy_count) (commit toy_count) NewBlockchainHandler [toy_block ''a'', toy_block ''b'']"
    by (simp add: toy_hashes commit_def commit_block_def fresh_block_def NewBlockchainHandler_def toy_block_def Let_def)
  from commits_form_chain [OF this] show ?thesis by simp
qed

text \<open>
  Claim C20. Validation ends and is exact: on a history that is a chain the check of a block returns, and accepts it exactly when no
  committed transaction has its name and its previous hash is that of a committed block or the zero hash.
\<close>

theorem isTxBlockValid_exact:
  assumes "ledger_is bh txs"
  shows "isTxBlockValid bh b = Some (tx_Name (bp_Transaction b) \<notin> tx_Name ` set txs \<and>
    (bp_PrevHash b = zero32 \<or> bp_PrevHash b \<in> fst ` set (bh_committedHistory bh)))"
proof -
  let ?hist = "bh_committedHistory bh" and ?n = "tx_Name (bp_Transaction b)"
  obtain hs where hs: "chain ?hist (bh_topBlockchainHash bh) hs" "set hs = fst ` set ?hist" "committed bh hs = txs"
    "distinct (map fst ?hist)" using assms by (auto simp: ledger_is_def)
  let ?entry = "\<lambda>k. case map_of ?hist k of Some b \<Rightarrow> bp_Transaction b | None \<Rightarrow> \<lparr>tx_Name = [], tx_Size = 0, tx_MetafileHash = []\<rparr>"
  have "\<forall>p \<in> set ?hist. ?entry (fst p) = bp_Transaction (snd p)" using hs(4) by auto
  then have "?entry ` fst ` set ?hist = (\<lambda>(k, block). bp_Transaction block) ` set ?hist"
    by (auto simp: image_image split_beta intro!: image_cong)
  then have "set txs = (\<lambda>(k, block). bp_Transaction block) ` set ?hist"
    using hs(2,3) by (auto simp: committed_def)
  then have name: "list_ex (\<lambda>(key, block). tx_Name (bp_Transaction block) = ?n) ?hist \<longleftrightarrow> ?n \<in> tx_Name ` set txs"
    by (force simp: list_ex_iff split_beta image_image image_iff)
  have "known_history ?hist (bp_PrevHash b) = Some (bp_PrevHash b = zero32 \<or> bp_PrevHash b \<in> fst ` set ?hist)"
  proof (cases "bp_PrevHash b \<in> fst ` set ?hist")
    case True
    with hs obtain hs' where "chain ?hist (bp_PrevHash b) hs'" using chain_suffix by metis
    with True show ?thesis by (simp add: chain_known)
  next
    case False
    then have "map_of ?hist (bp_PrevHash b) = None" by (simp add: map_of_eq_None_iff)
    with False show ?thesis by (cases "bp_PrevHash b = zero32") (simp_all add: known_history_step)
  qed
  with name show ?thesis by (simp add: isTxBlockValid_def)
qed

theorem isTxBlockValid_exact_witness:
  "isTxBlockValid (commit toy_count (toy_block ''a'') NewBlockchainHandler) (toy_block ''b'') = Some True"
proof -
  have "ledger_is (commit toy_count (toy_block ''a'') NewBlockchainHandler) [bp_Transaction (toy_block ''a'')]"
    unfolding commit_def by (rule ledger_is_commit [OF ledger_is_New])
      (simp add: fresh_block_def toy_hashes NewBlockchainHandler_def toy_block_def Let_def)
  from isTxBlockValid_exact [OF this, of "toy_block ''b''"] show ?thesis by (simp add: toy_block_def)
qed

lemma GetBlockchain_loop_diverges:
  assumes top: "map_of (bh_committedHistory bh) (bh_topBlockchainHash bh) = Some b" "bp_PrevHash b \<noteq> zero32"
    and r: "GetBlockchain_loop bh acc h = Some r"
  shows "h = zero32"
proof -
  have "bh = bh \<longrightarrow> h = zero32"
    by (rule GetBlockchain_loop.raw_induct [where P = "\<lambda>bh' acc h r. bh' = bh \<longrightarrow> h = zero32", OF _ r])
      (use top in \<open>auto split: if_splits\<close>)
  then show ?thesis by simp
qed

lemma GetBlockchain_loop_step:
  "GetBlockchain_loop bh acc zero32 = Some (Inr acc)"
  "h \<noteq> zero32 \<Longrightarrow> map_of (bh_committedHistory bh) (bh_topBlockchainHash bh) = Some b \<Longrightarrow>
   GetBlockchain_loop bh acc h = GetBlockchain_loop bh (acc @ [block_FileGUI b]) (bp_PrevHash b)"
  by (subst GetBlockchain_loop.simps, simp)+

text \<open>
  The chain shown to the user: with no committed block the list is empty and with one it holds that block, but with
  two or more the loop, which looks up the top again at every turn, never ends.
\<close>

theorem GetBlockchain_ends_below_two:
  assumes "ledger_is bh txs"
  shows "(txs = [] \<longrightarrow> GetBlockchain bh = Some (Inr [])) \<and>
    (length txs = 1 \<longrightarrow> (\<exists>b. bp_Transaction b = hd txs \<and> GetBlockchain bh = Some (Inr [block_FileGUI b]))) \<and>
    (2 \<le> length txs \<longrightarrow> GetBlockchain bh = None)"
proof -
  let ?hist = "bh_committedHistory bh" and ?top = "bh_topBlockchainHash bh"
  obtain hs where hs: "chain ?hist ?top hs" "committed bh hs = txs" using assms by (auto simp: ledger_is_def)
  then have len: "length txs = length hs" by (auto simp: committed_def)
  show ?thesis
  proof (cases hs)
    case Nil
    with hs have "?top = zero32" "txs = []" by (auto simp: committed_def)
    then show ?thesis by (simp add: GetBlockchain_def GetBlockchain_loop_step)
  next
    case (Cons k ks)
    with hs(1) obtain b where b: "?top = k" "k \<noteq> zero32" "map_of ?hist k = Some b" "chain ?hist (bp_PrevHash b) ks"
      by (auto split: option.splits)
    have hd: "bp_Transaction b = hd txs" using hs(2) Cons b(3) by (auto simp: committed_def)
    have step: "GetBlockchain bh = GetBlockchain_loop bh [block_FileGUI b] (bp_PrevHash b)"
      using b by (simp add: GetBlockchain_def GetBlockchain_loop_step)
    show ?thesis
    proof (cases ks)
      case Nil
      with b(4) have "bp_PrevHash b = zero32" by simp
      with step hd len Cons Nil show ?thesis by (auto simp: GetBlockchain_loop_step)
    next
      case (Cons k' ks')
      with b(4) have ne: "bp_PrevHash b \<noteq> zero32" by auto
      have "GetBlockchain_loop bh [block_FileGUI b] (bp_PrevHash b) = None"
        using GetBlockchain_loop_diverges [of bh b] b(1,3) ne by (metis not_None_eq)
      with step len \<open>hs = k # ks\<close> Cons show ?thesis by auto
    qed
  qed
qed

theorem GetBlockchain_ends_below_two_witness:
  "GetBlockchain (commit toy_count (toy_block ''b'') (commit toy_count (toy_block ''a'') NewBlockchainHandler)) = None"
proof -
  have "ledger_is (commit toy_count (toy_block ''b'') (commit toy_count (toy_block ''a'') NewBlockchainHandler))
      [bp_Transaction (toy_block ''b''), bp_Transaction (toy_block ''a'')]"
    unfolding commit_def by (intro ledger_is_commit ledger_is_New)
      (simp_all add: fresh_block_def toy_hashes commit_block_def NewBlockchainHandler_def toy_block_def Let_def)
  from GetBlockchain_ends_below_two [OF this] show ?thesis by simp
qed


section \<open>A concrete node\<close>

definition toy_app :: AppConstants where
  "toy_app = \<lparr>app_simpleMode = False, app_hw3ex2Mode = False, app_hw3ex3Mode = True, app_hw3ex4Mode = True, app_ackAllMode = False,
     app_SignalMode = False, app_hopLimit = 10, app_stubbornTimeout = 5, app_routeRumorTimeout = 0, app_antiEntropyTimeout = 10\<rparr>"

definition toy_ledger :: Ledger where
  "toy_ledger = \<lparr>ld_node = \<lparr>nd_Name = ''alice'', nd_Address = ''a'', nd_Peers = [''b''], nd_gossip = NewGossipHandler, nd_routing = NewRoutingHandler\<rparr>,
     ld_Size = 2, ld_bc = NewBlockchainHandler\<rparr>"

definition toy_tlc :: "string \<Rightarrow> uint32 \<Rightarrow> 64 word \<Rightarrow> TLCMessage" where
  "toy_tlc name i c = \<lparr>tlc_Origin = name, tlc_ID = i, tlc_Confirmed = c, tlc_TxBlock = toy_block name,
     tlc_VectorClock = Some \<lparr>st_Want = []\<rparr>, tlc_Fitness = Fin 1\<rparr>"

definition toy_ext :: "string \<Rightarrow> uint32 \<Rightarrow> 64 word \<Rightarrow> ExtendedGossipPacket" where
  "toy_ext name i c = \<lparr>ext_Packet = empty_packet\<lparr>gp_TLCMessage := Some (toy_tlc name i c)\<rparr>, ext_SenderAddr = ''b''\<rparr>"

text \<open>An acknowledgement of \<open>bob\<close>, a message of his that is confirmed, and the notification.\<close>

definition toy_events :: "uint32 \<Rightarrow> 64 word \<Rightarrow> conf_event list" where
  "toy_events i c = [Ack \<lparr>pm_Origin = ''bob'', pm_ID = i, pm_Text = [], pm_Destination = ''alice'', pm_HopLimit = 5\<rparr>,
     Incoming (toy_ext ''bob'' 9 c), Confirm]"

definition toy_start :: Ledger where
  "toy_start = toy_ledger\<lparr>ld_node := (ld_node toy_ledger)\<lparr>nd_gossip := NewGossipHandler\<lparr>gh_seqID := 2\<rparr>\<rparr>\<rparr>"

theorem tlcRound_completes_witness:
  "\<exists>ld' acts. tlcRound toy_app (\<lambda>_. []) toy_start (toy_tlc ''alice'' 1 (- 1)) (toy_ext ''alice'' 1 (- 1)) (toy_events 1 5 @ [Timer]) =
      Some (Inr (ld', acts, [Timer])) \<and> bh_myTime (ld_bc ld') = 1 \<and> announced (toy_tlc ''alice'' 1 (- 1)) acts = 1"
proof -
  let ?run = "tlcRound toy_app (\<lambda>_. []) toy_start (toy_tlc ''alice'' 1 (- 1)) (toy_ext ''alice'' 1 (- 1)) (toy_events 1 5 @ [Timer])"
  have "case ?run of Some (Inr r) \<Rightarrow> (case r of (ld', acts, rest) \<Rightarrow> rest = [Timer]) | _ \<Rightarrow> False" by code_simp
  then obtain ld' acts where run: "?run = Some (Inr (ld', acts, [Timer]))" by (auto split: option.splits sum.splits prod.splits)
  from tlcRound_completes [OF this] show ?thesis
    by (intro exI [of _ ld'] exI [of _ acts] conjI run)
      (simp_all add: toy_ext_def toy_tlc_def toy_app_def toy_start_def toy_ledger_def NewBlockchainHandler_def)
qed

theorem qscRound_needs_competitor_witness:
  "let e1 = toy_events 1 5; e23 = toy_events 3 6 @ toy_events 5 7; late = Incoming (toy_ext ''bob'' 10 (- 1));
       run = qscRound toy_count toy_app (\<lambda>_. []) (\<lambda>_ m. m) toy_start (toy_tlc ''alice'' 1 (- 1)) (toy_ext ''alice'' 1 (- 1))
   in run (e1 @ late # e23) = Some (Inl FailedTypeAssertion) \<and> (\<exists>r. run (late # e1 @ e23) = Some (Inr r))"
proof -
  let ?tlc = "toy_tlc ''alice'' 1 (- 1)" and ?ext = "toy_ext ''alice'' 1 (- 1)" and ?late = "Incoming (toy_ext ''bob'' 10 (- 1))"
  let ?seen = "\<lambda>events. case tlcRound toy_app (\<lambda>_. []) toy_start ?tlc ?ext events of Some (Inr (ld1, _, e1)) \<Rightarrow>
      (case next_round toy_app (\<lambda>_. []) ld1 (getTLCWithHighestFitness (\<lambda>m. m) (confirmed_in ld1 0)) e1 of Some (Inr (ld2, _, e2)) \<Rightarrow>
      (case next_round toy_app (\<lambda>_. []) ld2 (getTLCWithHighestFitness (\<lambda>m. m) (confirmed_in ld2 1)) e2 of Some (Inr (ld3, _, _)) \<Rightarrow>
      Some (Option.is_none (bh_messageSeen (ld_bc ld3) 0)) | _ \<Rightarrow> None) | _ \<Rightarrow> None) | _ \<Rightarrow> None"
  let ?run = "qscRound toy_count toy_app (\<lambda>_. []) (\<lambda>_ m. m) toy_start ?tlc ?ext"
  have "?seen (toy_events 1 5 @ ?late # toy_events 3 6 @ toy_events 5 7) = Some True"
    "?seen (?late # toy_events 1 5 @ toy_events 3 6 @ toy_events 5 7) = Some False" by code_simp+
  moreover have "if none then ?run events = Some (Inl FailedTypeAssertion) else \<exists>r. ?run events = Some (Inr r)"
    if "?seen events = Some none" for events none
  proof -
    from that obtain ld1 a1 e1 ld2 a2 e2 ld3 a3 e3 where r: "tlcRound toy_app (\<lambda>_. []) toy_start ?tlc ?ext events = Some (Inr (ld1, a1, e1))"
      "next_round toy_app (\<lambda>_. []) ld1 (getTLCWithHighestFitness (\<lambda>m. m) (confirmed_in ld1 0)) e1 = Some (Inr (ld2, a2, e2))"
      "next_round toy_app (\<lambda>_. []) ld2 (getTLCWithHighestFitness (\<lambda>m. m) (confirmed_in ld2 1)) e2 = Some (Inr (ld3, a3, e3))"
      and n: "none = Option.is_none (bh_messageSeen (ld_bc ld3) 0)"
      by (auto split: option.splits sum.splits prod.splits)
    have "bh_myTime (ld_bc toy_start) = 0" by (simp add: toy_start_def toy_ledger_def NewBlockchainHandler_def)
    with qscRound_needs_competitor [of ?ext ?tlc toy_app "\<lambda>_. []" toy_start events ld1 a1 e1 "\<lambda>_ m. m" ld2 a2 e2 ld3 a3 e3 toy_count] r
    show ?thesis unfolding n by (auto simp: toy_ext_def toy_tlc_def toy_app_def Option.is_none_def split: if_splits)
  qed
  ultimately show ?thesis unfolding Let_def by (metis (no_types, lifting))
qed

theorem consensus_agreement_witness:
  "let mA = toy_tlc ''alice'' 1 (- 1); mB = (toy_tlc ''bob'' 4 (- 1))\<lparr>tlc_TxBlock := toy_block ''alice''\<rparr>;
       bhA = NewBlockchainHandler\<lparr>bh_messageSeen := [0 \<mapsto> [(''bob'', mB)]]\<rparr>;
       bhB = NewBlockchainHandler\<lparr>bh_messageSeen := [0 \<mapsto> [(''alice'', mA)]]\<rparr>
   in bh_topBlockchainHash (snd (commit_block toy_count bhA (tlc_TxBlock mA))) =
      bh_topBlockchainHash (snd (commit_block toy_count bhB (tlc_TxBlock mB)))"
proof -
  let ?mA = "toy_tlc ''alice'' 1 (- 1)" and ?mB = "(toy_tlc ''bob'' 4 (- 1))\<lparr>tlc_TxBlock := toy_block ''alice''\<rparr>"
  let ?bhA = "NewBlockchainHandler\<lparr>bh_messageSeen := [0 \<mapsto> [(''bob'', ?mB)]]\<rparr>"
  let ?bhB = "NewBlockchainHandler\<lparr>bh_messageSeen := [0 \<mapsto> [(''alice'', ?mA)]]\<rparr>"
  have tx: "tlc_TxBlock ?mA = tlc_TxBlock ?mB" by (simp add: toy_tlc_def)
  have "checkIfConsensusReached toy_count (\<lambda>m. m) ?bhA [(''alice'', ?mA)] [(''bob'', ?mB)] 0 = Inr (Some ?mA)"
    using tx by (simp add: checkIfConsensusReached_def fitter_def zero_TLC_def toy_tlc_def)
  moreover have "checkIfConsensusReached toy_count (\<lambda>m. m) ?bhB [(''bob'', ?mB)] [(''bob'', ?mB)] 0 = Inr (Some ?mB)"
    using tx by (simp add: checkIfConsensusReached_def fitter_def zero_TLC_def toy_tlc_def)
  ultimately show ?thesis
    using consensus_agreement [of toy_count "\<lambda>m. m" ?bhA "[(''alice'', ?mA)]" "[(''bob'', ?mB)]" 0 ?mA "\<lambda>m. m" ?bhB "[(''bob'', ?mB)]"
        "[(''bob'', ?mB)]" ?mB "[(''bob'', ?mB)]" "''bob''" "[(''alice'', ?mA)]" "''alice''"] tx
    by (simp add: Let_def NewBlockchainHandler_def)
qed

end
