(* ===== verification/Crypto.thy ===== *)
theory Crypto
  imports Curve
begin

text \<open>
  Key agreement, key derivation and signatures (\<open>src/adssignal/adsECDH.go\<close>, \<open>adsKDF.go\<close>,
  \<open>adsECDSA.go\<close>). The primitives of Go's \<open>crypto\<close> packages and of \<open>golang.org/x/crypto/hkdf\<close> are the fields of
  the record \<open>Crypto\<close>, an argument of every definition that uses them; HMAC is built from SHA-256 as in
  RFC 2104. What the protocols rely on is the predicate \<open>crypto_laws\<close>: scalar multiplication stays on the
  curve and commutes, SHA-256 returns 32 bytes, AES decryption inverts encryption of a block, a
  signature verifies under the key that made it. \<open>toy_crypto\<close> satisfies all of them.
  Randomness is explicit: each generated private scalar is an argument.
\<close>

section \<open>Headers and primitives\<close>

record RatchetHeader =
  hdr_PubKey :: bytes
  hdr_Pn :: "64 word"
  hdr_N :: "64 word"
  hdr_Origin :: string
  hdr_Destination :: string
  hdr_HopLimit :: "32 word"

record Crypto =
  curve :: CurveParams
  ScalarMult :: "int \<Rightarrow> int \<Rightarrow> bytes \<Rightarrow> int \<times> int"
  Sum256 :: "bytes \<Rightarrow> bytes"
  hkdf_stream :: "bytes \<Rightarrow> bytes \<Rightarrow> bytes \<Rightarrow> nat \<Rightarrow> byte"
  aes_Encrypt :: "bytes \<Rightarrow> bytes \<Rightarrow> bytes"
  aes_Decrypt :: "bytes \<Rightarrow> bytes \<Rightarrow> bytes"
  ecdsa_Sign :: "bytes \<Rightarrow> int \<Rightarrow> bytes \<Rightarrow> (int \<times> int) option"
  ecdsa_Verify :: "int option \<Rightarrow> int option \<Rightarrow> bytes \<Rightarrow> int \<Rightarrow> int \<Rightarrow> bool"
  gob_Encode :: "RatchetHeader \<Rightarrow> bytes"

section \<open>Diffie-Hellman\<close>

text \<open>
  \<open>elliptic.GenerateKey\<close> draws the scalar \<open>d\<close> and returns \<open>d\<close> times the base point.
\<close>

definition GenerateDH :: "Crypto \<Rightarrow> bytes \<Rightarrow> DHPair" where
  "GenerateDH cr d =
     (let c = curve cr; (Qx, Qy) = ScalarMult cr (cGx c) (cGy c) d
      in \<lparr>PubKey = \<lparr>pt_C = c, pt_x = Some Qx, pt_y = Some Qy\<rparr>, PrivKey = d\<rparr>)"

definition GenerateAKA :: "Crypto \<Rightarrow> EllipticPoint \<Rightarrow> bytes go" where
  "GenerateAKA cr pubKey =
     go_bind (Marshal (curve cr) (pt_x pubKey) (pt_y pubKey)) (\<lambda>marshalPk.
       go_slice (Sum256 cr marshalPk) 12 32)"

definition DH :: "Crypto \<Rightarrow> DHPair \<Rightarrow> EllipticPoint \<Rightarrow> bytes go" where
  "DH cr dhPair dhPubKey =
     go_bind (go_deref (pt_x dhPubKey)) (\<lambda>x. go_bind (go_deref (pt_y dhPubKey)) (\<lambda>y.
       let (Kx, Ky) = ScalarMult cr x y (PrivKey dhPair)
       in Marshal (curve cr) (Some Kx) (Some Ky)))"

section \<open>Key derivation\<close>

definition InfoKDF :: string where "InfoKDF = ''ADS_DSE_2019_KDF''"
definition InfoAEAD :: string where "InfoAEAD = ''SDA_2019_AES_DSE''"
definition InfoX3DH :: string where "InfoX3DH = ''DSA_XDH_DSE_2019''"
definition MsgKeyInput :: string where "MsgKeyInput = ''1''"
definition ChainKeyInput :: string where "ChainKeyInput = ''2''"

text \<open>
  \<open>hkdf.New\<close> returns a reader of a byte stream and \<open>io.ReadFull\<close> takes the next bytes of it. At most 80 bytes
  are read, far from the 8160 after which the reader fails.
\<close>

definition ReadFull :: "(nat \<Rightarrow> byte) \<Rightarrow> nat \<Rightarrow> nat \<Rightarrow> bytes" where
  "ReadFull stream off n = map stream [off..<off + n]"

definition KdfRK :: "Crypto \<Rightarrow> bytes \<Rightarrow> bytes \<Rightarrow> bytes \<times> bytes" where
  "KdfRK cr rk dhOut =
     (let r = hkdf_stream cr rk dhOut (string_bytes InfoKDF) in (ReadFull r 0 32, ReadFull r 32 32))"

definition hmac_block_key :: "Crypto \<Rightarrow> bytes \<Rightarrow> bytes" where
  "hmac_block_key cr key =
     (let k = (if 64 < length key then Sum256 cr key else key) in k @ replicate (64 - length k) 0)"

definition NewHMAC :: "Crypto \<Rightarrow> bytes \<Rightarrow> bytes \<Rightarrow> bytes" where
  "NewHMAC cr inp key =
     (let k = hmac_block_key cr key
      in Sum256 cr (map (\<lambda>b. b XOR 0x5c) k @ Sum256 cr (map (\<lambda>b. b XOR 0x36) k @ inp)))"

definition KdfCK :: "Crypto \<Rightarrow> bytes \<Rightarrow> bytes \<times> bytes" where
  "KdfCK cr ck = (NewHMAC cr (string_bytes ChainKeyInput) ck, NewHMAC cr (string_bytes MsgKeyInput) ck)"

definition KdfAEAD :: "Crypto \<Rightarrow> bytes \<Rightarrow> bytes \<times> bytes \<times> bytes" where
  "KdfAEAD cr mk =
     (let r = hkdf_stream cr mk (replicate 80 0) (string_bytes InfoAEAD)
      in (ReadFull r 0 32, ReadFull r 32 32, ReadFull r 64 16))"

definition KdfX3DH :: "Crypto \<Rightarrow> bytes \<Rightarrow> bytes" where
  "KdfX3DH cr km =
     (let r = hkdf_stream cr km (replicate 32 0) (string_bytes InfoX3DH) in ReadFull r 0 32)"

section \<open>Signatures\<close>

record ECDSA =
  sig_R :: bytes
  sig_S :: bytes

text \<open>\<open>ConvertKey\<close> rewraps a key pair as \<open>ecdsa.PrivateKey\<close>; \<open>D\<close> is nil when no private key is given.\<close>

record ecdsa_PrivateKey =
  ek_Curve :: CurveParams
  ek_X :: "int option"
  ek_Y :: "int option"
  ek_D :: "int option"

definition ConvertKey :: "bytes option \<Rightarrow> EllipticPoint \<Rightarrow> ecdsa_PrivateKey" where
  "ConvertKey sk pk =
     \<lparr>ek_Curve = pt_C pk, ek_X = pt_x pk, ek_Y = pt_y pk, ek_D = map_option big_SetBytes sk\<rparr>"

text \<open>The first argument of \<open>ecdsa_Sign\<close> is the randomness it draws; an error gives a nil signature.\<close>

definition GenerateSignature :: "Crypto \<Rightarrow> bytes \<Rightarrow> bytes \<Rightarrow> bytes \<Rightarrow> EllipticPoint \<Rightarrow> ECDSA option" where
  "GenerateSignature cr rnd message sk pk =
     (let privateKey = ConvertKey (Some sk) pk; hash = Sum256 cr message
      in map_option (\<lambda>(r, s). \<lparr>sig_R = big_Bytes r, sig_S = big_Bytes s\<rparr>)
           (ecdsa_Sign cr rnd (the (ek_D privateKey)) hash))"

definition VerifySignature :: "Crypto \<Rightarrow> bytes \<Rightarrow> ECDSA \<Rightarrow> EllipticPoint \<Rightarrow> bool" where
  "VerifySignature cr message sign pk =
     (let privateKey = ConvertKey None pk; hash = Sum256 cr message
      in ecdsa_Verify cr (ek_X privateKey) (ek_Y privateKey) hash
           (big_SetBytes (sig_R sign)) (big_SetBytes (sig_S sign)))"

section \<open>The documented laws of the primitives\<close>

definition valid_scalar :: "Crypto \<Rightarrow> bytes \<Rightarrow> bool" where
  "valid_scalar cr d \<longleftrightarrow> 0 < big_SetBytes d \<and> big_SetBytes d < cN (curve cr)"

definition ScalarBaseMult :: "Crypto \<Rightarrow> bytes \<Rightarrow> int \<times> int" where
  "ScalarBaseMult cr d = ScalarMult cr (cGx (curve cr)) (cGy (curve cr)) d"

definition dh_laws :: "Crypto \<Rightarrow> bool" where
  "dh_laws cr \<longleftrightarrow> (\<forall>a b. valid_scalar cr a \<longrightarrow> valid_scalar cr b \<longrightarrow>
     (case ScalarBaseMult cr a of (ax, ay) \<Rightarrow> case ScalarBaseMult cr b of (bx, by) \<Rightarrow>
        curve_point (curve cr) ax ay \<and> ScalarMult cr ax ay b = ScalarMult cr bx by a \<and>
        (case ScalarMult cr ax ay b of (kx, ky) \<Rightarrow> curve_point (curve cr) kx ky)))"

definition block_laws :: "Crypto \<Rightarrow> bool" where
  "block_laws cr \<longleftrightarrow> (\<forall>k b. length k = 32 \<longrightarrow> length b = 16 \<longrightarrow>
     length (aes_Encrypt cr k b) = 16 \<and> aes_Decrypt cr k (aes_Encrypt cr k b) = b)"

definition signature_laws :: "Crypto \<Rightarrow> bool" where
  "signature_laws cr \<longleftrightarrow> (\<forall>rnd d h. valid_scalar cr d \<longrightarrow>
     (case ScalarBaseMult cr d of (x, y) \<Rightarrow>
        (\<exists>r s. ecdsa_Sign cr rnd (big_SetBytes d) h = Some (r, s) \<and> 0 \<le> r \<and> 0 \<le> s \<and>
           ecdsa_Verify cr (Some x) (Some y) h r s)))"

definition crypto_laws :: "Crypto \<Rightarrow> bool" where
  "crypto_laws cr \<longleftrightarrow> valid_curve (curve cr) \<and> (\<forall>m. length (Sum256 cr m) = 32) \<and>
     dh_laws cr \<and> block_laws cr \<and> signature_laws cr"

lemma crypto_lawsD:
  assumes "crypto_laws cr"
  shows "valid_curve (curve cr)" "length (Sum256 cr m) = 32" "dh_laws cr" "block_laws cr" "signature_laws cr"
  using assms by (simp_all add: crypto_laws_def)

lemma length_NewHMAC: "crypto_laws cr \<Longrightarrow> length (NewHMAC cr m k) = 32"
  by (simp add: NewHMAC_def Let_def crypto_lawsD)

lemma length_ReadFull [simp]: "length (ReadFull r off n) = n"
  by (simp add: ReadFull_def)

lemma dh_lawsD:
  assumes "dh_laws cr" "valid_scalar cr a" "valid_scalar cr b"
    and "ScalarBaseMult cr a = (ax, ay)" "ScalarBaseMult cr b = (bx, by)"
  shows "curve_point (curve cr) ax ay" "ScalarMult cr ax ay b = ScalarMult cr bx by a"
    "ScalarMult cr ax ay b = (kx, ky) \<Longrightarrow> curve_point (curve cr) kx ky"
  using assms unfolding dh_laws_def by fastforce+

section \<open>Key agreement\<close>

lemma PubKey_wf:
  assumes "crypto_laws cr" "valid_scalar cr d"
  shows "wf_point (curve cr) (PubKey (GenerateDH cr d))"
proof -
  obtain x y where "ScalarBaseMult cr d = (x, y)" by fastforce
  then show ?thesis
    using dh_lawsD(1) [OF crypto_lawsD(3) [OF assms(1)] assms(2,2)]
    by (simp add: GenerateDH_def ScalarBaseMult_def wf_point_def Let_def)
qed

lemma PrivKey_GenerateDH [simp]: "PrivKey (GenerateDH cr d) = d"
  by (simp add: GenerateDH_def Let_def split: prod.splits)

text \<open>The shared secret of two generated pairs: both sides compute it, and never fault.\<close>

definition shared :: "Crypto \<Rightarrow> bytes \<Rightarrow> bytes \<Rightarrow> bytes" where
  "shared cr a b = (case DH cr (GenerateDH cr a) (PubKey (GenerateDH cr b)) of Inr k \<Rightarrow> k | Inl _ \<Rightarrow> [])"

lemma DH_symmetric:
  assumes laws: "crypto_laws cr" and a: "valid_scalar cr a" and b: "valid_scalar cr b"
  shows "DH cr (GenerateDH cr a) (PubKey (GenerateDH cr b)) = Inr (shared cr a b)"
    and "DH cr (GenerateDH cr b) (PubKey (GenerateDH cr a)) = Inr (shared cr a b)"
    and "length (shared cr a b) = 1 + curve_byteLen (curve cr)"
proof -
  obtain ax ay bx by' kx ky where e: "ScalarBaseMult cr a = (ax, ay)" "ScalarBaseMult cr b = (bx, by')"
    "ScalarMult cr ax ay b = (kx, ky)" by (metis surj_pair)
  note d = dh_lawsD [OF crypto_lawsD(3) [OF laws] a b e(1,2)]
  have c: "ScalarMult cr bx by' a = (kx, ky)" using d(2) e(3) by simp
  obtain bs where bs: "Marshal (curve cr) (Some kx) (Some ky) = Inr bs" "length bs = 1 + curve_byteLen (curve cr)"
    using Marshal_ok [OF crypto_lawsD(1) [OF laws] d(3) [OF e(3)]] by blast
  have "DH cr (GenerateDH cr a) (PubKey (GenerateDH cr b)) = Inr bs"
    "DH cr (GenerateDH cr b) (PubKey (GenerateDH cr a)) = Inr bs"
    using e c bs by (simp_all add: DH_def GenerateDH_def ScalarBaseMult_def Let_def)
  with bs show "DH cr (GenerateDH cr a) (PubKey (GenerateDH cr b)) = Inr (shared cr a b)"
    "DH cr (GenerateDH cr b) (PubKey (GenerateDH cr a)) = Inr (shared cr a b)"
    "length (shared cr a b) = 1 + curve_byteLen (curve cr)"
    by (simp_all add: shared_def)
qed

text \<open>
  ECDH agreement: for any two generated key pairs both sides compute the same shared secret from
  the other's public key, of the length of a compressed point and without a panic.
\<close>

theorem DH_agreement:
  assumes laws: "crypto_laws cr" and a: "valid_scalar cr a" and b: "valid_scalar cr b"
  shows "\<exists>k. DH cr (GenerateDH cr a) (PubKey (GenerateDH cr b)) = Inr k \<and>
    DH cr (GenerateDH cr b) (PubKey (GenerateDH cr a)) = Inr k \<and> length k = 1 + curve_byteLen (curve cr)"
  using DH_symmetric [OF assms] by blast

lemma signature_verifies:
  assumes laws: "crypto_laws cr" and d: "valid_scalar cr d"
  shows "\<exists>sig. GenerateSignature cr rnd m d (PubKey (GenerateDH cr d)) = Some sig \<and>
    VerifySignature cr m sig (PubKey (GenerateDH cr d))"
proof -
  obtain x y where xy: "ScalarBaseMult cr d = (x, y)" by fastforce
  obtain r s where rs: "ecdsa_Sign cr rnd (big_SetBytes d) (Sum256 cr m) = Some (r, s)" "0 \<le> r" "0 \<le> s"
    "ecdsa_Verify cr (Some x) (Some y) (Sum256 cr m) r s"
    using crypto_lawsD(5) [OF laws] d xy unfolding signature_laws_def by fastforce
  then show ?thesis
    using xy by (simp add: GenerateSignature_def VerifySignature_def ConvertKey_def GenerateDH_def
        ScalarBaseMult_def Let_def)
qed

section \<open>A concrete instance of the primitives\<close>

text \<open>
  Toy primitives on the group of order 5 of \<open>toy_curve\<close>: enough to show that the laws can hold together.
\<close>

definition toy_multiples :: "(int \<times> int) list" where
  "toy_multiples = [(0, 0), (0, 1), (4, 5), (4, 2), (0, 6)]"

fun toy_log :: "int \<Rightarrow> int \<Rightarrow> (int \<times> int) list \<Rightarrow> nat" where
  "toy_log x y [] = 0"
| "toy_log x y (q # qs) = (if q = (x, y) then 0 else Suc (toy_log x y qs))"

definition toy_mult :: "int \<Rightarrow> int \<Rightarrow> bytes \<Rightarrow> int \<times> int" where
  "toy_mult x y d = toy_multiples ! ((toy_log x y toy_multiples * nat (big_SetBytes d)) mod 5)"

definition toy_hash :: "bytes \<Rightarrow> bytes" where
  "toy_hash m = replicate 31 0 @ [foldl (\<lambda>a b. 3 * a + b) 7 m]"

definition toy_crypto :: Crypto where
  "toy_crypto = \<lparr>curve = toy_curve, ScalarMult = toy_mult, Sum256 = toy_hash,
     hkdf_stream = (\<lambda>secret salt info n. foldl (\<lambda>a b. 3 * a + b) (of_nat n) (secret @ salt @ info)),
     aes_Encrypt = (\<lambda>k b. map (\<lambda>x. x XOR hd k) b), aes_Decrypt = (\<lambda>k b. map (\<lambda>x. x XOR hd k) b),
     ecdsa_Sign = (\<lambda>rnd d h. Some (d, big_SetBytes h)),
     ecdsa_Verify = (\<lambda>x y h r s. s = big_SetBytes h \<and>
       map_option (toy_mult 0 1) (Some (big_Bytes r)) = (case x of None \<Rightarrow> None | Some x \<Rightarrow> map_option (Pair x) y)),
     gob_Encode = (\<lambda>h. hdr_PubKey h @ PutUint64 (hdr_Pn h) @ PutUint64 (hdr_N h) @
       string_bytes (hdr_Origin h) @ string_bytes (hdr_Destination h) @ [ucast (hdr_HopLimit h)])\<rparr>"

lemma toy_scalar_cases:
  assumes "valid_scalar toy_crypto d"
  obtains "big_SetBytes d = 1" | "big_SetBytes d = 2" | "big_SetBytes d = 3" | "big_SetBytes d = 4"
proof -
  have "0 < big_SetBytes d" "big_SetBytes d < 5"
    using assms by (simp_all add: valid_scalar_def toy_crypto_def toy_curve_def)
  then show ?thesis using that by linarith
qed

lemma toy_base: "ScalarBaseMult toy_crypto d = toy_multiples ! (nat (big_SetBytes d) mod 5)"
  by (simp add: ScalarBaseMult_def toy_crypto_def toy_curve_def toy_mult_def toy_multiples_def)

lemma toy_log_multiples: "i < 5 \<Longrightarrow> toy_log (fst (toy_multiples ! i)) (snd (toy_multiples ! i)) toy_multiples = i"
proof -
  assume "i < 5"
  then consider "i = 0" | "i = 1" | "i = 2" | "i = 3" | "i = 4" by linarith
  then show ?thesis by cases (simp_all add: toy_multiples_def)
qed

lemma toy_multiples_points: "k mod 5 \<noteq> 0 \<Longrightarrow>
  curve_point toy_curve (fst (toy_multiples ! (k mod 5))) (snd (toy_multiples ! (k mod 5)))"
proof -
  assume nz: "k mod 5 \<noteq> 0"
  have "k mod 5 < 5" by simp
  with nz consider "k mod 5 = 1" | "k mod 5 = 2" | "k mod 5 = 3" | "k mod 5 = 4" by linarith
  then show ?thesis
    by cases (simp_all add: toy_multiples_def curve_point_def on_curve_def toy_curve_def)
qed

lemma toy_mult_multiples:
  "toy_mult (fst (toy_multiples ! (i mod 5))) (snd (toy_multiples ! (i mod 5))) d =
   toy_multiples ! ((i * nat (big_SetBytes d)) mod 5)"
  by (simp add: toy_mult_def toy_log_multiples mod_mult_left_eq)

lemma toy_dh_laws: "dh_laws toy_crypto"
  unfolding dh_laws_def
proof (intro allI impI)
  fix a b assume a: "valid_scalar toy_crypto a" and b: "valid_scalar toy_crypto b"
  let ?a = "nat (big_SetBytes a)" and ?b = "nat (big_SetBytes b)"
  have ab: "?a mod 5 \<noteq> 0" "?a * ?b mod 5 \<noteq> 0"
    by (rule toy_scalar_cases [OF a]; rule toy_scalar_cases [OF b]; simp)+
  have [simp]: "curve toy_crypto = toy_curve" "ScalarMult toy_crypto = toy_mult"
    by (simp_all add: toy_crypto_def)
  show "case ScalarBaseMult toy_crypto a of (ax, ay) \<Rightarrow> case ScalarBaseMult toy_crypto b of (bx, by) \<Rightarrow>
      curve_point (curve toy_crypto) ax ay \<and>
      ScalarMult toy_crypto ax ay b = ScalarMult toy_crypto bx by a \<and>
      (case ScalarMult toy_crypto ax ay b of (kx, ky) \<Rightarrow> curve_point (curve toy_crypto) kx ky)"
    using toy_multiples_points [OF ab(1)] toy_multiples_points [OF ab(2)]
    by (simp add: case_prod_unfold toy_base toy_mult_multiples mult.commute)
qed

lemma toy_signature_laws: "signature_laws toy_crypto"
  unfolding signature_laws_def
proof (intro allI impI)
  fix rnd d h assume "valid_scalar toy_crypto d"
  then have d: "0 \<le> big_SetBytes d" by (simp add: valid_scalar_def)
  have h: "0 \<le> big_SetBytes h" by (induction h rule: rev_induct) (simp_all, simp add: big_SetBytes_def)
  have "toy_mult 0 1 (big_Bytes (big_SetBytes d)) = ScalarBaseMult toy_crypto d"
    using d by (simp add: toy_base) (simp add: toy_mult_def toy_multiples_def)
  then show "case ScalarBaseMult toy_crypto d of (x, y) \<Rightarrow>
      \<exists>r s. ecdsa_Sign toy_crypto rnd (big_SetBytes d) h = Some (r, s) \<and> 0 \<le> r \<and> 0 \<le> s \<and>
        ecdsa_Verify toy_crypto (Some x) (Some y) h r s"
    using d h by (simp add: toy_crypto_def split: prod.splits)
qed

lemma toy_block_laws: "block_laws toy_crypto"
  by (simp add: block_laws_def toy_crypto_def o_def xor.assoc)

lemma toy_laws: "crypto_laws toy_crypto"
  using toy_dh_laws toy_block_laws toy_signature_laws valid_toy_curve
  by (simp add: crypto_laws_def toy_hash_def) (simp add: toy_crypto_def toy_hash_def)

lemma toy_scalars [simp]:
  "valid_scalar toy_crypto [1]" "valid_scalar toy_crypto [2]" "valid_scalar toy_crypto [3]" "valid_scalar toy_crypto [4]"
  by (simp_all add: valid_scalar_def toy_crypto_def toy_curve_def big_SetBytes_def)

theorem DH_agreement_witness:
  "\<exists>k. DH toy_crypto (GenerateDH toy_crypto [2]) (PubKey (GenerateDH toy_crypto [3])) = Inr k \<and>
     DH toy_crypto (GenerateDH toy_crypto [3]) (PubKey (GenerateDH toy_crypto [2])) = Inr k"
  using DH_agreement [OF toy_laws toy_scalars(2) toy_scalars(3)] by blast

end
