(* ===== verification/AEAD.thy ===== *)
theory AEAD
  imports Crypto
begin

text \<open>
  Authenticated encryption of ratchet messages (\<open>src/adssignal/adsAEAD.go\<close>): PKCS#7-style padding, AES in
  CBC mode, and an HMAC over associated data, ciphertext and the length of the associated data, truncated to 16 bytes.
  The locale \<open>sealing\<close> states what the ratchet needs of it: opening what was sealed under the same key and
  header gives the plaintext. The interpretation discharges it for \<open>EncryptAEAD\<close> and \<open>DecryptAEAD\<close>.
\<close>

section \<open>Padding\<close>

definition AESBlock :: nat where "AESBlock = 16"

record RatchetCipher =
  cph_Ad :: bytes
  cph_Ciph :: bytes

text \<open>\<open>padd\<close> appends the low byte of the 16-bit padding length that many times.\<close>

definition padd :: "bytes \<Rightarrow> bytes" where
  "padd plaintext =
     (let lastBlockLen = length plaintext mod AESBlock;
          paddLen0 = AESBlock - lastBlockLen;
          paddLen = (if paddLen0 = 0 then AESBlock else paddLen0)
      in plaintext @ replicate paddLen (of_nat paddLen))"

text \<open>
  The comparison loop of \<open>unpadd\<close>: index \<open>i\<close> runs from 1 to \<open>possPadd - 1\<close>; an index before the start of
  the slice faults.
\<close>

fun unpadd_loop :: "bytes \<Rightarrow> nat \<Rightarrow> nat \<Rightarrow> nat \<Rightarrow> bool go" where
  "unpadd_loop plaintext possPadd i 0 = Inr True"
| "unpadd_loop plaintext possPadd i (Suc todo) =
     (if length plaintext < i + 1 then Inl IndexOutOfRange
      else go_bind (go_nth plaintext (length plaintext - 1 - i)) (\<lambda>b.
        if unat b \<noteq> possPadd then Inr False else unpadd_loop plaintext possPadd (i + 1) todo))"

definition unpadd :: "bytes \<Rightarrow> bytes go" where
  "unpadd plaintext =
     go_bind (go_nth plaintext (length plaintext - 1)) (\<lambda>b.
       let possPadd = unat b
       in if 0 < possPadd \<and> possPadd \<le> 16 then
            go_bind (unpadd_loop plaintext possPadd 1 (possPadd - 1)) (\<lambda>same.
              if same then go_slice plaintext 0 (length plaintext - possPadd) else Inr plaintext)
          else Inr plaintext)"

section \<open>Cipher block chaining\<close>

definition xor_bytes :: "bytes \<Rightarrow> bytes \<Rightarrow> bytes" where
  "xor_bytes a b = map2 (\<lambda>x y. x XOR y) a b"

function cbc_encrypt :: "(bytes \<Rightarrow> bytes) \<Rightarrow> bytes \<Rightarrow> bytes \<Rightarrow> bytes" where
  "cbc_encrypt E iv src =
     (if src = [] then []
      else let c = E (xor_bytes iv (take AESBlock src))
           in c @ cbc_encrypt E c (drop AESBlock src))"
  by auto
termination by (relation "measure (\<lambda>(E, iv, src). length src)") (auto simp: AESBlock_def)

function cbc_decrypt :: "(bytes \<Rightarrow> bytes) \<Rightarrow> bytes \<Rightarrow> bytes \<Rightarrow> bytes" where
  "cbc_decrypt D iv src =
     (if src = [] then []
      else xor_bytes iv (D (take AESBlock src)) @ cbc_decrypt D (take AESBlock src) (drop AESBlock src))"
  by auto
termination by (relation "measure (\<lambda>(D, iv, src). length src)") (auto simp: AESBlock_def)

declare cbc_encrypt.simps [simp del] cbc_decrypt.simps [simp del]

text \<open>\<open>CryptBlocks\<close> panics on a source that is not a whole number of blocks.\<close>

definition CryptBlocks :: "((bytes \<Rightarrow> bytes) \<Rightarrow> bytes \<Rightarrow> bytes \<Rightarrow> bytes) \<Rightarrow> (bytes \<Rightarrow> bytes) \<Rightarrow> bytes \<Rightarrow> bytes \<Rightarrow> bytes go" where
  "CryptBlocks mode f iv src =
     (if length src mod AESBlock \<noteq> 0 then Inl ExplicitPanic else Inr (mode f iv src))"

section \<open>Sealing and opening\<close>

definition Concat :: "Crypto \<Rightarrow> bytes \<Rightarrow> RatchetHeader \<Rightarrow> bytes" where
  "Concat cr ad header = gob_Encode cr header"

definition mac_input :: "bytes \<Rightarrow> bytes \<Rightarrow> bytes" where
  "mac_input ad ciphertext = ad @ ciphertext @ PutUint64 (of_nat (length ad))"

definition EncryptAEAD :: "Crypto \<Rightarrow> bytes \<Rightarrow> string \<Rightarrow> bytes \<Rightarrow> RatchetCipher go" where
  "EncryptAEAD cr mk plaintext ad =
     (let (encryptionKey, authenticationKey, IV) = KdfAEAD cr mk;
          paddedPt = padd (string_bytes plaintext)
      in go_bind (CryptBlocks cbc_encrypt (aes_Encrypt cr encryptionKey) IV paddedPt) (\<lambda>S.
           let tag = NewHMAC cr (mac_input ad S) authenticationKey
           in go_bind (go_slice tag 0 AESBlock) (\<lambda>t.
                Inr \<lparr>cph_Ad = ad, cph_Ciph = S @ t\<rparr>)))"

definition DecryptAEAD :: "Crypto \<Rightarrow> bytes \<Rightarrow> RatchetCipher \<Rightarrow> RatchetHeader \<Rightarrow> string option go" where
  "DecryptAEAD cr mk ciph header =
     (let (encryptionKey, authenticationKey, IV) = KdfAEAD cr mk;
          ad = Concat cr (cph_Ad ciph) header; n = length (cph_Ciph ciph)
      in if n < AESBlock then Inl SliceOutOfRange
         else let ciphertext = take (n - AESBlock) (cph_Ciph ciph);
                  expectedTag = drop (n - AESBlock) (cph_Ciph ciph);
                  cipherTag = NewHMAC cr (mac_input ad ciphertext) authenticationKey
         in go_bind (go_slice cipherTag 0 16) (\<lambda>t.
              if expectedTag \<noteq> t then Inr None
              else go_bind (CryptBlocks cbc_decrypt (aes_Decrypt cr encryptionKey) IV ciphertext) (\<lambda>S.
                     go_bind (unpadd S) (\<lambda>plainbyte. Inr (Some (bytes_string plainbyte))))))"

section \<open>Padding round trip\<close>

lemma padd_length: "length (padd pt) mod 16 = 0" "0 < length (padd pt)"
proof -
  have "length pt mod 16 < 16" by simp
  then show "length (padd pt) mod 16 = 0" "0 < length (padd pt)"
    by (auto simp: padd_def Let_def AESBlock_def) presburger
qed

lemma unpadd_loop_same:
  assumes "p < 256"
  shows "i + todo \<le> p \<Longrightarrow> unpadd_loop (pt' @ replicate p (of_nat p)) p i todo = Inr True"
proof (induction todo arbitrary: i)
  case 0
  then show ?case by simp
next
  case (Suc todo)
  let ?xs = "pt' @ replicate p (of_nat p :: byte)"
  have i: "length ?xs - 1 - i = length pt' + (p - Suc i)" using Suc.prems by simp
  have "go_nth ?xs (length ?xs - 1 - i) = Inr (?xs ! (length pt' + (p - Suc i)))"
    unfolding i using Suc.prems by (intro go_nth_in) simp
  also have "?xs ! (length pt' + (p - Suc i)) = of_nat p"
    using Suc.prems by (simp only: nth_append_length_plus) simp
  finally have n: "go_nth ?xs (length ?xs - 1 - i) = Inr (of_nat p)" .
  have u: "unat (of_nat p :: byte) = p" using assms by (simp add: unat_of_nat)
  have l: "\<not> length ?xs < i + 1" using Suc.prems by simp
  have IH: "unpadd_loop ?xs p (i + 1) todo = Inr True" using Suc by simp
  show ?case unfolding unpadd_loop.simps n IH by (simp only: l u if_False simp_thms go_bind_Inr)
qed

lemma unpadd_padd: "unpadd (padd pt) = Inr pt"
proof -
  define p where "p = 16 - length pt mod 16"
  have p: "0 < p" "p \<le> 16" "padd pt = pt @ replicate p (of_nat p)"
    by (simp_all add: p_def padd_def Let_def AESBlock_def)
  have u: "unat (of_nat p :: byte) = p" using p(2) by (simp add: unat_of_nat)
  have "(pt @ replicate p (of_nat p :: byte)) ! (length pt + (p - 1)) = of_nat p"
    using p by (simp only: nth_append_length_plus) simp
  then have "go_nth (padd pt) (length (padd pt) - 1) = Inr (of_nat p)"
    using p by simp
  moreover have "unpadd_loop (padd pt) p 1 (p - 1) = Inr True"
    unfolding p(3) using p(1,2) by (intro unpadd_loop_same) simp_all
  moreover have "go_slice (padd pt) 0 (length (padd pt) - p) = Inr pt"
    using p by simp
  ultimately show ?thesis using p(1,2) u by (simp add: unpadd_def Let_def)
qed

text \<open>
  Padding: \<open>padd\<close> fills up to a whole positive number of blocks, and \<open>unpadd\<close> recovers every plaintext,
  whatever its last bytes, without a panic.
\<close>

theorem padd_roundtrip:
  "length (padd pt) mod AESBlock = 0 \<and> length pt < length (padd pt) \<and>
   length (padd pt) \<le> length pt + AESBlock \<and> unpadd (padd pt) = Inr pt"
  using padd_length [of pt] by (simp add: unpadd_padd AESBlock_def) (simp add: padd_def Let_def AESBlock_def)

section \<open>CBC round trip\<close>

lemma length_xor_bytes [simp]: "length (xor_bytes a b) = min (length a) (length b)"
  by (simp add: xor_bytes_def)

lemma xor_bytes_cancel: "length a = length b \<Longrightarrow> xor_bytes a (xor_bytes a b) = b"
  by (induction a b rule: list_induct2) (simp_all add: xor_bytes_def xor.assoc [symmetric])

lemma cbc_roundtrip:
  assumes E: "\<And>b. length b = 16 \<Longrightarrow> length (E b) = 16 \<and> D (E b) = b"
  shows "length iv = 16 \<Longrightarrow> length src mod 16 = 0 \<Longrightarrow>
    length (cbc_encrypt E iv src) = length src \<and> cbc_decrypt D iv (cbc_encrypt E iv src) = src"
proof (induction "length src" arbitrary: iv src rule: less_induct)
  case less
  show ?case
  proof (cases "src = []")
    case True
    then show ?thesis by (simp add: cbc_encrypt.simps cbc_decrypt.simps)
  next
    case False
    then have n: "16 \<le> length src" using less.prems(2) by (cases "length src < 16") auto
    let ?c = "E (xor_bytes iv (take 16 src))"
    have c: "length ?c = 16" "D ?c = xor_bytes iv (take 16 src)" using E less.prems n by simp_all
    have m: "length (drop 16 src) mod 16 = 0" using n less.prems(2) by (simp add: le_mod_geq)
    have IH: "length (cbc_encrypt E ?c (drop 16 src)) = length (drop 16 src) \<and>
        cbc_decrypt D ?c (cbc_encrypt E ?c (drop 16 src)) = drop 16 src"
      using less.hyps [of "drop 16 src" ?c] False m c by simp
    have e: "cbc_encrypt E iv src = ?c @ cbc_encrypt E ?c (drop 16 src)"
      using False by (simp add: cbc_encrypt.simps [of E iv] AESBlock_def Let_def)
    have "xor_bytes iv (D ?c) = take 16 src" using c(2) n less.prems(1) by (simp add: xor_bytes_cancel)
    moreover have "?c \<noteq> []" using c(1) by auto
    ultimately have "cbc_decrypt D iv (?c @ cbc_encrypt E ?c (drop 16 src)) =
        take 16 src @ cbc_decrypt D ?c (cbc_encrypt E ?c (drop 16 src))"
      using c(1) by (simp add: cbc_decrypt.simps [of D iv] AESBlock_def)
    with IH e n show ?thesis by (simp add: c(1))
  qed
qed

section \<open>The sealed channel\<close>

text \<open>
  What the ratchet relies on: \<open>ok\<close> is the condition on the primitives, \<open>seal\<close> and \<open>unseal\<close> the two operations,
  \<open>assoc\<close> the associated data of a header.
\<close>

locale sealing =
  fixes ok :: "'c \<Rightarrow> bool"
    and seal :: "'c \<Rightarrow> 'k \<Rightarrow> 'm \<Rightarrow> 'a \<Rightarrow> 'b go"
    and unseal :: "'c \<Rightarrow> 'k \<Rightarrow> 'b \<Rightarrow> 'h \<Rightarrow> 'm option go"
    and assoc :: "'c \<Rightarrow> 'h \<Rightarrow> 'a"
  assumes seal_total: "ok c \<Longrightarrow> \<exists>b. seal c k m a = Inr b"
    and open_seal: "ok c \<Longrightarrow> seal c k m (assoc c h) = Inr b \<Longrightarrow> unseal c k b h = Inr (Some m)"
begin

lemma roundtrip: "ok c \<Longrightarrow> \<exists>b. seal c k m (assoc c h) = Inr b \<and> unseal c k b h = Inr (Some m)"
  using seal_total open_seal by blast

lemma seal_separates:
  "ok c \<Longrightarrow> seal c k m (assoc c h) = Inr b \<Longrightarrow> seal c k m' (assoc c h) = Inr b \<Longrightarrow> m = m'"
  using open_seal [of c k m h b] open_seal [of c k m' h b] by simp

end

lemma EncryptAEAD_total:
  assumes laws: "crypto_laws cr"
  shows "\<exists>b. EncryptAEAD cr mk pt ad = Inr b"
  using length_NewHMAC [OF laws]
  by (simp add: EncryptAEAD_def CryptBlocks_def padd_length AESBlock_def Let_def KdfAEAD_def)

lemma DecryptAEAD_EncryptAEAD:
  assumes laws: "crypto_laws cr" and enc: "EncryptAEAD cr mk pt (gob_Encode cr header) = Inr b"
  shows "DecryptAEAD cr mk b header = Inr (Some pt)"
proof -
  obtain ek ak iv where k: "KdfAEAD cr mk = (ek, ak, iv)" by (metis surj_pair)
  then have l: "length ek = 32" "length iv = 16" by (auto simp: KdfAEAD_def Let_def)
  let ?S = "cbc_encrypt (aes_Encrypt cr ek) iv (padd (string_bytes pt))"
  let ?tag = "NewHMAC cr (mac_input (gob_Encode cr header) ?S) ak"
  have b: "b = \<lparr>cph_Ad = gob_Encode cr header, cph_Ciph = ?S @ take 16 ?tag\<rparr>" and t: "length ?tag = 32"
    using enc k length_NewHMAC [OF laws] by (simp_all add: EncryptAEAD_def CryptBlocks_def padd_length AESBlock_def Let_def)
  have cbc: "length ?S = length (padd (string_bytes pt))"
    "cbc_decrypt (aes_Decrypt cr ek) iv ?S = padd (string_bytes pt)"
    using cbc_roundtrip [of "aes_Encrypt cr ek" "aes_Decrypt cr ek" iv "padd (string_bytes pt)"]
      crypto_lawsD(4) [OF laws] l padd_length by (auto simp: block_laws_def)
  show ?thesis
    using k t cbc by (simp add: b DecryptAEAD_def CryptBlocks_def padd_length AESBlock_def Let_def Concat_def unpadd_padd)
qed

interpretation aead: sealing crypto_laws EncryptAEAD DecryptAEAD gob_Encode
  by unfold_locales (simp_all add: EncryptAEAD_total DecryptAEAD_EncryptAEAD)

text \<open>
  \<open>DecryptAEAD\<close> inverts \<open>EncryptAEAD\<close>: under the same message key and header every plaintext is
  recovered, and neither side panics.
\<close>

theorem AEAD_roundtrip:
  assumes laws: "crypto_laws cr"
  shows "\<exists>b. EncryptAEAD cr mk pt (Concat cr ad header) = Inr b \<and> DecryptAEAD cr mk b header = Inr (Some pt)"
  using aead.roundtrip [OF laws] by (simp add: Concat_def)

theorem AEAD_roundtrip_witness:
  "\<exists>b. EncryptAEAD toy_crypto [7] ''hello'' (Concat toy_crypto [] \<lparr>hdr_PubKey = [2], hdr_Pn = 0, hdr_N = 1,
       hdr_Origin = ''a'', hdr_Destination = ''b'', hdr_HopLimit = 10\<rparr>) = Inr b \<and>
     DecryptAEAD toy_crypto [7] b \<lparr>hdr_PubKey = [2], hdr_Pn = 0, hdr_N = 1,
       hdr_Origin = ''a'', hdr_Destination = ''b'', hdr_HopLimit = 10\<rparr> = Inr (Some ''hello'')"
  by (rule AEAD_roundtrip [OF toy_laws])

lemma mac_input_inj:
  assumes eq: "mac_input ad c = mac_input ad' c'" and l: "length ad < 2 ^ 64" "length ad' < 2 ^ 64"
  shows "ad = ad' \<and> c = c'"
proof -
  have "PutUint64 (of_nat (length ad)) = PutUint64 (of_nat (length ad'))" and p: "ad @ c = ad' @ c'"
    using eq append_eq_append_conv [of "PutUint64 (of_nat (length ad))" "PutUint64 (of_nat (length ad'))" "ad @ c" "ad' @ c'"]
    by (auto simp: mac_input_def simp flip: append_assoc)
  then have "unat (of_nat (length ad) :: 64 word) = unat (of_nat (length ad') :: 64 word)"
    by (simp add: PutUint64_inj)
  then have "length ad = length ad'" using l by (simp add: unat_of_nat)
  then show ?thesis using p by simp
qed

text \<open>
  Claim C22. What \<open>DecryptAEAD\<close> accepts is authenticated: an accepted message carries the truncated HMAC of its own
  header encoding and ciphertext, and the authenticated input determines both, so a header or a ciphertext
  other than the authenticated one is accepted only with a collision of the truncated HMAC. Only the receiver's own encoding
  of the header is authenticated; the \<open>Ad\<close> field of the message plays no role.
\<close>

theorem DecryptAEAD_authentic:
  assumes "DecryptAEAD cr mk m header = Inr (Some pt)"
    and "KdfAEAD cr mk = (ek, ak, iv)" and "length (gob_Encode cr header) < 2 ^ 64"
  shows "\<exists>c. cph_Ciph m = c @ take 16 (NewHMAC cr (mac_input (gob_Encode cr header) c) ak) \<and>
    (\<forall>header' c'. length (gob_Encode cr header') < 2 ^ 64 \<longrightarrow>
       mac_input (gob_Encode cr header') c' = mac_input (gob_Encode cr header) c \<longrightarrow>
       gob_Encode cr header' = gob_Encode cr header \<and> c' = c) \<and>
    (\<forall>ad. DecryptAEAD cr mk (m\<lparr>cph_Ad := ad\<rparr>) header = Inr (Some pt))"
proof -
  let ?n = "length (cph_Ciph m)"
  let ?c = "take (?n - 16) (cph_Ciph m)"
  let ?tag = "NewHMAC cr (mac_input (gob_Encode cr header) ?c) ak"
  have "16 \<le> ?n"
    using assms(1,2) by (simp add: DecryptAEAD_def Concat_def AESBlock_def Let_def split: if_splits)
  moreover from this have "go_slice ?tag 0 16 = Inr (take 16 ?tag) \<and> drop (?n - 16) (cph_Ciph m) = take 16 ?tag"
    using assms(1,2) by (auto simp: DecryptAEAD_def Concat_def AESBlock_def Let_def go_bind_eq_Inr go_slice_def split: if_splits)
  ultimately have "cph_Ciph m = ?c @ take 16 ?tag" by (metis append_take_drop_id)
  moreover have "\<forall>ad. DecryptAEAD cr mk (m\<lparr>cph_Ad := ad\<rparr>) header = Inr (Some pt)"
    using assms(1) by (simp add: DecryptAEAD_def Concat_def Let_def cong: if_cong)
  ultimately show ?thesis
    using mac_input_inj assms(3) by (intro exI [of _ ?c]) blast
qed

theorem DecryptAEAD_authentic_witness:
  "\<exists>m c. DecryptAEAD toy_crypto [7] m \<lparr>hdr_PubKey = [2], hdr_Pn = 0, hdr_N = 1, hdr_Origin = ''a'',
       hdr_Destination = ''b'', hdr_HopLimit = 10\<rparr> = Inr (Some ''hello'') \<and>
     cph_Ciph m = c @ take 16 (NewHMAC toy_crypto (mac_input (gob_Encode toy_crypto
       \<lparr>hdr_PubKey = [2], hdr_Pn = 0, hdr_N = 1, hdr_Origin = ''a'', hdr_Destination = ''b'', hdr_HopLimit = 10\<rparr>) c)
       (fst (snd (KdfAEAD toy_crypto [7]))))"
proof -
  let ?h = "\<lparr>hdr_PubKey = [2], hdr_Pn = 0, hdr_N = 1, hdr_Origin = ''a'', hdr_Destination = ''b'', hdr_HopLimit = 10\<rparr>"
  obtain m where m: "DecryptAEAD toy_crypto [7] m ?h = Inr (Some ''hello'')"
    using aead.roundtrip [OF toy_laws] by blast
  have "length (gob_Encode toy_crypto ?h) < 2 ^ 64" by (simp add: toy_crypto_def)
  from DecryptAEAD_authentic [OF m _ this] show ?thesis
    using m by (metis prod.collapse)
qed

end
