(* ===== verification/Bloom.thy ===== *)
theory Bloom
  imports GoFloat Routing
begin

text \<open>
  Whisper's topics and bloom filters (\<open>src/whisper/topic.go\<close>, \<open>src/whisper/bloomfilter.go\<close>) and its routing
  handler (\<open>src/whisper/routing.go\<close>). The locale \<open>filter_algebra\<close> states what a filter promises: matching is
  inclusion and aggregation is union of the sets of bits it stands for. It is interpreted on the loops of the
  code. The routing handler keeps, per neighbour, the union of the filters announced through that neighbour.
\<close>

section \<open>Topics and filters\<close>

definition TopicLength :: nat where "TopicLength = 4"

definition BloomFilterSize :: nat where "BloomFilterSize = 64"

text \<open>A Go array \<open>[4]byte\<close> is a list of four bytes.\<close>

type_synonym Topic = bytes

definition ConvertBytesToTopic :: "bytes \<Rightarrow> Topic" where
  "ConvertBytesToTopic b =
     (let sz = (if length b < TopicLength then length b else TopicLength)
      in foldl (\<lambda>t i. t[i := b ! i]) (replicate TopicLength 0) [0..<sz])"

definition topic_index :: "Topic \<Rightarrow> nat \<Rightarrow> nat" where
  "topic_index topic j = unat (topic ! j) + (if (topic ! 3) AND push_bit j 1 \<noteq> 0 then 256 else 0)"

definition ConvertTopicToBloom :: "Topic \<Rightarrow> bytes" where
  "ConvertTopicToBloom topic =
     foldl (\<lambda>b j. b[topic_index topic j div 8 := push_bit (topic_index topic j mod 8) 1])
       (replicate BloomFilterSize 0) [0..<3]"

fun CheckFilterMatch_loop :: "bytes \<Rightarrow> bytes \<Rightarrow> nat list \<Rightarrow> bool go" where
  "CheckFilterMatch_loop flt given [] = Inr True"
| "CheckFilterMatch_loop flt given (i # is') =
     go_bind (go_nth flt i) (\<lambda>f. go_bind (go_nth given i) (\<lambda>s.
       if (f OR s) \<noteq> f then Inr False else CheckFilterMatch_loop flt given is'))"

definition CheckFilterMatch :: "bytes option \<Rightarrow> bytes \<Rightarrow> bool go" where
  "CheckFilterMatch flt given =
     (case flt of None \<Rightarrow> Inr True | Some f \<Rightarrow> CheckFilterMatch_loop f given [0..<BloomFilterSize])"

definition AggregateBloom :: "bytes \<Rightarrow> bytes \<Rightarrow> bytes go" where
  "AggregateBloom a b =
     go_foldM (\<lambda>c i. go_bind (go_nth a i) (\<lambda>x. go_bind (go_nth b i) (\<lambda>y. Inr (c[i := x OR y]))))
       (replicate BloomFilterSize 0) [0..<BloomFilterSize]"

definition HasAnyFilter :: "bytes option \<Rightarrow> bool" where
  "HasAnyFilter bloom = (case bloom of None \<Rightarrow> False | Some bs \<Rightarrow> list_ex (\<lambda>b. b \<noteq> 255) bs)"

definition GetEmptyBloomFilter :: bytes where
  "GetEmptyBloomFilter = foldl (\<lambda>bloom i. bloom[i := 0]) (replicate BloomFilterSize 0) [0..<BloomFilterSize]"

text \<open>A nil slice has length 0.\<close>

definition slice_of :: "bytes option \<Rightarrow> bytes" where
  "slice_of s = (case s of None \<Rightarrow> [] | Some bs \<Rightarrow> bs)"

section \<open>Filters as sets of bits\<close>

locale filter_algebra =
  fixes covers :: "'s \<Rightarrow> 's \<Rightarrow> bool go"
    and join :: "'s \<Rightarrow> 's \<Rightarrow> 's go"
    and bits :: "'s \<Rightarrow> 'b set"
    and invar :: "'s \<Rightarrow> bool"
  assumes covers_bits: "invar f \<Longrightarrow> invar g \<Longrightarrow> covers f g = Inr (bits g \<subseteq> bits f)"
    and join_bits: "invar f \<Longrightarrow> invar g \<Longrightarrow> \<exists>h. join f g = Inr h \<and> invar h \<and> bits h = bits f \<union> bits g"
begin

lemma covers_refl: "invar f \<Longrightarrow> covers f f = Inr True"
  by (simp add: covers_bits)

lemma covers_trans:
  "invar f \<Longrightarrow> invar g \<Longrightarrow> invar h \<Longrightarrow> covers f g = Inr True \<Longrightarrow> covers g h = Inr True \<Longrightarrow> covers f h = Inr True"
  by (auto simp: covers_bits)

text \<open>Aggregating a list of filters never faults and covers exactly what one of them contributes.\<close>

lemma join_list:
  "invar acc \<Longrightarrow> \<forall>f \<in> set fs. invar f \<Longrightarrow>
   \<exists>h. go_foldM join acc fs = Inr h \<and> invar h \<and> bits h = bits acc \<union> (\<Union>f \<in> set fs. bits f)"
proof (induction fs arbitrary: acc)
  case Nil
  then show ?case by simp
next
  case (Cons f fs)
  then obtain h where h: "join acc f = Inr h" "invar h" "bits h = bits acc \<union> bits f"
    using join_bits [of acc f] by auto
  with Cons.IH [of h] Cons.prems show ?case by auto
qed

end

definition bloom_bits :: "bytes \<Rightarrow> nat set" where
  "bloom_bits f = {n. n < 8 * BloomFilterSize \<and> bit (f ! (n div 8)) (n mod 8)}"

abbreviation valid_bloom :: "bytes \<Rightarrow> bool" where
  "valid_bloom f \<equiv> length f = BloomFilterSize"

lemma or_absorb_iff: "(f OR s) = f \<longleftrightarrow> (\<forall>j < 8. bit s j \<longrightarrow> bit f j)" for f s :: byte
  by (auto simp: bit_eq_iff bit_or_iff)

lemma CheckFilterMatch_loop_in:
  "valid_bloom f \<Longrightarrow> valid_bloom g \<Longrightarrow> set is' \<subseteq> {..<BloomFilterSize} \<Longrightarrow>
   CheckFilterMatch_loop f g is' = Inr (\<forall>i \<in> set is'. (f ! i OR g ! i) = f ! i)"
  by (induction is') auto

lemma bloom_subset_iff:
  "bloom_bits g \<subseteq> bloom_bits f \<longleftrightarrow> (\<forall>i < BloomFilterSize. (f ! i OR g ! i) = f ! i)"
proof
  assume sub: "bloom_bits g \<subseteq> bloom_bits f"
  show "\<forall>i < BloomFilterSize. (f ! i OR g ! i) = f ! i"
  proof (intro allI impI)
    fix i assume i: "i < BloomFilterSize"
    have "bit (f ! i) j" if "j < 8" "bit (g ! i) j" for j
    proof -
      have "8 * i + j \<in> bloom_bits g" using that i by (simp add: bloom_bits_def)
      with sub have "8 * i + j \<in> bloom_bits f" by blast
      with that show ?thesis by (simp add: bloom_bits_def)
    qed
    then show "(f ! i OR g ! i) = f ! i" by (simp add: or_absorb_iff)
  qed
next
  assume all: "\<forall>i < BloomFilterSize. (f ! i OR g ! i) = f ! i"
  show "bloom_bits g \<subseteq> bloom_bits f"
  proof
    fix n assume "n \<in> bloom_bits g"
    then have n: "n < 8 * BloomFilterSize" "bit (g ! (n div 8)) (n mod 8)" by (simp_all add: bloom_bits_def)
    then have "n div 8 < BloomFilterSize" by (simp add: less_mult_imp_div_less mult.commute)
    with all n have "bit (f ! (n div 8)) (n mod 8)" by (simp add: or_absorb_iff)
    with n show "n \<in> bloom_bits f" by (simp add: bloom_bits_def)
  qed
qed

lemma CheckFilterMatch_bits:
  "valid_bloom f \<Longrightarrow> valid_bloom g \<Longrightarrow> CheckFilterMatch (Some f) g = Inr (bloom_bits g \<subseteq> bloom_bits f)"
  by (simp add: CheckFilterMatch_def bloom_subset_iff, subst CheckFilterMatch_loop_in) auto

lemma Aggregate_foldM:
  "valid_bloom a \<Longrightarrow> valid_bloom b \<Longrightarrow> set is' \<subseteq> {..<BloomFilterSize} \<Longrightarrow>
   go_foldM (\<lambda>c i. go_bind (go_nth a i) (\<lambda>x. go_bind (go_nth b i) (\<lambda>y. Inr (c[i := x OR y])))) c is' =
     Inr (foldl (\<lambda>c i. c[i := a ! i OR b ! i]) c is')"
  by (induction is' arbitrary: c) auto

lemma length_foldl_update [simp]: "length (foldl (\<lambda>c i. c[g i := f i]) c is') = length c"
  by (induction is' arbitrary: c) simp_all

lemma foldl_update_upto: "n \<le> length c \<Longrightarrow> foldl (\<lambda>c i. c[i := f i]) c [0..<n] = map f [0..<n] @ drop n c"
proof (induction n)
  case 0
  then show ?case by simp
next
  case (Suc n)
  then have "drop n c = c ! n # drop (Suc n) c" by (simp add: Cons_nth_drop_Suc)
  with Suc show ?case by (simp add: list_update_append)
qed

lemma AggregateBloom_in:
  "valid_bloom a \<Longrightarrow> valid_bloom b \<Longrightarrow> AggregateBloom a b = Inr (map (\<lambda>i. a ! i OR b ! i) [0..<BloomFilterSize])"
  by (simp add: AggregateBloom_def Aggregate_foldM foldl_update_upto lessThan_atLeast0)

lemma AggregateBloom_bits:
  assumes "valid_bloom a" "valid_bloom b"
  shows "\<exists>c. AggregateBloom a b = Inr c \<and> valid_bloom c \<and> bloom_bits c = bloom_bits a \<union> bloom_bits b"
proof -
  let ?c = "map (\<lambda>i. a ! i OR b ! i) [0..<BloomFilterSize]"
  have "n div 8 < BloomFilterSize" if "n < 8 * BloomFilterSize" for n
    using that by (simp add: less_mult_imp_div_less mult.commute)
  then have "bloom_bits ?c = bloom_bits a \<union> bloom_bits b" by (auto simp: bloom_bits_def bit_or_iff)
  with AggregateBloom_in [OF assms] show ?thesis by simp
qed

interpretation blooms: filter_algebra "\<lambda>f. CheckFilterMatch (Some f)" AggregateBloom bloom_bits "\<lambda>f. valid_bloom f"
  by unfold_locales (simp_all add: CheckFilterMatch_bits AggregateBloom_bits)


lemma valid_GetEmptyBloomFilter [simp]: "valid_bloom GetEmptyBloomFilter"
  by (simp add: GetEmptyBloomFilter_def)

section \<open>The filter of a topic\<close>

lemma length_ConvertBytesToTopic [simp]: "length (ConvertBytesToTopic b) = TopicLength"
  by (simp add: ConvertBytesToTopic_def)

lemma ConvertBytesToTopic_idem: "ConvertBytesToTopic (ConvertBytesToTopic b) = ConvertBytesToTopic b"
proof -
  have "length t = 4 \<Longrightarrow> ConvertBytesToTopic t = t" for t
    by (intro nth_equalityI) (simp_all add: ConvertBytesToTopic_def TopicLength_def foldl_update_upto)
  then show ?thesis by (simp add: TopicLength_def)
qed

lemma length_ConvertTopicToBloom [simp]: "valid_bloom (ConvertTopicToBloom topic)"
  by (simp add: ConvertTopicToBloom_def)

lemma topic_index_less: "topic_index topic j < 8 * BloomFilterSize"
  using byte_bound [of "topic ! j"] by (simp add: topic_index_def BloomFilterSize_def)

lemma topic_index_byte: "topic_index topic j div 8 < BloomFilterSize"
  using topic_index_less [of topic j] by (simp add: less_mult_imp_div_less mult.commute)

lemma bits_update:
  assumes "valid_bloom b" "i < 8 * BloomFilterSize"
  shows "bloom_bits (b[i div 8 := 2 ^ (i mod 8)]) = {n \<in> bloom_bits b. n div 8 \<noteq> i div 8} \<union> {i}"
proof -
  have i: "i div 8 < length b" using assms by (simp add: less_mult_imp_div_less mult.commute)
  have "bit ((2 :: byte) ^ (i mod 8)) (n mod 8) \<longleftrightarrow> n mod 8 = i mod 8" for n
    by (auto simp: bit_exp_iff)
  moreover have "n div 8 = i div 8 \<Longrightarrow> n mod 8 = i mod 8 \<Longrightarrow> n = i" for n
    by (metis div_mult_mod_eq)
  ultimately show ?thesis using assms i by (auto simp: bloom_bits_def nth_list_update)
qed

lemma bloom_bits_zero [simp]: "bloom_bits (replicate BloomFilterSize 0) = {}"
  by (auto simp: bloom_bits_def less_mult_imp_div_less mult.commute)

lemma image_below_3:
  "{f j | j. j < (3 :: nat) \<and> P j} = {n. n = f 0 \<and> P 0} \<union> {n. n = f (Suc 0) \<and> P (Suc 0)} \<union> {n. n = f 2 \<and> P 2}"
  by (auto simp: less_Suc_eq numeral_3_eq_3 numeral_2_eq_2)

lemma overwrite_below_3:
  "{n. n = a \<and> (b div 8 \<noteq> a div 8 \<or> b = a) \<and> (c div 8 \<noteq> a div 8 \<or> c = a)} \<union>
     {n. n = b \<and> (c div 8 \<noteq> b div 8 \<or> c = b)} \<union> {n. n = c} =
   {n \<in> {n \<in> {a}. n div 8 \<noteq> b div 8} \<union> {b}. n div 8 \<noteq> c div 8} \<union> {c}" for a b c :: nat
  by (intro set_eqI) auto

lemma conj_true: "{n. n = c \<and> True} = {n. n = c}"
  by simp

lemma bits_ConvertTopicToBloom:
  "bloom_bits (ConvertTopicToBloom topic) =
     {topic_index topic j | j. j < 3 \<and> (\<forall>k. j < k \<and> k < 3 \<longrightarrow> topic_index topic k div 8 \<noteq> topic_index topic j div 8
        \<or> topic_index topic k = topic_index topic j)}"
proof -
  let ?i = "topic_index topic"
  have upt3: "[0..<3] = [0, Suc 0, 2]" by (simp add: upt_rec)
  have "bloom_bits (ConvertTopicToBloom topic) =
      {n \<in> {n \<in> {?i 0}. n div 8 \<noteq> ?i (Suc 0) div 8} \<union> {?i (Suc 0)}. n div 8 \<noteq> ?i 2 div 8} \<union> {?i 2}"
    unfolding ConvertTopicToBloom_def upt3 by (simp add: bits_update topic_index_less)
  moreover let ?P = "\<lambda>j. \<forall>k. j < k \<and> k < 3 \<longrightarrow> ?i k div 8 \<noteq> ?i j div 8 \<or> ?i k = ?i j"
  have P: "?P 0 \<longleftrightarrow> (?i (Suc 0) div 8 \<noteq> ?i 0 div 8 \<or> ?i (Suc 0) = ?i 0) \<and> (?i 2 div 8 \<noteq> ?i 0 div 8 \<or> ?i 2 = ?i 0)"
    "?P (Suc 0) \<longleftrightarrow> ?i 2 div 8 \<noteq> ?i (Suc 0) div 8 \<or> ?i 2 = ?i (Suc 0)" "?P 2 \<longleftrightarrow> True"
    by (auto simp: less_Suc_eq numeral_3_eq_3 numeral_2_eq_2)
  have "{?i j | j. j < 3 \<and> ?P j} = {n. n = ?i 0 \<and> ?P 0} \<union> {n. n = ?i (Suc 0) \<and> ?P (Suc 0)} \<union> {n. n = ?i 2 \<and> ?P 2}"
    (is "?L = ?R")
    by (rule image_below_3)
  then have "?L = {n \<in> {n \<in> {?i 0}. n div 8 \<noteq> ?i (Suc 0) div 8} \<union> {?i (Suc 0)}. n div 8 \<noteq> ?i 2 div 8} \<union> {?i 2}"
    unfolding P by (simp only: conj_true overwrite_below_3)
  ultimately show ?thesis by simp
qed

end
