(* ===== verification/WhisperRouting.thy ===== *)
theory WhisperRouting
  imports Bloom
begin

text \<open>
  Whisper's routing handler (\<open>src/whisper/routing.go\<close>): per neighbour, the union of the bloom filters and the least
  of the proof-of-work requirements announced through it, updated only by fresh announcements of an origin. The
  order in which Go ranges over the table is an argument of the forwarding definitions.
\<close>

section \<open>State and operations\<close>

definition statusCode :: uint32 where "statusCode = 0"
definition messagesCode :: uint32 where "messagesCode = 1"
definition powRequirementCode :: uint32 where "powRequirementCode = 2"
definition bloomFilterExCode :: uint32 where "bloomFilterExCode = 3"

record Status =
  st_Pow :: go_float
  st_Bloom :: "bytes option"

record WRoutingHandler =
  wr_peerStatus :: "address \<rightharpoonup> Status"
  wr_originLastID :: "string \<rightharpoonup> uint32"

definition w_NewRoutingHandler :: WRoutingHandler where
  "w_NewRoutingHandler = \<lparr>wr_peerStatus = Map.empty, wr_originLastID = Map.empty\<rparr>"

definition w_updateLastOriginID :: "(string \<rightharpoonup> uint32) \<Rightarrow> string \<Rightarrow> uint32 \<Rightarrow> bool \<times> (string \<rightharpoonup> uint32)" where
  "w_updateLastOriginID entries origin i =
     (case entries origin of
        None \<Rightarrow> (True, entries(origin \<mapsto> i))
      | Some originMaxID \<Rightarrow> if i > originMaxID then (True, entries(origin \<mapsto> i)) else (False, entries))"

definition update_Bloom :: "bool \<Rightarrow> WhisperStatus \<Rightarrow> Status \<Rightarrow> Status go" where
  "update_Bloom loaded ws status =
     (if ws_Code ws = bloomFilterExCode \<or> ws_Code ws = statusCode then
        case ws_Bloom ws of
          None \<Rightarrow> Inr status
        | Some b \<Rightarrow>
            if length b = BloomFilterSize then
              if loaded then
                go_bind (AggregateBloom b (slice_of (st_Bloom status))) (\<lambda>c. Inr (status\<lparr>st_Bloom := Some c\<rparr>))
              else Inr (status\<lparr>st_Bloom := Some b\<rparr>)
            else Inr status
      else Inr status)"

definition update_Pow :: "bool \<Rightarrow> WhisperStatus \<Rightarrow> Status \<Rightarrow> Status" where
  "update_Pow loaded ws status =
     (if ws_Code ws = powRequirementCode \<or> ws_Code ws = statusCode then
        if \<not> (ws_Pow ws = PInf \<or> ws_Pow ws = NInf \<or> ws_Pow ws = NaN \<or> float_less (ws_Pow ws) (Fin 0)) then
          if loaded then status\<lparr>st_Pow := float_Min (st_Pow status) (ws_Pow ws)\<rparr>
          else status\<lparr>st_Pow := ws_Pow ws\<rparr>
        else status
      else status)"

definition w_updateRoutingTable :: "WRoutingHandler \<Rightarrow> WhisperStatus \<Rightarrow> address \<Rightarrow> WRoutingHandler go" where
  "w_updateRoutingTable rh ws addr =
     (case w_updateLastOriginID (wr_originLastID rh) (ws_Origin ws) (ws_ID ws) of (isNew, entries) \<Rightarrow>
        let rh1 = rh\<lparr>wr_originLastID := entries\<rparr> in
        if isNew then
          let loaded = (wr_peerStatus rh addr \<noteq> None);
              status = (case wr_peerStatus rh addr of None \<Rightarrow> \<lparr>st_Pow = Fin 0, st_Bloom = None\<rparr> | Some st \<Rightarrow> st)
          in go_bind (update_Bloom loaded ws status) (\<lambda>status1.
               Inr (rh1\<lparr>wr_peerStatus := (wr_peerStatus rh)(addr \<mapsto> update_Pow loaded ws status1)\<rparr>))
        else Inr rh1)"

interpretation whisper_ids: freshness_filter w_updateLastOriginID
  by unfold_locales (auto simp: w_updateLastOriginID_def split: option.splits)

text \<open>The test a neighbour's entry puts an envelope to, with the bloom filter and the work of the envelope.\<close>

definition status_admits :: "Status \<Rightarrow> bytes \<Rightarrow> go_float \<Rightarrow> bool go" where
  "status_admits status bloom pow =
     go_bind (CheckFilterMatch (st_Bloom status) bloom) (\<lambda>m. Inr (m \<and> float_geq pow (st_Pow status)))"

section \<open>Announcements only widen an entry\<close>

definition wr_inv :: "WRoutingHandler \<Rightarrow> bool" where
  "wr_inv rh \<longleftrightarrow> (\<forall>addr st. wr_peerStatus rh addr = Some st \<longrightarrow>
     (\<forall>f. st_Bloom st = Some f \<longrightarrow> valid_bloom f) \<and> (\<exists>q \<ge> 0. st_Pow st = Fin q))"

text \<open>\<open>st'\<close> admits at least what \<open>st\<close> admits.\<close>

definition widens :: "Status \<Rightarrow> Status \<Rightarrow> bool" where
  "widens st' st \<longleftrightarrow> float_geq (st_Pow st) (st_Pow st') \<and>
     (case st_Bloom st of None \<Rightarrow> st_Bloom st' = None
      | Some f \<Rightarrow> \<exists>f'. st_Bloom st' = Some f' \<and> bloom_bits f \<subseteq> bloom_bits f')"

lemma widens_refl: "st_Pow st \<noteq> NaN \<Longrightarrow> widens st st"
  by (simp add: widens_def float_geq_def split: option.splits)

lemma widens_trans: "widens c b \<Longrightarrow> widens b a \<Longrightarrow> widens c a"
  unfolding widens_def by (auto intro: float_geq_trans split: option.splits)

lemma update_Bloom_widens:
  assumes "update_Bloom True ws st = Inr st'" "\<And>f. st_Bloom st = Some f \<Longrightarrow> valid_bloom f" "st_Pow st \<noteq> NaN"
  shows "widens st' st \<and> st_Pow st' = st_Pow st \<and> (\<forall>f. st_Bloom st' = Some f \<longrightarrow> valid_bloom f)"
proof (cases "(ws_Code ws = bloomFilterExCode \<or> ws_Code ws = statusCode) \<and> (\<exists>b. ws_Bloom ws = Some b \<and> valid_bloom b)")
  case True
  then obtain b where b: "ws_Bloom ws = Some b" "valid_bloom b" by blast
  show ?thesis
  proof (cases "st_Bloom st")
    case None
    then have "AggregateBloom b (slice_of (st_Bloom st)) = Inl IndexOutOfRange"
      using b by (simp add: slice_of_def AggregateBloom_def BloomFilterSize_def upt_rec)
    with assms True b show ?thesis by (auto simp: update_Bloom_def)
  next
    case (Some f)
    with assms(2) b obtain c where "AggregateBloom b f = Inr c" "valid_bloom c" "bloom_bits c = bloom_bits b \<union> bloom_bits f"
      using AggregateBloom_bits [of b f] by auto
    with assms True b Some show ?thesis
      by (auto simp: update_Bloom_def slice_of_def widens_def float_geq_def)
  qed
next
  case False
  then have "st' = st" using assms(1) by (auto simp: update_Bloom_def split: if_splits option.splits)
  with assms widens_refl show ?thesis by simp
qed

lemma update_Pow_widens:
  assumes "st_Pow st = Fin q" "0 \<le> q"
  shows "widens (update_Pow True ws st) st \<and> st_Bloom (update_Pow True ws st) = st_Bloom st \<and>
    (\<exists>q' \<ge> 0. st_Pow (update_Pow True ws st) = Fin q')"
  using assms by (cases "ws_Pow ws") (auto simp: update_Pow_def widens_def split: option.splits)

lemma w_update_step:
  assumes inv: "wr_inv rh" and upd: "w_updateRoutingTable rh ws addr = Inr rh'"
  shows "wr_inv rh' \<and> (\<forall>a st. wr_peerStatus rh a = Some st \<longrightarrow> (\<exists>st'. wr_peerStatus rh' a = Some st' \<and> widens st' st))"
proof (cases "\<forall>j. wr_originLastID rh (ws_Origin ws) = Some j \<longrightarrow> j < ws_ID ws")
  case False
  then have "wr_peerStatus rh' = wr_peerStatus rh"
    using upd by (auto simp: w_updateRoutingTable_def whisper_ids.upd_cases)
  with inv show ?thesis unfolding wr_inv_def
    by (metis go_float.distinct(5) widens_refl)
next
  case True
  define old where "old = (case wr_peerStatus rh addr of None \<Rightarrow> \<lparr>st_Pow = Fin 0, st_Bloom = None\<rparr> | Some st \<Rightarrow> st)"
  let ?l = "wr_peerStatus rh addr \<noteq> None"
  obtain st1 where st1: "update_Bloom ?l ws old = Inr st1"
    and rh': "wr_peerStatus rh' = (wr_peerStatus rh)(addr \<mapsto> update_Pow ?l ws st1)"
    using upd True by (auto simp: w_updateRoutingTable_def whisper_ids.upd_cases old_def go_bind_eq_Inr Let_def)
  have "(\<forall>f. st_Bloom (update_Pow ?l ws st1) = Some f \<longrightarrow> valid_bloom f) \<and> (\<exists>q \<ge> 0. st_Pow (update_Pow ?l ws st1) = Fin q) \<and>
      (?l \<longrightarrow> widens (update_Pow ?l ws st1) old)"
  proof (cases ?l)
    case True
    then have "wr_peerStatus rh addr = Some old" by (auto simp: old_def)
    with inv have "(\<forall>f. st_Bloom old = Some f \<longrightarrow> valid_bloom f) \<and> (\<exists>q \<ge> 0. st_Pow old = Fin q)"
      unfolding wr_inv_def by blast
    then obtain q where q: "st_Pow old = Fin q" "0 \<le> q" and f: "\<And>f. st_Bloom old = Some f \<Longrightarrow> valid_bloom f"
      by blast
    note b = update_Bloom_widens [of ws old st1] 
    note p = update_Pow_widens [of st1 q ws]
    from True st1 q f b have w: "widens st1 old" "st_Pow st1 = Fin q" "\<forall>f. st_Bloom st1 = Some f \<longrightarrow> valid_bloom f" by auto
    with p q True widens_trans [of _ st1 old] show ?thesis by auto
  next
    case False
    with st1 show ?thesis
      by (cases "ws_Pow ws") (auto simp: old_def update_Bloom_def update_Pow_def split: if_splits option.splits)
  qed
  note new = this
  have "\<exists>st'. wr_peerStatus rh' a = Some st' \<and> widens st' st" if st: "wr_peerStatus rh a = Some st" for a st
  proof (cases "a = addr")
    case True
    with new rh' st show ?thesis by (simp add: old_def)
  next
    case False
    from inv st obtain q where "st_Pow st = Fin q" unfolding wr_inv_def by blast
    with False rh' st widens_refl [of st] show ?thesis by simp
  qed
  moreover have "wr_inv rh'" using new inv rh' unfolding wr_inv_def by auto
  ultimately show ?thesis by blast
qed


definition w_step :: "WRoutingHandler \<Rightarrow> WhisperStatus \<times> address \<Rightarrow> WRoutingHandler go" where
  "w_step rh u = w_updateRoutingTable rh (fst u) (snd u)"

lemma w_run_widens:
  "wr_inv rh \<Longrightarrow> go_foldM w_step rh us = Inr rh' \<Longrightarrow>
   wr_inv rh' \<and> (\<forall>a st. wr_peerStatus rh a = Some st \<longrightarrow> (\<exists>st'. wr_peerStatus rh' a = Some st' \<and> widens st' st))"
proof (induction us arbitrary: rh)
  case Nil
  then have "rh' = rh" by simp
  with Nil show ?case unfolding wr_inv_def by (metis go_float.distinct(5) widens_refl)
next
  case (Cons u us)
  then obtain rh1 where s: "w_step rh u = Inr rh1" and rest: "go_foldM w_step rh1 us = Inr rh'"
    by (auto simp: go_bind_eq_Inr)
  from s have rh1: "w_updateRoutingTable rh (fst u) (snd u) = Inr rh1" by (simp add: w_step_def)
  from w_update_step [OF Cons.prems(1) rh1] Cons.IH [OF _ rest] show ?case by (meson widens_trans)
qed

text \<open>A fresh complete announcement widens the neighbour's entry to what it announces.\<close>

lemma announcement_admitted:
  assumes inv: "wr_inv rh" and fresh: "\<forall>j. wr_originLastID rh (ws_Origin ws) = Some j \<longrightarrow> j < ws_ID ws"
    and code: "ws_Code ws = statusCode" and b: "ws_Bloom ws = Some b" "valid_bloom b" and p: "ws_Pow ws = Fin p" "0 \<le> p"
    and upd: "w_updateRoutingTable rh ws addr = Inr rh'"
  shows "\<exists>st. wr_peerStatus rh' addr = Some st \<and> widens st \<lparr>st_Pow = Fin p, st_Bloom = Some b\<rparr>"
proof -
  define old where "old = (case wr_peerStatus rh addr of None \<Rightarrow> \<lparr>st_Pow = Fin 0, st_Bloom = None\<rparr> | Some st \<Rightarrow> st)"
  let ?l = "wr_peerStatus rh addr \<noteq> None"
  obtain st1 where st1: "update_Bloom ?l ws old = Inr st1"
    and rh': "wr_peerStatus rh' = (wr_peerStatus rh)(addr \<mapsto> update_Pow ?l ws st1)"
    using upd fresh by (auto simp: w_updateRoutingTable_def whisper_ids.upd_cases old_def go_bind_eq_Inr Let_def)
  have "widens (update_Pow ?l ws st1) \<lparr>st_Pow = Fin p, st_Bloom = Some b\<rparr>"
  proof (cases ?l)
    case True
    then have "wr_peerStatus rh addr = Some old" by (auto simp: old_def)
    with inv have "(\<forall>f. st_Bloom old = Some f \<longrightarrow> valid_bloom f) \<and> (\<exists>q \<ge> 0. st_Pow old = Fin q)"
      unfolding wr_inv_def by blast
    then obtain q where q: "st_Pow old = Fin q" and f: "\<And>f. st_Bloom old = Some f \<Longrightarrow> valid_bloom f" by blast
    obtain c where c: "AggregateBloom b (slice_of (st_Bloom old)) = Inr c" "st1 = old\<lparr>st_Bloom := Some c\<rparr>"
      using st1 True b code by (auto simp: update_Bloom_def go_bind_eq_Inr)
    obtain f where o: "st_Bloom old = Some f"
      using c(1) b by (cases "st_Bloom old") (simp_all add: slice_of_def AggregateBloom_def BloomFilterSize_def upt_rec)
    from AggregateBloom_bits [OF b(2) f [OF o]] c(1) o have "bloom_bits b \<subseteq> bloom_bits c" by (auto simp: slice_of_def)
    with c(2) q p code True show ?thesis by (simp add: update_Pow_def widens_def)
  next
    case False
    with st1 b code have "st1 = old\<lparr>st_Bloom := Some b\<rparr>" by (simp add: update_Bloom_def)
    with False p code show ?thesis by (simp add: update_Pow_def widens_def)
  qed
  with rh' show ?thesis by simp
qed

text \<open>
  Claim C27. Forwarding never filters out what was asked for: once a complete status announcement has been accepted
  through a neighbour, then after any further announcements, from whichever origins and neighbours, every envelope
  whose bloom filter lies within the announced one and whose proof of work reaches the announced bound still passes
  the test of that neighbour's entry.
\<close>

theorem neighbour_admits_announced:
  assumes inv: "wr_inv rh" and fresh: "\<forall>j. wr_originLastID rh (ws_Origin ws) = Some j \<longrightarrow> j < ws_ID ws"
    and code: "ws_Code ws = statusCode" and b: "ws_Bloom ws = Some b" "valid_bloom b" and p: "ws_Pow ws = Fin p" "0 \<le> p"
    and run: "go_foldM w_step rh ((ws, addr) # us) = Inr rh'"
    and g: "valid_bloom g" "CheckFilterMatch (Some b) g = Inr True" and w: "float_geq w (Fin p)"
  shows "\<exists>st. wr_peerStatus rh' addr = Some st \<and> status_admits st g w = Inr True"
proof -
  obtain rh1 where s: "w_step rh (ws, addr) = Inr rh1" and rest: "go_foldM w_step rh1 us = Inr rh'"
    using run by (auto simp: go_bind_eq_Inr)
  from s have rh1: "w_updateRoutingTable rh ws addr = Inr rh1" by (simp add: w_step_def)
  have inv1: "wr_inv rh1" using w_update_step [OF inv rh1] by blast
  obtain st1 where st1: "wr_peerStatus rh1 addr = Some st1" "widens st1 \<lparr>st_Pow = Fin p, st_Bloom = Some b\<rparr>"
    using announcement_admitted [OF inv fresh code b p rh1] by blast
  obtain st where st: "wr_peerStatus rh' addr = Some st" "widens st st1" and inv': "wr_inv rh'"
    using w_run_widens [OF inv1 rest] st1(1) by blast
  from widens_trans [OF st(2) st1(2)] obtain f where f: "st_Bloom st = Some f" "bloom_bits b \<subseteq> bloom_bits f"
    and pw: "float_geq (Fin p) (st_Pow st)" by (auto simp: widens_def)
  have vf: "valid_bloom f" using inv' st(1) f(1) unfolding wr_inv_def by blast
  have "bloom_bits g \<subseteq> bloom_bits f" using g f(2) blooms.covers_bits [OF b(2) g(1)] by auto
  then have "CheckFilterMatch (st_Bloom st) g = Inr True" using f(1) blooms.covers_bits [OF vf g(1)] by simp
  with st(1) float_geq_trans [OF w pw] show ?thesis by (simp add: status_admits_def)
qed

theorem neighbour_admits_announced_witness:
  "let b = ConvertTopicToBloom [1, 2, 3, 0]; c = ConvertTopicToBloom [9, 8, 7, 1];
       ann = (\<lambda>origin i bl p. \<lparr>ws_Origin = origin, ws_ID = i, ws_Code = statusCode, ws_Bloom = Some bl, ws_Pow = Fin p\<rparr>)
   in \<exists>rh' st. go_foldM w_step w_NewRoutingHandler ((ann ''x'' 1 b 2, ''n'') # [(ann ''y'' 5 c 3, ''n''), (ann ''x'' 1 c 0, ''n'')]) = Inr rh' \<and>
        wr_peerStatus rh' ''n'' = Some st \<and> status_admits st b (Fin 2) = Inr True"
proof -
  let ?b = "ConvertTopicToBloom [1, 2, 3, 0]" and ?c = "ConvertTopicToBloom [9, 8, 7, 1]"
  let ?ann = "\<lambda>origin i bl p. \<lparr>ws_Origin = origin, ws_ID = i, ws_Code = statusCode, ws_Bloom = Some bl, ws_Pow = Fin p\<rparr>"
  obtain d where d: "AggregateBloom ?c ?b = Inr d" using AggregateBloom_bits [of ?c ?b] by auto
  have "\<exists>rh'. go_foldM w_step w_NewRoutingHandler ((?ann ''x'' 1 ?b 2, ''n'') # [(?ann ''y'' 5 ?c 3, ''n''), (?ann ''x'' 1 ?c 0, ''n'')]) = Inr rh'"
    by (simp add: w_step_def w_updateRoutingTable_def w_updateLastOriginID_def w_NewRoutingHandler_def update_Bloom_def
        update_Pow_def slice_of_def statusCode_def bloomFilterExCode_def powRequirementCode_def d)
  then obtain rh' where run: "go_foldM w_step w_NewRoutingHandler ((?ann ''x'' 1 ?b 2, ''n'') # [(?ann ''y'' 5 ?c 3, ''n''), (?ann ''x'' 1 ?c 0, ''n'')]) = Inr rh'"
    by blast
  have "\<exists>st. wr_peerStatus rh' ''n'' = Some st \<and> status_admits st ?b (Fin 2) = Inr True"
    by (rule neighbour_admits_announced [OF _ _ _ _ _ _ _ run, of ?b 2])
      (simp_all add: w_NewRoutingHandler_def wr_inv_def blooms.covers_refl)
  with run show ?thesis by (auto simp: Let_def)
qed

text \<open>
  The order of announcements matters for safety: when the first announcement accepted through a neighbour
  carries only a proof-of-work requirement, the entry has no bloom filter, and the next fresh announcement of a
  filter through that neighbour indexes the missing filter and panics.
\<close>

theorem pow_before_bloom_panics:
  assumes new: "wr_peerStatus rh addr = None"
    and fresh: "\<forall>j. wr_originLastID rh (ws_Origin a) = Some j \<longrightarrow> j < ws_ID a"
    and a: "ws_Code a = powRequirementCode" and b: "ws_Code b = bloomFilterExCode \<or> ws_Code b = statusCode"
    and bloom: "ws_Bloom b = Some f" "valid_bloom f"
    and later: "ws_Origin b = ws_Origin a \<longrightarrow> ws_ID a < ws_ID b"
    and later': "ws_Origin b \<noteq> ws_Origin a \<longrightarrow> (\<forall>j. wr_originLastID rh (ws_Origin b) = Some j \<longrightarrow> j < ws_ID b)"
  shows "go_foldM w_step rh [(a, addr), (b, addr)] = Inl IndexOutOfRange"
proof -
  have codes: "powRequirementCode \<noteq> bloomFilterExCode" "powRequirementCode \<noteq> statusCode"
    by (simp_all add: powRequirementCode_def bloomFilterExCode_def statusCode_def)
  let ?st = "update_Pow False a \<lparr>st_Pow = Fin 0, st_Bloom = None\<rparr>"
  have none: "st_Bloom ?st = None" by (simp add: update_Pow_def)
  have "AggregateBloom f [] = Inl IndexOutOfRange"
    using bloom by (simp add: AggregateBloom_def BloomFilterSize_def upt_rec)
  then have "update_Bloom True b ?st = Inl IndexOutOfRange"
    using b bloom none by (auto simp: update_Bloom_def slice_of_def)
  with new fresh a codes later later' show ?thesis
    by (simp add: w_step_def w_updateRoutingTable_def whisper_ids.upd_cases update_Bloom_def)
qed

theorem pow_before_bloom_panics_witness:
  "go_foldM w_step w_NewRoutingHandler
     [(\<lparr>ws_Origin = ''x'', ws_ID = 1, ws_Code = powRequirementCode, ws_Bloom = None, ws_Pow = Fin 1\<rparr>, ''n''),
      (\<lparr>ws_Origin = ''y'', ws_ID = 1, ws_Code = bloomFilterExCode, ws_Bloom = Some GetEmptyBloomFilter, ws_Pow = Fin 0\<rparr>, ''n'')] =
   Inl IndexOutOfRange"
  by (rule pow_before_bloom_panics [where f = GetEmptyBloomFilter]) (simp_all add: w_NewRoutingHandler_def)

end
