(* ===== verification/WhisperEnvelope.thy ===== *)
theory WhisperEnvelope
  imports WhisperRouting
begin

text \<open>
  Whisper envelopes (\<open>src/whisper/envelope.go\<close>), the messages they carry (\<open>src/whisper/message.go\<close>) and the proof
  of work (\<open>src/whisper/utils.go\<close>, \<open>addNonceForPow\<close>). The encodings of \<open>dedis/protobuf\<close>, SHA3, AES-GCM and the
  package \<open>ecies\<close> are the fields of the record \<open>WCrypto\<close>. The clock, random bytes and the number of rounds
  the nonce search has time for are arguments. Keys of \<open>ecies\<close> are byte slices.
\<close>

section \<open>Primitives\<close>

text \<open>
  \<open>proto_envelope\<close> encodes the exported fields of an envelope and \<open>proto_fields\<close> the same fields without the nonce.
  Decryption with \<open>ecies\<close> may fail (\<open>None\<close>) or return a nil slice (\<open>Some None\<close>).
\<close>

record WCrypto =
  proto_envelope :: "uint32 \<times> uint32 \<times> Topic \<times> bytes \<times> uint64 \<Rightarrow> bytes"
  proto_fields :: "uint32 \<times> uint32 \<times> Topic \<times> bytes \<Rightarrow> bytes"
  sha3_Sum256 :: "bytes \<Rightarrow> bytes"
  gcm_Seal :: "bytes \<Rightarrow> bytes \<Rightarrow> bytes \<Rightarrow> bytes"
  gcm_Open :: "bytes \<Rightarrow> bytes \<Rightarrow> bytes \<Rightarrow> bytes option"
  ecies_Encrypt :: "bytes \<Rightarrow> bytes \<Rightarrow> bytes \<Rightarrow> bytes option"
  ecies_Decrypt :: "bytes \<Rightarrow> bytes \<Rightarrow> bytes option option"
  ecies_PublicKey :: "bytes \<Rightarrow> bytes"

section \<open>Envelopes\<close>

text \<open>\<open>pow\<close> and \<open>bloom\<close> are caches, filled on first use.\<close>

record Envelope =
  en_Expiry :: uint32
  en_TTL :: uint32
  en_Topic :: Topic
  en_Data :: bytes
  en_Nonce :: uint64
  en_pow :: go_float
  en_bloom :: "bytes option"

definition NewEnvelope :: "uint32 \<Rightarrow> uint32 \<Rightarrow> Topic \<Rightarrow> bytes \<Rightarrow> Envelope" where
  "NewEnvelope now ttl topic data =
     \<lparr>en_Expiry = now + ttl, en_TTL = ttl, en_Topic = topic, en_Data = data, en_Nonce = 0, en_pow = Fin 0, en_bloom = None\<rparr>"

definition encode_Envelope :: "WCrypto \<Rightarrow> Envelope \<Rightarrow> bytes" where
  "encode_Envelope wc e = proto_envelope wc (en_Expiry e, en_TTL e, en_Topic e, en_Data e, en_Nonce e)"

definition GetSize :: "WCrypto \<Rightarrow> Envelope \<Rightarrow> nat" where
  "GetSize wc e = length (encode_Envelope wc e)"

definition leadingZeroes :: "WCrypto \<Rightarrow> Envelope \<Rightarrow> uint64 \<Rightarrow> int" where
  "leadingZeroes wc e nonce =
     (let buf = proto_fields wc (en_Expiry e, en_TTL e, en_Topic e, en_Data e) @ rev (PutUint64 nonce);
          powHash = big_SetBytes (sha3_Sum256 wc buf)
      in 256 - int (BitLen (nat powHash)))"

text \<open>\<open>math.Pow(2, k)\<close> is exact for the exponents that occur.\<close>

definition Pow2 :: "int \<Rightarrow> go_float" where
  "Pow2 k = Fin (if 0 \<le> k then 2 ^ nat k else 1 / 2 ^ nat (- k))"

definition computePow :: "WCrypto \<Rightarrow> uint32 \<Rightarrow> Envelope \<Rightarrow> Envelope" where
  "computePow wc diff e =
     e\<lparr>en_pow := float_div (Pow2 (leadingZeroes wc e (en_Nonce e)))
                  (float_mul (float64_of (GetSize wc e)) (float64_of (unat (en_TTL e + diff))))\<rparr>"

definition GetPow :: "WCrypto \<Rightarrow> Envelope \<Rightarrow> go_float \<times> Envelope" where
  "GetPow wc e = (let e' = (if en_pow e = Fin 0 then computePow wc 0 e else e) in (en_pow e', e'))"

definition GetBloom :: "Envelope \<Rightarrow> bytes \<times> Envelope" where
  "GetBloom e =
     (case en_bloom e of
        None \<Rightarrow> let b = ConvertTopicToBloom (en_Topic e) in (b, e\<lparr>en_bloom := Some b\<rparr>)
      | Some b \<Rightarrow> (b, e))"

definition GetHash :: "WCrypto \<Rightarrow> Envelope \<Rightarrow> bytes" where
  "GetHash wc e = sha3_Sum256 wc (encode_Envelope wc e)"

section \<open>Symmetric encryption\<close>

definition gcm_NonceSize :: nat where "gcm_NonceSize = 12"

text \<open>\<open>aes.NewCipher\<close> fails on a key that does not have 16, 24 or 32 bytes.\<close>

definition aes_key_ok :: "bytes \<Rightarrow> bool" where
  "aes_key_ok key \<longleftrightarrow> length key = 16 \<or> length key = 24 \<or> length key = 32"

text \<open>\<open>nonce\<close> is what the random source gives; \<open>None\<close> when it fails.\<close>

definition encryptWithSymmetricKey :: "WCrypto \<Rightarrow> bytes option \<Rightarrow> bytes \<Rightarrow> bytes \<Rightarrow> bytes option" where
  "encryptWithSymmetricKey wc nonce data key =
     (if \<not> aes_key_ok key then None
      else case nonce of None \<Rightarrow> None
      | Some n \<Rightarrow> let nonce' = take gcm_NonceSize n in Some (nonce' @ gcm_Seal wc key nonce' data))"

definition decryptWithSymmetricKey :: "WCrypto \<Rightarrow> bytes \<Rightarrow> bytes \<Rightarrow> bytes option go" where
  "decryptWithSymmetricKey wc encrypted key =
     (if \<not> aes_key_ok key then Inr None
      else go_bind (go_slice encrypted 0 gcm_NonceSize) (\<lambda>nonce.
           go_bind (go_slice encrypted gcm_NonceSize (length encrypted)) (\<lambda>ciphertext.
             Inr (gcm_Open wc key nonce ciphertext))))"

definition encryptWithPublicKey :: "WCrypto \<Rightarrow> bytes \<Rightarrow> bytes \<Rightarrow> bytes \<Rightarrow> bytes option" where
  "encryptWithPublicKey wc rnd data key = ecies_Encrypt wc rnd key data"

definition decryptWithPrivateKey :: "WCrypto \<Rightarrow> bytes \<Rightarrow> bytes \<Rightarrow> bytes option option" where
  "decryptWithPrivateKey wc encrypted key = ecies_Decrypt wc key encrypted"

section \<open>Messages\<close>

record MessageParams =
  mp_Src :: "bytes option"
  mp_Dst :: "bytes option"
  mp_KeySym :: "bytes option"
  mp_Topic :: Topic
  mp_PowTime :: uint32
  mp_TTL :: uint32
  mp_Payload :: bytes
  mp_Padding :: bytes

record ReceivedMessage =
  rm_Sent :: uint32
  rm_TTL :: uint32
  rm_Src :: "bytes option"
  rm_Dst :: "bytes option"
  rm_Payload :: bytes
  rm_Topic :: Topic
  rm_SymKeyHash :: bytes
  rm_EnvelopeHash :: bytes

definition DefaultTTL :: uint32 where "DefaultTTL = 60"

text \<open>
  \<open>encode\<close> is \<open>protobuf.Encode\<close> of the parameters, \<open>random n\<close> the result of reading \<open>n\<close> random bytes; the second component
  tells whether an error is returned. No caller exists; the padding replaces the payload.
\<close>

definition padSizeLimit :: nat where "padSizeLimit = 256"

definition appendPadding ::
  "(MessageParams \<Rightarrow> bytes option) \<Rightarrow> (nat \<Rightarrow> bytes option) \<Rightarrow> MessageParams \<Rightarrow> MessageParams \<times> bool" where
  "appendPadding encode random params =
     (case encode params of
        None \<Rightarrow> (params, True)
      | Some bytes \<Rightarrow>
          let odd = length bytes mod padSizeLimit; paddingSize = padSizeLimit - odd
          in case random paddingSize of
               None \<Rightarrow> (params, True)
             | Some pad \<Rightarrow> (params\<lparr>mp_Payload := pad\<rparr>, False))"

text \<open>
  The nonce search: rounds of 1024 nonces until the time is over, keeping the first nonce with the most leading
  zeros seen so far, if it has any.
\<close>

definition addNonce_step :: "WCrypto \<Rightarrow> Envelope \<Rightarrow> uint64 \<times> int \<Rightarrow> nat \<Rightarrow> uint64 \<times> int" where
  "addNonce_step wc e best n =
     (let lz = leadingZeroes wc e (of_nat n) in if lz > snd best then (of_nat n, lz) else best)"

definition addNonceForPow :: "WCrypto \<Rightarrow> nat \<Rightarrow> uint32 \<Rightarrow> Envelope \<Rightarrow> Envelope" where
  "addNonceForPow wc rounds powTime e =
     (let e1 = e\<lparr>en_Expiry := en_Expiry e + powTime\<rparr>;
          best = foldl (addNonce_step wc e1) (en_Nonce e1, 0) [0..<1024 * rounds]
      in computePow wc 0 (e1\<lparr>en_Nonce := fst best\<rparr>))"

definition GetEnvelopeFromMessage ::
  "WCrypto \<Rightarrow> bytes option \<Rightarrow> bytes \<Rightarrow> nat \<Rightarrow> uint32 \<Rightarrow> MessageParams \<Rightarrow> Envelope option" where
  "GetEnvelopeFromMessage wc nonce rnd rounds now params =
     (let ttl = (if mp_TTL params = 0 then DefaultTTL else mp_TTL params);
          encrypted = (case mp_Dst params of
              Some key \<Rightarrow> encryptWithPublicKey wc rnd (mp_Payload params) key
            | None \<Rightarrow> (case mp_KeySym params of
                Some key \<Rightarrow> encryptWithSymmetricKey wc nonce (mp_Payload params) key
              | None \<Rightarrow> Some (mp_Payload params)))
      in Option.bind encrypted (\<lambda>data.
           Some (addNonceForPow wc rounds (mp_PowTime params) (NewEnvelope now ttl (mp_Topic params) data))))"

section \<open>Filters\<close>

record Filter =
  fl_KeyAsym :: "bytes option"
  fl_KeySym :: "bytes option"
  fl_Pow :: go_float
  fl_Topics :: "bytes list"
  fl_Messages :: "bytes \<rightharpoonup> ReceivedMessage"

text \<open>\<open>None\<close>: the payload cannot be decrypted. The result of AES-GCM on an empty plaintext is a nil slice.\<close>

definition GetMessageFromEnvelope :: "WCrypto \<Rightarrow> Envelope \<Rightarrow> Filter \<Rightarrow> ReceivedMessage option go" where
  "GetMessageFromEnvelope wc e subscriber =
     (let msg = (\<lambda>payload dst symhash. Some \<lparr>rm_Sent = en_Expiry e - en_TTL e, rm_TTL = en_TTL e, rm_Src = None, rm_Dst = dst, rm_Payload = payload,
                   rm_Topic = en_Topic e, rm_SymKeyHash = symhash, rm_EnvelopeHash = GetHash wc e\<rparr>);
          zero = replicate 32 0
      in case fl_KeyAsym subscriber of
           Some key \<Rightarrow>
             (case decryptWithPrivateKey wc (en_Data e) key of
                None \<Rightarrow> Inr None
              | Some decrypted \<Rightarrow>
                  Inr (msg (slice_of decrypted) (if decrypted \<noteq> None then Some (ecies_PublicKey wc key) else None) zero))
         | None \<Rightarrow>
             (case fl_KeySym subscriber of
                Some key \<Rightarrow>
                  go_bind (decryptWithSymmetricKey wc (en_Data e) key) (\<lambda>r.
                    case r of None \<Rightarrow> Inr None
                    | Some decrypted \<Rightarrow> Inr (msg decrypted None (if decrypted \<noteq> [] then sha3_Sum256 wc key else zero)))
              | None \<Rightarrow> Inr (msg (en_Data e) None zero)))"

section \<open>The work of an envelope\<close>

lemma addNonce_foldl:
  "snd best \<le> snd (foldl (addNonce_step wc e) best ns) \<and>
   (\<forall>n \<in> set ns. leadingZeroes wc e (of_nat n) \<le> snd (foldl (addNonce_step wc e) best ns)) \<and>
   (foldl (addNonce_step wc e) best ns = best \<or>
    (\<exists>n \<in> set ns. foldl (addNonce_step wc e) best ns = (of_nat n, leadingZeroes wc e (of_nat n))))"
proof (induction ns arbitrary: best)
  case Nil
  then show ?case by simp
next
  case (Cons n ns)
  let ?b = "addNonce_step wc e best n"
  have b: "snd best \<le> snd ?b" "leadingZeroes wc e (of_nat n) \<le> snd ?b" "?b = best \<or> ?b = (of_nat n, leadingZeroes wc e (of_nat n))"
    by (auto simp: addNonce_step_def Let_def)
  with Cons.IH [of ?b] show ?case by (auto intro: order_trans)
qed

lemma leadingZeroes_update [simp]:
  "leadingZeroes wc (e\<lparr>en_Nonce := k\<rparr>) = leadingZeroes wc e" "leadingZeroes wc (e\<lparr>en_pow := w\<rparr>) = leadingZeroes wc e"
  by (simp_all add: leadingZeroes_def fun_eq_iff)

lemma GetSize_update [simp]: "GetSize wc (e\<lparr>en_pow := w\<rparr>) = GetSize wc e"
  by (simp add: GetSize_def encode_Envelope_def)

text \<open>
  The nonce search finds the best nonce it had time for: the envelope it returns has at least the leading
  zeros of every nonce tried, and its cached work is the work of the nonce it carries.
\<close>

theorem addNonceForPow_best:
  assumes "n < 1024 * rounds"
  shows "leadingZeroes wc (addNonceForPow wc rounds t e) (of_nat n) \<le>
      max 0 (leadingZeroes wc (addNonceForPow wc rounds t e) (en_Nonce (addNonceForPow wc rounds t e))) \<and>
    addNonceForPow wc rounds t e = computePow wc 0 (addNonceForPow wc rounds t e)"
proof -
  let ?e1 = "e\<lparr>en_Expiry := en_Expiry e + t\<rparr>"
  let ?best = "foldl (addNonce_step wc ?e1) (en_Nonce ?e1, 0) [0..<1024 * rounds]"
  note * = addNonce_foldl [of "(en_Nonce ?e1, 0)" wc ?e1 "[0..<1024 * rounds]"]
  have lz: "leadingZeroes wc (addNonceForPow wc rounds t e) = leadingZeroes wc ?e1"
    by (simp add: addNonceForPow_def computePow_def Let_def)
  have nonce: "en_Nonce (addNonceForPow wc rounds t e) = fst ?best"
    by (simp add: addNonceForPow_def computePow_def Let_def)
  have "leadingZeroes wc ?e1 (of_nat n) \<le> snd ?best" using * assms by auto
  moreover have "snd ?best \<le> max 0 (leadingZeroes wc ?e1 (fst ?best))"
  proof (cases "?best = (en_Nonce ?e1, 0)")
    case True
    then have "snd ?best = 0" by simp
    then show ?thesis by simp
  next
    case False
    with * show ?thesis by auto
  qed
  moreover have "addNonceForPow wc rounds t e = computePow wc 0 (addNonceForPow wc rounds t e)"
    by (simp add: addNonceForPow_def computePow_def Let_def)
  ultimately show ?thesis unfolding lz nonce by simp
qed

definition toy_wcrypto :: WCrypto where
  "toy_wcrypto = \<lparr>proto_envelope = (\<lambda>(x, t, p, d, n). PutUint64 (ucast x) @ PutUint64 (ucast t) @ p @ PutUint64 n @ d),
     proto_fields = (\<lambda>(x, t, p, d). PutUint64 (ucast x) @ PutUint64 (ucast t) @ p @ d),
     sha3_Sum256 = (\<lambda>bs. take 32 (rev bs @ replicate 32 0)),
     gcm_Seal = (\<lambda>key nonce data. data @ key), gcm_Open = (\<lambda>key nonce c. Some (take (length c - length key) c)),
     ecies_Encrypt = (\<lambda>rnd key data. Some (data @ key)), ecies_Decrypt = (\<lambda>key c. Some (Some (take (length c - length key) c))),
     ecies_PublicKey = (\<lambda>key. key)\<rparr>"

theorem addNonceForPow_best_witness:
  "let e = addNonceForPow toy_wcrypto 1 2 (NewEnvelope 100 60 [1, 2, 3, 4] [])
   in leadingZeroes toy_wcrypto e 3 \<le> max 0 (leadingZeroes toy_wcrypto e (en_Nonce e))"
  using addNonceForPow_best [of 3 1 toy_wcrypto 2 "NewEnvelope 100 60 [1, 2, 3, 4] []"] by (simp add: Let_def)

end
