(* ===== verification/SecureFile.thy ===== *)
theory SecureFile
  imports AEAD WhisperEnvelope
begin

text \<open>
  Signed and encrypted files (\<open>src/secure/securefs.go\<close>). The RSA operations and the encoding of \<open>dedis/protobuf\<close> are the fields of
  \<open>SecureOps\<close>; AES and SHA-256 are those of the record \<open>Crypto\<close>, the chaining mode is the one of \<open>AEAD\<close>. What is read from the
  random source is an argument.
\<close>

record SignedFile =
  sf_Data :: bytes
  sf_Signature :: bytes

record EncryptedFile =
  ef_PlainTextLength :: int
  ef_EncryptedData :: bytes
  ef_EncryptedKey :: bytes

record SecureOps =
  rsa_SignPKCS1v15 :: "bytes \<Rightarrow> bytes \<Rightarrow> bytes \<Rightarrow> bytes option"
  rsa_VerifyPKCS1v15 :: "bytes \<Rightarrow> bytes \<Rightarrow> bytes \<Rightarrow> bool"
  rsa_EncryptOAEP :: "bytes \<Rightarrow> bytes \<Rightarrow> bytes \<Rightarrow> bytes option"
  rsa_DecryptOAEP :: "bytes \<Rightarrow> bytes \<Rightarrow> bytes option"
  sf_Encode :: "SignedFile \<Rightarrow> bytes"
  sf_Decode :: "bytes \<Rightarrow> SignedFile option"

text \<open>The flag tells whether signing failed; the signature is then nil.\<close>

definition SignData :: "Crypto \<Rightarrow> SecureOps \<Rightarrow> bytes \<Rightarrow> bytes \<Rightarrow> bytes \<Rightarrow> SignedFile \<times> bool" where
  "SignData cr so rnd data signKey =
     (case rsa_SignPKCS1v15 so rnd signKey (Sum256 cr data) of
        None \<Rightarrow> (\<lparr>sf_Data = data, sf_Signature = []\<rparr>, True)
      | Some s \<Rightarrow> (\<lparr>sf_Data = data, sf_Signature = s\<rparr>, False))"

definition VerifySignedData :: "Crypto \<Rightarrow> SecureOps \<Rightarrow> SignedFile \<Rightarrow> bytes \<Rightarrow> bool" where
  "VerifySignedData cr so f signKey = rsa_VerifyPKCS1v15 so signKey (Sum256 cr (sf_Data f)) (sf_Signature f)"

text \<open>\<open>pad n\<close> gives \<open>n\<close> random bytes. An error of the key encryption is dropped, and leaves a nil key.\<close>

definition EncryptFile ::
  "Crypto \<Rightarrow> SecureOps \<Rightarrow> bytes \<Rightarrow> (nat \<Rightarrow> bytes) \<Rightarrow> bytes \<Rightarrow> bytes \<Rightarrow> SignedFile \<Rightarrow> bytes \<Rightarrow> EncryptedFile go" where
  "EncryptFile cr so key pad iv rnd f encryptPublicKey =
     (let plaintext = sf_Encode so f; plainTextLength = length plaintext;
          paddingLen = AESBlock - plainTextLength mod AESBlock;
          padded = plaintext @ pad paddingLen
      in go_bind (CryptBlocks cbc_encrypt (aes_Encrypt cr key) iv padded) (\<lambda>c.
           Inr \<lparr>ef_PlainTextLength = int plainTextLength, ef_EncryptedData = iv @ c,
                ef_EncryptedKey = (case rsa_EncryptOAEP so rnd encryptPublicKey key of None \<Rightarrow> [] | Some k \<Rightarrow> k)\<rparr>))"

definition DecryptFile :: "Crypto \<Rightarrow> SecureOps \<Rightarrow> EncryptedFile \<Rightarrow> bytes \<Rightarrow> SignedFile option go" where
  "DecryptFile cr so ef privateKey =
     (case rsa_DecryptOAEP so privateKey (ef_EncryptedKey ef) of
        None \<Rightarrow> Inr None
      | Some key \<Rightarrow>
          if \<not> aes_key_ok key then Inr None
          else if length (ef_EncryptedData ef) < AESBlock then Inr None
          else
            let iv = take AESBlock (ef_EncryptedData ef); ciphertext = drop AESBlock (ef_EncryptedData ef)
            in if length ciphertext mod AESBlock \<noteq> 0 then Inr None
               else
                 go_bind (CryptBlocks cbc_decrypt (aes_Decrypt cr key) iv ciphertext) (\<lambda>plain.
                 go_bind (if ef_PlainTextLength ef < 0 then Inl SliceOutOfRange
                          else go_slice plain 0 (nat (ef_PlainTextLength ef))) (\<lambda>encoded.
                   Inr (sf_Decode so encoded))))"

section \<open>Round trip\<close>

lemma padded_whole: "length pad = AESBlock - length p mod AESBlock \<Longrightarrow> length (p @ pad) mod 16 = 0"
  by (simp add: AESBlock_def) presburger

text \<open>
  Claim C26. The recipient of an encrypted file gets the signed file back: decryption with the private key inverts encryption under the public key,
  whatever the length of the file and the random padding. The length of the plain text is not protected: the same file with a
  negative length, or one beyond the encrypted data, panics the recipient instead of being rejected.
\<close>

theorem DecryptFile_EncryptFile:
  assumes laws: "crypto_laws cr" and random: "length key = 32" "length iv = 16" "\<And>n. length (pad n) = n"
    and oaep: "rsa_EncryptOAEP so rnd pk key = Some ek" "rsa_DecryptOAEP so sk ek = Some key"
    and codec: "sf_Decode so (sf_Encode so f) = Some f"
  shows "\<exists>ef. EncryptFile cr so key pad iv rnd f pk = Inr ef \<and> DecryptFile cr so ef sk = Inr (Some f) \<and>
    (\<forall>n. n < 0 \<or> n > int (length (ef_EncryptedData ef)) - 16 \<longrightarrow>
       DecryptFile cr so (ef\<lparr>ef_PlainTextLength := n\<rparr>) sk = Inl SliceOutOfRange)"
proof -
  define p where "p = sf_Encode so f"
  define P where "P = p @ pad (AESBlock - length p mod AESBlock)"
  define c where "c = cbc_encrypt (aes_Encrypt cr key) iv P"
  let ?ef = "\<lparr>ef_PlainTextLength = int (length p), ef_EncryptedData = iv @ c, ef_EncryptedKey = ek\<rparr>"
  have w: "length P mod 16 = 0" unfolding P_def by (rule padded_whole) (rule random(3))
  have "\<And>b. length b = 16 \<Longrightarrow> length (aes_Encrypt cr key b) = 16 \<and> aes_Decrypt cr key (aes_Encrypt cr key b) = b"
    using crypto_lawsD(4) [OF laws] random(1) by (simp add: block_laws_def)
  from cbc_roundtrip [OF this random(2) w]
  have cbc: "length c = length P" "cbc_decrypt (aes_Decrypt cr key) iv c = P" by (simp_all add: c_def)
  have "EncryptFile cr so key pad iv rnd f pk = Inr ?ef"
    using w oaep(1) P_def c_def by (simp add: EncryptFile_def CryptBlocks_def Let_def AESBlock_def flip: p_def)
  moreover have dec: "DecryptFile cr so (?ef\<lparr>ef_PlainTextLength := n\<rparr>) sk =
      (if n < 0 \<or> n > int (length (ef_EncryptedData ?ef)) - 16 then Inl SliceOutOfRange else Inr (sf_Decode so (take (nat n) P)))" for n
    using w oaep(2) random(1,2) cbc
    by (simp add: DecryptFile_def CryptBlocks_def AESBlock_def aes_key_ok_def Let_def go_slice_def nat_le_iff)
  moreover have "DecryptFile cr so ?ef sk = Inr (Some f)"
  proof -
    have "take (length p) P = p" "length p \<le> length P" by (simp_all add: P_def)
    with dec [of "int (length p)"] codec random(2) cbc(1) show ?thesis by (simp flip: p_def)
  qed
  ultimately show ?thesis by (intro exI [of _ ?ef]) simp
qed

definition toy_secure :: SecureOps where
  "toy_secure = \<lparr>rsa_SignPKCS1v15 = (\<lambda>rnd key h. Some (key @ h)), rsa_VerifyPKCS1v15 = (\<lambda>key h s. s = key @ h),
     rsa_EncryptOAEP = (\<lambda>rnd key m. Some (m @ key)), rsa_DecryptOAEP = (\<lambda>key c. Some (take (length c - length key) c)),
     sf_Encode = (\<lambda>f. of_nat (length (sf_Data f)) # sf_Data f @ sf_Signature f),
     sf_Decode = (\<lambda>b. case b of [] \<Rightarrow> None | n # r \<Rightarrow> Some \<lparr>sf_Data = take (unat n) r, sf_Signature = drop (unat n) r\<rparr>)\<rparr>"

theorem DecryptFile_EncryptFile_witness:
  "let f = fst (SignData toy_crypto toy_secure [] [1, 2, 3] [9])
   in \<exists>ef. EncryptFile toy_crypto toy_secure (replicate 32 5) (\<lambda>n. replicate n 0) (replicate 16 6) [] f [8] = Inr ef \<and>
      DecryptFile toy_crypto toy_secure ef [8] = Inr (Some f) \<and>
      DecryptFile toy_crypto toy_secure (ef\<lparr>ef_PlainTextLength := - 1\<rparr>) [8] = Inl SliceOutOfRange"
proof -
  let ?f = "fst (SignData toy_crypto toy_secure [] [1, 2, 3] [9])"
  have "\<exists>ef. EncryptFile toy_crypto toy_secure (replicate 32 5) (\<lambda>n. replicate n 0) (replicate 16 6) [] ?f [8] = Inr ef \<and>
      DecryptFile toy_crypto toy_secure ef [8] = Inr (Some ?f) \<and>
      (\<forall>n. n < 0 \<or> n > int (length (ef_EncryptedData ef)) - 16 \<longrightarrow>
         DecryptFile toy_crypto toy_secure (ef\<lparr>ef_PlainTextLength := n\<rparr>) [8] = Inl SliceOutOfRange)"
    by (rule DecryptFile_EncryptFile [OF toy_laws, where ek = "replicate 32 5 @ [8]"]) (simp_all add: toy_secure_def SignData_def)
  then show ?thesis by (auto simp: Let_def)
qed

end
