(* ===== verification/Lookup.thy ===== *)
theory Lookup
  imports Packets "HOL-Library.Multiset"
begin

text \<open>
  The iterative lookups of the distributed store (\<open>src/storage/lookup.go\<close>). The entries a lookup has learned are shared
  by pointer between \<open>entryList\<close> and \<open>entryMap\<close>, so they live in a heap, a list indexed by their addresses. The network
  is the argument \<open>rep\<close>: its \<open>n\<close>-th value is the answer to the \<open>n\<close>-th receive of the lookup, \<open>None\<close> for a
  time-out. The rounds that contact several nodes at once are total; the final phase is a partial function, and
  \<open>NodeLookUp_returns\<close> shows that it ends whenever the answers carry identifiers of the proper length.
\<close>

section \<open>State\<close>

record DistEntryPair =
  de_dist :: bytes
  de_entry :: RoutingEntry
  de_contacted :: bool
  de_responded :: bool

record Look =
  lk_heap :: "DistEntryPair list"
  lk_list :: "nat list"
  lk_map :: "string \<rightharpoonup> nat"
  lk_n :: nat

type_synonym replies = "nat \<Rightarrow> DStoreMessage option"

definition new_entry :: "bytes \<Rightarrow> RoutingEntry \<Rightarrow> DistEntryPair" where
  "new_entry target re = \<lparr>de_dist = XorDistance target (ID re), de_entry = re, de_contacted = False, de_responded = False\<rparr>"

definition add_entry :: "bytes \<Rightarrow> RoutingEntry \<Rightarrow> Look \<Rightarrow> Look" where
  "add_entry target re lk =
     (let p = length (lk_heap lk)
      in lk\<lparr>lk_heap := lk_heap lk @ [new_entry target re], lk_list := lk_list lk @ [p],
            lk_map := (lk_map lk)(EncodeToString (ID re) \<mapsto> p)\<rparr>)"

definition sort_look :: "Look \<Rightarrow> Look" where
  "sort_look lk =
     lk\<lparr>lk_list := sort_Slice (\<lambda>i j. Compare (de_dist (lk_heap lk ! i)) (de_dist (lk_heap lk ! j)) < 0) (lk_list lk)\<rparr>"

definition look_init :: "bytes \<Rightarrow> RoutingEntry list \<Rightarrow> Look" where
  "look_init target ns =
     sort_look (foldl (\<lambda>lk n. add_entry target n lk) \<lparr>lk_heap = [], lk_list = [], lk_map = Map.empty, lk_n = 0\<rparr> ns)"

section \<open>Rounds that contact several nodes\<close>

text \<open>Marks the first uncontacted entries of the list, at most \<open>alpha\<close>, as contacted; returns how many.\<close>

fun contact_loop :: "nat \<Rightarrow> DistEntryPair list \<Rightarrow> nat list \<Rightarrow> DistEntryPair list \<times> nat" where
  "contact_loop alpha heap [] = (heap, 0)"
| "contact_loop alpha heap (p # ps) =
     (if alpha = 0 then (heap, 0)
      else if de_contacted (heap ! p) then contact_loop alpha heap ps
      else case contact_loop (alpha - 1) (heap[p := (heap ! p)\<lparr>de_contacted := True\<rparr>]) ps of
             (heap', j) \<Rightarrow> (heap', j + 1))"

text \<open>A node named in a reply; \<open>updated\<close> becomes true when it may be among the \<open>k\<close> closest.\<close>

definition learn :: "nat \<Rightarrow> bytes \<Rightarrow> bool \<times> Look \<Rightarrow> RoutingEntry \<Rightarrow> (bool \<times> Look) go" where
  "learn k target st re =
     (case st of (updated, lk) \<Rightarrow>
        if lk_map lk (EncodeToString (ID re)) = None then
          go_bind (if length (lk_list lk) < k then Inr True
                   else if k = 0 then Inl IndexOutOfRange
                   else Inr (Compare (XorDistance target (ID re)) (de_dist (lk_heap lk ! (lk_list lk ! (k - 1)))) < 0)) (\<lambda>closer.
            Inr (updated \<or> closer, add_entry target re lk))
        else Inr (updated, lk))"

definition set_responded :: "nat \<Rightarrow> Look \<Rightarrow> Look" where
  "set_responded p lk = lk\<lparr>lk_heap := (lk_heap lk)[p := (lk_heap lk ! p)\<lparr>de_responded := True\<rparr>]\<rparr>"

text \<open>One received answer of \<open>NodeLookUp\<close>; the answer consumed is the one the state points at.\<close>

definition receive_node :: "nat \<Rightarrow> bytes \<Rightarrow> replies \<Rightarrow> bool \<times> Look \<Rightarrow> (bool \<times> Look) go" where
  "receive_node k target rep st =
     (case st of (updated, lk0) \<Rightarrow>
        let lk = lk0\<lparr>lk_n := Suc (lk_n lk0)\<rparr> in
        case rep (lk_n lk0) of
          None \<Rightarrow> Inr (updated, lk)
        | Some msg \<Rightarrow>
            (case lk_map lk (EncodeToString (ds_SourceID msg)) of
               None \<Rightarrow> Inr (updated, lk)
             | Some p \<Rightarrow>
                 go_bind (go_deref (ds_FindNodeReply msg)) (\<lambda>r.
                   go_foldM (learn k target) (updated, set_responded p lk) (fnr_Nodes r))))"

fun receive_loop :: "(bool \<times> Look \<Rightarrow> (bool \<times> Look) go) \<Rightarrow> nat \<Rightarrow> bool \<times> Look \<Rightarrow> (bool \<times> Look) go" where
  "receive_loop receive 0 st = Inr st"
| "receive_loop receive (Suc j) st = go_bind (receive st) (\<lambda>st'. receive_loop receive j st')"

definition look_round :: "nat \<Rightarrow> nat \<Rightarrow> bytes \<Rightarrow> replies \<Rightarrow> Look \<Rightarrow> (bool \<times> Look) go" where
  "look_round k alpha target rep lk =
     (case contact_loop alpha (lk_heap lk) (lk_list lk) of (heap, j) \<Rightarrow>
        go_bind (receive_loop (receive_node k target rep) j (False, lk\<lparr>lk_heap := heap\<rparr>)) (\<lambda>(updated, lk').
          Inr (updated, sort_look lk')))"

text \<open>
  Why the rounds end: a round that sets \<open>updated\<close> has learned a node while the list had fewer than \<open>k\<close> entries, or
  a node with an identifier of 8 bytes never seen before, of which there are finitely many.
\<close>

definition ids8 :: "string set" where
  "ids8 = EncodeToString ` {bs. length bs = DStoreIDSize}"

definition unknown :: "Look \<Rightarrow> nat" where
  "unknown lk = card {s \<in> ids8. lk_map lk s = None}"

lemma finite_ids8: "finite ids8"
proof -
  have "finite {bs :: bytes. set bs \<subseteq> UNIV \<and> length bs = DStoreIDSize}" by (rule finite_lists_length_eq) simp
  then show ?thesis by (simp add: ids8_def)
qed

definition rounds_left :: "nat \<Rightarrow> Look \<Rightarrow> nat" where
  "rounds_left k lk = unknown lk + (k - length (lk_list lk))"

lemma unknown_add:
  "lk_map lk (EncodeToString (ID re)) = None \<Longrightarrow>
   unknown (add_entry target re lk) = unknown lk - (if length (ID re) = DStoreIDSize then 1 else 0)"
proof -
  assume new: "lk_map lk (EncodeToString (ID re)) = None"
  have *: "{s \<in> ids8. lk_map (add_entry target re lk) s = None} = {s \<in> ids8. lk_map lk s = None} - {EncodeToString (ID re)}"
    by (auto simp: add_entry_def Let_def)
  have "EncodeToString (ID re) \<in> ids8 \<longleftrightarrow> length (ID re) = DStoreIDSize"
    by (auto simp: ids8_def EncodeToString_inj)
  with new show ?thesis unfolding unknown_def * by (simp add: card_Diff_singleton_if)
qed

lemma unknown_pos: "length (ID re) = DStoreIDSize \<Longrightarrow> lk_map lk (EncodeToString (ID re)) = None \<Longrightarrow> 0 < unknown lk"
  using finite_ids8 by (auto simp: unknown_def card_gt_0_iff ids8_def)

lemma Compare_nil: "length a \<noteq> DStoreIDSize \<Longrightarrow> \<not> Compare (XorDistance t a) d < 0"
  by (cases d) (auto simp: XorDistance_def Compare_def)

lemma learn_measure:
  assumes "learn k target (u, lk) re = Inr (u', lk')"
  shows "rounds_left k lk' \<le> rounds_left k lk \<and> (u' \<and> \<not> u \<longrightarrow> rounds_left k lk' < rounds_left k lk)"
proof (cases "lk_map lk (EncodeToString (ID re)) = None")
  case False
  with assms show ?thesis by (auto simp: learn_def)
next
  case True
  with assms have lk': "lk' = add_entry target re lk" by (auto simp: learn_def go_bind_eq_Inr)
  have len: "length (lk_list lk') = Suc (length (lk_list lk))" by (simp add: lk' add_entry_def Let_def)
  note un = unknown_add [OF True, of target, folded lk']
  have "u' \<Longrightarrow> \<not> u \<Longrightarrow> length (lk_list lk) < k \<or> length (ID re) = DStoreIDSize"
    using assms True Compare_nil [of "ID re" target] by (auto simp: learn_def go_bind_eq_Inr split: if_splits)
  with un len unknown_pos [OF _ True] show ?thesis by (auto simp: rounds_left_def)
qed

lemma learn_list_measure:
  "go_foldM (learn k target) (u, lk) ns = Inr (u', lk') \<Longrightarrow>
   rounds_left k lk' \<le> rounds_left k lk \<and> (u' \<and> \<not> u \<longrightarrow> rounds_left k lk' < rounds_left k lk)"
proof (induction ns arbitrary: u lk)
  case Nil
  then show ?case by simp
next
  case (Cons n ns)
  then obtain u1 lk1 where 1: "learn k target (u, lk) n = Inr (u1, lk1)" "go_foldM (learn k target) (u1, lk1) ns = Inr (u', lk')"
    by (auto simp: go_bind_eq_Inr)
  from learn_measure [OF 1(1)] Cons.IH [OF 1(2)] show ?case by auto
qed

lemma rounds_left_simps [simp]:
  "rounds_left k (lk\<lparr>lk_heap := h\<rparr>) = rounds_left k lk" "rounds_left k (lk\<lparr>lk_n := n\<rparr>) = rounds_left k lk"
  "rounds_left k (set_responded p lk) = rounds_left k lk"
  by (simp_all add: rounds_left_def unknown_def set_responded_def)

lemma receive_node_measure:
  "receive_node k target rep (u, lk) = Inr (u', lk') \<Longrightarrow>
   rounds_left k lk' \<le> rounds_left k lk \<and> (u' \<and> \<not> u \<longrightarrow> rounds_left k lk' < rounds_left k lk)"
  by (auto simp: receive_node_def go_bind_eq_Inr Let_def dest!: learn_list_measure split: option.splits)

lemma receive_loop_measure:
  assumes step: "\<And>u lk u' lk'. receive (u, lk) = Inr (u', lk') \<Longrightarrow>
     rounds_left k lk' \<le> rounds_left k lk \<and> (u' \<and> \<not> u \<longrightarrow> rounds_left k lk' < rounds_left k lk)"
  shows "receive_loop receive j (u, lk) = Inr (u', lk') \<Longrightarrow>
   rounds_left k lk' \<le> rounds_left k lk \<and> (u' \<and> \<not> u \<longrightarrow> rounds_left k lk' < rounds_left k lk)"
proof (induction j arbitrary: u lk)
  case 0
  then show ?case by simp
next
  case (Suc j)
  then obtain u1 lk1 where 1: "receive (u, lk) = Inr (u1, lk1)" "receive_loop receive j (u1, lk1) = Inr (u', lk')"
    by (auto simp: go_bind_eq_Inr)
  from step [OF 1(1)] Suc.IH [OF 1(2)] show ?case by auto
qed

lemma length_insert_by [simp]: "length (insert_by f x xs) = Suc (length xs)"
  by (induction xs) simp_all

lemma length_sort_Slice [simp]: "length (sort_Slice f xs) = length xs"
  by (induction xs) (simp_all add: sort_Slice_def)

lemma rounds_left_sort [simp]: "rounds_left k (sort_look lk) = rounds_left k lk"
  by (simp add: rounds_left_def unknown_def sort_look_def)

lemma look_round_measure:
  "look_round k alpha target rep lk = Inr (True, lk') \<Longrightarrow> rounds_left k lk' < rounds_left k lk"
  using receive_loop_measure [OF receive_node_measure]
  by (fastforce simp: look_round_def go_bind_eq_Inr split: prod.splits)

function look_outer :: "nat \<Rightarrow> nat \<Rightarrow> bytes \<Rightarrow> replies \<Rightarrow> Look \<Rightarrow> Look go" where
  "look_outer k alpha target rep lk =
     (case look_round k alpha target rep lk of
        Inl e \<Rightarrow> Inl e
      | Inr (updated, lk') \<Rightarrow> if updated then look_outer k alpha target rep lk' else Inr lk')"
  by auto
termination
  by (relation "measure (\<lambda>(k, alpha, target, rep, lk). rounds_left k lk)") (auto simp: look_round_measure)

declare look_outer.simps [simp del]


section \<open>The final phase\<close>

definition settled :: "Look \<Rightarrow> nat \<Rightarrow> bool" where
  "settled lk p \<longleftrightarrow> de_contacted (lk_heap lk ! p) \<and> de_responded (lk_heap lk ! p)"

definition find_pending :: "nat \<Rightarrow> Look \<Rightarrow> nat option" where
  "find_pending k lk = find (\<lambda>p. \<not> settled lk p) (take k (lk_list lk))"

definition set_contacted :: "nat \<Rightarrow> Look \<Rightarrow> Look" where
  "set_contacted p lk =
     lk\<lparr>lk_heap := (lk_heap lk)[p := (lk_heap lk ! p)\<lparr>de_contacted := True\<rparr>], lk_n := Suc (lk_n lk)\<rparr>"

definition learn_all :: "bytes \<Rightarrow> Look \<Rightarrow> RoutingEntry list \<Rightarrow> Look" where
  "learn_all target lk ns =
     foldl (\<lambda>lk re. if lk_map lk (EncodeToString (ID re)) = None then add_entry target re lk else lk) lk ns"

text \<open>
  A node among the \<open>k\<close> closest that has not answered: it is dropped if it was contacted before, and contacted
  otherwise.
\<close>

definition pending_step :: "bytes \<Rightarrow> replies \<Rightarrow> Look \<Rightarrow> nat \<Rightarrow> Look go" where
  "pending_step target rep lk p =
     (if de_contacted (lk_heap lk ! p) then Inr (lk\<lparr>lk_list := remove1 p (lk_list lk)\<rparr>)
      else
        let lk1 = set_contacted p lk in
        case rep (lk_n lk) of
          None \<Rightarrow> Inr lk1
        | Some msg \<Rightarrow>
            go_bind (go_deref (ds_FindNodeReply msg)) (\<lambda>r. Inr (learn_all target (set_responded p lk1) (fnr_Nodes r))))"

partial_function (option) look_final :: "nat \<Rightarrow> bytes \<Rightarrow> replies \<Rightarrow> Look \<Rightarrow> Look go option" where
  "look_final k target rep lk =
     (case find_pending k lk of
        None \<Rightarrow> Some (Inr lk)
      | Some p \<Rightarrow>
          (case pending_step target rep lk p of
             Inl e \<Rightarrow> Some (Inl e)
           | Inr lk' \<Rightarrow> look_final k target rep (sort_look lk')))"

definition look_nodes :: "nat \<Rightarrow> nat \<Rightarrow> bytes \<Rightarrow> replies \<Rightarrow> RoutingEntry list \<Rightarrow> Look go option" where
  "look_nodes k alpha target rep ns =
     (case look_outer k alpha target rep (look_init target ns) of
        Inl e \<Rightarrow> Some (Inl e)
      | Inr lk \<Rightarrow> look_final k target rep lk)"

definition look_result :: "nat \<Rightarrow> Look \<Rightarrow> RoutingEntry list" where
  "look_result k lk = map (\<lambda>p. de_entry (lk_heap lk ! p)) (take k (lk_list lk))"

text \<open>\<open>k\<close> is the replication parameter and \<open>alpha\<close> the concurrency parameter.\<close>

definition NodeLookUp :: "RTable \<Rightarrow> nat \<Rightarrow> nat \<Rightarrow> replies \<Rightarrow> bytes \<Rightarrow> RoutingEntry list go option" where
  "NodeLookUp rt k alpha rep target =
     (if length target \<noteq> DStoreIDSize then Some (Inr [])
      else Option.bind (FindKClosest rt target k) (\<lambda>ns.
           Option.bind (look_nodes k alpha target rep ns) (\<lambda>r.
             Some (go_bind r (\<lambda>lk. Inr (look_result k lk))))))"

section \<open>Invariant\<close>

definition lk_ok :: "bytes \<Rightarrow> Look \<Rightarrow> bool" where
  "lk_ok target lk \<longleftrightarrow> valid_id target \<and> distinct (lk_list lk) \<and> set (lk_list lk) \<subseteq> {..<length (lk_heap lk)} \<and>
     (\<forall>p < length (lk_heap lk). valid_id (ID (de_entry (lk_heap lk ! p))) \<and>
        de_dist (lk_heap lk ! p) = XorDistance target (ID (de_entry (lk_heap lk ! p))) \<and>
        lk_map lk (EncodeToString (ID (de_entry (lk_heap lk ! p)))) = Some p) \<and>
     (\<forall>s p. lk_map lk s = Some p \<longrightarrow> p < length (lk_heap lk)) \<and>
     (\<forall>p < length (lk_heap lk). p \<notin> set (lk_list lk) \<longrightarrow>
        de_contacted (lk_heap lk ! p) \<and> \<not> de_responded (lk_heap lk ! p))"

definition lk_full :: "Look \<Rightarrow> bool" where
  "lk_full lk \<longleftrightarrow> set (lk_list lk) = {..<length (lk_heap lk)}"

definition wf_replies :: "replies \<Rightarrow> bool" where
  "wf_replies rep \<longleftrightarrow> (\<forall>n m r. rep n = Some m \<and> ds_FindNodeReply m = Some r \<longrightarrow> (\<forall>e \<in> set (fnr_Nodes r). valid_id (ID e)))"

lemma add_entry_ok:
  assumes "lk_ok target lk" "valid_id (ID re)" "lk_map lk (EncodeToString (ID re)) = None"
  shows "lk_ok target (add_entry target re lk) \<and> (lk_full lk \<longrightarrow> lk_full (add_entry target re lk))"
proof -
  have "EncodeToString (ID (de_entry (lk_heap lk ! p))) \<noteq> EncodeToString (ID re)" if "p < length (lk_heap lk)" for p
    using assms(1,3) that unfolding lk_ok_def by (metis option.distinct(1))
  moreover have "length (lk_heap lk) \<notin> set (lk_list lk)" using assms(1) by (auto simp: lk_ok_def)
  ultimately show ?thesis
    using assms unfolding lk_ok_def lk_full_def
    by (auto simp: add_entry_def new_entry_def Let_def nth_append less_Suc_eq EncodeToString_inj intro: less_SucI)
qed

lemma heap_update_ok:
  assumes "lk_ok target lk" "p \<in> set (lk_list lk)"
    "de_entry d = de_entry (lk_heap lk ! p)" "de_dist d = de_dist (lk_heap lk ! p)"
  shows "lk_ok target (lk\<lparr>lk_heap := (lk_heap lk)[p := d]\<rparr>)"
proof -
  have "p < length (lk_heap lk)" using assms(1,2) by (auto simp: lk_ok_def)
  then have "(lk_heap lk)[p := d] ! q = (if q = p then d else lk_heap lk ! q)" for q by (simp add: nth_list_update)
  with assms show ?thesis unfolding lk_ok_def by auto
qed

lemma lk_n_ok [simp]: "lk_ok target (lk\<lparr>lk_n := n\<rparr>) = lk_ok target lk" "lk_full (lk\<lparr>lk_n := n\<rparr>) = lk_full lk"
  by (simp_all add: lk_ok_def lk_full_def)

lemma learn_ok:
  assumes "learn k target (u, lk) re = Inr (u', lk')" "lk_ok target lk" "lk_full lk" "valid_id (ID re)"
  shows "lk_ok target lk' \<and> lk_full lk'"
  using assms add_entry_ok [of target lk re] by (auto simp: learn_def go_bind_eq_Inr split: if_splits)

lemma learn_list_ok:
  "go_foldM (learn k target) (u, lk) ns = Inr (u', lk') \<Longrightarrow> lk_ok target lk \<Longrightarrow> lk_full lk \<Longrightarrow> \<forall>e \<in> set ns. valid_id (ID e) \<Longrightarrow>
   lk_ok target lk' \<and> lk_full lk'"
proof (induction ns arbitrary: u lk)
  case Nil
  then show ?case by simp
next
  case (Cons n ns)
  then obtain u1 lk1 where 1: "learn k target (u, lk) n = Inr (u1, lk1)" "go_foldM (learn k target) (u1, lk1) ns = Inr (u', lk')"
    by (auto simp: go_bind_eq_Inr)
  from learn_ok [OF 1(1)] Cons.prems have "lk_ok target lk1 \<and> lk_full lk1" by simp
  with Cons.IH [OF 1(2)] Cons.prems show ?case by simp
qed

lemma receive_node_ok:
  assumes r: "receive_node k target rep (u, lk) = Inr (u', lk')" and ok: "lk_ok target lk" "lk_full lk" and wf: "wf_replies rep"
  shows "lk_ok target lk' \<and> lk_full lk'"
proof -
  let ?lk = "lk\<lparr>lk_n := Suc (lk_n lk)\<rparr>"
  show ?thesis
  proof (cases "rep (lk_n lk) = None \<or> (\<exists>msg. rep (lk_n lk) = Some msg \<and> lk_map lk (EncodeToString (ds_SourceID msg)) = None)")
    case True
    with r have "lk' = ?lk" by (auto simp: receive_node_def)
    with ok show ?thesis by simp
  next
    case False
    then obtain msg p where 1: "rep (lk_n lk) = Some msg" "lk_map lk (EncodeToString (ds_SourceID msg)) = Some p" by auto
    with r obtain fr where "ds_FindNodeReply msg = Some fr" "go_foldM (learn k target) (u, set_responded p ?lk) (fnr_Nodes fr) = Inr (u', lk')"
      by (simp add: receive_node_def go_bind_eq_Inr) blast
    note 2 = 1 this
    have "p < length (lk_heap lk)" using ok(1) 2(2) unfolding lk_ok_def by blast
    then have "p \<in> set (lk_list lk)" using ok(2) by (simp add: lk_full_def)
    then have "lk_ok target (set_responded p ?lk)"
      unfolding set_responded_def using ok(1) by (intro heap_update_ok) simp_all
    moreover have "lk_full (set_responded p ?lk)" using ok(2) by (simp add: set_responded_def lk_full_def)
    moreover have "\<forall>e \<in> set (fnr_Nodes fr). valid_id (ID e)" using wf 2 unfolding wf_replies_def by blast
    ultimately show ?thesis using learn_list_ok [OF 2(4)] by blast
  qed
qed

lemma receive_loop_ok:
  assumes wf: "wf_replies rep"
  shows "receive_loop (receive_node k target rep) j (u, lk) = Inr (u', lk') \<Longrightarrow> lk_ok target lk \<Longrightarrow> lk_full lk \<Longrightarrow>
    lk_ok target lk' \<and> lk_full lk'"
proof (induction j arbitrary: u lk)
  case 0
  then show ?case by simp
next
  case (Suc j)
  then obtain u1 lk1 where 1: "receive_node k target rep (u, lk) = Inr (u1, lk1)"
    "receive_loop (receive_node k target rep) j (u1, lk1) = Inr (u', lk')" by (auto simp: go_bind_eq_Inr)
  from receive_node_ok [OF 1(1) _ _ wf] Suc.IH [OF 1(2)] Suc.prems show ?case by blast
qed

text \<open>Contacting changes only the flag of listed entries.\<close>

lemma contact_loop_spec:
  "contact_loop alpha heap ps = (heap', j) \<Longrightarrow>
   length heap' = length heap \<and> (\<forall>p < length heap. de_entry (heap' ! p) = de_entry (heap ! p) \<and> de_dist (heap' ! p) = de_dist (heap ! p) \<and>
     de_responded (heap' ! p) = de_responded (heap ! p) \<and> (de_contacted (heap ! p) \<longrightarrow> de_contacted (heap' ! p)))"
proof (induction ps arbitrary: alpha heap j)
  case Nil
  then show ?case by simp
next
  case (Cons p ps)
  show ?case
  proof (cases "alpha = 0 \<or> de_contacted (heap ! p)")
    case True
    with Cons show ?thesis by (auto split: if_splits)
  next
    case False
    let ?h = "heap[p := (heap ! p)\<lparr>de_contacted := True\<rparr>]"
    obtain j' where "contact_loop (alpha - 1) ?h ps = (heap', j')"
      using Cons.prems False by (auto split: prod.splits)
    note ih = Cons.IH [OF this]
    have "de_entry (?h ! q) = de_entry (heap ! q) \<and> de_dist (?h ! q) = de_dist (heap ! q) \<and>
        de_responded (?h ! q) = de_responded (heap ! q) \<and> (de_contacted (heap ! q) \<longrightarrow> de_contacted (?h ! q))" for q
      by (cases "p < length heap"; cases "q = p") (simp_all add: nth_list_update list_update_beyond)
    with ih show ?thesis by simp
  qed
qed

lemma contact_ok:
  assumes "contact_loop alpha (lk_heap lk) (lk_list lk) = (heap, j)" "lk_ok target lk" "lk_full lk"
  shows "lk_ok target (lk\<lparr>lk_heap := heap\<rparr>) \<and> lk_full (lk\<lparr>lk_heap := heap\<rparr>)"
  using contact_loop_spec [OF assms(1)] assms(2,3) unfolding lk_ok_def lk_full_def by auto

lemma distinct_sort_Slice: "distinct (sort_Slice f xs) = distinct xs"
proof -
  have "mset (insert_by f x xs) = add_mset x (mset xs)" for x xs by (induction xs) auto
  then have "mset (sort_Slice f xs) = mset xs" by (induction xs) (simp_all add: sort_Slice_def)
  then show ?thesis by (rule mset_eq_imp_distinct_iff)
qed

lemma sort_look_ok: "lk_ok target lk \<Longrightarrow> lk_ok target (sort_look lk)" "lk_full lk \<Longrightarrow> lk_full (sort_look lk)"
  by (simp_all add: lk_ok_def lk_full_def sort_look_def distinct_sort_Slice set_sort_Slice)

lemma look_round_ok:
  assumes "look_round k alpha target rep lk = Inr (u, lk')" "lk_ok target lk" "lk_full lk" "wf_replies rep"
  shows "lk_ok target lk' \<and> lk_full lk'"
proof -
  obtain heap j where c: "contact_loop alpha (lk_heap lk) (lk_list lk) = (heap, j)" by (cases "contact_loop alpha (lk_heap lk) (lk_list lk)")
  with assms(1) obtain lk1 where 1: "receive_loop (receive_node k target rep) j (False, lk\<lparr>lk_heap := heap\<rparr>) = Inr (u, lk1)" "lk' = sort_look lk1"
    by (auto simp: look_round_def go_bind_eq_Inr)
  from receive_loop_ok [OF assms(4) 1(1)] contact_ok [OF c assms(2,3)] have "lk_ok target lk1 \<and> lk_full lk1" by blast
  with 1(2) sort_look_ok show ?thesis by blast
qed

lemma look_outer_ok:
  "look_outer k alpha target rep lk = Inr lk' \<Longrightarrow> lk_ok target lk \<Longrightarrow> lk_full lk \<Longrightarrow> wf_replies rep \<Longrightarrow> lk_ok target lk' \<and> lk_full lk'"
proof (induction k alpha target rep lk rule: look_outer.induct)
  case (1 k alpha target rep lk)
  from 1(2) obtain u lk1 where r: "look_round k alpha target rep lk = Inr (u, lk1)"
    by (subst (asm) look_outer.simps) (auto split: sum.splits)
  note ok = look_round_ok [OF r 1(3-5)]
  show ?case
  proof (cases u)
    case True
    with 1(2) r have "look_outer k alpha target rep lk1 = Inr lk'" by (subst (asm) look_outer.simps) simp
    with 1(1) [OF r] ok 1(5) True show ?thesis by blast
  next
    case False
    with 1(2) r have "lk1 = lk'" by (subst (asm) look_outer.simps) simp
    with ok show ?thesis by simp
  qed
qed


section \<open>The final phase ends\<close>

definition final_left :: "Look \<Rightarrow> nat" where
  "final_left lk = 3 * unknown lk + 2 * card {p \<in> set (lk_list lk). \<not> de_contacted (lk_heap lk ! p)} + length (lk_list lk)"

lemma add_entry_final_left:
  assumes ok: "lk_ok target lk" and v: "valid_id (ID re)" and new: "lk_map lk (EncodeToString (ID re)) = None"
  shows "final_left (add_entry target re lk) = final_left lk"
proof -
  let ?n = "length (lk_heap lk)"
  have n: "?n \<notin> set (lk_list lk)" and sub: "\<And>p. p \<in> set (lk_list lk) \<Longrightarrow> p < ?n" using ok by (auto simp: lk_ok_def)
  have "{p \<in> set (lk_list (add_entry target re lk)). \<not> de_contacted (lk_heap (add_entry target re lk) ! p)} =
      insert ?n {p \<in> set (lk_list lk). \<not> de_contacted (lk_heap lk ! p)}"
    using sub by (auto simp: add_entry_def new_entry_def Let_def nth_append)
  moreover have "length (lk_list (add_entry target re lk)) = Suc (length (lk_list lk))" by (simp add: add_entry_def Let_def)
  moreover have "unknown (add_entry target re lk) = unknown lk - 1" "0 < unknown lk"
    using unknown_add [OF new, of target] unknown_pos [OF v new] v by simp_all
  ultimately show ?thesis using n by (simp add: final_left_def)
qed

lemma learn_all_ok:
  "lk_ok target lk \<Longrightarrow> \<forall>e \<in> set ns. valid_id (ID e) \<Longrightarrow>
   lk_ok target (learn_all target lk ns) \<and> final_left (learn_all target lk ns) = final_left lk"
proof (induction ns arbitrary: lk)
  case Nil
  then show ?case by (simp add: learn_all_def)
next
  case (Cons n ns)
  let ?lk = "if lk_map lk (EncodeToString (ID n)) = None then add_entry target n lk else lk"
  have "lk_ok target ?lk" "final_left ?lk = final_left lk"
    using Cons.prems add_entry_ok [of target lk n] add_entry_final_left [of target lk n] by simp_all
  with Cons.IH [of ?lk] Cons.prems show ?case by (simp add: learn_all_def)
qed

lemma set_responded_left: "p < length (lk_heap lk) \<Longrightarrow> final_left (set_responded p lk) = final_left lk"
proof -
  assume "p < length (lk_heap lk)"
  then have "de_contacted (lk_heap (set_responded p lk) ! q) = de_contacted (lk_heap lk ! q)" for q
    by (simp add: set_responded_def nth_list_update)
  then show ?thesis by (simp add: final_left_def unknown_def) (simp add: set_responded_def)
qed

lemma set_contacted_left:
  assumes "p \<in> set (lk_list lk)" "p < length (lk_heap lk)" "\<not> de_contacted (lk_heap lk ! p)"
  shows "final_left (set_contacted p lk) < final_left lk"
proof -
  have "{q \<in> set (lk_list lk). \<not> de_contacted (lk_heap (set_contacted p lk) ! q)} =
      {q \<in> set (lk_list lk). \<not> de_contacted (lk_heap lk ! q)} - {p}"
    using assms(2) by (auto simp: set_contacted_def nth_list_update)
  moreover have "p \<in> {q \<in> set (lk_list lk). \<not> de_contacted (lk_heap lk ! q)}" using assms by simp
  then have "card ({q \<in> set (lk_list lk). \<not> de_contacted (lk_heap lk ! q)} - {p}) < card {q \<in> set (lk_list lk). \<not> de_contacted (lk_heap lk ! q)}"
    by (intro psubset_card_mono) auto
  moreover have "unknown (set_contacted p lk) = unknown lk" "lk_list (set_contacted p lk) = lk_list lk"
    by (simp_all add: unknown_def set_contacted_def)
  ultimately show ?thesis by (simp add: final_left_def)
qed

lemma find_pending_Some:
  "find_pending k lk = Some p \<Longrightarrow> p \<in> set (lk_list lk) \<and> \<not> settled lk p"
  unfolding find_pending_def find_Some_iff by (auto dest: in_set_takeD [OF nth_mem])

lemma find_pending_None: "find_pending k lk = None \<longleftrightarrow> (\<forall>p \<in> set (take k (lk_list lk)). settled lk p)"
  unfolding find_pending_def find_None_iff by auto

lemma pending_step_ok:
  assumes ok: "lk_ok target lk" and p: "p \<in> set (lk_list lk)" "\<not> settled lk p" and wf: "wf_replies rep"
    and st: "pending_step target rep lk p = Inr lk'"
  shows "lk_ok target lk' \<and> final_left lk' < final_left lk"
proof (cases "de_contacted (lk_heap lk ! p)")
  case True
  then have lk': "lk' = lk\<lparr>lk_list := remove1 p (lk_list lk)\<rparr>" using st by (simp add: pending_step_def)
  have d: "distinct (lk_list lk)" using ok by (simp add: lk_ok_def)
  then have s: "set (remove1 p (lk_list lk)) = set (lk_list lk) - {p}" by simp
  have "\<not> de_responded (lk_heap lk ! p)" using p(2) True by (simp add: settled_def)
  with ok True have "lk_ok target lk'" unfolding lk_ok_def lk' by (auto simp: d)
  moreover have "{q \<in> set (remove1 p (lk_list lk)). \<not> de_contacted (lk_heap lk ! q)} = {q \<in> set (lk_list lk). \<not> de_contacted (lk_heap lk ! q)}"
    using True s by auto
  moreover have "length (remove1 p (lk_list lk)) < length (lk_list lk)"
    using length_pos_if_in_set [OF p(1)] p(1) by (simp add: length_remove1)
  ultimately show ?thesis by (simp add: lk' final_left_def unknown_def)
next
  case False
  let ?lk1 = "set_contacted p lk"
  have pl: "p < length (lk_heap lk)" using ok p(1) by (auto simp: lk_ok_def)
  have "lk_ok target (lk\<lparr>lk_heap := (lk_heap lk)[p := (lk_heap lk ! p)\<lparr>de_contacted := True\<rparr>]\<rparr>)"
    by (rule heap_update_ok [OF ok p(1)]) simp_all
  from this [THEN lk_n_ok(1) [THEN iffD2], of "Suc (lk_n lk)"] have ok1: "lk_ok target ?lk1" by (simp add: set_contacted_def)
  have left: "final_left ?lk1 < final_left lk" by (rule set_contacted_left [OF p(1) pl False])
  have p1: "p \<in> set (lk_list ?lk1)" "p < length (lk_heap ?lk1)" using p(1) pl by (simp_all add: set_contacted_def)
  have ok2: "lk_ok target (set_responded p ?lk1)"
    unfolding set_responded_def by (rule heap_update_ok [OF ok1 p1(1)]) simp_all
  show ?thesis
  proof (cases "rep (lk_n lk)")
    case None
    then have "lk' = ?lk1" using st False by (simp add: pending_step_def)
    with ok1 left show ?thesis by simp
  next
    case (Some msg)
    then obtain r where r: "ds_FindNodeReply msg = Some r" "lk' = learn_all target (set_responded p ?lk1) (fnr_Nodes r)"
      using st False by (auto simp: pending_step_def go_bind_eq_Inr)
    have "\<forall>e \<in> set (fnr_Nodes r). valid_id (ID e)" using wf Some r(1) unfolding wf_replies_def by blast
    from learn_all_ok [OF ok2 this] r(2) left set_responded_left [OF p1(2)] show ?thesis by simp
  qed
qed

lemma final_left_sort: "final_left (sort_look lk) = final_left lk"
  by (simp add: final_left_def unknown_def sort_look_def set_sort_Slice)

lemma sort_look_sorted:
  assumes ok: "lk_ok target lk"
  shows "sorted (map (\<lambda>p. entry_dist target (de_entry (lk_heap lk ! p))) (lk_list (sort_look lk)))"
proof -
  let ?d = "\<lambda>p. le_val (de_dist (lk_heap lk ! p))"
  have "sort_Slice (\<lambda>i j. Compare (de_dist (lk_heap lk ! i)) (de_dist (lk_heap lk ! j)) < 0) (lk_list lk) = sort_key ?d (lk_list lk)"
  proof (rule sort_Slice_key)
    fix i j assume "i \<in> set (lk_list lk)" "j \<in> set (lk_list lk)"
    then have "length (de_dist (lk_heap lk ! i)) = length (de_dist (lk_heap lk ! j))"
      using ok unfolding lk_ok_def by (auto simp: length_XorDistance subset_iff)
    then show "Compare (de_dist (lk_heap lk ! i)) (de_dist (lk_heap lk ! j)) < 0 \<longleftrightarrow> ?d i < ?d j" by (rule Compare_less_iff)
  qed
  then have l: "lk_list (sort_look lk) = sort_key ?d (lk_list lk)" by (simp add: sort_look_def)
  have eq: "map (\<lambda>p. entry_dist target (de_entry (lk_heap lk ! p))) (sort_key ?d (lk_list lk)) = map ?d (sort_key ?d (lk_list lk))"
    using ok unfolding lk_ok_def by (intro map_cong refl) (auto simp: entry_dist_def xor_dist_def)
  show ?thesis unfolding l eq by (rule sorted_sort_key)
qed

definition look_sorted :: "bytes \<Rightarrow> Look \<Rightarrow> bool" where
  "look_sorted target lk \<longleftrightarrow> sorted (map (\<lambda>p. entry_dist target (de_entry (lk_heap lk ! p))) (lk_list lk))"

lemma look_sorted_sort: "lk_ok target lk \<Longrightarrow> look_sorted target (sort_look lk)"
proof -
  assume ok: "lk_ok target lk"
  have h: "lk_heap (sort_look lk) = lk_heap lk" by (simp add: sort_look_def)
  show ?thesis unfolding look_sorted_def h by (rule sort_look_sorted [OF ok])
qed

lemma look_final_total:
  "lk_ok target lk \<Longrightarrow> look_sorted target lk \<Longrightarrow> wf_replies rep \<Longrightarrow>
   \<exists>r. look_final k target rep lk = Some r \<and>
     (\<forall>lk'. r = Inr lk' \<longrightarrow> lk_ok target lk' \<and> look_sorted target lk' \<and> find_pending k lk' = None)"
proof (induction "final_left lk" arbitrary: lk rule: less_induct)
  case less
  show ?case
  proof (cases "find_pending k lk")
    case None
    with less.prems show ?thesis by (simp add: look_final.simps)
  next
    case (Some p)
    note p = find_pending_Some [OF Some]
    show ?thesis
    proof (cases "pending_step target rep lk p")
      case (Inl e)
      with Some show ?thesis by (simp add: look_final.simps)
    next
      case (Inr lk')
      have ok': "lk_ok target lk'" "final_left lk' < final_left lk"
        using pending_step_ok [OF less.prems(1) _ _ less.prems(3) Inr] p by blast+
      have "look_sorted target (sort_look lk')"
        by (rule look_sorted_sort [OF ok'(1)])
      with less.hyps [of "sort_look lk'"] ok' sort_look_ok(1) [OF ok'(1)] less.prems(3)
      have "\<exists>r. look_final k target rep (sort_look lk') = Some r \<and>
          (\<forall>lk'. r = Inr lk' \<longrightarrow> lk_ok target lk' \<and> look_sorted target lk' \<and> find_pending k lk' = None)"
        by (simp add: final_left_sort)
      with Some Inr show ?thesis by (subst look_final.simps) simp
    qed
  qed
qed

section \<open>The lookup\<close>

lemma look_init_fold_ok:
  "lk_ok target lk \<Longrightarrow> lk_full lk \<Longrightarrow> \<forall>e \<in> set ns. valid_id (ID e) \<and> lk_map lk (EncodeToString (ID e)) = None \<Longrightarrow> distinct (map ID ns) \<Longrightarrow>
   lk_ok target (foldl (\<lambda>lk n. add_entry target n lk) lk ns) \<and> lk_full (foldl (\<lambda>lk n. add_entry target n lk) lk ns)"
proof (induction ns arbitrary: lk)
  case Nil
  then show ?case by simp
next
  case (Cons n ns)
  have "lk_ok target (add_entry target n lk) \<and> lk_full (add_entry target n lk)"
    using Cons.prems add_entry_ok [of target lk n] by simp
  moreover have "lk_map (add_entry target n lk) (EncodeToString (ID e)) = None" if "e \<in> set ns" for e
  proof -
    have "ID n \<notin> ID ` set ns" using Cons.prems(4) by simp
    with that have "ID e \<noteq> ID n" by (metis imageI)
    with Cons.prems(3) that show ?thesis by (simp add: add_entry_def Let_def EncodeToString_inj)
  qed
  ultimately show ?case using Cons by simp
qed

lemma look_init_ok:
  "valid_id target \<Longrightarrow> \<forall>e \<in> set ns. valid_id (ID e) \<Longrightarrow> distinct (map ID ns) \<Longrightarrow> lk_ok target (look_init target ns) \<and> lk_full (look_init target ns)"
proof -
  assume a: "valid_id target" "\<forall>e \<in> set ns. valid_id (ID e)" "distinct (map ID ns)"
  let ?e = "\<lparr>lk_heap = [], lk_list = [], lk_map = Map.empty, lk_n = 0\<rparr>"
  have "lk_ok target ?e" "lk_full ?e" using a(1) by (simp_all add: lk_ok_def lk_full_def)
  with look_init_fold_ok [of target ?e ns] a show ?thesis
    unfolding look_init_def by (simp add: sort_look_ok)
qed

lemma look_outer_sorted:
  "look_outer k alpha target rep lk = Inr lk' \<Longrightarrow> lk_ok target lk \<Longrightarrow> lk_full lk \<Longrightarrow> wf_replies rep \<Longrightarrow> look_sorted target lk'"
proof (induction k alpha target rep lk rule: look_outer.induct)
  case (1 k alpha target rep lk)
  from 1(2) obtain u lk1 where r: "look_round k alpha target rep lk = Inr (u, lk1)"
    by (subst (asm) look_outer.simps) (auto split: sum.splits)
  note ok = look_round_ok [OF r 1(3-5)]
  show ?case
  proof (cases u)
    case True
    with 1(2) r have "look_outer k alpha target rep lk1 = Inr lk'" by (subst (asm) look_outer.simps) simp
    with 1(1) [OF r] ok 1(5) True show ?thesis by blast
  next
    case False
    with 1(2) r have e: "lk1 = lk'" by (subst (asm) look_outer.simps) simp
    obtain heap j where c: "contact_loop alpha (lk_heap lk) (lk_list lk) = (heap, j)" by (cases "contact_loop alpha (lk_heap lk) (lk_list lk)")
    with r obtain lk2 where 2: "receive_loop (receive_node k target rep) j (False, lk\<lparr>lk_heap := heap\<rparr>) = Inr (u, lk2)" "lk1 = sort_look lk2"
      by (auto simp: look_round_def go_bind_eq_Inr)
    have "lk_ok target lk2" using receive_loop_ok [OF 1(5) 2(1)] contact_ok [OF c 1(3,4)] by blast
    from look_sorted_sort [OF this] e 2(2) show ?thesis by simp
  qed
qed

lemma look_nodes_total:
  assumes "valid_id target" "\<forall>e \<in> set ns. valid_id (ID e)" "distinct (map ID ns)" "wf_replies rep"
  shows "\<exists>r. look_nodes k alpha target rep ns = Some r \<and>
    (\<forall>lk'. r = Inr lk' \<longrightarrow> lk_ok target lk' \<and> look_sorted target lk' \<and> find_pending k lk' = None)"
proof (cases "look_outer k alpha target rep (look_init target ns)")
  case (Inl e)
  then show ?thesis by (simp add: look_nodes_def)
next
  case (Inr lk)
  note init = look_init_ok [OF assms(1-3)]
  from look_outer_ok [OF Inr] look_outer_sorted [OF Inr] init assms(4)
  have "lk_ok target lk" "look_sorted target lk" by blast+
  from look_final_total [OF this assms(4), of k] Inr show ?thesis by (simp add: look_nodes_def)
qed

lemma FindKClosest_ids:
  assumes "rt_inv i kk rt" "valid_id target" "FindKClosest rt target k = Some ns"
  shows "(\<forall>e \<in> set ns. valid_id (ID e)) \<and> distinct (map ID ns)"
proof -
  have ns: "ns = take k (sort_key (entry_dist target) (rt_entries rt))" using FindKClosest_sorted [OF assms(1,2), of k] assms(3) by simp
  have "distinct (map ID (sort_key (entry_dist target) (rt_entries rt)))"
    using rt_inv_distinct [OF assms(1)] by (metis distinct_map distinct_sort set_sort)
  then have "distinct (map ID ns)" unfolding ns by (simp add: take_map [symmetric])
  moreover have "\<forall>e \<in> set ns. valid_id (ID e)"
    using rt_inv_entry_valid [OF assms(1)] unfolding ns by (auto dest: in_set_takeD)
  ultimately show ?thesis by simp
qed

text \<open>
  The iterative node lookup always returns: on a well-formed routing table, and whatever answers and time-outs the
  network gives as long as the identifiers in the answers have the proper length, both phases end; a panic is possible only
  on an answer without a node list.
\<close>

theorem NodeLookUp_returns:
  assumes "rt_inv i kk rt" and "wf_replies rep"
  shows "\<exists>r. NodeLookUp rt k alpha rep target = Some r"
proof (cases "length target = DStoreIDSize")
  case False
  then show ?thesis by (simp add: NodeLookUp_def)
next
  case True
  obtain ns where ns: "FindKClosest rt target k = Some ns" using FindKClosest_sorted [OF assms(1) True] by blast
  from look_nodes_total [OF True _ _ assms(2), of ns k alpha] FindKClosest_ids [OF assms(1) True ns]
  obtain r where "look_nodes k alpha target rep ns = Some r" by blast
  with True ns show ?thesis by (simp add: NodeLookUp_def)
qed


theorem NodeLookUp_returns_witness:
  "\<exists>r. NodeLookUp NewRoutingTable 3 2 (\<lambda>n. None) [0, 0, 0, 0, 0, 0, 0, 0] = Some r"
  by (rule NodeLookUp_returns [of "[0, 0, 0, 0, 0, 0, 0, 1]" 3]) (simp_all add: rt_inv_New DStoreIDSize_def wf_replies_def)

section \<open>Where a result comes from\<close>

text \<open>
  The entries a lookup knows with their answered flags. They are \<open>traced\<close> to the first \<open>n\<close> receives of a run that started
  from the entries \<open>ns\<close>: all of \<open>ns\<close> are known, every other known entry was named in an answer received, and the nodes that
  have answered can be told apart by the receives in which an answer came, one receive for each.
\<close>

definition answered_with :: "replies \<Rightarrow> nat \<Rightarrow> RoutingEntry list option" where
  "answered_with rep n = Option.bind (rep n) (\<lambda>m. map_option fnr_Nodes (ds_FindNodeReply m))"

definition look_view :: "Look \<Rightarrow> (RoutingEntry \<times> bool) list" where
  "look_view lk = map (\<lambda>d. (de_entry d, de_responded d)) (lk_heap lk)"

definition traced :: "replies \<Rightarrow> RoutingEntry list \<Rightarrow> nat \<Rightarrow> (RoutingEntry \<times> bool) list \<Rightarrow> bool" where
  "traced rep ns n v \<longleftrightarrow> set ns \<subseteq> fst ` set v \<and>
     (\<forall>e \<in> fst ` set v. e \<in> set ns \<or> (\<exists>i < n. \<exists>es. answered_with rep i = Some es \<and> e \<in> set es)) \<and>
     (\<exists>f. inj_on f {p. p < length v \<and> snd (v ! p)} \<and> (\<forall>p < length v. snd (v ! p) \<longrightarrow> f p < n \<and> answered_with rep (f p) \<noteq> None))"

definition lk_traced :: "replies \<Rightarrow> RoutingEntry list \<Rightarrow> Look \<Rightarrow> bool" where
  "lk_traced rep ns lk \<longleftrightarrow> traced rep ns (lk_n lk) (look_view lk)"

lemma traced_more: "traced rep ns n v \<Longrightarrow> n \<le> m \<Longrightarrow> traced rep ns m v"
  unfolding traced_def by (meson order.strict_trans2)

lemma traced_add:
  assumes "traced rep ns n v" "i < n" "answered_with rep i = Some es" "e \<in> set es"
  shows "traced rep ns n (v @ [(e, False)])"
proof -
  have "{p. p < length (v @ [(e, False)]) \<and> snd ((v @ [(e, False)]) ! p)} = {p. p < length v \<and> snd (v ! p)}"
    by (auto simp: nth_append less_Suc_eq)
  with assms show ?thesis unfolding traced_def by (auto simp: nth_append less_Suc_eq)
qed

lemma traced_answered:
  assumes t: "traced rep ns n v" and a: "answered_with rep n \<noteq> None" and p: "p < length v"
  shows "traced rep ns (Suc n) (v[p := (fst (v ! p), True)])"
proof -
  from t obtain f where f: "inj_on f {q. q < length v \<and> snd (v ! q)}" "\<forall>q < length v. snd (v ! q) \<longrightarrow> f q < n \<and> answered_with rep (f q) \<noteq> None"
    unfolding traced_def by blast
  let ?v = "v[p := (fst (v ! p), True)]"
  have n: "fst (?v ! q) = fst (v ! q)" "snd (?v ! q) = (q = p \<or> snd (v ! q))" if "q < length v" for q
    using that p by (auto simp: nth_list_update)
  have img: "fst ` set ?v = fst ` set v"
  proof -
    have "map fst ?v = map fst v" using p by (simp add: map_update list_update_same_conv)
    then show ?thesis by (metis set_map)
  qed
  have old: "\<forall>e \<in> fst ` set ?v. e \<in> set ns \<or> (\<exists>i < Suc n. \<exists>es. answered_with rep i = Some es \<and> e \<in> set es)"
    using t unfolding traced_def img by (meson less_Suc_eq)
  have "inj_on (f(p := n)) {q. q < length ?v \<and> snd (?v ! q)}"
  proof (rule inj_onI)
    fix q r assume "q \<in> {q. q < length ?v \<and> snd (?v ! q)}" "r \<in> {q. q < length ?v \<and> snd (?v ! q)}" "(f(p := n)) q = (f(p := n)) r"
    with n f show "q = r" by (auto dest: inj_onD split: if_splits)
  qed
  moreover have "\<forall>q < length ?v. snd (?v ! q) \<longrightarrow> (f(p := n)) q < Suc n \<and> answered_with rep ((f(p := n)) q) \<noteq> None"
    using n f(2) a by auto
  ultimately show ?thesis using t old unfolding traced_def img by blast
qed

lemma view_simps [simp]:
  "look_view (add_entry target re lk) = look_view lk @ [(re, False)]" "look_view (lk\<lparr>lk_n := n\<rparr>) = look_view lk" "look_view (sort_look lk) = look_view lk"
  "look_view (lk\<lparr>lk_list := ps\<rparr>) = look_view lk" "length (look_view lk) = length (lk_heap lk)"
  "lk_n (add_entry target re lk) = lk_n lk" "lk_n (sort_look lk) = lk_n lk" "lk_n (set_responded p lk) = lk_n lk"
  by (simp_all add: look_view_def add_entry_def new_entry_def sort_look_def set_responded_def Let_def)

lemma view_set_responded: "p < length (lk_heap lk) \<Longrightarrow> look_view (set_responded p lk) = (look_view lk)[p := (fst (look_view lk ! p), True)]"
  by (simp add: look_view_def set_responded_def map_update)

lemma view_set_contacted: "look_view (set_contacted p lk) = look_view lk" "lk_n (set_contacted p lk) = Suc (lk_n lk)"
proof -
  show "look_view (set_contacted p lk) = look_view lk"
    by (cases "p < length (lk_heap lk)") (simp_all add: look_view_def set_contacted_def map_update list_update_same_conv list_update_beyond)
qed (simp add: set_contacted_def)

lemma learn_list_traced:
  "go_foldM (learn k target) (u, lk) es = Inr (u', lk') \<Longrightarrow> lk_traced rep ns lk \<Longrightarrow> i < lk_n lk \<Longrightarrow> answered_with rep i = Some all \<Longrightarrow> set es \<subseteq> set all \<Longrightarrow>
   lk_traced rep ns lk'"
proof (induction es arbitrary: u lk)
  case (Cons e es)
  then obtain u1 lk1 where 1: "learn k target (u, lk) e = Inr (u1, lk1)" "go_foldM (learn k target) (u1, lk1) es = Inr (u', lk')"
    by (auto simp: go_bind_eq_Inr)
  then have "lk1 = lk \<or> lk1 = add_entry target e lk" by (auto simp: learn_def go_bind_eq_Inr split: if_splits)
  then have "lk_traced rep ns lk1" "lk_n lk1 = lk_n lk"
    using Cons.prems traced_add [of rep ns "lk_n lk" "look_view lk" i all e] by (auto simp: lk_traced_def)
  with Cons.IH [OF 1(2)] Cons.prems show ?case by simp
qed simp

lemma learn_all_traced:
  "lk_traced rep ns lk \<Longrightarrow> i < lk_n lk \<Longrightarrow> answered_with rep i = Some all \<Longrightarrow> set es \<subseteq> set all \<Longrightarrow> lk_traced rep ns (learn_all target lk es)"
proof (induction es arbitrary: lk)
  case (Cons e es)
  let ?lk = "if lk_map lk (EncodeToString (ID e)) = None then add_entry target e lk else lk"
  have "lk_traced rep ns ?lk" "lk_n ?lk = lk_n lk"
    using Cons.prems traced_add [of rep ns "lk_n lk" "look_view lk" i all e] by (auto simp: lk_traced_def)
  with Cons.IH [of ?lk] Cons.prems show ?case by (simp add: learn_all_def)
qed (simp add: learn_all_def)

lemma receive_node_traced:
  assumes r: "receive_node k target rep (u, lk) = Inr (u', lk')" and ok: "lk_ok target lk" and t: "lk_traced rep ns lk"
  shows "lk_traced rep ns lk'"
proof -
  let ?lk = "lk\<lparr>lk_n := Suc (lk_n lk)\<rparr>"
  have t1: "lk_traced rep ns ?lk" using t traced_more [of rep ns "lk_n lk" "look_view lk" "Suc (lk_n lk)"] by (simp add: lk_traced_def)
  show ?thesis
  proof (cases "rep (lk_n lk) = None \<or> (\<exists>msg. rep (lk_n lk) = Some msg \<and> lk_map lk (EncodeToString (ds_SourceID msg)) = None)")
    case True
    with r have "lk' = ?lk" by (auto simp: receive_node_def)
    with t1 show ?thesis by simp
  next
    case False
    then obtain msg p where 1: "rep (lk_n lk) = Some msg" "lk_map lk (EncodeToString (ds_SourceID msg)) = Some p" by auto
    with r obtain fr where 2: "ds_FindNodeReply msg = Some fr" "go_foldM (learn k target) (u, set_responded p ?lk) (fnr_Nodes fr) = Inr (u', lk')"
      by (simp add: receive_node_def go_bind_eq_Inr) blast
    have p: "p < length (lk_heap lk)" using ok 1(2) unfolding lk_ok_def by blast
    have a: "answered_with rep (lk_n lk) = Some (fnr_Nodes fr)" using 1(1) 2(1) by (simp add: answered_with_def)
    have "lk_traced rep ns (set_responded p ?lk)"
      using traced_answered [of rep ns "lk_n lk" "look_view lk" p] t a p by (simp add: lk_traced_def view_set_responded)
    from learn_list_traced [OF 2(2) this, of "lk_n lk" "fnr_Nodes fr"] a show ?thesis by simp
  qed
qed

lemma receive_loop_traced:
  assumes wf: "wf_replies rep"
  shows "receive_loop (receive_node k target rep) j (u, lk) = Inr (u', lk') \<Longrightarrow> lk_ok target lk \<Longrightarrow> lk_full lk \<Longrightarrow> lk_traced rep ns lk \<Longrightarrow>
    lk_traced rep ns lk'"
proof (induction j arbitrary: u lk)
  case (Suc j)
  then obtain u1 lk1 where 1: "receive_node k target rep (u, lk) = Inr (u1, lk1)"
    "receive_loop (receive_node k target rep) j (u1, lk1) = Inr (u', lk')" by (auto simp: go_bind_eq_Inr)
  from receive_node_ok [OF 1(1) _ _ wf] receive_node_traced [OF 1(1)] Suc.IH [OF 1(2)] Suc.prems show ?case by blast
qed simp

lemma look_round_traced:
  assumes r: "look_round k alpha target rep lk = Inr (u, lk')" and ok: "lk_ok target lk" "lk_full lk" and wf: "wf_replies rep" and t: "lk_traced rep ns lk"
  shows "lk_traced rep ns lk'"
proof -
  obtain heap j where c: "contact_loop alpha (lk_heap lk) (lk_list lk) = (heap, j)" by (cases "contact_loop alpha (lk_heap lk) (lk_list lk)")
  with r obtain lk1 where 1: "receive_loop (receive_node k target rep) j (False, lk\<lparr>lk_heap := heap\<rparr>) = Inr (u, lk1)" "lk' = sort_look lk1"
    by (auto simp: look_round_def go_bind_eq_Inr)
  have "look_view (lk\<lparr>lk_heap := heap\<rparr>) = look_view lk"
    using contact_loop_spec [OF c] by (auto simp: look_view_def intro: nth_equalityI)
  then have "lk_traced rep ns (lk\<lparr>lk_heap := heap\<rparr>)" using t by (simp add: lk_traced_def)
  with receive_loop_traced [OF wf 1(1)] contact_ok [OF c ok] 1(2) show ?thesis by (simp add: lk_traced_def)
qed

lemma look_outer_traced:
  "look_outer k alpha target rep lk = Inr lk' \<Longrightarrow> lk_ok target lk \<Longrightarrow> lk_full lk \<Longrightarrow> wf_replies rep \<Longrightarrow> lk_traced rep ns lk \<Longrightarrow> lk_traced rep ns lk'"
proof (induction k alpha target rep lk rule: look_outer.induct)
  case (1 k alpha target rep lk)
  from 1(2) obtain u lk1 where r: "look_round k alpha target rep lk = Inr (u, lk1)"
    by (subst (asm) look_outer.simps) (auto split: sum.splits)
  note ok = look_round_ok [OF r 1(3-5)] look_round_traced [OF r 1(3-6)]
  show ?case
  proof (cases u)
    case True
    with 1(2) r have "look_outer k alpha target rep lk1 = Inr lk'" by (subst (asm) look_outer.simps) simp
    with 1(1) [OF r] ok 1(5) True show ?thesis by blast
  next
    case False
    with 1(2) r have "lk1 = lk'" by (subst (asm) look_outer.simps) simp
    with ok show ?thesis by simp
  qed
qed

lemma pending_step_traced:
  assumes st: "pending_step target rep lk p = Inr lk'" and p: "p < length (lk_heap lk)" and t: "lk_traced rep ns lk"
  shows "lk_traced rep ns lk'"
proof (cases "de_contacted (lk_heap lk ! p) \<or> rep (lk_n lk) = None")
  case True
  then have "look_view lk' = look_view lk" "lk_n lk \<le> lk_n lk'" using st by (auto simp: pending_step_def view_set_contacted split: if_splits)
  with t traced_more show ?thesis unfolding lk_traced_def by metis
next
  case False
  then obtain msg r where 1: "rep (lk_n lk) = Some msg" "ds_FindNodeReply msg = Some r"
      "lk' = learn_all target (set_responded p (set_contacted p lk)) (fnr_Nodes r)"
    using st by (auto simp: pending_step_def go_bind_eq_Inr)
  have a: "answered_with rep (lk_n lk) = Some (fnr_Nodes r)" using 1 by (simp add: answered_with_def)
  have "p < length (lk_heap (set_contacted p lk))" using p by (simp add: set_contacted_def)
  then have "lk_traced rep ns (set_responded p (set_contacted p lk))"
    using traced_answered [of rep ns "lk_n lk" "look_view lk" p] t a p by (simp add: lk_traced_def view_set_responded view_set_contacted)
  from learn_all_traced [OF this _ a subset_refl] show ?thesis by (simp add: 1(3) view_set_contacted)
qed

lemma look_final_traced:
  "lk_ok target lk \<Longrightarrow> wf_replies rep \<Longrightarrow> lk_traced rep ns lk \<Longrightarrow> look_final k target rep lk = Some (Inr lk') \<Longrightarrow> lk_traced rep ns lk'"
proof (induction "final_left lk" arbitrary: lk rule: less_induct)
  case less
  show ?case
  proof (cases "find_pending k lk")
    case None
    with less.prems(3,4) show ?thesis by (subst (asm) look_final.simps) simp
  next
    case (Some p)
    note p = find_pending_Some [OF Some]
    from less.prems(4) Some obtain lk1 where 1: "pending_step target rep lk p = Inr lk1" "look_final k target rep (sort_look lk1) = Some (Inr lk')"
      by (subst (asm) look_final.simps) (auto split: sum.splits)
    have ok1: "lk_ok target lk1" "final_left lk1 < final_left lk"
      using pending_step_ok [OF less.prems(1) _ _ less.prems(2) 1(1)] p by blast+
    have "p < length (lk_heap lk)" using less.prems(1) p by (auto simp: lk_ok_def)
    from pending_step_traced [OF 1(1) this less.prems(3)] have "lk_traced rep ns (sort_look lk1)" by (simp add: lk_traced_def)
    with less.hyps [of "sort_look lk1"] ok1 sort_look_ok(1) [OF ok1(1)] less.prems(2) 1(2) show ?thesis by (simp add: final_left_sort)
  qed
qed

lemma look_init_traced: "lk_traced rep ns (look_init target ns)"
proof -
  have "look_view (foldl (\<lambda>lk n. add_entry target n lk) lk ns) = look_view lk @ map (\<lambda>n. (n, False)) ns" for lk
    by (induction ns arbitrary: lk) simp_all
  then have v: "look_view (look_init target ns) = map (\<lambda>n. (n, False)) ns" by (simp add: look_init_def) (simp add: look_view_def)
  have f: "fst ` set (map (\<lambda>n. (n, False)) ns) = set ns" by (simp add: image_image)
  have e: "{p. p < length (map (\<lambda>n. (n, False)) ns) \<and> snd (map (\<lambda>n. (n, False)) ns ! p)} = {}" by auto
  show ?thesis unfolding lk_traced_def traced_def v f e by auto
qed

lemma look_nodes_traced:
  assumes "valid_id target" "\<forall>e \<in> set ns. valid_id (ID e)" "distinct (map ID ns)" "wf_replies rep"
    and "look_nodes k alpha target rep ns = Some (Inr lk)"
  shows "lk_traced rep ns lk"
proof -
  obtain lk1 where 1: "look_outer k alpha target rep (look_init target ns) = Inr lk1" "look_final k target rep lk1 = Some (Inr lk)"
    using assms(5) by (auto simp: look_nodes_def split: sum.splits)
  note init = look_init_ok [OF assms(1-3)]
  from look_outer_ok [OF 1(1)] look_outer_traced [OF 1(1)] init assms(4) look_init_traced have "lk_ok target lk1" "lk_traced rep ns lk1" by blast+
  with look_final_traced 1(2) assms(4) show ?thesis by blast
qed

lemma result_traced:
  assumes ok: "lk_ok target lk" and t: "lk_traced rep ns lk" and r: "\<forall>p \<in> set (take k (lk_list lk)). de_responded (lk_heap lk ! p)"
  shows "(\<forall>e \<in> set (look_result k lk). e \<in> set ns \<or> (\<exists>i < lk_n lk. \<exists>es. answered_with rep i = Some es \<and> e \<in> set es)) \<and>
    (\<exists>f. inj_on f (set (look_result k lk)) \<and> (\<forall>e \<in> set (look_result k lk). f e < lk_n lk \<and> answered_with rep (f e) \<noteq> None)) \<and>
    set ns \<subseteq> de_entry ` set (lk_heap lk)"
proof -
  have v: "fst ` set (look_view lk) = de_entry ` set (lk_heap lk)" "\<And>p. p < length (lk_heap lk) \<Longrightarrow> snd (look_view lk ! p) = de_responded (lk_heap lk ! p)"
    by (simp_all add: look_view_def image_image)
  from t obtain f where f: "inj_on f {p. p < length (lk_heap lk) \<and> snd (look_view lk ! p)}"
    "\<forall>p < length (lk_heap lk). snd (look_view lk ! p) \<longrightarrow> f p < lk_n lk \<and> answered_with rep (f p) \<noteq> None"
    unfolding lk_traced_def traced_def by auto
  let ?P = "set (take k (lk_list lk))" and ?e = "\<lambda>p. de_entry (lk_heap lk ! p)"
  have P: "?P \<subseteq> {p. p < length (lk_heap lk) \<and> snd (look_view lk ! p)}" using ok r v(2) by (auto simp: lk_ok_def dest: in_set_takeD)
  have res: "set (look_result k lk) = ?e ` ?P" by (simp add: look_result_def)
  have at: "inv_into ?P ?e e \<in> ?P" if "e \<in> set (look_result k lk)" for e using that unfolding res by (rule inv_into_into)
  have "inv_into ?P ?e ` set (look_result k lk) \<subseteq> {p. p < length (lk_heap lk) \<and> snd (look_view lk ! p)}" using P at by blast
  with f(1) have "inj_on f (inv_into ?P ?e ` set (look_result k lk))" by (rule inj_on_subset)
  moreover have "inj_on (inv_into ?P ?e) (set (look_result k lk))" unfolding res by (rule inj_on_inv_into) simp
  ultimately have "inj_on (\<lambda>e. f (inv_into ?P ?e e)) (set (look_result k lk))" using comp_inj_on unfolding o_def by blast
  moreover have "\<forall>e \<in> set (look_result k lk). f (inv_into ?P ?e e) < lk_n lk \<and> answered_with rep (f (inv_into ?P ?e e)) \<noteq> None"
    using f(2) P at by blast
  moreover have "\<forall>e \<in> set (look_result k lk). e \<in> de_entry ` set (lk_heap lk)"
    using P unfolding res by auto
  moreover have "set ns \<subseteq> de_entry ` set (lk_heap lk)"
      "\<forall>e \<in> de_entry ` set (lk_heap lk). e \<in> set ns \<or> (\<exists>i < lk_n lk. \<exists>es. answered_with rep i = Some es \<and> e \<in> set es)"
    using t unfolding lk_traced_def traced_def v(1) by blast+
  ultimately show ?thesis by (intro conjI ballI exI [of _ "\<lambda>e. f (inv_into ?P ?e e)"]) (blast | simp)+
qed

text \<open>
  Claim C31. The lookup finds the closest live nodes. It starts from the closest entries \<open>ns\<close> of the routing table and its
  result consists of the entries at the first \<open>k\<close> places of the list its run ends with, in increasing distance and with
  different identifiers. Every one of them was an entry of \<open>ns\<close> or named in an answer that was received, and has answered
  itself: there is a received answer for each of them, a different one for different nodes. Every other node the
  lookup ever learned of, all of \<open>ns\<close> among them, either was contacted and did not answer or is at least as far away as
  all of the result.
\<close>

theorem NodeLookUp_closest_live:
  assumes inv: "rt_inv i kk rt" and wf: "wf_replies rep" and t: "valid_id target"
    and res: "NodeLookUp rt k alpha rep target = Some (Inr res)"
  shows "\<exists>ns lk. FindKClosest rt target k = Some ns \<and> look_nodes k alpha target rep ns = Some (Inr lk) \<and> res = look_result k lk \<and>
    length res \<le> k \<and> sorted (map (entry_dist target) res) \<and> distinct (map ID res) \<and>
    (\<forall>e \<in> set res. e \<in> set ns \<or> (\<exists>i < lk_n lk. \<exists>es. answered_with rep i = Some es \<and> e \<in> set es)) \<and>
    (\<exists>f. inj_on f (set res) \<and> (\<forall>e \<in> set res. f e < lk_n lk \<and> answered_with rep (f e) \<noteq> None)) \<and>
    set ns \<subseteq> de_entry ` set (lk_heap lk) \<and>
    (\<forall>p \<in> set (take k (lk_list lk)). de_responded (lk_heap lk ! p)) \<and>
    (\<forall>p < length (lk_heap lk). p \<notin> set (take k (lk_list lk)) \<longrightarrow>
       de_contacted (lk_heap lk ! p) \<and> \<not> de_responded (lk_heap lk ! p) \<or>
       (\<forall>e \<in> set res. entry_dist target e \<le> entry_dist target (de_entry (lk_heap lk ! p))))"
proof -
  obtain ns where ns: "FindKClosest rt target k = Some ns" using FindKClosest_sorted [OF inv t] by blast
  obtain lk where lk: "look_nodes k alpha target rep ns = Some (Inr lk)" "res = look_result k lk"
    using res ns t by (auto simp: NodeLookUp_def bind_eq_Some_conv go_bind_eq_Inr split: if_splits)
  from look_nodes_total [OF t _ _ wf, of ns k alpha] FindKClosest_ids [OF inv t ns] lk(1)
  have ok: "lk_ok target lk" and srt: "look_sorted target lk" and "find_pending k lk = None" by auto
  then have settled: "\<forall>p \<in> set (take k (lk_list lk)). settled lk p" by (simp add: find_pending_None)
  let ?d = "\<lambda>p. entry_dist target (de_entry (lk_heap lk ! p))"
  have "map (entry_dist target) res = take k (map ?d (lk_list lk))"
    by (simp add: lk(2) look_result_def take_map o_def)
  then have s: "sorted (map (entry_dist target) res)" using srt by (simp add: look_sorted_def sorted_wrt_take)
  have sub: "set (take k (lk_list lk)) \<subseteq> set (lk_list lk)" by (rule set_take_subset)
  have "inj_on (\<lambda>p. ID (de_entry (lk_heap lk ! p))) (set (lk_list lk))"
  proof (rule inj_onI)
    fix p q assume "p \<in> set (lk_list lk)" "q \<in> set (lk_list lk)"
      and "ID (de_entry (lk_heap lk ! p)) = ID (de_entry (lk_heap lk ! q))"
    then show "p = q" using ok unfolding lk_ok_def by (metis lessThan_iff option.inject subsetD)
  qed
  then have "distinct (map (\<lambda>p. ID (de_entry (lk_heap lk ! p))) (take k (lk_list lk)))"
    using ok inj_on_subset [OF _ sub] by (auto simp: distinct_map lk_ok_def)
  then have dd: "distinct (map ID res)" by (simp add: lk(2) look_result_def o_def)
  have far: "?d q \<le> ?d p" if "q \<in> set (take k (lk_list lk))" "p \<in> set (drop k (lk_list lk))" for p q
  proof -
    have "sorted_wrt (\<le>) (map ?d (take k (lk_list lk) @ drop k (lk_list lk)))" using srt by (simp add: look_sorted_def)
    then have "\<forall>x \<in> set (map ?d (take k (lk_list lk))). \<forall>y \<in> set (map ?d (drop k (lk_list lk))). x \<le> y"
      unfolding map_append sorted_wrt_append by (elim conjE)
    then have "\<forall>x \<in> set (take k (lk_list lk)). \<forall>y \<in> set (drop k (lk_list lk)). ?d x \<le> ?d y" unfolding list.set_map by blast
    with that show ?thesis by blast
  qed
  have "de_contacted (lk_heap lk ! p) \<and> \<not> de_responded (lk_heap lk ! p) \<or> (\<forall>e \<in> set res. entry_dist target e \<le> ?d p)"
    if p: "p < length (lk_heap lk)" "p \<notin> set (take k (lk_list lk))" for p
  proof (cases "p \<in> set (lk_list lk)")
    case True
    then have "p \<in> set (drop k (lk_list lk))" using p(2) by (metis append_take_drop_id set_append Un_iff)
    with far show ?thesis by (auto simp: lk(2) look_result_def)
  next
    case False
    with ok p(1) show ?thesis unfolding lk_ok_def by blast
  qed
  moreover have "length res \<le> k" by (simp add: lk(2) look_result_def)
  moreover have "\<forall>p \<in> set (take k (lk_list lk)). de_responded (lk_heap lk ! p)" using settled by (simp add: settled_def)
  moreover note result_traced [OF ok look_nodes_traced [OF t _ _ wf lk(1)] this] FindKClosest_ids [OF inv t ns]
  ultimately show ?thesis using ns lk s dd by blast
qed

definition example_entry :: RoutingEntry where
  "example_entry = \<lparr>ID = [0, 0, 0, 0, 0, 0, 0, 128], Address = ''p''\<rparr>"

definition example_closer :: RoutingEntry where
  "example_closer = \<lparr>ID = [0, 0, 0, 0, 0, 0, 0, 64], Address = ''q''\<rparr>"

definition example_table :: RTable where
  "example_table = (case Update [0, 0, 0, 0, 0, 0, 0, 0] 3 (\<lambda>_. True) NewRoutingTable example_entry of Inr rt \<Rightarrow> rt | Inl _ \<Rightarrow> [])"

lemma example_closest: "FindKClosest example_table [0, 0, 0, 0, 0, 0, 0, 0] 3 = Some [example_entry]"
  by (code_simp, simp add: walk.simps sort_Slice_def)

lemma example_inv: "rt_inv [0, 0, 0, 0, 0, 0, 0, 0] 3 example_table"
proof -
  let ?i = "[0, 0, 0, 0, 0, 0, 0, 0]"
  have v: "valid_id ?i" "valid_id (ID example_entry)" by (simp_all add: DStoreIDSize_def example_entry_def)
  have inv: "rt_inv ?i 3 NewRoutingTable" using v(1) by (rule rt_inv_New)
  obtain m where m: "MaxPrefixLen ?i (ID example_entry) = int m" using MaxPrefixLen_cases [OF v] by blast
  have lt: "m < DStoreIDSize" using prefix_top_byte [OF v] m by (simp add: DStoreIDSize_def example_entry_def)
  have k: "0 < (3 :: nat)" by simp
  from Update_step [OF inv k m lt, of "\<lambda>_. True"] Update_step_inv [OF inv k m lt, where ping = "\<lambda>_. True"]
  show ?thesis unfolding example_table_def by auto
qed

text \<open>The node of the table answers with a closer one, which answers in turn.\<close>

definition example_replies :: replies where
  "example_replies n =
     (if n = 0 then Some (empty_DStoreMessage\<lparr>ds_FindNodeReply := Some \<lparr>fnr_Nodes = [example_closer]\<rparr>, ds_SourceID := ID example_entry\<rparr>)
      else if n = 1 then Some (empty_DStoreMessage\<lparr>ds_FindNodeReply := Some \<lparr>fnr_Nodes = []\<rparr>, ds_SourceID := ID example_closer\<rparr>)
      else None)"


lemma example_lookup_nodes:
  "map_option (map_sum id (look_result 3)) (look_nodes 3 2 [0, 0, 0, 0, 0, 0, 0, 0] example_replies [example_entry]) = Some (Inr [example_closer, example_entry])"
  by (code_simp, subst look_final.simps) (simp add: find_pending_def settled_def look_result_def)

lemma map_sum_Inr: "map_option (map_sum id f) x = Some (Inr y) \<Longrightarrow> \<exists>z. x = Some (Inr z) \<and> f z = y"
  by (cases x) (auto simp: map_sum_def split: sum.splits)

lemma example_wf: "wf_replies example_replies"
  by (auto simp: wf_replies_def example_replies_def example_closer_def empty_DStoreMessage_def DStoreIDSize_def split: if_splits)

theorem NodeLookUp_closest_live_witness:
  "let t = [0, 0, 0, 0, 0, 0, 0, 0]; res = [example_closer, example_entry]
   in NodeLookUp example_table 3 2 example_replies t = Some (Inr res) \<and> sorted (map (entry_dist t) res) \<and> distinct (map ID res) \<and>
      (\<exists>f. inj_on f (set res) \<and> (\<forall>e \<in> set res. answered_with example_replies (f e) \<noteq> None))"
proof -
  let ?t = "[0, 0, 0, 0, 0, 0, 0, 0]"
  have t: "valid_id ?t" by (simp add: DStoreIDSize_def)
  have run: "NodeLookUp example_table 3 2 example_replies ?t = Some (Inr [example_closer, example_entry])"
  proof -
    obtain lk where "look_nodes 3 2 ?t example_replies [example_entry] = Some (Inr lk)" "look_result 3 lk = [example_closer, example_entry]"
      using map_sum_Inr [OF example_lookup_nodes] by blast
    with t show ?thesis by (simp add: NodeLookUp_def example_closest)
  qed
  from NodeLookUp_closest_live [OF example_inv example_wf t run] run show ?thesis unfolding Let_def by blast
qed

end
