(* ===== verification/Store.thy ===== *)
theory Store
  imports Lookup
begin

text \<open>
  The distributed store (\<open>src/storage/store.go\<close>, \<open>chunk_store.go\<close>, \<open>channel_store.go\<close>, \<open>handlers.go\<close>, the hashes of \<open>utils.go\<close>, and
  \<open>ValueLookUp\<close> of \<open>lookup.go\<close>): the chunk table, the handlers of remote calls, and files cut into chunks under a tree of
  hashes. The locale \<open>write_once\<close> is the contract of the chunk table. The six hash functions of Go's library are the fields of the
  record \<open>Hashes\<close>; the network enters as the answers a lookup receives.
\<close>

section \<open>Chunk table\<close>

locale write_once =
  fixes get :: "'s \<Rightarrow> 'k \<Rightarrow> 'v option" and put :: "'s \<Rightarrow> 'k \<Rightarrow> 'v \<Rightarrow> 's"
  assumes get_put: "get (put s k v) k' = (if k' = k \<and> get s k = None then Some v else get s k')"
begin

lemma get_put_other: "k' \<noteq> k \<Longrightarrow> get (put s k v) k' = get s k'"
  by (simp add: get_put)

text \<open>The first value put under a key is the one read ever after.\<close>

lemma get_first:
  "get (foldl (\<lambda>s (k, v). put s k v) s kvs) k = (case get s k of Some v \<Rightarrow> Some v | None \<Rightarrow> map_of kvs k)"
proof (induction kvs arbitrary: s)
  case Nil
  then show ?case by (simp split: option.split)
next
  case (Cons kv kvs)
  obtain k1 v1 where "kv = (k1, v1)" by (cases kv)
  with Cons [of "put s k1 v1"] show ?case by (auto simp: get_put split: option.splits)
qed

lemma get_stable: "get s k = Some v \<Longrightarrow> get (foldl (\<lambda>s (k, v). put s k v) s kvs) k = Some v"
  by (simp add: get_first)

end

record ChunkStore =
  cs_chunkMap :: "string \<rightharpoonup> bytes"
  cs_allChunks :: "string list"

definition NewChunkStore :: ChunkStore where
  "NewChunkStore = \<lparr>cs_chunkMap = Map.empty, cs_allChunks = []\<rparr>"

definition chunk_Put :: "ChunkStore \<Rightarrow> bytes \<Rightarrow> bytes \<Rightarrow> ChunkStore" where
  "chunk_Put cs key value =
     (let keyStr = EncodeToString key
      in if cs_chunkMap cs keyStr = None
         then cs\<lparr>cs_allChunks := cs_allChunks cs @ [keyStr], cs_chunkMap := (cs_chunkMap cs)(keyStr \<mapsto> value)\<rparr>
         else cs)"

definition chunk_Get :: "ChunkStore \<Rightarrow> bytes \<Rightarrow> bytes option" where
  "chunk_Get cs key = cs_chunkMap cs (EncodeToString key)"

interpretation chunks: write_once chunk_Get chunk_Put
  by unfold_locales (auto simp: chunk_Get_def chunk_Put_def EncodeToString_inj Let_def)

section \<open>Receivers of answers\<close>

text \<open>Channels are named by numbers.\<close>

type_synonym RPCReceiverStore = "string \<rightharpoonup> nat"

definition rpc_Put :: "RPCReceiverStore \<Rightarrow> string \<Rightarrow> nat \<Rightarrow> RPCReceiverStore" where
  "rpc_Put rs key channel = rs(key \<mapsto> channel)"

definition rpc_Get :: "RPCReceiverStore \<Rightarrow> string \<Rightarrow> nat option" where
  "rpc_Get rs key = rs key"

definition rpc_Delete :: "RPCReceiverStore \<Rightarrow> string \<Rightarrow> RPCReceiverStore" where
  "rpc_Delete rs key = rs(key := None)"

section \<open>The store of a node\<close>

record DStore =
  st_replication :: nat
  st_concurrency :: nat
  st_dStoreID :: bytes
  st_commonName :: string
  st_address :: address
  st_routingTable :: RTable
  st_chunkStore :: ChunkStore
  st_rpcReceivers :: RPCReceiverStore

record MessageAddrPair =
  ma_Message :: DStoreMessage
  ma_Address :: address

datatype store_action =
    SendMessage MessageAddrPair
  | DeliverReply nat MessageAddrPair
  | Republish bytes bytes

definition GetDStoreIDForName :: "(bytes \<Rightarrow> bytes) \<Rightarrow> string \<Rightarrow> bytes" where
  "GetDStoreIDForName sha256 name = take DStoreIDSize (sha256 (string_bytes name))"

definition NewDStore :: "(bytes \<Rightarrow> bytes) \<Rightarrow> string \<Rightarrow> address \<Rightarrow> nat \<Rightarrow> nat \<Rightarrow> DStore" where
  "NewDStore sha256 name addr replication concurrency =
     \<lparr>st_replication = replication, st_concurrency = concurrency, st_dStoreID = GetDStoreIDForName sha256 addr,
      st_commonName = name, st_address = addr, st_routingTable = NewRoutingTable, st_chunkStore = NewChunkStore,
      st_rpcReceivers = Map.empty\<rparr>"

definition NewDStorageHandler :: "(bytes \<Rightarrow> bytes) \<Rightarrow> string \<Rightarrow> address \<Rightarrow> DStore" where
  "NewDStorageHandler sha256 name addr = NewDStore sha256 name addr 3 2"

definition store_Init :: "(bytes \<Rightarrow> bytes) \<Rightarrow> (string \<Rightarrow> bool) \<Rightarrow> DStore \<Rightarrow> address list \<Rightarrow> DStore go" where
  "store_Init sha256 ping ds contacts =
     go_foldM (\<lambda>ds c. go_bind (Update (st_dStoreID ds) (st_replication ds) ping (st_routingTable ds)
                                 \<lparr>ID = GetDStoreIDForName sha256 c, Address = c\<rparr>) (\<lambda>rt. Inr (ds\<lparr>st_routingTable := rt\<rparr>))) ds contacts"

text \<open>
  The targets of the initial lookups: the own identifier, then random identifiers that share an ever longer part of it
  with the node, from the last byte on. \<open>rnd\<close> gives the random identifiers.
\<close>

definition populate_target :: "bytes \<Rightarrow> bytes \<Rightarrow> nat \<Rightarrow> bytes" where
  "populate_target dStoreID randID i =
     foldl (\<lambda>r j. r[j := dStoreID ! j]) randID (rev [i..<DStoreIDSize])"

definition populateRoutingTable :: "bytes \<Rightarrow> (nat \<Rightarrow> bytes) \<Rightarrow> bytes list" where
  "populateRoutingTable dStoreID rnd =
     dStoreID # map (\<lambda>i. populate_target dStoreID (rnd i) i) (rev [0..<DStoreIDSize])"

text \<open>\<open>answer\<close> is what the channel gives before the time-out.\<close>

definition PingNode :: "MessageAddrPair option \<Rightarrow> bool" where
  "PingNode answer \<longleftrightarrow> answer \<noteq> None"

definition sendAsyncReply :: "DStore \<Rightarrow> DStoreMessage \<Rightarrow> address \<Rightarrow> store_action" where
  "sendAsyncReply ds msg addr = SendMessage \<lparr>ma_Message = msg\<lparr>ds_SourceID := st_dStoreID ds\<rparr>, ma_Address = addr\<rparr>"

text \<open>\<open>rpcid\<close> is the random call identifier and \<open>channel\<close> the new channel.\<close>

definition sendAsyncRequest :: "DStore \<Rightarrow> string \<Rightarrow> nat \<Rightarrow> DStoreMessage \<Rightarrow> address \<Rightarrow> DStore \<times> store_action" where
  "sendAsyncRequest ds rpcid channel msg addr =
     (ds\<lparr>st_rpcReceivers := rpc_Put (st_rpcReceivers ds) rpcid channel\<rparr>,
      SendMessage \<lparr>ma_Message = msg\<lparr>ds_SourceID := st_dStoreID ds, ds_RPCID := rpcid\<rparr>, ma_Address = addr\<rparr>)"

section \<open>Handlers\<close>

definition invokePingRPC :: "DStore \<Rightarrow> MessageAddrPair \<Rightarrow> store_action" where
  "invokePingRPC ds p =
     sendAsyncReply ds (empty_DStoreMessage\<lparr>ds_RPCID := ds_RPCID (ma_Message p), ds_PingReply := Some ()\<rparr>) (ma_Address p)"

definition invokeStoreRPC :: "DStore \<Rightarrow> MessageAddrPair \<Rightarrow> (DStore \<times> store_action list) go" where
  "invokeStoreRPC ds p =
     go_bind (go_deref (ds_StoreRequest (ma_Message p))) (\<lambda>req.
       let key = srq_Key req; value = srq_Value req; new = (chunk_Get (st_chunkStore ds) key = None);
           reply = empty_DStoreMessage\<lparr>ds_RPCID := ds_RPCID (ma_Message p), ds_StoreReply := Some \<lparr>srp_Key = key, srp_Value = value\<rparr>\<rparr>
       in Inr (ds\<lparr>st_chunkStore := chunk_Put (st_chunkStore ds) key value\<rparr>,
               (if new then [Republish key value] else []) @ [sendAsyncReply ds reply (ma_Address p)]))"

text \<open>An outer \<open>None\<close>: the walk over the buckets does not end.\<close>

definition invokeFindNodeRPC :: "DStore \<Rightarrow> MessageAddrPair \<Rightarrow> store_action go option" where
  "invokeFindNodeRPC ds p =
     (case ds_FindNodeRequest (ma_Message p) of
        None \<Rightarrow> Some (Inl NilDereference)
      | Some req \<Rightarrow>
          map_option (\<lambda>ns. Inr (sendAsyncReply ds (empty_DStoreMessage\<lparr>ds_RPCID := ds_RPCID (ma_Message p),
                                  ds_FindNodeReply := Some \<lparr>fnr_Nodes = ns\<rparr>\<rparr>) (ma_Address p)))
            (FindKClosest (st_routingTable ds) (fnq_Target req) (st_replication ds)))"

definition invokeFindValueRPC :: "DStore \<Rightarrow> MessageAddrPair \<Rightarrow> store_action go option" where
  "invokeFindValueRPC ds p =
     (case ds_FindValueRequest (ma_Message p) of
        None \<Rightarrow> Some (Inl NilDereference)
      | Some req \<Rightarrow>
          let toFind = fvq_Key req;
              reply = (\<lambda>v ns. sendAsyncReply ds (empty_DStoreMessage\<lparr>ds_RPCID := ds_RPCID (ma_Message p),
                                ds_FindValueReply := Some \<lparr>fvr_Key = toFind, fvr_Value = v, fvr_Nodes = ns\<rparr>\<rparr>) (ma_Address p))
          in case chunk_Get (st_chunkStore ds) toFind of
               Some val \<Rightarrow> Some (Inr (reply (Some val) []))
             | None \<Rightarrow>
                 (case go_slice toFind 2 (2 + DStoreIDSize) of
                    Inl e \<Rightarrow> Some (Inl e)
                  | Inr nodeToFind \<Rightarrow>
                      map_option (\<lambda>ns. Inr (reply None ns)) (FindKClosest (st_routingTable ds) nodeToFind (st_replication ds))))"

definition handleRPCReply :: "DStore \<Rightarrow> MessageAddrPair \<Rightarrow> store_action list" where
  "handleRPCReply ds p =
     (case rpc_Get (st_rpcReceivers ds) (ds_RPCID (ma_Message p)) of None \<Rightarrow> [] | Some c \<Rightarrow> [DeliverReply c p])"

text \<open>
  One turn of \<open>handleIncomingMessages\<close>. The update of the routing table runs in a goroutine of its own; here it
  runs first.
\<close>

definition handleIncomingMessages :: "(string \<Rightarrow> bool) \<Rightarrow> DStore \<Rightarrow> MessageAddrPair \<Rightarrow> (DStore \<times> store_action list) go option" where
  "handleIncomingMessages ping ds0 p =
     (let msg = ma_Message p
      in case Update (st_dStoreID ds0) (st_replication ds0) ping (st_routingTable ds0) \<lparr>ID = ds_SourceID msg, Address = ma_Address p\<rparr> of
           Inl e \<Rightarrow> Some (Inl e)
         | Inr rt \<Rightarrow>
             let ds = ds0\<lparr>st_routingTable := rt\<rparr>; one = (\<lambda>r. go_bind r (\<lambda>a. Inr (ds, [a])))
             in if ds_PingRequest msg \<noteq> None then Some (Inr (ds, [invokePingRPC ds p]))
                else if ds_FindNodeRequest msg \<noteq> None then map_option one (invokeFindNodeRPC ds p)
                else if ds_FindValueRequest msg \<noteq> None then map_option one (invokeFindValueRPC ds p)
                else if ds_StoreRequest msg \<noteq> None then Some (invokeStoreRPC ds p)
                else Some (Inr (ds, handleRPCReply ds p)))"

section \<open>Looking up a value\<close>

type_synonym value_replies = "nat \<Rightarrow> MessageAddrPair option"

record ValueSearch =
  vs_updated :: bool
  vs_found :: "(bytes \<times> address) option"
  vs_look :: Look

definition receive_value :: "nat \<Rightarrow> bytes \<Rightarrow> value_replies \<Rightarrow> ValueSearch \<Rightarrow> ValueSearch go" where
  "receive_value k target rep vs =
     (let lk0 = vs_look vs; lk = lk0\<lparr>lk_n := Suc (lk_n lk0)\<rparr>; vs1 = vs\<lparr>vs_look := lk\<rparr>
      in case rep (lk_n lk0) of
           None \<Rightarrow> Inr vs1
         | Some pair \<Rightarrow>
             let msg = ma_Message pair
             in case lk_map lk (EncodeToString (ds_SourceID msg)) of
                  None \<Rightarrow> Inr vs1
                | Some p \<Rightarrow>
                    let vs2 = vs1\<lparr>vs_look := set_responded p lk\<rparr>
                    in go_bind (go_deref (ds_FindValueReply msg)) (\<lambda>r.
                         let vs3 = (case fvr_Value r of None \<Rightarrow> vs2 | Some v \<Rightarrow> vs2\<lparr>vs_found := Some (v, ma_Address pair)\<rparr>)
                         in if vs_found vs3 \<noteq> None then Inr vs3
                            else go_bind (go_deref (ds_FindNodeReply msg)) (\<lambda>fr.
                                 go_bind (go_foldM (learn k target) (vs_updated vs3, vs_look vs3) (fnr_Nodes fr)) (\<lambda>(u, lk').
                                   Inr (vs3\<lparr>vs_updated := u, vs_look := lk'\<rparr>)))))"

fun receive_values :: "(ValueSearch \<Rightarrow> ValueSearch go) \<Rightarrow> nat \<Rightarrow> ValueSearch \<Rightarrow> ValueSearch go" where
  "receive_values receive 0 vs = Inr vs"
| "receive_values receive (Suc j) vs = go_bind (receive vs) (\<lambda>vs'. receive_values receive j vs')"

definition value_round :: "nat \<Rightarrow> nat \<Rightarrow> bytes \<Rightarrow> value_replies \<Rightarrow> Look \<Rightarrow> ValueSearch go" where
  "value_round k alpha target rep lk =
     (case contact_loop alpha (lk_heap lk) (lk_list lk) of (heap, j) \<Rightarrow>
        receive_values (receive_value k target rep) j \<lparr>vs_updated = False, vs_found = None, vs_look = lk\<lparr>lk_heap := heap\<rparr>\<rparr>)"

text \<open>One turn of the final phase: a value found, or the state to go on with.\<close>

definition value_pending :: "bytes \<Rightarrow> value_replies \<Rightarrow> Look \<Rightarrow> nat \<Rightarrow> ((bytes \<times> address) + Look) go" where
  "value_pending target rep lk p =
     (if de_contacted (lk_heap lk ! p) then Inr (Inr (lk\<lparr>lk_list := remove1 p (lk_list lk)\<rparr>))
      else
        let lk1 = set_contacted p lk
        in case rep (lk_n lk) of
             None \<Rightarrow> Inr (Inr lk1)
           | Some pair \<Rightarrow>
               go_bind (go_deref (ds_FindValueReply (ma_Message pair))) (\<lambda>r.
                 case fvr_Value r of
                   Some v \<Rightarrow> Inr (Inl (v, ma_Address pair))
                 | None \<Rightarrow>
                     let lk2 = set_responded p lk1
                     in go_bind (go_deref (ds_FindNodeReply (ma_Message pair))) (\<lambda>fr.
                          Inr (Inr (learn_all target lk2 (fnr_Nodes fr))))))"

partial_function (option) value_final :: "nat \<Rightarrow> bytes \<Rightarrow> value_replies \<Rightarrow> Look \<Rightarrow> (bytes \<times> address) option go option" where
  "value_final k target rep lk =
     (case find_pending k lk of
        None \<Rightarrow> Some (Inr None)
      | Some p \<Rightarrow>
          (case value_pending target rep lk p of
             Inl e \<Rightarrow> Some (Inl e)
           | Inr r \<Rightarrow> (case r of Inl found \<Rightarrow> Some (Inr (Some found)) | Inr lk' \<Rightarrow> value_final k target rep (sort_look lk'))))"

partial_function (option) value_outer :: "nat \<Rightarrow> nat \<Rightarrow> bytes \<Rightarrow> value_replies \<Rightarrow> Look \<Rightarrow> (bytes \<times> address) option go option" where
  "value_outer k alpha target rep lk =
     (case value_round k alpha target rep lk of
        Inl e \<Rightarrow> Some (Inl e)
      | Inr vs \<Rightarrow>
          (case vs_found vs of
             Some found \<Rightarrow> Some (Inr (Some found))
           | None \<Rightarrow>
               if vs_updated vs then value_outer k alpha target rep (sort_look (vs_look vs))
               else value_final k target rep (sort_look (vs_look vs))))"

text \<open>A nil value with an empty address is \<open>None\<close>.\<close>

definition ValueLookUp :: "DStore \<Rightarrow> value_replies \<Rightarrow> bytes \<Rightarrow> (bytes \<times> address) option go option" where
  "ValueLookUp ds rep key =
     (if length key < 2 + DStoreIDSize then Some (Inr None)
      else case chunk_Get (st_chunkStore ds) key of
        Some val \<Rightarrow> Some (Inr (Some (val, st_address ds)))
      | None \<Rightarrow>
          let target = take DStoreIDSize (drop 2 key)
          in Option.bind (FindKClosest (st_routingTable ds) target (st_replication ds)) (\<lambda>ns.
               value_outer (st_replication ds) (st_concurrency ds) target rep (look_init target ns)))"

text \<open>
  Claim C34. A value lookup crashes on the answer of an honest node: when the first answer of a lookup is the one the handler of
  another node gives for a key it does not hold, the lookup dereferences a missing node list, because the handler
  puts the nodes into the value reply.
\<close>

theorem ValueLookUp_panics_on_miss:
  assumes key: "2 + DStoreIDSize \<le> length key" "chunk_Get (st_chunkStore ds) key = None"
    and ns: "FindKClosest (st_routingTable ds) (take DStoreIDSize (drop 2 key)) (st_replication ds) = Some ns"
    and conc: "contact_loop (st_concurrency ds) (lk_heap lk) (lk_list lk) = (heap, Suc j)" "lk = look_init (take DStoreIDSize (drop 2 key)) ns"
    and peer: "invokeFindValueRPC ds' \<lparr>ma_Message = req, ma_Address = a\<rparr> = Some (Inr (SendMessage \<lparr>ma_Message = ans, ma_Address = a\<rparr>))"
      "ds_FindValueRequest req = Some \<lparr>fvq_Key = key\<rparr>" "chunk_Get (st_chunkStore ds') key = None"
    and known: "lk_map lk (EncodeToString (st_dStoreID ds')) = Some p" and n0: "lk_n lk = 0"
    and rep: "rep 0 = Some \<lparr>ma_Message = ans, ma_Address = b\<rparr>"
  shows "ValueLookUp ds rep key = Some (Inl NilDereference)"
proof -
  let ?t = "take DStoreIDSize (drop 2 key)"
  have "ds_SourceID ans = st_dStoreID ds' \<and> ds_FindNodeReply ans = None \<and>
      (\<exists>r. ds_FindValueReply ans = Some r \<and> fvr_Value r = None)"
    using peer by (auto simp: invokeFindValueRPC_def sendAsyncReply_def empty_DStoreMessage_def Let_def split: sum.splits option.splits)
  then obtain r where ans: "ds_SourceID ans = st_dStoreID ds'" "ds_FindNodeReply ans = None" "ds_FindValueReply ans = Some r" "fvr_Value r = None"
    by blast
  have "receive_value (st_replication ds) ?t rep \<lparr>vs_updated = False, vs_found = None, vs_look = lk\<lparr>lk_heap := heap\<rparr>\<rparr> = Inl NilDereference"
    using ans known n0 rep by (simp add: receive_value_def)
  then have "value_round (st_replication ds) (st_concurrency ds) ?t rep lk = Inl NilDereference"
    by (simp add: value_round_def conc(1))
  then have "value_outer (st_replication ds) (st_concurrency ds) ?t rep lk = Some (Inl NilDereference)"
    by (subst value_outer.simps) simp
  with key ns conc(2) show ?thesis by (simp add: ValueLookUp_def)
qed

theorem ValueLookUp_panics_on_miss_witness:
  "let ds = (NewDStore (\<lambda>d. d) ''n'' ''a'' 3 2)\<lparr>st_routingTable := example_table\<rparr>;
       peer = ds\<lparr>st_dStoreID := ID example_entry\<rparr>; key = [1, 1, 0, 0, 0, 0, 0, 0, 0, 0];
       req = (NewFindValueRequest key); ans = invokeFindValueRPC peer \<lparr>ma_Message = req, ma_Address = ''a''\<rparr>
   in \<exists>m. ans = Some (Inr (SendMessage m)) \<and> ValueLookUp ds (\<lambda>n. Some m) key = Some (Inl NilDereference)"
proof -
  let ?ds = "(NewDStore (\<lambda>d. d) ''n'' ''a'' 3 2)\<lparr>st_routingTable := example_table\<rparr>"
  let ?peer = "?ds\<lparr>st_dStoreID := ID example_entry\<rparr>" and ?key = "[1, 1, 0, 0, 0, 0, 0, 0, 0, 0]"
  let ?req = "NewFindValueRequest ?key" and ?t = "[0, 0, 0, 0, 0, 0, 0, 0]"
  let ?m = "\<lparr>ma_Message = empty_DStoreMessage\<lparr>ds_FindValueReply := Some \<lparr>fvr_Key = ?key, fvr_Value = None, fvr_Nodes = [example_entry]\<rparr>,
      ds_SourceID := ID example_entry\<rparr>, ma_Address = ''a''\<rparr>"
  have k: "take DStoreIDSize (drop 2 ?key) = ?t" "2 + DStoreIDSize \<le> length ?key" "go_slice ?key 2 (2 + DStoreIDSize) = Inr ?t"
    by (simp_all add: DStoreIDSize_def go_slice_def)
  have ds: "chunk_Get (st_chunkStore ?ds) ?key = None" "st_replication ?ds = 3" "st_concurrency ?ds = 2" "st_routingTable ?ds = example_table"
    by (simp_all add: NewDStore_def NewChunkStore_def chunk_Get_def)
  have ans: "invokeFindValueRPC ?peer \<lparr>ma_Message = ?req, ma_Address = ''a''\<rparr> = Some (Inr (SendMessage ?m))"
    by (simp add: invokeFindValueRPC_def NewFindValueRequest_def sendAsyncReply_def example_closest empty_DStoreMessage_def
        NewDStore_def NewChunkStore_def chunk_Get_def go_slice_def DStoreIDSize_def)
  have init: "look_init ?t [example_entry] = \<lparr>lk_heap = [new_entry ?t example_entry], lk_list = [0],
      lk_map = [EncodeToString (ID example_entry) \<mapsto> 0], lk_n = 0\<rparr>" (is "_ = ?lk")
    by (simp add: look_init_def add_entry_def sort_look_def sort_Slice_def del: EncodeToString.simps)
  have "ValueLookUp ?ds (\<lambda>n. Some ?m) ?key = Some (Inl NilDereference)"
  proof (rule ValueLookUp_panics_on_miss [where lk = ?lk and j = 0 and p = 0 and ds' = ?peer and req = ?req and b = "''a''"])
    show "FindKClosest (st_routingTable ?ds) (take DStoreIDSize (drop 2 ?key)) (st_replication ?ds) = Some [example_entry]"
      by (simp only: k ds example_closest)
    show "?lk = look_init (take DStoreIDSize (drop 2 ?key)) [example_entry]" by (simp only: k init)
  qed (use ans ds k in \<open>simp_all add: new_entry_def NewFindValueRequest_def\<close>)
  with ans show ?thesis unfolding Let_def by blast
qed

section \<open>Files\<close>

definition ChunkSize :: nat where "ChunkSize = 4096"
definition TypeBasicFile :: byte where "TypeBasicFile = 0"
definition TypeMetaFile :: byte where "TypeMetaFile = 1"
definition HashLength :: "nat list" where "HashLength = [28, 32, 48, 64, 28, 32]"

record Hashes =
  Sum224 :: "bytes \<Rightarrow> bytes"
  Sum_256 :: "bytes \<Rightarrow> bytes"
  Sum384 :: "bytes \<Rightarrow> bytes"
  Sum512 :: "bytes \<Rightarrow> bytes"
  Sum512_224 :: "bytes \<Rightarrow> bytes"
  Sum512_256 :: "bytes \<Rightarrow> bytes"

definition store_GetHash :: "Hashes \<Rightarrow> bytes \<Rightarrow> byte \<Rightarrow> bytes" where
  "store_GetHash h data hashType =
     (if hashType = 0 then Sum224 h data else if hashType = 1 then Sum_256 h data
      else if hashType = 2 then Sum384 h data else if hashType = 3 then Sum512 h data
      else if hashType = 4 then Sum512_224 h data else if hashType = 5 then Sum512_256 h data else [])"

definition CheckHash :: "Hashes \<Rightarrow> bytes \<Rightarrow> bytes \<Rightarrow> byte \<Rightarrow> bool go" where
  "CheckHash h data expected hashType =
     go_bind (go_nth HashLength (unat hashType)) (\<lambda>n.
       Inr (if length expected \<noteq> n then False else expected = store_GetHash h data hashType))"

text \<open>The documented lengths of the hashes.\<close>

definition hash_laws :: "Hashes \<Rightarrow> bool" where
  "hash_laws h \<longleftrightarrow> (\<forall>d. length (Sum224 h d) = 28 \<and> length (Sum_256 h d) = 32 \<and> length (Sum384 h d) = 48 \<and> length (Sum512 h d) = 64 \<and>
     length (Sum512_224 h d) = 28 \<and> length (Sum512_256 h d) = 32)"

text \<open>The chunks of the data, in order: \<open>data[i:Min(i+ChunkSize, len(data))]\<close>.\<close>

function chunks_of :: "bytes \<Rightarrow> bytes list" where
  "chunks_of data = (if data = [] then [] else take ChunkSize data # chunks_of (drop ChunkSize data))"
  by auto
termination
  by (relation "measure length") (simp_all add: ChunkSize_def)

declare chunks_of.simps [simp del]

lemma chunks_of_Nil [simp]: "chunks_of [] = []"
  by (simp add: chunks_of.simps)

type_synonym chunk_calls = "(bytes \<times> bytes) list"

text \<open>
  One chunk: its hash block is appended to the meta file and the chunk is stored under the slice of the meta file that holds
  the block. \<open>storeChunk\<close> slices its key.
\<close>

definition storeChunk_key :: "bytes \<Rightarrow> bytes go" where
  "storeChunk_key key = go_slice key 2 (2 + DStoreIDSize)"

definition storeChunk :: "RoutingEntry list \<Rightarrow> bytes \<Rightarrow> bytes \<Rightarrow> (DStoreMessage \<times> address) list" where
  "storeChunk ns key chunk = map (\<lambda>n. (NewStoreRequest key chunk 0 0, Address n)) ns"

definition store_one :: "Hashes \<Rightarrow> nat \<Rightarrow> byte \<Rightarrow> byte \<Rightarrow> bytes \<times> chunk_calls \<times> nat \<Rightarrow> bytes \<Rightarrow> (bytes \<times> chunk_calls \<times> nat) go" where
  "store_one h blk hashType fileType st chunk =
     (case st of (metaFile, calls, n) \<Rightarrow>
        let mf = metaFile @ [fileType, hashType] @ store_GetHash h chunk hashType
        in go_bind (go_slice mf (n * blk) (Suc n * blk)) (\<lambda>key.
           go_bind (storeChunk_key key) (\<lambda>_. Inr (mf, calls @ [(key, chunk)], Suc n))))"

text \<open>The calls of \<open>storeChunk\<close> in order, and the hash block returned.\<close>

partial_function (option) StoreFile :: "Hashes \<Rightarrow> bytes \<Rightarrow> byte \<Rightarrow> byte \<Rightarrow> chunk_calls \<Rightarrow> (chunk_calls \<times> bytes) go option" where
  "StoreFile h data hashType fileType calls0 =
     (case go_bind (go_nth HashLength (unat hashType)) (\<lambda>n.
             go_foldM (store_one h (2 + n) hashType fileType) ([], calls0, 0) (chunks_of data)) of
        Inl e \<Rightarrow> Some (Inl e)
      | Inr (metaFile, calls, _) \<Rightarrow>
          if length metaFile < ChunkSize then
            let metaHash = [TypeMetaFile, hashType] @ store_GetHash h metaFile hashType
            in Some (go_bind (storeChunk_key metaHash) (\<lambda>_. Inr (calls @ [(metaHash, metaFile)], metaHash)))
          else StoreFile h metaFile hashType TypeMetaFile calls)"

text \<open>
  The blocks of a meta file, each looked up and the values concatenated; \<open>n\<close> is the length of the hash. The inner \<open>None\<close> is a
  value not found.
\<close>

function retrieve_blocks :: "(bytes \<Rightarrow> bytes option) \<Rightarrow> nat \<Rightarrow> bytes \<Rightarrow> bytes \<Rightarrow> bytes option go" where
  "retrieve_blocks lookup n rest res =
     (if rest = [] then Inr (Some res)
      else go_bind (go_slice rest 0 (2 + n)) (\<lambda>key.
             case lookup key of None \<Rightarrow> Inr None
             | Some temp \<Rightarrow> retrieve_blocks lookup n (drop (2 + n) rest) (res @ temp)))"
  by auto
termination
  by (relation "measure (\<lambda>(lookup, n, rest, res). length rest)") auto

declare retrieve_blocks.simps [simp del]

definition retrieve_level :: "(bytes \<Rightarrow> bytes option) \<Rightarrow> bytes \<Rightarrow> (byte \<times> bytes option) go" where
  "retrieve_level lookup metaHash =
     go_bind (go_nth metaHash 0) (\<lambda>fileType. go_bind (go_nth metaHash 1) (\<lambda>hashType.
     go_bind (go_nth HashLength (unat hashType)) (\<lambda>n.
     go_bind (retrieve_blocks lookup n metaHash []) (\<lambda>r. Inr (fileType, r)))))"

text \<open>\<open>lookup\<close> is \<open>ValueLookUp\<close>; the outer \<open>None\<close> is a recursion that does not end.\<close>

partial_function (option) RetrieveFile :: "(bytes \<Rightarrow> bytes option) \<Rightarrow> bytes \<Rightarrow> bytes option go option" where
  "RetrieveFile lookup metaHash =
     (case retrieve_level lookup metaHash of
        Inl e \<Rightarrow> Some (Inl e)
      | Inr (fileType, r) \<Rightarrow>
          (case r of None \<Rightarrow> Some (Inr None)
           | Some res \<Rightarrow> if fileType = TypeMetaFile then RetrieveFile lookup res else Some (Inr (Some res))))"


section \<open>Files come back\<close>

lemma hash_length:
  "hash_laws h \<Longrightarrow> unat (ht :: byte) < 6 \<Longrightarrow>
   length (store_GetHash h d ht) = HashLength ! unat ht \<and> 28 \<le> HashLength ! unat ht \<and> HashLength ! unat ht \<le> 64"
proof -
  assume h: "hash_laws h" and t: "unat ht < 6"
  have "unat ht = 0 \<or> unat ht = 1 \<or> unat ht = 2 \<or> unat ht = 3 \<or> unat ht = 4 \<or> unat ht = 5" using t by auto
  then have "ht = 0 \<or> ht = 1 \<or> ht = 2 \<or> ht = 3 \<or> ht = 4 \<or> ht = 5" by (simp add: word_unat_eq_iff)
  with h show ?thesis by (auto simp: hash_laws_def store_GetHash_def HashLength_def)
qed

abbreviation hash_block :: "Hashes \<Rightarrow> byte \<Rightarrow> byte \<Rightarrow> bytes \<Rightarrow> bytes" where
  "hash_block h ht ft c \<equiv> [ft, ht] @ store_GetHash h c ht"

lemma length_hash_block:
  "hash_laws h \<Longrightarrow> unat ht < 6 \<Longrightarrow> length (hash_block h ht ft c) = 2 + HashLength ! unat ht"
  using hash_length [of h ht c] by simp

lemma go_slice_end: "length xs = n * b \<Longrightarrow> length ys = b \<Longrightarrow> go_slice (xs @ ys) (n * b) (Suc n * b) = Inr ys"
  by (simp add: go_slice_def)

lemma storeChunk_key_ok: "10 \<le> length key \<Longrightarrow> storeChunk_key key = Inr (take 8 (drop 2 key))"
  by (simp add: storeChunk_key_def DStoreIDSize_def)

lemma store_fold:
  assumes "hash_laws h" "unat ht < 6"
  shows "length mf = n * (2 + HashLength ! unat ht) \<Longrightarrow>
    go_foldM (store_one h (2 + HashLength ! unat ht) ht ft) (mf, calls, n) cs =
      Inr (mf @ concat (map (hash_block h ht ft) cs), calls @ map (\<lambda>c. (hash_block h ht ft c, c)) cs, n + length cs)"
proof (induction cs arbitrary: mf calls n)
  case Nil
  then show ?case by simp
next
  case (Cons c cs)
  note len = length_hash_block [OF assms, of ft c]
  have "10 \<le> length (hash_block h ht ft c)" using hash_length [OF assms, of c] by simp
  then have step: "store_one h (2 + HashLength ! unat ht) ht ft (mf, calls, n) c =
      Inr (mf @ hash_block h ht ft c, calls @ [(hash_block h ht ft c, c)], Suc n)"
    unfolding store_one_def Let_def prod.case go_slice_end [OF Cons.prems len] go_bind_Inr storeChunk_key_ok [OF \<open>10 \<le> _\<close>] by simp
  have "length (mf @ hash_block h ht ft c) = Suc n * (2 + HashLength ! unat ht)" using Cons.prems len by simp
  from Cons.IH [OF this] step show ?case by simp
qed

lemma retrieve_fold:
  assumes "hash_laws h" "unat ht < 6"
  shows "\<forall>c \<in> set cs. lookup (hash_block h ht ft c) = Some c \<Longrightarrow>
    retrieve_blocks lookup (HashLength ! unat ht) (concat (map (hash_block h ht ft) cs)) res = Inr (Some (res @ concat cs))"
proof (induction cs arbitrary: res)
  case Nil
  then show ?case by (simp add: retrieve_blocks.simps)
next
  case (Cons c cs)
  let ?b = "hash_block h ht ft c" and ?N = "HashLength ! unat ht"
  have len: "length ?b = 2 + ?N" by (rule length_hash_block [OF assms])
  have "retrieve_blocks lookup ?N (?b @ concat (map (hash_block h ht ft) cs)) res =
      retrieve_blocks lookup ?N (concat (map (hash_block h ht ft) cs)) (res @ c)"
    using Cons.prems len by (subst retrieve_blocks.simps) (simp add: go_slice_def)
  with Cons show ?case by simp
qed

lemma concat_chunks_of: "concat (chunks_of data) = data"
proof (induction data rule: chunks_of.induct)
  case (1 data)
  then show ?case by (cases "data = []") (simp_all add: chunks_of.simps [of data])
qed

lemma length_chunks_of: "ChunkSize * length (chunks_of data) < length data + ChunkSize"
proof (induction data rule: chunks_of.induct)
  case (1 data)
  show ?case
  proof (cases "data = []")
    case True
    then show ?thesis by (simp add: chunks_of.simps ChunkSize_def)
  next
    case False
    with 1 have "ChunkSize * length (chunks_of (drop ChunkSize data)) < length data - ChunkSize + ChunkSize" by simp
    moreover have "ChunkSize * length (chunks_of data) = ChunkSize + ChunkSize * length (chunks_of (drop ChunkSize data))"
      using False by (simp add: chunks_of.simps [of data])
    moreover have "length (chunks_of (drop ChunkSize data)) = 0" if "length data \<le> ChunkSize"
      using that by (simp add: chunks_of.simps)
    ultimately show ?thesis using False by (cases "length data \<le> ChunkSize") auto
  qed
qed

text \<open>A meta file of at least one chunk is shorter than the data it describes.\<close>

lemma meta_shorter:
  assumes "hash_laws h" "unat ht < 6" "ChunkSize \<le> length (concat (map (hash_block h ht ft) (chunks_of data)))"
  shows "length (concat (map (hash_block h ht ft) (chunks_of data))) < length data"
proof -
  let ?N = "HashLength ! unat ht" and ?l = "length (chunks_of data)"
  have "length (concat (map (hash_block h ht ft) cs)) = length cs * (2 + ?N)" for cs
    using length_hash_block [OF assms(1,2), of ft] by (induction cs) simp_all
  then have m: "length (concat (map (hash_block h ht ft) (chunks_of data))) = ?l * (2 + ?N)" .
  also have "\<dots> \<le> ?l * 66" using hash_length [OF assms(1,2)] by (intro mult_le_mono2) simp
  finally have "length (concat (map (hash_block h ht ft) (chunks_of data))) \<le> 66 * ?l" by simp
  moreover from this assms(3) have "63 \<le> ?l" by (simp add: ChunkSize_def)
  ultimately show ?thesis using length_chunks_of [of data] by (simp add: ChunkSize_def)
qed

lemma retrieve_meta:
  assumes "hash_laws h" "unat ht < 6" "data \<noteq> []"
    and "\<forall>c \<in> set (chunks_of data). lookup (hash_block h ht ft c) = Some c"
  shows "RetrieveFile lookup (concat (map (hash_block h ht ft) (chunks_of data))) =
    (if ft = TypeMetaFile then RetrieveFile lookup data else Some (Inr (Some data)))"
proof -
  let ?m = "concat (map (hash_block h ht ft) (chunks_of data))"
  obtain c cs where c: "chunks_of data = c # cs" using assms(3) by (simp add: chunks_of.simps [of data])
  then have nth: "go_nth ?m 0 = Inr ft" "go_nth ?m 1 = Inr ht" by (simp_all add: go_nth_def)
  have N: "go_nth HashLength (unat ht) = Inr (HashLength ! unat ht)" using assms(2) by (simp add: go_nth_def HashLength_def)
  have "retrieve_level lookup ?m = Inr (ft, Some data)"
    unfolding retrieve_level_def nth N go_bind_Inr retrieve_fold [OF assms(1,2,4)] by (simp add: concat_chunks_of)
  then show ?thesis by (subst RetrieveFile.simps) simp
qed

lemma StoreFile_retrieve:
  assumes "hash_laws h" "unat ht < 6"
  shows "data \<noteq> [] \<Longrightarrow> \<exists>calls mh. StoreFile h data ht ft calls0 = Some (Inr (calls, mh)) \<and> set calls0 \<subseteq> set calls \<and>
    (\<forall>lookup. (\<forall>(k, c) \<in> set calls. lookup k = Some c) \<longrightarrow>
       RetrieveFile lookup mh = (if ft = TypeMetaFile then RetrieveFile lookup data else Some (Inr (Some data))))"
proof (induction "length data" arbitrary: data ft calls0 rule: less_induct)
  case less
  let ?m = "concat (map (hash_block h ht ft) (chunks_of data))"
  let ?calls = "calls0 @ map (\<lambda>c. (hash_block h ht ft c, c)) (chunks_of data)"
  have N: "go_nth HashLength (unat ht) = Inr (HashLength ! unat ht)" using assms(2) by (simp add: go_nth_def HashLength_def)
  have "go_foldM (store_one h (2 + HashLength ! unat ht) ht ft) ([], calls0, 0) (chunks_of data) = Inr (?m, ?calls, length (chunks_of data))"
    using store_fold [OF assms, of "[]" 0 ft calls0 "chunks_of data"] by simp
  then have fold: "go_bind (go_nth HashLength (unat ht)) (\<lambda>n. go_foldM (store_one h (2 + n) ht ft) ([], calls0, 0) (chunks_of data)) =
      Inr (?m, ?calls, length (chunks_of data))" by (simp add: N)
  note meta = retrieve_meta [OF assms less.prems, of _ ft]
  show ?case
  proof (cases "length ?m < ChunkSize")
    case True
    let ?mh = "hash_block h ht TypeMetaFile ?m"
    have "10 \<le> length ?mh" using hash_length [OF assms, of ?m] by simp
    note key = storeChunk_key_ok [OF this]
    have "StoreFile h data ht ft calls0 = Some (Inr (?calls @ [(?mh, ?m)], ?mh))"
      unfolding StoreFile.simps [of h data] fold using True key by (simp add: Let_def)
    moreover have "RetrieveFile lookup ?mh = (if ft = TypeMetaFile then RetrieveFile lookup data else Some (Inr (Some data)))"
      if l: "\<forall>(k, c) \<in> set (?calls @ [(?mh, ?m)]). lookup k = Some c" for lookup
    proof -
      have "lookup ?mh = Some ?m" using l by simp
      then have "retrieve_blocks lookup (HashLength ! unat ht) ?mh [] = Inr (Some ?m)"
        using retrieve_fold [OF assms, of "[?m]" lookup TypeMetaFile "[]"] by simp
      then have "retrieve_level lookup ?mh = Inr (TypeMetaFile, Some ?m)"
        using N by (simp add: retrieve_level_def go_nth_def)
      then have "RetrieveFile lookup ?mh = RetrieveFile lookup ?m" by (subst RetrieveFile.simps) simp
      also have "\<dots> = (if ft = TypeMetaFile then RetrieveFile lookup data else Some (Inr (Some data)))"
        using l by (intro meta) auto
      finally show ?thesis .
    qed
    ultimately show ?thesis by (intro exI conjI) auto
  next
    case False
    then have short: "length ?m < length data" by (intro meta_shorter [OF assms]) simp
    have "?m \<noteq> []" using False by (auto simp: ChunkSize_def)
    from less.hyps [OF short this, of TypeMetaFile ?calls] obtain calls mh
      where r: "StoreFile h ?m ht TypeMetaFile ?calls = Some (Inr (calls, mh))" "set ?calls \<subseteq> set calls"
        "\<And>lookup. \<forall>(k, c) \<in> set calls. lookup k = Some c \<Longrightarrow> RetrieveFile lookup mh = RetrieveFile lookup ?m" by auto
    have "StoreFile h data ht ft calls0 = Some (Inr (calls, mh))"
      unfolding StoreFile.simps [of h data] fold using False r(1) by simp
    moreover have "RetrieveFile lookup mh = (if ft = TypeMetaFile then RetrieveFile lookup data else Some (Inr (Some data)))"
      if l: "\<forall>(k, c) \<in> set calls. lookup k = Some c" for lookup
    proof -
      have "RetrieveFile lookup ?m = (if ft = TypeMetaFile then RetrieveFile lookup data else Some (Inr (Some data)))"
        using l r(2) by (intro meta) fastforce
      with r(3) [OF l] show ?thesis by simp
    qed
    ultimately show ?thesis using r(2) by (intro exI conjI) auto
  qed
qed

text \<open>
  Claim C32. Files come back: storing a non-empty file of basic type under any supported hash ends, for every length of
  the file and hence every depth of the tree of meta files, and retrieving the returned block from any store that gives
  back the chunks stored yields exactly the file.
\<close>

theorem StoreFile_RetrieveFile:
  assumes "hash_laws h" and "unat ht < 6" and "data \<noteq> []"
  shows "\<exists>calls mh. StoreFile h data ht TypeBasicFile [] = Some (Inr (calls, mh)) \<and>
    (\<forall>lookup. (\<forall>(k, c) \<in> set calls. lookup k = Some c) \<longrightarrow> RetrieveFile lookup mh = Some (Inr (Some data)))"
  using StoreFile_retrieve [OF assms, of TypeBasicFile "[]"] by (auto simp: TypeBasicFile_def TypeMetaFile_def)

definition toy_hashes :: Hashes where
  "toy_hashes = \<lparr>Sum224 = (\<lambda>d. take 28 (d @ replicate 28 0)), Sum_256 = (\<lambda>d. take 32 (d @ replicate 32 0)),
     Sum384 = (\<lambda>d. take 48 (d @ replicate 48 0)), Sum512 = (\<lambda>d. take 64 (d @ replicate 64 0)),
     Sum512_224 = (\<lambda>d. take 28 (d @ replicate 28 0)), Sum512_256 = (\<lambda>d. take 32 (d @ replicate 32 0))\<rparr>"

lemma toy_hashes_laws: "hash_laws toy_hashes"
  by (auto simp: hash_laws_def toy_hashes_def min_def)

theorem StoreFile_RetrieveFile_witness:
  "\<exists>calls mh. StoreFile toy_hashes [1, 2, 3] 1 TypeBasicFile [] = Some (Inr (calls, mh)) \<and>
    (\<forall>lookup. (\<forall>(k, c) \<in> set calls. lookup k = Some c) \<longrightarrow> RetrieveFile lookup mh = Some (Inr (Some [1, 2, 3])))"
  by (rule StoreFile_RetrieveFile [OF toy_hashes_laws]) simp_all

lemma StoreFile_empty:
  assumes "hash_laws h" "unat ht < 6"
  shows "StoreFile h [] ht ft [] = Some (Inr ([(hash_block h ht TypeMetaFile [], [])], hash_block h ht TypeMetaFile []))"
proof -
  have N: "go_nth HashLength (unat ht) = Inr (HashLength ! unat ht)" using assms(2) by (simp add: go_nth_def HashLength_def)
  have "10 \<le> length (hash_block h ht TypeMetaFile [])" using hash_length [OF assms, of "[]"] by simp
  note key = storeChunk_key_ok [OF this]
  show ?thesis by (subst StoreFile.simps) (use key N in \<open>simp add: ChunkSize_def Let_def\<close>)
qed

text \<open>
  Empty files do not come back: storing an empty file succeeds, but retrieving the returned block from a store that
  holds the empty meta file indexes the empty meta file and panics.
\<close>

theorem RetrieveFile_empty_panics:
  assumes "hash_laws h" and "unat ht < 6"
    and "StoreFile h [] ht ft [] = Some (Inr (calls, mh))" and "\<forall>(k, c) \<in> set calls. lookup k = Some c"
  shows "RetrieveFile lookup mh = Some (Inl IndexOutOfRange)"
proof -
  let ?mh = "hash_block h ht TypeMetaFile []"
  have N: "go_nth HashLength (unat ht) = Inr (HashLength ! unat ht)" using assms(2) by (simp add: go_nth_def HashLength_def)
  note StoreFile_empty [OF assms(1,2), of ft]
  with assms(3) have e: "calls = [(?mh, [])]" "mh = ?mh" by auto
  with assms(4) have l: "lookup ?mh = Some []" by simp
  have "retrieve_blocks lookup (HashLength ! unat ht) ?mh [] = Inr (Some [])"
    using retrieve_fold [OF assms(1,2), of "[[]]" lookup TypeMetaFile "[]"] l by simp
  then have "retrieve_level lookup ?mh = Inr (TypeMetaFile, Some [])" using N by (simp add: retrieve_level_def go_nth_def)
  moreover have "retrieve_level lookup [] = Inl IndexOutOfRange" by (simp add: retrieve_level_def go_nth_def)
  then have "RetrieveFile lookup [] = Some (Inl IndexOutOfRange)" by (subst RetrieveFile.simps) simp
  ultimately show ?thesis unfolding e(2) by (subst RetrieveFile.simps) simp
qed


theorem RetrieveFile_empty_panics_witness:
  "\<exists>calls mh. StoreFile toy_hashes [] 1 TypeBasicFile [] = Some (Inr (calls, mh)) \<and>
    RetrieveFile (map_of calls) mh = Some (Inl IndexOutOfRange)"
proof -
  let ?mh = "hash_block toy_hashes 1 TypeMetaFile []"
  have s: "StoreFile toy_hashes [] 1 TypeBasicFile [] = Some (Inr ([(?mh, [])], ?mh))"
    by (rule StoreFile_empty [OF toy_hashes_laws]) simp
  have "RetrieveFile (map_of [(?mh, [])]) ?mh = Some (Inl IndexOutOfRange)"
    by (rule RetrieveFile_empty_panics [OF toy_hashes_laws _ s]) simp_all
  with s show ?thesis by blast
qed

end
