(* ===== verification/Files.thy ===== *)
theory Files
  imports Store Ledger
begin

text \<open>
  File sharing between gossipers (\<open>src/gossiper/filehandler.go\<close>, \<open>src/gossiper/filesharing.go\<close>, the slice helpers of
  \<open>src/helpers/generalhelpers.go\<close>, and the loops for data requests and replies of \<open>src/gossiper/mainhandler.go\<close>). SHA-256 is the argument \<open>H\<close>. A
  download waits on a list of events: replies and ticks of its two timers; \<open>None\<close> means that it still waits when the list ends. The
  order in which a Go map yields its keys is an argument (\<open>ord\<close>, \<open>ords\<close>). Metadata are shared by pointer in the code: the
  model writes them back under their key. The capacity of a slice is taken to be its length.
\<close>

section \<open>Slices\<close>

text \<open>\<open>sort.Search\<close>: the binary search of Go's library, with the predicate as a list of results.\<close>

function sort_Search :: "bool list \<Rightarrow> nat \<Rightarrow> nat \<Rightarrow> nat" where
  "sort_Search fs i j =
     (if i < j then
        let h = (i + j) div 2
        in if \<not> fs ! h then sort_Search fs (h + 1) j else sort_Search fs i h
      else i)"
  by auto
termination by (relation "measure (\<lambda>(fs, i, j). j - i)") auto

declare sort_Search.simps [simp del]

definition InsertToSortUint64Slice :: "uint64 list \<Rightarrow> uint64 \<Rightarrow> uint64 list" where
  "InsertToSortUint64Slice data el =
     (let index = sort_Search (map (\<lambda>x. x > el) data) 0 (length data)
      in take index data @ el # drop index data)"

definition RemoveDuplicatesFromUint64Slice :: "(uint64 list \<Rightarrow> uint64 list) \<Rightarrow> uint64 list \<Rightarrow> uint64 list" where
  "RemoveDuplicatesFromUint64Slice ord xs = ord (remdups xs)"

definition RemoveDuplicatesFromStringSlice :: "(string list \<Rightarrow> string list) \<Rightarrow> string list \<Rightarrow> string list" where
  "RemoveDuplicatesFromStringSlice ords xs = ords (remdups xs)"

section \<open>State\<close>

record FileMetadata =
  fm_FileName :: string
  fm_MetafileHash :: bytes
  fm_ChunkCount :: uint64
  fm_ChunkMap :: "uint64 list"
  fm_Size :: "64 word"

record FileHandler =
  fh_hashDataMap :: "string \<rightharpoonup> bytes"
  fh_filesMetadata :: "(string \<times> FileMetadata) list"
  fh_hashChannels :: "string set"
  fh_lastSearchRequests :: "string \<rightharpoonup> nat"
  fh_ChunkOwners :: "string \<rightharpoonup> string list"

definition NewFileHandler :: FileHandler where
  "NewFileHandler = \<lparr>fh_hashDataMap = Map.empty, fh_filesMetadata = [], fh_hashChannels = {}, fh_lastSearchRequests = Map.empty,
     fh_ChunkOwners = Map.empty\<rparr>"

definition fileChunk :: nat where "fileChunk = 8192"

datatype file_action =
    PublishTxBlock FileMetadata
  | GuiIndexed FileGUI
  | GuiDownloaded FileGUI
  | GuiSearched FileGUI
  | SendPacketTo GossipPacket address
  | HandOver string DataReply
  | CopyFile string string
  | SaveFile string bytes
  | HandleSearchResult string SearchResult
  | FetchMetafile string string "uint64 list"
  | SearchRequestFor SearchRequest bool

definition metadata_FileGUI :: "FileMetadata \<Rightarrow> FileGUI" where
  "metadata_FileGUI f = \<lparr>fg_Name = fm_FileName f, fg_MetaHash = EncodeToString (fm_MetafileHash f), fg_Size = fm_Size f\<rparr>"

definition data_Load :: "FileHandler \<Rightarrow> bytes \<Rightarrow> bytes option" where
  "data_Load fh hash = fh_hashDataMap fh (EncodeToString hash)"

definition data_LoadOrStore :: "FileHandler \<Rightarrow> bytes \<Rightarrow> bytes \<Rightarrow> FileHandler" where
  "data_LoadOrStore fh hash v =
     (if data_Load fh hash = None then fh\<lparr>fh_hashDataMap := (fh_hashDataMap fh)(EncodeToString hash \<mapsto> v)\<rparr> else fh)"

interpretation file_data: write_once data_Load data_LoadOrStore
  by unfold_locales (auto simp: data_Load_def data_LoadOrStore_def EncodeToString_inj)

definition store_metadata :: "FileHandler \<Rightarrow> string \<Rightarrow> FileMetadata \<Rightarrow> FileHandler" where
  "store_metadata fh key f = fh\<lparr>fh_filesMetadata := AList.update key f (fh_filesMetadata fh)\<rparr>"

definition metadata_LoadOrStore :: "FileHandler \<Rightarrow> string \<Rightarrow> FileMetadata \<Rightarrow> FileMetadata \<times> bool \<times> FileHandler" where
  "metadata_LoadOrStore fh key f =
     (case map_of (fh_filesMetadata fh) key of
        Some f' \<Rightarrow> (f', True, fh)
      | None \<Rightarrow> (f, False, store_metadata fh key f))"

section \<open>Indexing\<close>

definition file_chunk :: "bytes \<Rightarrow> nat \<Rightarrow> bytes" where
  "file_chunk data i = take (min fileChunk (length data - i * fileChunk)) (drop (i * fileChunk) data)"

definition numFileChunks :: "bytes \<Rightarrow> nat" where
  "numFileChunks data = (length data + fileChunk - 1) div fileChunk"

text \<open>The loop over the chunks: data map, hashes, chunk map.\<close>

definition index_chunk :: "(bytes \<Rightarrow> bytes) \<Rightarrow> bytes \<Rightarrow> FileHandler \<times> bytes \<times> uint64 list \<Rightarrow> nat \<Rightarrow> FileHandler \<times> bytes \<times> uint64 list" where
  "index_chunk H data st i =
     (case st of (fh, hashes, chunkMap) \<Rightarrow>
        let partBuffer = file_chunk data i; hash = H partBuffer
        in (data_LoadOrStore fh hash partBuffer, hashes @ hash, chunkMap @ [of_nat i + 1]))"

text \<open>\<open>content\<close> is what can be read of the file, if it can be opened.\<close>

definition indexFile ::
  "(bytes \<Rightarrow> bytes) \<Rightarrow> AppConstants \<Rightarrow> FileHandler \<Rightarrow> string \<Rightarrow> bytes option \<Rightarrow> FileHandler \<times> file_action list" where
  "indexFile H app fh fileName content =
     (case content of None \<Rightarrow> (fh, [])
      | Some data \<Rightarrow>
          (case foldl (index_chunk H data) (fh, [], []) [0..<numFileChunks data] of (fh1, hashes, chunkMap) \<Rightarrow>
             let metahash = H hashes; keyHash = EncodeToString metahash; fh2 = data_LoadOrStore fh1 metahash hashes
             in case metadata_LoadOrStore fh2 (GetKeyFromString H (keyHash @ fileName))
                       \<lparr>fm_FileName = fileName, fm_MetafileHash = metahash, fm_ChunkCount = of_nat (numFileChunks data),
                        fm_ChunkMap = chunkMap, fm_Size = of_nat (length data)\<rparr> of
                  (f, loaded, fh3) \<Rightarrow>
                    (fh3, if ((app_hw3ex2Mode app \<or> app_hw3ex3Mode app) \<and> \<not> loaded) \<or> app_hw3ex4Mode app then [PublishTxBlock f]
                          else if \<not> loaded then [GuiIndexed (metadata_FileGUI f)] else [])))"

section \<open>Chunk maps and owners\<close>

definition chunk_slice :: "bytes \<Rightarrow> uint64 \<Rightarrow> bytes go" where
  "chunk_slice metafile i = go_slice metafile (unat (i * 32)) (unat ((i + 1) * 32))"

definition add_chunk :: "(uint64 list \<Rightarrow> uint64 list) \<Rightarrow> FileMetadata \<Rightarrow> uint64 \<Rightarrow> FileMetadata" where
  "add_chunk ord f i = f\<lparr>fm_ChunkMap := RemoveDuplicatesFromUint64Slice ord (InsertToSortUint64Slice (fm_ChunkMap f) i)\<rparr>"

definition updateChunkMap ::
  "(uint64 list \<Rightarrow> uint64 list) \<Rightarrow> FileHandler \<Rightarrow> FileMetadata \<Rightarrow> bytes \<Rightarrow> FileMetadata go" where
  "updateChunkMap ord fh f metafile =
     go_foldM (\<lambda>f i. go_bind (chunk_slice metafile (of_nat i)) (\<lambda>hashChunk.
         Inr (if data_Load fh hashChunk \<noteq> None then add_chunk ord f (of_nat i + 1) else f)))
       f [0..<unat (fm_ChunkCount f)]"

fun all_located :: "FileHandler \<Rightarrow> bytes \<Rightarrow> nat list \<Rightarrow> bool go" where
  "all_located fh metafile [] = Inr True"
| "all_located fh metafile (i # is) =
     go_bind (chunk_slice metafile (of_nat i)) (\<lambda>hash.
       case fh_ChunkOwners fh (EncodeToString hash) of
         None \<Rightarrow> Inr False
       | Some owners \<Rightarrow> if owners = [] then Inr False else all_located fh metafile is)"

definition checkAllChunksLocation :: "FileHandler \<Rightarrow> FileMetadata \<Rightarrow> bool go" where
  "checkAllChunksLocation fh f =
     (case data_Load fh (fm_MetafileHash f) of None \<Rightarrow> Inr False
      | Some metafile \<Rightarrow> all_located fh metafile [0..<unat (fm_ChunkCount f)])"

definition add_owner :: "(string list \<Rightarrow> string list) \<Rightarrow> FileHandler \<Rightarrow> bytes \<Rightarrow> string \<Rightarrow> FileHandler" where
  "add_owner ords fh hash peer =
     (let key = EncodeToString hash; owners = (case fh_ChunkOwners fh key of None \<Rightarrow> [] | Some ps \<Rightarrow> ps)
      in fh\<lparr>fh_ChunkOwners := (fh_ChunkOwners fh)(key \<mapsto> RemoveDuplicatesFromStringSlice ords (owners @ [peer]))\<rparr>)"

definition updateChunkOwnerMap ::
  "(string list \<Rightarrow> string list) \<Rightarrow> FileHandler \<Rightarrow> string \<Rightarrow> uint64 list \<Rightarrow> bytes \<Rightarrow> FileHandler go" where
  "updateChunkOwnerMap ords fh destination chunkMap metafile =
     go_foldM (\<lambda>fh elem. go_bind (chunk_slice metafile (elem - 1)) (\<lambda>chunkHash. Inr (add_owner ords fh chunkHash destination)))
       fh chunkMap"

section \<open>Requests and replies for data\<close>

text \<open>A packet forwarded through a pointer to its hop limit: the new limit, and what is sent.\<close>

definition forward_to :: "Node \<Rightarrow> uint32 \<Rightarrow> string \<Rightarrow> (uint32 \<Rightarrow> GossipPacket) \<Rightarrow> uint32 \<times> file_action list" where
  "forward_to nd hop destination packet =
     (case forwardPrivateMessage (nd_routing nd) hop destination of
        (hop', None) \<Rightarrow> (hop', [])
      | (hop', Some next_hop) \<Rightarrow> (hop', [SendPacketTo (packet hop') next_hop]))"

definition data_reply_packet :: "DataReply \<Rightarrow> uint32 \<Rightarrow> GossipPacket" where
  "data_reply_packet d hop = empty_packet\<lparr>gp_DataReply := Some (d\<lparr>dr_HopLimit := hop\<rparr>)\<rparr>"

definition data_request_packet :: "DataRequest \<Rightarrow> uint32 \<Rightarrow> GossipPacket" where
  "data_request_packet d hop = empty_packet\<lparr>gp_DataRequest := Some (d\<lparr>dq_HopLimit := hop\<rparr>)\<rparr>"

definition answer_request :: "AppConstants \<Rightarrow> Node \<Rightarrow> FileHandler \<Rightarrow> DataRequest \<Rightarrow> DataReply" where
  "answer_request app nd fh dq =
     \<lparr>dr_Origin = nd_Name nd, dr_Destination = dq_Origin dq, dr_HopLimit = of_nat (app_hopLimit app), dr_HashValue = dq_HashValue dq,
      dr_Data = data_Load fh (dq_HashValue dq)\<rparr>"

definition processDataRequest :: "AppConstants \<Rightarrow> Node \<Rightarrow> FileHandler \<Rightarrow> ExtendedGossipPacket \<Rightarrow> file_action list go" where
  "processDataRequest app nd fh ext =
     go_bind (go_deref (gp_DataRequest (ext_Packet ext))) (\<lambda>dq.
       if dq_Destination dq = nd_Name nd then
         let d = answer_request app nd fh dq
         in Inr (snd (forward_to nd (dr_HopLimit d) (dr_Destination d) (data_reply_packet d)))
       else Inr (snd (forward_to nd (dq_HopLimit dq) (dq_Destination dq)
              (\<lambda>hop. (ext_Packet ext)\<lparr>gp_DataRequest := Some (dq\<lparr>dq_HopLimit := hop\<rparr>)\<rparr>))))"

definition reply_key :: "(bytes \<Rightarrow> bytes) \<Rightarrow> bytes \<Rightarrow> string \<Rightarrow> string" where
  "reply_key H hash peer = GetKeyFromString H (EncodeToString hash @ peer)"

text \<open>The channel of a reply is looked up and its type asserted, whether or not anything was requested.\<close>

definition processDataReply :: "(bytes \<Rightarrow> bytes) \<Rightarrow> Node \<Rightarrow> FileHandler \<Rightarrow> ExtendedGossipPacket \<Rightarrow> file_action list go" where
  "processDataReply H nd fh ext =
     go_bind (go_deref (gp_DataReply (ext_Packet ext))) (\<lambda>d.
       if dr_Destination d = nd_Name nd then
         (case dr_Data d of
            None \<Rightarrow> Inr []
          | Some data \<Rightarrow>
              if checkHash H (dr_HashValue d) data then
                let key = reply_key H (dr_HashValue d) (dr_Origin d)
                in if key \<in> fh_hashChannels fh then Inr [HandOver key d] else Inl FailedTypeAssertion
              else Inr [])
       else Inr (snd (forward_to nd (dr_HopLimit d) (dr_Destination d)
              (\<lambda>hop. (ext_Packet ext)\<lparr>gp_DataReply := Some (d\<lparr>dr_HopLimit := hop\<rparr>)\<rparr>))))"

section \<open>Downloading\<close>

datatype download_event = Reply DataReply | RequestTick | StopTick

fun download_wait ::
  "Node \<Rightarrow> DataRequest \<Rightarrow> download_event list \<Rightarrow> (DataReply option \<times> file_action list \<times> download_event list) option" where
  "download_wait nd dq [] = None"
| "download_wait nd dq (Reply d # es) = Some (Some d, [], es)"
| "download_wait nd dq (StopTick # es) = Some (None, [], es)"
| "download_wait nd dq (RequestTick # es) =
     (case forward_to nd (dq_HopLimit dq) (dq_Destination dq) (data_request_packet dq) of (hop, acts) \<Rightarrow>
        map_option (\<lambda>(r, acts', es'). (r, acts @ acts', es')) (download_wait nd (dq\<lparr>dq_HopLimit := hop\<rparr>) es))"

definition data_request :: "AppConstants \<Rightarrow> Node \<Rightarrow> string \<Rightarrow> bytes \<Rightarrow> DataRequest" where
  "data_request app nd peer hash = \<lparr>dq_Origin = nd_Name nd, dq_Destination = peer, dq_HopLimit = of_nat (app_hopLimit app), dq_HashValue = hash\<rparr>"

text \<open>The flag tells whether the data came; a nil slice is stored as the empty one.\<close>

definition downloadDataFromPeer ::
  "(bytes \<Rightarrow> bytes) \<Rightarrow> AppConstants \<Rightarrow> Node \<Rightarrow> FileHandler \<Rightarrow> string \<Rightarrow> bytes \<Rightarrow> download_event list \<Rightarrow>
   (bool \<times> FileHandler \<times> file_action list \<times> download_event list) option" where
  "downloadDataFromPeer H app nd fh peer hash events =
     (let fh1 = fh\<lparr>fh_hashChannels := insert (reply_key H hash peer) (fh_hashChannels fh)\<rparr>;
          dq = data_request app nd peer hash
      in case forward_to nd (dq_HopLimit dq) (dq_Destination dq) (data_request_packet dq) of (hop, acts) \<Rightarrow>
         map_option (\<lambda>(r, acts', events').
             (case r of
                None \<Rightarrow> (False, fh1, acts @ acts', events')
              | Some d \<Rightarrow> (True, data_LoadOrStore fh1 hash (case dr_Data d of None \<Rightarrow> [] | Some b \<Rightarrow> b), acts @ acts', events')))
           (download_wait nd (dq\<lparr>dq_HopLimit := hop\<rparr>) events))"

record Download =
  dl_files :: FileHandler
  dl_meta :: FileMetadata
  dl_data :: bytes
  dl_retrieved :: nat
  dl_size :: nat
  dl_actions :: "file_action list"
  dl_events :: "download_event list"

text \<open>Every peer is tried in turn until one has the chunk; \<open>key\<close> is where the metadata are stored.\<close>

fun try_peers ::
  "(bytes \<Rightarrow> bytes) \<Rightarrow> (uint64 list \<Rightarrow> uint64 list) \<Rightarrow> (string list \<Rightarrow> string list) \<Rightarrow> AppConstants \<Rightarrow> Node \<Rightarrow> string \<Rightarrow> string \<Rightarrow> bytes \<Rightarrow> nat \<Rightarrow>
   string list \<Rightarrow> Download \<Rightarrow> Download option" where
  "try_peers H ord ords app nd key destination hashChunk i [] dl = Some dl"
| "try_peers H ord ords app nd key destination hashChunk i (peer # peers) dl =
     Option.bind (downloadDataFromPeer H app nd (dl_files dl) peer hashChunk (dl_events dl)) (\<lambda>(found, fh, acts, events).
       let dl1 = dl\<lparr>dl_files := fh, dl_actions := dl_actions dl @ acts, dl_events := events\<rparr>
       in if found then
            let fh1 = (if peer = destination then add_owner ords fh hashChunk peer else fh);
                f = add_chunk ord (dl_meta dl) (of_nat i + 1)
            in Some (dl1\<lparr>dl_files := store_metadata fh1 key f, dl_meta := f\<rparr>)
          else try_peers H ord ords app nd key destination hashChunk i peers dl1)"

definition download_chunk ::
  "(bytes \<Rightarrow> bytes) \<Rightarrow> (uint64 list \<Rightarrow> uint64 list) \<Rightarrow> (string list \<Rightarrow> string list) \<Rightarrow> AppConstants \<Rightarrow> Node \<Rightarrow> string \<Rightarrow> string \<Rightarrow> bytes \<Rightarrow>
   Download \<Rightarrow> nat \<Rightarrow> Download go option" where
  "download_chunk H ord ords app nd key destination metafile dl i =
     (case chunk_slice metafile (of_nat i) of
        Inl e \<Rightarrow> Some (Inl e)
      | Inr hashChunk \<Rightarrow>
          Option.bind
            (if data_Load (dl_files dl) hashChunk \<noteq> None then Some dl
             else
               let owners = (case fh_ChunkOwners (dl_files dl) (EncodeToString hashChunk) of None \<Rightarrow> [] | Some ps \<Rightarrow> ps);
                   peersWithChunk = (if destination \<noteq> [] then destination # owners else owners)
               in try_peers H ord ords app nd key destination hashChunk i peersWithChunk dl)
            (\<lambda>dl1. case data_Load (dl_files dl1) hashChunk of
               None \<Rightarrow> Some (Inr dl1)
             | Some chunk \<Rightarrow>
                 Some (go_bind (go_slice (dl_data dl1) (i * fileChunk) (i * fileChunk + length chunk)) (\<lambda>_.
                   Inr (dl1\<lparr>dl_data := take (i * fileChunk) (dl_data dl1) @ chunk @ drop (i * fileChunk + length chunk) (dl_data dl1),
                            dl_size := dl_size dl1 + length chunk, dl_retrieved := dl_retrieved dl1 + 1\<rparr>)))))"

fun download_chunks ::
  "(bytes \<Rightarrow> bytes) \<Rightarrow> (uint64 list \<Rightarrow> uint64 list) \<Rightarrow> (string list \<Rightarrow> string list) \<Rightarrow> AppConstants \<Rightarrow> Node \<Rightarrow> string \<Rightarrow> string \<Rightarrow> bytes \<Rightarrow>
   nat list \<Rightarrow> Download \<Rightarrow> Download go option" where
  "download_chunks H ord ords app nd key destination metafile [] dl = Some (Inr dl)"
| "download_chunks H ord ords app nd key destination metafile (i # is) dl =
     go_option_bind (download_chunk H ord ords app nd key destination metafile dl i) (\<lambda>dl'.
       download_chunks H ord ords app nd key destination metafile is dl')"

definition finish_download :: "string \<Rightarrow> Download \<Rightarrow> (FileHandler \<times> file_action list \<times> download_event list) go" where
  "finish_download key dl =
     (if unat (fm_ChunkCount (dl_meta dl)) = dl_retrieved dl then
        go_bind (go_slice (dl_data dl) 0 (dl_size dl)) (\<lambda>fileReconstructed.
          let f = (dl_meta dl)\<lparr>fm_Size := of_nat (dl_size dl)\<rparr>
          in Inr (store_metadata (dl_files dl) key f,
                  dl_actions dl @ [SaveFile (fm_FileName f) fileReconstructed, GuiDownloaded (metadata_FileGUI f)], dl_events dl))
      else Inr (dl_files dl, dl_actions dl, dl_events dl))"

text \<open>What follows when the metafile is known.\<close>

definition download_known ::
  "(bytes \<Rightarrow> bytes) \<Rightarrow> (uint64 list \<Rightarrow> uint64 list) \<Rightarrow> (string list \<Rightarrow> string list) \<Rightarrow> AppConstants \<Rightarrow> Node \<Rightarrow> FileHandler \<Rightarrow> string \<Rightarrow> string \<Rightarrow> bytes \<Rightarrow>
   bytes \<Rightarrow> file_action list \<Rightarrow> download_event list \<Rightarrow> (FileHandler \<times> file_action list \<times> download_event list) go option" where
  "download_known H ord ords app nd fh fileName destination metaHash metafile acts events =
     (let key = GetKeyFromString H (EncodeToString metaHash @ fileName)
      in case metadata_LoadOrStore fh key \<lparr>fm_FileName = fileName, fm_MetafileHash = metaHash,
                fm_ChunkCount = of_nat (length metafile div 32), fm_ChunkMap = [], fm_Size = 0\<rparr> of
           (f0, loaded, fh1) \<Rightarrow>
             (case updateChunkMap ord fh1 f0 metafile of
                Inl e \<Rightarrow> Some (Inl e)
              | Inr f \<Rightarrow>
                  let fh2 = store_metadata fh1 key f
                  in if fm_Size f \<noteq> 0 then
                       Some (Inr (fh2, acts @ (if fm_FileName f \<noteq> fileName then [CopyFile (fm_FileName f) fileName] else []), events))
                     else
                       go_option_bind
                         (download_chunks H ord ords app nd key destination metafile [0..<unat (fm_ChunkCount f)]
                            \<lparr>dl_files = fh2, dl_meta = f, dl_data = replicate (unat (fm_ChunkCount f) * fileChunk) 0,
                             dl_retrieved = 0, dl_size = 0, dl_actions = acts, dl_events = events\<rparr>)
                         (\<lambda>dl. Some (finish_download key dl))))"

definition downloadFileChunks ::
  "(bytes \<Rightarrow> bytes) \<Rightarrow> (uint64 list \<Rightarrow> uint64 list) \<Rightarrow> (string list \<Rightarrow> string list) \<Rightarrow> AppConstants \<Rightarrow> Node \<Rightarrow> FileHandler \<Rightarrow> string \<Rightarrow> string \<Rightarrow> bytes \<Rightarrow>
   download_event list \<Rightarrow> (FileHandler \<times> file_action list \<times> download_event list) go option" where
  "downloadFileChunks H ord ords app nd fh fileName destination metaHash events =
     (case data_Load fh metaHash of
        Some metafile \<Rightarrow> download_known H ord ords app nd fh fileName destination metaHash metafile [] events
      | None \<Rightarrow>
          if destination = [] then Some (Inr (fh, [], events))
          else
            Option.bind (downloadDataFromPeer H app nd fh destination metaHash events) (\<lambda>(found, fh1, acts, events1).
              if \<not> found then Some (Inr (fh1, acts, events1))
              else
                (case data_Load fh1 metaHash of
                   None \<Rightarrow> Some (Inl FailedTypeAssertion)
                 | Some metafile \<Rightarrow> download_known H ord ords app nd fh1 fileName destination metaHash metafile acts events1)))"

section \<open>Sorted insertion\<close>

lemma sort_Search_bounds: "i \<le> j \<Longrightarrow> i \<le> sort_Search fs i j \<and> sort_Search fs i j \<le> j"
proof (induction fs i j rule: sort_Search.induct)
  case (1 fs i j)
  let ?h = "(i + j) div 2"
  show ?case
  proof (cases "i < j")
    case True
    then have h: "i \<le> ?h" "?h < j" by auto
    show ?thesis
    proof (cases "fs ! ?h")
      case t: True
      with 1(2) [OF True refl] h have "i \<le> sort_Search fs i ?h \<and> sort_Search fs i ?h \<le> ?h" by simp
      with h True t show ?thesis by (simp add: sort_Search.simps [of fs i j] Let_def)
    next
      case f: False
      with 1(1) [OF True refl] h have "?h + 1 \<le> sort_Search fs (?h + 1) j \<and> sort_Search fs (?h + 1) j \<le> j" by simp
      with h True f show ?thesis by (simp add: sort_Search.simps [of fs i j] Let_def)
    qed
  next
    case False
    then have "sort_Search fs i j = i" by (simp add: sort_Search.simps [of fs i j])
    with False 1(3) show ?thesis by simp
  qed
qed

text \<open>On a predicate that stays true once it is, the search finds where it becomes true.\<close>

lemma sort_Search_split:
  assumes mono: "\<And>k l. k \<le> l \<Longrightarrow> l < length fs \<Longrightarrow> fs ! k \<Longrightarrow> fs ! l"
  shows "i \<le> j \<Longrightarrow> j \<le> length fs \<Longrightarrow> (\<forall>k < i. \<not> fs ! k) \<Longrightarrow> (\<forall>k. j \<le> k \<longrightarrow> k < length fs \<longrightarrow> fs ! k) \<Longrightarrow>
    (\<forall>k < sort_Search fs i j. \<not> fs ! k) \<and> (\<forall>k. sort_Search fs i j \<le> k \<longrightarrow> k < length fs \<longrightarrow> fs ! k)"
proof (induction "j - i" arbitrary: i j rule: less_induct)
  case less
  let ?h = "(i + j) div 2"
  show ?case
  proof (cases "i < j")
    case True
    then have h: "i \<le> ?h" "?h < j" by auto
    show ?thesis
    proof (cases "fs ! ?h")
      case t: True
      have "\<forall>k. ?h \<le> k \<longrightarrow> k < length fs \<longrightarrow> fs ! k" using mono t by blast
      with less.hyps [of ?h i] less.prems h True t show ?thesis by (simp add: sort_Search.simps [of fs i j] Let_def)
    next
      case f: False
      have "\<forall>k < ?h + 1. \<not> fs ! k" using mono [of _ ?h] f h(2) less.prems(2) by (auto simp: less_Suc_eq_le)
      with less.hyps [of j "?h + 1"] less.prems h True f show ?thesis by (simp add: sort_Search.simps [of fs i j] Let_def)
    qed
  next
    case False
    then have "sort_Search fs i j = i" by (simp add: sort_Search.simps [of fs i j])
    with False less.prems show ?thesis by auto
  qed
qed

lemma mset_InsertToSort: "mset (InsertToSortUint64Slice data el) = add_mset el (mset data)"
proof -
  let ?i = "sort_Search (map (\<lambda>x. x > el) data) 0 (length data)"
  have "mset (take ?i data) + mset (drop ?i data) = mset data" by (metis append_take_drop_id mset_append)
  then show ?thesis by (simp add: InsertToSortUint64Slice_def Let_def)
qed

lemma set_InsertToSort [simp]: "set (InsertToSortUint64Slice data el) = insert el (set data)"
  using arg_cong [OF mset_InsertToSort, of set_mset] by simp

text \<open>
  Insertion is correct on sorted slices: the binary search and the shift produce exactly the
  sorted slice with the element added.
\<close>

theorem InsertToSort_insort:
  assumes "sorted data"
  shows "InsertToSortUint64Slice data el = insort el data"
proof -
  let ?fs = "map (\<lambda>x. x > el) data"
  let ?i = "sort_Search ?fs 0 (length data)"
  have mono: "k \<le> l \<Longrightarrow> l < length ?fs \<Longrightarrow> ?fs ! k \<Longrightarrow> ?fs ! l" for k l
    using assms by (auto simp: sorted_iff_nth_mono intro: less_le_trans)
  have s: "\<forall>k < ?i. \<not> ?fs ! k" "\<forall>k. ?i \<le> k \<longrightarrow> k < length ?fs \<longrightarrow> ?fs ! k" and i: "?i \<le> length data"
    using sort_Search_split [where fs = ?fs and i = 0 and j = "length data", OF mono] sort_Search_bounds [of 0 "length data" ?fs] by auto
  have le: "x \<le> el" if "x \<in> set (take ?i data)" for x
    using that s(1) i by (auto simp: in_set_conv_nth not_less)
  have gt: "el < x" if x: "x \<in> set (drop ?i data)" for x
  proof -
    obtain k where k: "k < length (drop ?i data)" "x = drop ?i data ! k" using x unfolding in_set_conv_nth by blast
    then have "?i + k < length data" "x = data ! (?i + k)" using i by simp_all
    with s(2) [rule_format, of "?i + k"] show ?thesis by simp
  qed
  have "sorted (take ?i data @ el # drop ?i data)"
    using assms le order_less_imp_le [OF gt] by (auto simp: sorted_append sorted_wrt_take sorted_wrt_drop intro: order_trans [OF le])
  then have "sorted (InsertToSortUint64Slice data el)" by (simp add: InsertToSortUint64Slice_def Let_def)
  moreover have "mset (InsertToSortUint64Slice data el) = mset (insort el data)" by (simp add: mset_InsertToSort)
  ultimately show ?thesis using assms by (metis properties_for_sort sorted_insort sorted_sort_id)
qed

theorem InsertToSort_insort_witness:
  "InsertToSortUint64Slice [2, 5, 5, 9] 5 = [2, 5, 5, 5, 9]"
  using InsertToSort_insort [of "[2, 5, 5, 9]" 5] by simp

section \<open>Chunk maps\<close>

text \<open>An order in which a Go map may yield the keys of a set.\<close>

definition ranges :: "('a list \<Rightarrow> 'a list) \<Rightarrow> bool" where
  "ranges ord \<longleftrightarrow> (\<forall>xs. distinct xs \<longrightarrow> distinct (ord xs) \<and> set (ord xs) = set xs)"

lemma add_chunk_set:
  "ranges ord \<Longrightarrow> set (fm_ChunkMap (add_chunk ord f i)) = insert i (set (fm_ChunkMap f)) \<and> distinct (fm_ChunkMap (add_chunk ord f i))"
  by (simp add: ranges_def add_chunk_def RemoveDuplicatesFromUint64Slice_def)

lemma add_chunk_frame [simp]:
  "fm_FileName (add_chunk ord f i) = fm_FileName f" "fm_MetafileHash (add_chunk ord f i) = fm_MetafileHash f"
  "fm_ChunkCount (add_chunk ord f i) = fm_ChunkCount f" "fm_Size (add_chunk ord f i) = fm_Size f"
  by (simp_all add: add_chunk_def)

definition chunk_hash :: "bytes \<Rightarrow> nat \<Rightarrow> bytes" where
  "chunk_hash metafile i = take 32 (drop (i * 32) metafile)"

lemma chunk_slice_nat:
  assumes "32 * (i + 1) < 2 ^ 64"
  shows "chunk_slice metafile (of_nat i) = (if 32 * (i + 1) \<le> length metafile then Inr (chunk_hash metafile i) else Inl SliceOutOfRange)"
proof -
  have "(of_nat i :: uint64) * 32 = of_nat (i * 32)" "((of_nat i :: uint64) + 1) * 32 = of_nat ((i + 1) * 32)" by simp_all
  then have "unat ((of_nat i :: uint64) * 32) = i * 32" "unat (((of_nat i :: uint64) + 1) * 32) = (i + 1) * 32"
    using assms by (simp_all only: unat_of_nat) simp_all
  then show ?thesis by (auto simp: chunk_slice_def chunk_hash_def go_slice_def)
qed

definition stored_chunks :: "FileHandler \<Rightarrow> bytes \<Rightarrow> nat \<Rightarrow> uint64 set" where
  "stored_chunks fh metafile n = {of_nat i + 1 | i. i < n \<and> data_Load fh (chunk_hash metafile i) \<noteq> None}"

lemma updateChunkMap_fold:
  assumes "ranges ord" and "32 * n \<le> length metafile" and "length metafile < 2 ^ 64"
  shows "\<exists>f'. go_foldM (\<lambda>f i. go_bind (chunk_slice metafile (of_nat i)) (\<lambda>hashChunk.
         Inr (if data_Load fh hashChunk \<noteq> None then add_chunk ord f (of_nat i + 1) else f))) f [0..<n] = Inr f'
    \<and> set (fm_ChunkMap f') = set (fm_ChunkMap f) \<union> stored_chunks fh metafile n
    \<and> (distinct (fm_ChunkMap f) \<longrightarrow> distinct (fm_ChunkMap f'))
    \<and> fm_FileName f' = fm_FileName f \<and> fm_MetafileHash f' = fm_MetafileHash f \<and> fm_ChunkCount f' = fm_ChunkCount f \<and> fm_Size f' = fm_Size f"
  using assms(2)
proof (induction n)
  case 0
  then show ?case by (simp add: stored_chunks_def)
next
  case (Suc n)
  have S: "stored_chunks fh metafile (Suc n) =
      (if data_Load fh (chunk_hash metafile n) \<noteq> None then insert (of_nat n + 1) (stored_chunks fh metafile n) else stored_chunks fh metafile n)"
    by (auto simp: stored_chunks_def less_Suc_eq)
  have c: "chunk_slice metafile (of_nat n) = Inr (chunk_hash metafile n)"
    using Suc.prems assms(3) by (subst chunk_slice_nat) auto
  show ?case using Suc.IH Suc.prems add_chunk_set [OF assms(1)] c S
    by (auto simp: go_foldM_append)
qed

lemma upt_split: "k < n \<Longrightarrow> [0..<n] = [0..<k] @ k # [Suc k..<n]"
  using upt_add_eq_append [of 0 k "n - k"] by (simp add: upt_conv_Cons)

lemma updateChunkMap_short:
  assumes short: "length metafile < 32 * n" and n: "32 * n < 2 ^ 64"
  shows "go_foldM (\<lambda>f i. go_bind (chunk_slice metafile (of_nat i)) (\<lambda>hashChunk.
         Inr (if data_Load fh hashChunk \<noteq> None then add_chunk ord f (of_nat i + 1) else f))) f [0..<n] = Inl SliceOutOfRange"
proof -
  let ?step = "\<lambda>f i. go_bind (chunk_slice metafile (of_nat i)) (\<lambda>hashChunk.
         Inr (if data_Load fh hashChunk \<noteq> None then add_chunk ord f (of_nat i + 1) else f))"
  let ?k = "length metafile div 32"
  have k: "?k < n" using short by simp
  have fine: "go_foldM ?step f [0..<m] \<in> range Inr" if "m \<le> ?k" for m
    using that
  proof (induction m)
    case (Suc m)
    have "chunk_slice metafile (of_nat m) = Inr (chunk_hash metafile m)" using Suc.prems k n by (subst chunk_slice_nat) auto
    with Suc show ?case by (auto simp: go_foldM_append)
  qed simp
  obtain f' where f': "go_foldM ?step f [0..<?k] = Inr f'" using fine [OF order_refl] by (rule rangeE)
  have "chunk_slice metafile (of_nat ?k) = Inl SliceOutOfRange" using k n by (subst chunk_slice_nat) auto
  moreover have "[0..<n] = [0..<?k] @ ?k # [Suc ?k..<n]" using k by (rule upt_split)
  ultimately show ?thesis using f' by (simp add: go_foldM_append)
qed

text \<open>
  The chunk map after an update lists, next to what it had, exactly the chunks of the file that the data map holds, without
  duplicates, whatever order Go's map yields them in. A chunk count larger than the metafile has hashes (it comes from
  the network with a search result) crashes the node.
\<close>

theorem updateChunkMap_exact:
  assumes "ranges ord" and "length metafile < 2 ^ 64" and "32 * unat (fm_ChunkCount f) < 2 ^ 64"
  shows "if 32 * unat (fm_ChunkCount f) \<le> length metafile
    then \<exists>f'. updateChunkMap ord fh f metafile = Inr f'
      \<and> set (fm_ChunkMap f') = set (fm_ChunkMap f) \<union> stored_chunks fh metafile (unat (fm_ChunkCount f))
      \<and> (distinct (fm_ChunkMap f) \<longrightarrow> distinct (fm_ChunkMap f')) \<and> fm_ChunkCount f' = fm_ChunkCount f \<and> fm_Size f' = fm_Size f
    else updateChunkMap ord fh f metafile = Inl SliceOutOfRange"
  using updateChunkMap_fold [OF assms(1) _ assms(2), of "unat (fm_ChunkCount f)" fh f]
    updateChunkMap_short [of metafile "unat (fm_ChunkCount f)" fh ord f] assms(3)
  unfolding updateChunkMap_def by auto

definition sample_metafile :: bytes where
  "sample_metafile = replicate 32 1 @ replicate 32 2 @ replicate 32 3"

definition sample_files :: FileHandler where
  "sample_files = NewFileHandler\<lparr>fh_hashDataMap := [EncodeToString (replicate 32 2) \<mapsto> [7]]\<rparr>"

definition sample_metadata :: "nat \<Rightarrow> FileMetadata" where
  "sample_metadata n = \<lparr>fm_FileName = ''f'', fm_MetafileHash = [9], fm_ChunkCount = of_nat n, fm_ChunkMap = [], fm_Size = 0\<rparr>"

theorem updateChunkMap_exact_witness:
  "(\<exists>f'. updateChunkMap rev sample_files (sample_metadata 3) sample_metafile = Inr f') \<and>
   updateChunkMap rev sample_files (sample_metadata 4) sample_metafile = Inl SliceOutOfRange"
proof -
  have r: "ranges (rev :: uint64 list \<Rightarrow> uint64 list)" by (simp add: ranges_def)
  have l: "length sample_metafile = 96" by (simp add: sample_metafile_def)
  show ?thesis
    using updateChunkMap_exact [OF r, of sample_metafile "sample_metadata 3" sample_files]
      updateChunkMap_exact [OF r, of sample_metafile "sample_metadata 4" sample_files]
    by (auto simp: l sample_metadata_def)
qed

section \<open>Replies\<close>

text \<open>
  A data reply addressed to the node whose data have the stated hash is handed over to the download that waits for
  this hash from this peer; when no download of the node ever asked that peer for the hash, the node crashes. Replies without data or with
  other data are dropped.
\<close>

theorem processDataReply_exact:
  assumes "gp_DataReply (ext_Packet ext) = Some d" and "dr_Destination d = nd_Name nd"
  shows "processDataReply H nd fh ext =
    (if \<exists>data. dr_Data d = Some data \<and> checkHash H (dr_HashValue d) data then
       (if reply_key H (dr_HashValue d) (dr_Origin d) \<in> fh_hashChannels fh
        then Inr [HandOver (reply_key H (dr_HashValue d) (dr_Origin d)) d] else Inl FailedTypeAssertion)
     else Inr [])"
  using assms by (auto simp: processDataReply_def go_deref_def Let_def split: option.splits)

section \<open>The honest server\<close>

definition metafile_of :: "(bytes \<Rightarrow> bytes) \<Rightarrow> bytes \<Rightarrow> bytes" where
  "metafile_of H data = concat (map (\<lambda>i. H (file_chunk data i)) [0..<numFileChunks data])"

definition file_parts :: "(bytes \<Rightarrow> bytes) \<Rightarrow> bytes \<Rightarrow> bytes set" where
  "file_parts H data = insert (metafile_of H data) (file_chunk data ` {..<numFileChunks data})"

text \<open>The data map holds nothing else under the hashes of these parts.\<close>

definition holds_only :: "(bytes \<Rightarrow> bytes) \<Rightarrow> bytes set \<Rightarrow> FileHandler \<Rightarrow> bool" where
  "holds_only H P fh \<longleftrightarrow> (\<forall>x \<in> P. data_Load fh (H x) = None \<or> data_Load fh (H x) = Some x)"

definition holds_all :: "(bytes \<Rightarrow> bytes) \<Rightarrow> bytes set \<Rightarrow> FileHandler \<Rightarrow> bool" where
  "holds_all H P fh \<longleftrightarrow> (\<forall>x \<in> P. data_Load fh (H x) = Some x)"

lemma data_Load_LoadOrStore:
  "data_Load (data_LoadOrStore fh h v) h' = (if h' = h \<and> data_Load fh h = None then Some v else data_Load fh h')"
  by (auto simp: data_Load_def data_LoadOrStore_def EncodeToString_inj)

lemma data_Load_frame [simp]:
  "data_Load (store_metadata fh key f) h = data_Load fh h"
  "data_Load (add_owner ords fh hash peer) h = data_Load fh h"
  "data_Load (fh\<lparr>fh_hashChannels := c\<rparr>) h = data_Load fh h"
  by (simp_all add: data_Load_def store_metadata_def add_owner_def Let_def)

lemma metadata_frame [simp]:
  "fh_filesMetadata (data_LoadOrStore fh h v) = fh_filesMetadata fh"
  by (simp add: data_LoadOrStore_def)

lemma LoadOrStore_part:
  assumes "holds_only H P fh" and "inj_on H P" and "x \<in> P"
  shows "holds_only H P (data_LoadOrStore fh (H x) x)" "data_Load (data_LoadOrStore fh (H x) x) (H x) = Some x"
proof -
  show "data_Load (data_LoadOrStore fh (H x) x) (H x) = Some x"
    using assms(1,3) by (auto simp: data_Load_LoadOrStore holds_only_def)
  have "H y = H x \<longrightarrow> y = x" if "y \<in> P" for y using assms(2,3) that by (auto dest: inj_onD)
  then show "holds_only H P (data_LoadOrStore fh (H x) x)"
    using assms(1) by (auto simp: data_Load_LoadOrStore holds_only_def)
qed

lemma index_chunk_step:
  "index_chunk H data (fh, hashes, cm) i =
     (data_LoadOrStore fh (H (file_chunk data i)) (file_chunk data i), hashes @ H (file_chunk data i), cm @ [of_nat i + 1])"
  by (simp add: index_chunk_def Let_def)

lemma index_chunks_fold:
  assumes "inj_on H P" and "holds_only H P fh" and "\<forall>i < n. file_chunk data i \<in> P"
  shows "\<exists>fh' cm. foldl (index_chunk H data) (fh, [], []) [0..<n] = (fh', concat (map (\<lambda>i. H (file_chunk data i)) [0..<n]), cm)
    \<and> holds_only H P fh' \<and> (\<forall>i < n. data_Load fh' (H (file_chunk data i)) = Some (file_chunk data i))"
  using assms(3)
proof (induction n)
  case (Suc n)
  then obtain fh' cm where
    f: "foldl (index_chunk H data) (fh, [], []) [0..<n] = (fh', concat (map (\<lambda>i. H (file_chunk data i)) [0..<n]), cm)"
    and h: "holds_only H P fh'" and l: "\<forall>i < n. data_Load fh' (H (file_chunk data i)) = Some (file_chunk data i)" by auto
  let ?x = "file_chunk data n"
  have x: "?x \<in> P" using Suc.prems by simp
  from f h l LoadOrStore_part [OF h assms(1) x] show ?case
    by (auto simp: index_chunk_step less_Suc_eq data_Load_LoadOrStore)
qed (simp add: assms(2))

lemma indexFile_holds:
  assumes "inj_on H (file_parts H data)" and "holds_only H (file_parts H data) fh"
  shows "holds_all H (file_parts H data) (fst (indexFile H app fh fileName (Some data)))"
proof -
  let ?P = "file_parts H data"
  obtain fh' cm where
    f: "foldl (index_chunk H data) (fh, [], []) [0..<numFileChunks data] = (fh', metafile_of H data, cm)"
    and h: "holds_only H ?P fh'" and l: "\<forall>i < numFileChunks data. data_Load fh' (H (file_chunk data i)) = Some (file_chunk data i)"
    using index_chunks_fold [OF assms, of "numFileChunks data" data] by (auto simp: file_parts_def metafile_of_def)
  have m: "metafile_of H data \<in> ?P" by (simp add: file_parts_def)
  have "data_Load (data_LoadOrStore fh' (H (metafile_of H data)) (metafile_of H data)) (H x) = Some x" if "x \<in> ?P" for x
    using that l LoadOrStore_part(2) [OF h assms(1) m] by (auto simp: file_parts_def data_Load_LoadOrStore)
  then show ?thesis
    by (auto simp: holds_all_def indexFile_def f Let_def metadata_LoadOrStore_def split: option.splits)
qed

section \<open>A download from an honest peer\<close>

lemma fixed_length_slice:
  assumes "\<And>j. length (f j) = k" and "i < n"
  shows "take k (drop (i * k) (concat (map f [0..<n]))) = f i"
proof -
  have l: "length (concat (map f [0..<m])) = m * k" for m by (induction m) (simp_all add: assms(1))
  show ?thesis by (simp add: upt_split [OF assms(2)] l assms(1))
qed

lemma metafile_slices:
  assumes "\<And>x. length (H x) = 32"
  shows "i < numFileChunks data \<Longrightarrow> chunk_hash (metafile_of H data) i = H (file_chunk data i)"
    and "length (metafile_of H data) = numFileChunks data * 32"
proof -
  show "i < numFileChunks data \<Longrightarrow> chunk_hash (metafile_of H data) i = H (file_chunk data i)"
    unfolding chunk_hash_def metafile_of_def using assms by (intro fixed_length_slice) auto
  have "length (concat (map (\<lambda>i. H (file_chunk data i)) [0..<m])) = m * 32" for m by (induction m) (simp_all add: assms)
  then show "length (metafile_of H data) = numFileChunks data * 32" by (simp add: metafile_of_def)
qed

lemma file_chunk_take: "take (i * fileChunk) data @ file_chunk data i = take (Suc i * fileChunk) data"
proof -
  have "file_chunk data i = take fileChunk (drop (i * fileChunk) data)" by (simp add: file_chunk_def min_def)
  then show ?thesis by (metis add.commute mult_Suc take_add)
qed

lemma chunk_start: "i < numFileChunks data \<Longrightarrow> i * fileChunk < length data"
  by (simp add: numFileChunks_def fileChunk_def)

lemma chunks_cover: "length data \<le> numFileChunks data * fileChunk"
  by (simp add: numFileChunks_def fileChunk_def)

fun requested :: "bytes set \<Rightarrow> bytes list \<Rightarrow> bytes list" where
  "requested K [] = []"
| "requested K (h # hs) = (if h \<in> K then requested K hs else h # requested (insert h K) hs)"

definition stored_hashes :: "FileHandler \<Rightarrow> bytes set" where
  "stored_hashes fh = {h. data_Load fh h \<noteq> None}"

text \<open>What the peer \<open>nd\<close> answers to the requests of \<open>client\<close>.\<close>

definition honest_replies :: "AppConstants \<Rightarrow> Node \<Rightarrow> FileHandler \<Rightarrow> Node \<Rightarrow> bytes list \<Rightarrow> download_event list" where
  "honest_replies app nd fh client hs = map (\<lambda>h. Reply (answer_request app nd fh (data_request app client (nd_Name nd) h))) hs"

lemma honest_reply_data: "dr_Data (answer_request app nd fh (data_request app client peer h)) = data_Load fh h"
  by (simp add: answer_request_def data_request_def)

lemma download_reply:
  assumes "dr_Data d = Some x"
  shows "\<exists>fh' acts. downloadDataFromPeer H app nd fh peer h (Reply d # es) = Some (True, fh', acts, es)
    \<and> fh_filesMetadata fh' = fh_filesMetadata fh \<and> (\<forall>h'. data_Load fh' h' = data_Load (data_LoadOrStore fh h x) h')"
  using assms by (auto simp: downloadDataFromPeer_def Let_def data_Load_LoadOrStore split: prod.splits)

definition same_data :: "FileHandler \<Rightarrow> FileHandler \<Rightarrow> bool" where
  "same_data fh fh' \<longleftrightarrow> (\<forall>h. data_Load fh h = data_Load fh' h)"

text \<open>One missing chunk is fetched from the destination, which is the first peer tried.\<close>

lemma try_peers_reply:
  assumes "dr_Data d = Some x" and "dl_events dl = Reply d # es"
  shows "\<exists>dl'. try_peers H ord ords app nd key peer h i (peer # peers) dl = Some dl'
    \<and> same_data (dl_files dl') (data_LoadOrStore (dl_files dl) h x) \<and> dl_events dl' = es \<and> dl_data dl' = dl_data dl
    \<and> dl_size dl' = dl_size dl \<and> dl_retrieved dl' = dl_retrieved dl
    \<and> fm_FileName (dl_meta dl') = fm_FileName (dl_meta dl) \<and> fm_ChunkCount (dl_meta dl') = fm_ChunkCount (dl_meta dl)"
  using download_reply [OF assms(1), of H app nd "dl_files dl" peer h es] assms(2)
  by (auto simp: Let_def same_data_def)

lemma same_data_facts:
  assumes "same_data fh fh'"
  shows "holds_only H P fh = holds_only H P fh'" "stored_hashes fh = stored_hashes fh'" "data_Load fh = data_Load fh'"
    "holds_all H P fh = holds_all H P fh'"
  using assms by (auto simp: same_data_def holds_only_def holds_all_def stored_hashes_def)

lemma holds_all_LoadOrStore: "holds_all H P fh \<Longrightarrow> holds_all H P (data_LoadOrStore fh h v)"
  by (auto simp: holds_all_def data_Load_LoadOrStore)

lemma stored_hashes_LoadOrStore: "stored_hashes (data_LoadOrStore fh h x) = insert h (stored_hashes fh)"
  by (auto simp: stored_hashes_def data_Load_LoadOrStore)

text \<open>The state of a download before chunk \<open>i\<close>.\<close>

definition download_progress ::
  "(bytes \<Rightarrow> bytes) \<Rightarrow> bytes \<Rightarrow> (bytes list \<Rightarrow> download_event list) \<Rightarrow> download_event list \<Rightarrow> string \<Rightarrow> nat \<Rightarrow> Download \<Rightarrow> bool" where
  "download_progress H data replies es fileName i dl \<longleftrightarrow>
     holds_only H (file_parts H data) (dl_files dl)
   \<and> holds_all H (insert (metafile_of H data) (file_chunk data ` {..<i})) (dl_files dl)
   \<and> dl_data dl = take (i * fileChunk) data @ replicate (numFileChunks data * fileChunk - length (take (i * fileChunk) data)) 0
   \<and> dl_size dl = length (take (i * fileChunk) data) \<and> dl_retrieved dl = i
   \<and> fm_ChunkCount (dl_meta dl) = of_nat (numFileChunks data) \<and> fm_FileName (dl_meta dl) = fileName
   \<and> dl_events dl = replies (requested (stored_hashes (dl_files dl)) (map (\<lambda>j. H (file_chunk data j)) [i..<numFileChunks data])) @ es"

lemma fetch_chunk:
  assumes inj: "inj_on H (file_parts H data)" and A: "holds_all H (file_parts H data) fhA"
    and i: "i < numFileChunks data"
    and dl: "download_progress H data (honest_replies app A fhA B) es fileName i dl"
    and none: "data_Load (dl_files dl) (H (file_chunk data i)) = None"
  shows "\<exists>dl'. try_peers H ord ords app B key peer (H (file_chunk data i)) i (peer # peers) dl = Some dl'
    \<and> download_progress H data (honest_replies app A fhA B) es fileName i dl' \<and> data_Load (dl_files dl') (H (file_chunk data i)) = Some (file_chunk data i)"
proof -
  let ?x = "file_chunk data i" and ?n = "numFileChunks data"
  let ?d = "answer_request app A fhA (data_request app B (nd_Name A) (H ?x))"
  let ?hs = "map (\<lambda>j. H (file_chunk data j)) [Suc i..<?n]"
  let ?es = "honest_replies app A fhA B (requested (insert (H ?x) (stored_hashes (dl_files dl))) ?hs) @ es"
  have x: "?x \<in> file_parts H data" using i by (simp add: file_parts_def)
  then have d: "dr_Data ?d = Some ?x" using A by (simp add: honest_reply_data holds_all_def)
  have up: "[i..<?n] = i # [Suc i..<?n]" using i by (simp add: upt_conv_Cons)
  have ev: "dl_events dl = Reply ?d # ?es"
    using dl none unfolding download_progress_def up by (simp add: honest_replies_def stored_hashes_def)
  from try_peers_reply [OF d ev, of H ord ords app B key peer "H ?x" i peers] obtain dl' where
    t: "try_peers H ord ords app B key peer (H ?x) i (peer # peers) dl = Some dl'"
    and s: "same_data (dl_files dl') (data_LoadOrStore (dl_files dl) (H ?x) ?x)" and e: "dl_events dl' = ?es"
    and fr: "dl_data dl' = dl_data dl" "dl_size dl' = dl_size dl" "dl_retrieved dl' = dl_retrieved dl"
      "fm_FileName (dl_meta dl') = fm_FileName (dl_meta dl)" "fm_ChunkCount (dl_meta dl') = fm_ChunkCount (dl_meta dl)" by blast
  have h: "holds_only H (file_parts H data) (dl_files dl)" using dl by (simp add: download_progress_def)
  have st: "stored_hashes (dl_files dl') = insert (H ?x) (stored_hashes (dl_files dl))"
    by (simp add: same_data_facts(2) [OF s] stored_hashes_LoadOrStore)
  have "dl_events dl' = honest_replies app A fhA B (requested (stored_hashes (dl_files dl')) (map (\<lambda>j. H (file_chunk data j)) [i..<?n])) @ es"
    unfolding st up e by simp
  then have "download_progress H data (honest_replies app A fhA B) es fileName i dl'"
    using dl fr LoadOrStore_part(1) [OF h inj x] holds_all_LoadOrStore [of H _ "dl_files dl" "H ?x" ?x]
    by (simp add: download_progress_def same_data_facts(1,4) [OF s])
  moreover have "data_Load (dl_files dl') (H ?x) = Some ?x"
    using LoadOrStore_part(2) [OF h inj x] by (simp add: same_data_facts(3) [OF s])
  ultimately show ?thesis using t by blast
qed

lemma place_chunk:
  assumes i: "i < numFileChunks data" and dl: "download_progress H data replies es fileName i dl"
    and some: "data_Load (dl_files dl) (H (file_chunk data i)) = Some (file_chunk data i)"
  shows "\<exists>dl'. go_bind (go_slice (dl_data dl) (i * fileChunk) (i * fileChunk + length (file_chunk data i))) (\<lambda>_.
      Inr (dl\<lparr>dl_data := take (i * fileChunk) (dl_data dl) @ file_chunk data i @ drop (i * fileChunk + length (file_chunk data i)) (dl_data dl),
              dl_size := dl_size dl + length (file_chunk data i), dl_retrieved := dl_retrieved dl + 1\<rparr>)) = Inr dl'
    \<and> download_progress H data replies es fileName (Suc i) dl'"
proof -
  let ?x = "file_chunk data i" and ?n = "numFileChunks data" and ?t = "take (i * fileChunk) data"
  have lt: "length ?t = i * fileChunk" using chunk_start [OF i] by simp
  have "Suc i * fileChunk \<le> ?n * fileChunk" using i by (intro mult_le_mono1) simp
  moreover have "length ?x \<le> fileChunk" by (simp add: file_chunk_def)
  ultimately have le: "i * fileChunk + length ?x \<le> ?n * fileChunk" by simp
  have D: "dl_data dl = ?t @ replicate (?n * fileChunk - i * fileChunk) 0" using dl lt by (simp add: download_progress_def)
  have up: "[i..<?n] = i # [Suc i..<?n]" using i by (simp add: upt_conv_Cons)
  have held: "holds_all H (insert (metafile_of H data) (file_chunk data ` {..<Suc i})) (dl_files dl)"
    using dl some by (auto simp: download_progress_def holds_all_def less_Suc_eq)
  have mem: "H ?x \<in> stored_hashes (dl_files dl)" using some by (simp add: stored_hashes_def)
  have T: "take (Suc i * fileChunk) data = ?t @ ?x" by (simp only: file_chunk_take)
  have sl: "go_slice (dl_data dl) (i * fileChunk) (i * fileChunk + length ?x) \<in> range Inr"
    using le chunk_start [OF i] by (simp add: go_slice_def D)
  have new: "take (i * fileChunk) (dl_data dl) @ ?x @ drop (i * fileChunk + length ?x) (dl_data dl)
      = take (Suc i * fileChunk) data @ replicate (?n * fileChunk - length (take (Suc i * fileChunk) data)) 0"
    using chunk_start [OF i] unfolding T D by (simp add: min_absorb2)
  show ?thesis using sl dl mem held unfolding download_progress_def new up by (auto simp: T simp del: take_append mult_Suc)
qed

lemma numFileChunks_bound: "length data < 2 ^ 64 \<Longrightarrow> 32 * numFileChunks data < 2 ^ 64"
  by (simp add: numFileChunks_def fileChunk_def)

lemma download_chunk_honest:
  assumes H32: "\<And>x. length (H x) = 32" and inj: "inj_on H (file_parts H data)" and A: "holds_all H (file_parts H data) fhA"
    and len: "length data < 2 ^ 64" and i: "i < numFileChunks data" and dest: "destination \<noteq> []"
    and dl: "download_progress H data (honest_replies app A fhA B) es fileName i dl"
  shows "\<exists>dl'. download_chunk H ord ords app B key destination (metafile_of H data) dl i = Some (Inr dl')
    \<and> download_progress H data (honest_replies app A fhA B) es fileName (Suc i) dl'"
proof -
  let ?x = "file_chunk data i"
  have x: "?x \<in> file_parts H data" using i by (simp add: file_parts_def)
  have sl: "chunk_slice (metafile_of H data) (of_nat i) = Inr (H ?x)"
    using numFileChunks_bound [OF len] i metafile_slices [where H = H and data = data, OF H32] by (subst chunk_slice_nat) auto
  show ?thesis
  proof (cases "data_Load (dl_files dl) (H ?x)")
    case None
    obtain peers where p: "(let owners = (case fh_ChunkOwners (dl_files dl) (EncodeToString (H ?x)) of None \<Rightarrow> [] | Some ps \<Rightarrow> ps)
        in if destination \<noteq> [] then destination # owners else owners) = destination # peers" using dest by (auto simp: Let_def)
    from fetch_chunk [OF inj A i dl None, of ord ords key destination peers] obtain dl1 where
      t: "try_peers H ord ords app B key destination (H ?x) i (destination # peers) dl = Some dl1"
      and d1: "download_progress H data (honest_replies app A fhA B) es fileName i dl1"
      and l1: "data_Load (dl_files dl1) (H ?x) = Some ?x" by blast
    from place_chunk [OF i d1 l1] None t l1 p show ?thesis
      by (auto simp: download_chunk_def sl Let_def dest)
  next
    case (Some y)
    then have l: "data_Load (dl_files dl) (H ?x) = Some ?x" using dl x by (auto simp: download_progress_def holds_only_def)
    from place_chunk [OF i dl l] l show ?thesis by (auto simp: download_chunk_def sl)
  qed
qed

lemma download_chunks_honest:
  assumes H32: "\<And>x. length (H x) = 32" and inj: "inj_on H (file_parts H data)" and A: "holds_all H (file_parts H data) fhA"
    and len: "length data < 2 ^ 64" and dest: "destination \<noteq> []"
  shows "i \<le> numFileChunks data \<Longrightarrow> download_progress H data (honest_replies app A fhA B) es fileName i dl \<Longrightarrow>
    \<exists>dl'. download_chunks H ord ords app B key destination (metafile_of H data) [i..<numFileChunks data] dl = Some (Inr dl')
      \<and> download_progress H data (honest_replies app A fhA B) es fileName (numFileChunks data) dl'"
proof (induction "numFileChunks data - i" arbitrary: i dl)
  case (Suc k)
  then have i: "i < numFileChunks data" by simp
  from download_chunk_honest [OF H32 inj A len i dest Suc.prems(2)] obtain dl1 where
    d: "download_chunk H ord ords app B key destination (metafile_of H data) dl i = Some (Inr dl1)"
    and p: "download_progress H data (honest_replies app A fhA B) es fileName (Suc i) dl1" by blast
  have k: "k = numFileChunks data - Suc i" using Suc.hyps(2) by simp
  from Suc.hyps(1) [OF k _ p] i d show ?case by (simp add: upt_conv_Cons go_option_bind_def)
qed simp

lemma finish_download_honest:
  assumes p: "download_progress H data replies es fileName (numFileChunks data) dl" and len: "length data < 2 ^ 64" and r: "replies [] = []"
  shows "\<exists>fh acts f. finish_download key dl = Inr (fh, acts, es) \<and> SaveFile fileName data \<in> set acts
    \<and> holds_all H (file_parts H data) fh \<and> map_of (fh_filesMetadata fh) key = Some f \<and> unat (fm_Size f) = length data"
proof -
  have t: "take (numFileChunks data * fileChunk) data = data" using chunks_cover [of data] by simp
  have n: "unat (of_nat (numFileChunks data) :: uint64) = numFileChunks data"
    using numFileChunks_bound [OF len] by (simp add: unat_of_nat)
  have l: "unat (of_nat (length data) :: uint64) = length data" using len by (simp add: unat_of_nat)
  have P: "file_parts H data = insert (metafile_of H data) (file_chunk data ` {..<numFileChunks data})" by (simp add: file_parts_def)
  have sl: "go_slice (dl_data dl) 0 (dl_size dl) = Inr data"
    using p by (simp add: download_progress_def t go_slice_def)
  show ?thesis using p r
    by (auto simp: finish_download_def download_progress_def n l sl t Let_def P holds_all_def store_metadata_def data_Load_def update_conv)
qed

lemma stored_hashes_metadata [simp]: "stored_hashes (store_metadata fh key f) = stored_hashes fh"
  by (simp add: stored_hashes_def)

lemma download_known_honest:
  assumes H32: "\<And>x. length (H x) = 32" and inj: "inj_on H (file_parts H data)" and A: "holds_all H (file_parts H data) fhA"
    and len: "length data < 2 ^ 64" and dest: "destination \<noteq> []" and ord: "ranges ord"
    and B: "holds_only H (file_parts H data) fh" "data_Load fh (H (metafile_of H data)) = Some (metafile_of H data)"
    and new: "map_of (fh_filesMetadata fh) (GetKeyFromString H (EncodeToString (H (metafile_of H data)) @ fileName)) = None"
  shows "\<exists>fh' acts' f. download_known H ord ords app B fh fileName destination (H (metafile_of H data)) (metafile_of H data) acts
      (honest_replies app A fhA B (requested (stored_hashes fh) (map (\<lambda>j. H (file_chunk data j)) [0..<numFileChunks data])) @ es)
    = Some (Inr (fh', acts', es)) \<and> SaveFile fileName data \<in> set acts' \<and> holds_all H (file_parts H data) fh'
    \<and> map_of (fh_filesMetadata fh') (GetKeyFromString H (EncodeToString (H (metafile_of H data)) @ fileName)) = Some f
    \<and> unat (fm_Size f) = length data"
proof -
  let ?n = "numFileChunks data" and ?m = "metafile_of H data"
  let ?key = "GetKeyFromString H (EncodeToString (H ?m) @ fileName)"
  let ?events = "honest_replies app A fhA B (requested (stored_hashes fh) (map (\<lambda>j. H (file_chunk data j)) [0..<?n])) @ es"
  have mlen: "length ?m = ?n * 32" by (rule metafile_slices(2) [where H = H, OF H32])
  have n: "unat (of_nat ?n :: uint64) = ?n" using numFileChunks_bound [OF len] by (simp add: unat_of_nat)
  let ?f0 = "\<lparr>fm_FileName = fileName, fm_MetafileHash = H ?m, fm_ChunkCount = of_nat ?n, fm_ChunkMap = [], fm_Size = 0\<rparr>"
  obtain f where u: "updateChunkMap ord (store_metadata fh ?key ?f0) ?f0 ?m = Inr f" and f: "fm_ChunkCount f = of_nat ?n" "fm_Size f = 0" "fm_FileName f = fileName"
    using updateChunkMap_fold [OF ord, of ?n ?m "store_metadata fh ?key ?f0" ?f0] mlen numFileChunks_bound [OF len] n
    by (auto simp: updateChunkMap_def)
  let ?dl = "\<lparr>dl_files = store_metadata (store_metadata fh ?key ?f0) ?key f, dl_meta = f, dl_data = replicate (?n * fileChunk) 0,
      dl_retrieved = 0, dl_size = 0, dl_actions = acts, dl_events = ?events\<rparr>"
  have "download_progress H data (honest_replies app A fhA B) es fileName 0 ?dl"
    using B f by (simp add: download_progress_def holds_only_def holds_all_def)
  from download_chunks_honest [OF H32 inj A len dest _ this, of ord ords ?key] obtain dl' where
    d: "download_chunks H ord ords app B ?key destination ?m [0..<?n] ?dl = Some (Inr dl')"
    and p: "download_progress H data (honest_replies app A fhA B) es fileName ?n dl'" by auto
  from finish_download_honest [OF p len, of ?key] obtain fh' acts' f' where
    "finish_download ?key dl' = Inr (fh', acts', es)" "SaveFile fileName data \<in> set acts'"
    "holds_all H (file_parts H data) fh'" "map_of (fh_filesMetadata fh') ?key = Some f'" "unat (fm_Size f') = length data"
    by (auto simp: honest_replies_def)
  then show ?thesis
    by (auto simp: download_known_def Let_def metadata_LoadOrStore_def new mlen u f n d go_option_bind_def)
qed

text \<open>The hashes of a file in the order in which a download needs them.\<close>

definition needed_hashes :: "(bytes \<Rightarrow> bytes) \<Rightarrow> bytes \<Rightarrow> bytes list" where
  "needed_hashes H data = H (metafile_of H data) # map (\<lambda>j. H (file_chunk data j)) [0..<numFileChunks data]"

text \<open>
  Claim C6. Files are shared intact. \<open>A\<close> indexes a file; \<open>B\<close> downloads it by its metahash, and \<open>A\<close> answers each request
  of \<open>B\<close> (for what \<open>B\<close> does not hold yet, each hash once). Then the download ends with the file saved under
  the chosen name with its exact bytes and its size recorded, the remaining events are untouched, and \<open>B\<close> holds the metafile and every
  chunk, so it can serve the file in turn. SHA-256 needs to be free of collisions on the parts of this file only, and what the two
  nodes already store under their hashes must be these parts.
\<close>

theorem indexed_file_downloaded:
  assumes "\<And>x. length (H x) = 32" and "inj_on H (file_parts H data)" and "length data < 2 ^ 64"
    and "holds_only H (file_parts H data) fhA" and "holds_only H (file_parts H data) fhB"
    and "nd_Name A \<noteq> []" and "ranges ord"
    and "map_of (fh_filesMetadata fhB) (GetKeyFromString H (EncodeToString (H (metafile_of H data)) @ fileName)) = None"
  shows "\<exists>fhB' acts f. downloadFileChunks H ord ords app B fhB fileName (nd_Name A) (H (metafile_of H data))
      (honest_replies app A (fst (indexFile H app fhA name (Some data))) B (requested (stored_hashes fhB) (needed_hashes H data)) @ es)
    = Some (Inr (fhB', acts, es)) \<and> SaveFile fileName data \<in> set acts \<and> holds_all H (file_parts H data) fhB'
    \<and> map_of (fh_filesMetadata fhB') (GetKeyFromString H (EncodeToString (H (metafile_of H data)) @ fileName)) = Some f
    \<and> unat (fm_Size f) = length data"
proof -
  let ?m = "metafile_of H data" and ?fhA = "fst (indexFile H app fhA name (Some data))"
  have A: "holds_all H (file_parts H data) ?fhA" by (rule indexFile_holds) (use assms in auto)
  have m: "?m \<in> file_parts H data" by (simp add: file_parts_def)
  note known = download_known_honest [where H = H and A = A and fhA = ?fhA, OF assms(1,2) A assms(3,6,7)]
  show ?thesis
  proof (cases "data_Load fhB (H ?m)")
    case (Some y)
    with assms(5) m have y: "data_Load fhB (H ?m) = Some ?m" by (auto simp: holds_only_def)
    from known [OF assms(5) y assms(8)] y show ?thesis
      by (simp add: downloadFileChunks_def needed_hashes_def stored_hashes_def)
  next
    case None
    let ?d = "answer_request app A ?fhA (data_request app B (nd_Name A) (H ?m))"
    let ?hs = "map (\<lambda>j. H (file_chunk data j)) [0..<numFileChunks data]"
    have d: "dr_Data ?d = Some ?m" using A m by (simp add: honest_reply_data holds_all_def)
    have ev: "honest_replies app A ?fhA B (requested (stored_hashes fhB) (needed_hashes H data)) @ es
      = Reply ?d # honest_replies app A ?fhA B (requested (insert (H ?m) (stored_hashes fhB)) ?hs) @ es"
      using None by (simp add: needed_hashes_def honest_replies_def stored_hashes_def)
    let ?es = "honest_replies app A ?fhA B (requested (insert (H ?m) (stored_hashes fhB)) ?hs) @ es"
    from download_reply [OF d, of H app B fhB "nd_Name A" "H ?m" ?es] obtain fh1 acts where
      l: "downloadDataFromPeer H app B fhB (nd_Name A) (H ?m) (Reply ?d # ?es) = Some (True, fh1, acts, ?es)"
      and md: "fh_filesMetadata fh1 = fh_filesMetadata fhB" and s: "same_data fh1 (data_LoadOrStore fhB (H ?m) ?m)"
      unfolding same_data_def by blast
    have B1: "holds_only H (file_parts H data) fh1" "data_Load fh1 (H ?m) = Some ?m"
      using LoadOrStore_part [OF assms(5,2) m] by (simp_all add: same_data_facts(1,3) [OF s])
    have st: "stored_hashes fh1 = insert (H ?m) (stored_hashes fhB)" by (simp add: same_data_facts(2) [OF s] stored_hashes_LoadOrStore)
    from known [OF B1, where fileName = fileName and ords = ords and B = B and app = app and acts = acts and es = es] assms(8) None B1(2) show ?thesis
      unfolding ev downloadFileChunks_def by (simp add: l md st assms(6))
  qed
qed

definition flat_hash :: "bytes \<Rightarrow> bytes" where
  "flat_hash x = of_nat (length x) # take 31 (x @ replicate 31 0)"

definition sample_node :: "string \<Rightarrow> Node" where
  "sample_node name = \<lparr>nd_Name = name, nd_Address = ''127.0.0.1:5000'', nd_Peers = [], nd_gossip = NewGossipHandler, nd_routing = NewRoutingHandler\<rparr>"

theorem indexed_file_downloaded_witness:
  "\<exists>fhB' acts f. downloadFileChunks flat_hash rev rev toy_app (sample_node ''b'') NewFileHandler ''f'' ''a'' (flat_hash (metafile_of flat_hash [1, 2, 3]))
      (honest_replies toy_app (sample_node ''a'') (fst (indexFile flat_hash toy_app NewFileHandler ''g'' (Some [1, 2, 3]))) (sample_node ''b'')
         (requested (stored_hashes NewFileHandler) (needed_hashes flat_hash [1, 2, 3])) @ [StopTick])
    = Some (Inr (fhB', acts, [StopTick])) \<and> SaveFile ''f'' [1, 2, 3] \<in> set acts
    \<and> holds_all flat_hash (file_parts flat_hash [1, 2, 3]) fhB'
    \<and> map_of (fh_filesMetadata fhB') (GetKeyFromString flat_hash (EncodeToString (flat_hash (metafile_of flat_hash [1, 2, 3])) @ ''f'')) = Some f
    \<and> unat (fm_Size f) = length [1 :: 8 word, 2, 3]"
proof -
  have n: "numFileChunks [1, 2, 3 :: 8 word] = 1" by (simp add: numFileChunks_def fileChunk_def)
  have c: "file_chunk [1, 2, 3 :: 8 word] 0 = [1, 2, 3]" by (simp add: file_chunk_def fileChunk_def)
  have m: "metafile_of flat_hash [1, 2, 3] = flat_hash [1, 2, 3]" by (simp add: metafile_of_def n c)
  have p: "file_parts flat_hash [1, 2, 3] = {flat_hash [1, 2, 3], [1, 2, 3]}" by (auto simp: file_parts_def n c m)
  have l: "length (flat_hash x) = 32" for x by (simp add: flat_hash_def)
  have "hd (flat_hash (flat_hash [1, 2, 3])) \<noteq> hd (flat_hash [1, 2, 3])" by (simp add: flat_hash_def)
  then have inj: "inj_on flat_hash (file_parts flat_hash [1, 2, 3])" unfolding p by (auto simp: inj_on_def)
  have h: "holds_only flat_hash P NewFileHandler" for P by (simp add: holds_only_def data_Load_def NewFileHandler_def)
  have a: "nd_Name (sample_node ''a'') = ''a''" by (simp add: sample_node_def)
  show ?thesis
    using indexed_file_downloaded [OF l inj _ h h, of "sample_node ''a''" rev "''f''" rev toy_app "sample_node ''b''" "''g''" "[StopTick]"]
    by (simp add: a ranges_def NewFileHandler_def)
qed

end
