(* ===== verification/Search.thy ===== *)
theory Search
  imports Files "HOL-Library.List_Lexorder"
begin

text \<open>
  File search between gossipers (\<open>src/gossiper/filesearching.go\<close>, \<open>containsKeyword\<close> of \<open>src/gossiper/utils.go\<close>) and the
  handlers of \<open>src/gossiper/mainhandler.go\<close> that serve it. \<open>rx\<close> is \<open>regexp.MatchString\<close> (pattern, text). \<open>rng\<close> is the
  order in which a Go map is iterated over. Times are in milliseconds. The peers known at each step of a forwarding loop, the
  random draws and the ticks of the search timer are lists; \<open>None\<close> is a loop that goes on when its list ends.
\<close>

section \<open>Constants\<close>

definition matchThreshold :: nat where "matchThreshold = 2"
definition maxBudget :: uint64 where "maxBudget = 32"
definition defaultBudget :: uint64 where "defaultBudget = 2"
definition searchRequestDuplicateTimeout :: nat where "searchRequestDuplicateTimeout = 500"

type_synonym regexp = "string \<Rightarrow> string \<Rightarrow> bool"
type_synonym file_range = "FileMetadata list \<Rightarrow> FileMetadata list"

section \<open>Matching\<close>

fun strings_Contains :: "string \<Rightarrow> string \<Rightarrow> bool" where
  "strings_Contains [] sub = (sub = [])"
| "strings_Contains (c # cs) sub = (take (length sub) (c # cs) = sub \<or> strings_Contains cs sub)"

fun containsKeyword :: "regexp \<Rightarrow> string \<Rightarrow> string list \<Rightarrow> bool" where
  "containsKeyword rx fileName [] = False"
| "containsKeyword rx fileName (k # ks) = (if rx k fileName \<or> strings_Contains fileName k then True else containsKeyword rx fileName ks)"

definition result_of :: "FileMetadata \<Rightarrow> SearchResult" where
  "result_of f = \<lparr>res_FileName = fm_FileName f, res_MetafileHash = fm_MetafileHash f, res_ChunkMap = fm_ChunkMap f, res_ChunkCount = fm_ChunkCount f\<rparr>"

definition searchMatchingLocalFiles :: "regexp \<Rightarrow> file_range \<Rightarrow> FileHandler \<Rightarrow> string list \<Rightarrow> SearchResult list" where
  "searchMatchingLocalFiles rx rng fh keywords =
     map result_of (filter (\<lambda>f. containsKeyword rx (fm_FileName f) keywords \<and> length (fm_ChunkMap f) \<noteq> 0) (rng (map snd (fh_filesMetadata fh))))"

text \<open>Counting stops at the threshold.\<close>

fun count_matches :: "regexp \<Rightarrow> FileHandler \<Rightarrow> string list \<Rightarrow> nat \<Rightarrow> FileMetadata list \<Rightarrow> nat go" where
  "count_matches rx fh keywords n [] = Inr n"
| "count_matches rx fh keywords n (f # fs) =
     go_bind (if containsKeyword rx (fm_FileName f) keywords \<and> fm_Size f = 0 then checkAllChunksLocation fh f else Inr False) (\<lambda>b.
       let n' = (if b then n + 1 else n)
       in if n' = matchThreshold then Inr n' else count_matches rx fh keywords n' fs)"

definition isFileMatchThresholdReached :: "regexp \<Rightarrow> file_range \<Rightarrow> FileHandler \<Rightarrow> string list \<Rightarrow> bool go" where
  "isFileMatchThresholdReached rx rng fh keywords =
     go_bind (count_matches rx fh keywords 0 (rng (map snd (fh_filesMetadata fh)))) (\<lambda>n. Inr (n = matchThreshold))"

section \<open>Results\<close>

text \<open>The metadata are stored under a key of their own format; the rest runs in the background.\<close>

definition handleSearchResult :: "FileHandler \<Rightarrow> string \<Rightarrow> SearchResult \<Rightarrow> FileHandler \<times> file_action list" where
  "handleSearchResult fh origin res =
     (let key = EncodeToString (res_MetafileHash res) @ res_FileName res
      in case metadata_LoadOrStore fh key
             \<lparr>fm_FileName = res_FileName res, fm_MetafileHash = res_MetafileHash res, fm_ChunkCount = res_ChunkCount res, fm_ChunkMap = [], fm_Size = 0\<rparr> of
           (f, loaded, fh') \<Rightarrow>
             (fh', if loaded then [] else [GuiSearched (metadata_FileGUI f), FetchMetafile key origin (res_ChunkMap res)]))"

text \<open>The background work for the metadata \<open>f\<close> stored under \<open>key\<close>.\<close>

definition updateFromMetafile ::
  "(uint64 list \<Rightarrow> uint64 list) \<Rightarrow> (string list \<Rightarrow> string list) \<Rightarrow> FileHandler \<Rightarrow> string \<Rightarrow> FileMetadata \<Rightarrow> string \<Rightarrow> uint64 list \<Rightarrow> FileHandler go" where
  "updateFromMetafile ord ords fh key f origin chunkMap =
     (case data_Load fh (fm_MetafileHash f) of
        None \<Rightarrow> Inl FailedTypeAssertion
      | Some metafile \<Rightarrow>
          go_bind (updateChunkOwnerMap ords fh origin chunkMap metafile) (\<lambda>fh'.
          go_bind (updateChunkMap ord fh' f metafile) (\<lambda>f'. Inr (store_metadata fh' key f'))))"

definition fetchMetafile ::
  "(bytes \<Rightarrow> bytes) \<Rightarrow> (uint64 list \<Rightarrow> uint64 list) \<Rightarrow> (string list \<Rightarrow> string list) \<Rightarrow> AppConstants \<Rightarrow> Node \<Rightarrow> FileHandler \<Rightarrow> string \<Rightarrow> FileMetadata \<Rightarrow>
   string \<Rightarrow> uint64 list \<Rightarrow> download_event list \<Rightarrow> (FileHandler \<times> file_action list \<times> download_event list) go option" where
  "fetchMetafile H ord ords app nd fh key f origin chunkMap events =
     (if data_Load fh (fm_MetafileHash f) \<noteq> None then
        Some (go_bind (updateFromMetafile ord ords fh key f origin chunkMap) (\<lambda>fh'. Inr (fh', [], events)))
      else
        Option.bind (downloadDataFromPeer H app nd fh origin (fm_MetafileHash f) events) (\<lambda>(found, fh1, acts, events1).
          if found then Some (go_bind (updateFromMetafile ord ords fh1 key f origin chunkMap) (\<lambda>fh'. Inr (fh', acts, events1)))
          else Some (Inr (fh1, acts, events1))))"

section \<open>Recent requests\<close>

definition sort_Strings :: "string list \<Rightarrow> string list" where
  "sort_Strings = sort_key (map (of_char :: char \<Rightarrow> nat))"

definition request_identifier :: "(bytes \<Rightarrow> bytes) \<Rightarrow> SearchRequest \<Rightarrow> string" where
  "request_identifier H sr = GetKeyFromString H (sq_Origin sr @ concat (sort_Strings (sq_Keywords sr)))"

text \<open>The keywords of the request are sorted in place.\<close>

definition isRecentSearchRequest :: "(bytes \<Rightarrow> bytes) \<Rightarrow> nat \<Rightarrow> FileHandler \<Rightarrow> SearchRequest \<Rightarrow> bool \<times> FileHandler \<times> SearchRequest" where
  "isRecentSearchRequest H now fh sr =
     (let sr' = sr\<lparr>sq_Keywords := sort_Strings (sq_Keywords sr)\<rparr>; identifier = request_identifier H sr;
          stored = fh_lastSearchRequests fh identifier
      in if (case stored of None \<Rightarrow> True | Some t \<Rightarrow> t + searchRequestDuplicateTimeout < now)
         then (False, fh\<lparr>fh_lastSearchRequests := (fh_lastSearchRequests fh)(identifier \<mapsto> now)\<rparr>, sr')
         else (True, fh, sr'))"

section \<open>Forwarding with a budget\<close>

text \<open>Per iteration: the draw, and the peers known after it.\<close>

type_synonym share_choices = "(nat \<times> address list) list"

fun share_budget :: "share_choices \<Rightarrow> address list \<Rightarrow> address list \<Rightarrow> uint64 \<Rightarrow> uint64 \<Rightarrow> (address \<times> uint64) list option" where
  "share_budget [] chosen avail each toShare =
     (if avail = [] \<or> (toShare = 0 \<and> each = 0) then Some [] else None)"
| "share_budget ((draw, peers) # choices) chosen avail each toShare =
     (if avail = [] \<or> (toShare = 0 \<and> each = 0) then Some []
      else
        let randomPeer = getRandomPeer avail draw;
            budget = (if toShare > 0 then each + 1 else each);
            toShare' = (if toShare > 0 then toShare - 1 else toShare);
            chosen' = chosen @ [randomPeer]
        in map_option ((#) (randomPeer, budget)) (share_budget choices chosen' (DifferenceString peers chosen') each toShare'))"

definition forwardSearchRequestWithBudget :: "address list \<Rightarrow> share_choices \<Rightarrow> address \<Rightarrow> uint64 \<Rightarrow> (address \<times> uint64) list option" where
  "forwardSearchRequestWithBudget peers choices sender budget =
     (let availablePeers = DifferenceString peers [sender]
      in if budget > 0 \<and> length availablePeers \<noteq> 0 then
           share_budget choices [sender] availablePeers (budget div of_nat (length availablePeers)) (budget mod of_nat (length availablePeers))
         else Some [])"

definition search_packet :: "GossipPacket \<Rightarrow> SearchRequest \<Rightarrow> uint64 \<Rightarrow> GossipPacket" where
  "search_packet packet sr budget = packet\<lparr>gp_SearchRequest := Some (sr\<lparr>sq_Budget := budget\<rparr>)\<rparr>"

definition sends :: "GossipPacket \<Rightarrow> SearchRequest \<Rightarrow> (address \<times> uint64) list \<Rightarrow> file_action list" where
  "sends packet sr = map (\<lambda>(peer, budget). SendPacketTo (search_packet packet sr budget) peer)"

section \<open>Searching\<close>

datatype search_end = BudgetTooLow | SearchTimeout | SearchFinished

text \<open>One element per tick: the files then, the peers then and the choices of the forwarding.\<close>

type_synonym search_tick = "FileHandler \<times> address list \<times> share_choices"

fun search_ticks ::
  "regexp \<Rightarrow> file_range \<Rightarrow> string list \<Rightarrow> address \<Rightarrow> bool \<Rightarrow> uint64 \<Rightarrow> search_tick list \<Rightarrow> ((address \<times> uint64) list \<times> search_end) go option" where
  "search_ticks rx rng keywords sender increment budget [] = None"
| "search_ticks rx rng keywords sender increment budget ((fh, peers, choices) # ticks) =
     (if budget > maxBudget then Some (Inr ([], SearchTimeout))
      else
        (case isFileMatchThresholdReached rx rng fh keywords of
           Inl e \<Rightarrow> Some (Inl e)
         | Inr True \<Rightarrow> Some (Inr ([], SearchFinished))
         | Inr False \<Rightarrow>
             let budget' = (if increment then budget * 2 else budget)
             in Option.bind (forwardSearchRequestWithBudget peers choices sender (budget' - 1)) (\<lambda>out.
                go_option_bind (search_ticks rx rng keywords sender increment budget' ticks) (\<lambda>(out', r).
                  Some (Inr (out @ out', r))))))"

definition searchFilesWithTimeout ::
  "regexp \<Rightarrow> file_range \<Rightarrow> address \<Rightarrow> SearchRequest \<Rightarrow> bool \<Rightarrow> address list \<Rightarrow> share_choices \<Rightarrow> search_tick list \<Rightarrow>
   ((address \<times> uint64) list \<times> search_end) go option" where
  "searchFilesWithTimeout rx rng sender sr increment peers choices ticks =
     (if sq_Budget sr \<le> 0 then Some (Inr ([], BudgetTooLow))
      else
        Option.bind (forwardSearchRequestWithBudget peers choices sender (sq_Budget sr - 1)) (\<lambda>out.
        go_option_bind (search_ticks rx rng (sq_Keywords sr) sender increment (sq_Budget sr) ticks) (\<lambda>(out', r).
          Some (Inr (out @ out', r)))))"

section \<open>Handlers\<close>

definition processSearchRequest ::
  "(bytes \<Rightarrow> bytes) \<Rightarrow> regexp \<Rightarrow> file_range \<Rightarrow> AppConstants \<Rightarrow> Node \<Rightarrow> nat \<Rightarrow> share_choices \<Rightarrow> FileHandler \<Rightarrow> ExtendedGossipPacket \<Rightarrow>
   (FileHandler \<times> file_action list) go option" where
  "processSearchRequest H rx rng app nd now choices fh ext =
     (case gp_SearchRequest (ext_Packet ext) of None \<Rightarrow> Some (Inl NilDereference)
      | Some sr0 \<Rightarrow>
          (case isRecentSearchRequest H now fh sr0 of (recent, fh', sr) \<Rightarrow>
             if recent then Some (Inr (fh', []))
             else
               let results = (if sq_Origin sr \<noteq> nd_Name nd then searchMatchingLocalFiles rx rng fh' (sq_Keywords sr) else []);
                   reply = (if results \<noteq> [] then
                     snd (forward_to nd (of_nat (app_hopLimit app)) (sq_Origin sr) (\<lambda>hop. empty_packet\<lparr>gp_SearchReply :=
                       Some \<lparr>sr_Origin = nd_Name nd, sr_Destination = sq_Origin sr, sr_HopLimit = hop, sr_Results = results\<rparr>\<rparr>)) else [])
               in map_option (\<lambda>out. Inr (fh', reply @ sends (ext_Packet ext) sr out))
                    (forwardSearchRequestWithBudget (nd_Peers nd) choices (ext_SenderAddr ext) (sq_Budget sr - 1))))"

text \<open>The goroutines for the results of one reply are taken to run in the order of the results.\<close>

definition processSearchReply :: "Node \<Rightarrow> FileHandler \<Rightarrow> ExtendedGossipPacket \<Rightarrow> (FileHandler \<times> file_action list) go" where
  "processSearchReply nd fh ext =
     go_bind (go_deref (gp_SearchReply (ext_Packet ext))) (\<lambda>sr.
       if sr_Destination sr = nd_Name nd then
         Inr (foldl (\<lambda>(fh, acts) res. case handleSearchResult fh (sr_Origin sr) res of (fh', acts') \<Rightarrow> (fh', acts @ acts')) (fh, []) (sr_Results sr))
       else Inr (fh, snd (forward_to nd (sr_HopLimit sr) (sr_Destination sr)
              (\<lambda>hop. (ext_Packet ext)\<lparr>gp_SearchReply := Some (sr\<lparr>sr_HopLimit := hop\<rparr>)\<rparr>))))"

text \<open>The pair that is handed to the distributed store.\<close>

definition processDStorage :: "ExtendedGossipPacket \<Rightarrow> MessageAddrPair option" where
  "processDStorage ext = map_option (\<lambda>m. \<lparr>ma_Message = m, ma_Address = ext_SenderAddr ext\<rparr>) (gp_DStoreMessage (ext_Packet ext))"

section \<open>The budget is shared evenly\<close>

text \<open>Peers that stay the same, and enough draws for all of them.\<close>

definition steady :: "address list \<Rightarrow> share_choices \<Rightarrow> bool" where
  "steady peers choices \<longleftrightarrow> distinct peers \<and> (\<forall>c \<in> set choices. snd c = peers) \<and> length peers \<le> length choices"

lemma DifferenceString_snoc: "DifferenceString peers (chosen @ [p]) = filter (\<lambda>x. x \<noteq> p) (DifferenceString peers chosen)"
  by (auto simp: DifferenceString_def intro: filter_cong)

lemma getRandomPeer_in: "avail \<noteq> [] \<Longrightarrow> getRandomPeer avail draw \<in> set avail"
  by (simp add: getRandomPeer_def)

lemma length_remove_one: "distinct xs \<Longrightarrow> x \<in> set xs \<Longrightarrow> Suc (length (filter (\<lambda>y. y \<noteq> x) xs)) = length xs"
proof (induction xs)
  case (Cons a xs)
  show ?case
  proof (cases "a = x")
    case True
    with Cons.prems have "filter (\<lambda>y. y \<noteq> x) xs = xs" by (auto simp: filter_id_conv)
    with True show ?thesis by simp
  next
    case False
    with Cons show ?thesis by simp
  qed
qed simp

definition total_budget :: "(address \<times> uint64) list \<Rightarrow> nat" where
  "total_budget out = sum_list (map (unat \<circ> snd) out)"

definition shared_evenly :: "nat \<Rightarrow> address list \<Rightarrow> (address \<times> uint64) list \<Rightarrow> bool" where
  "shared_evenly each avail out \<longleftrightarrow> distinct (map fst out) \<and> set (map fst out) \<subseteq> set avail
     \<and> (\<forall>(p, b) \<in> set out. b > 0 \<and> (unat b = each \<or> unat b = each + 1))"

lemma unat_pred: "(x :: uint64) > 0 \<Longrightarrow> unat (x - 1) = unat x - 1"
  by (metis unat_minus_one word_gt_0)

lemma unat_Suc_small: "unat (x :: uint64) + 1 < 2 ^ 64 \<Longrightarrow> unat (x + 1) = unat x + 1"
  by (simp add: unat_word_ariths)

lemma share_budget_even:
  assumes d: "distinct peers"
  shows "avail = DifferenceString peers chosen \<Longrightarrow> (\<forall>c \<in> set choices. snd c = peers) \<Longrightarrow> length avail \<le> length choices \<Longrightarrow>
    unat toShare \<le> length avail \<Longrightarrow> (toShare > 0 \<longrightarrow> unat each + 1 < 2 ^ 64) \<Longrightarrow>
    \<exists>out. share_budget choices chosen avail each toShare = Some out
      \<and> total_budget out = unat each * length avail + unat toShare \<and> shared_evenly (unat each) avail out"
proof (induction choices chosen avail each toShare rule: share_budget.induct)
  case (1 chosen avail each toShare)
  then show ?case by (auto simp: total_budget_def shared_evenly_def unat_eq_zero)
next
  case (2 draw peers' choices chosen avail each toShare)
  show ?case
  proof (cases "avail = [] \<or> (toShare = 0 \<and> each = 0)")
    case True
    with 2(5) show ?thesis by (auto simp: total_budget_def shared_evenly_def unat_eq_zero)
  next
    case False
    let ?p = "getRandomPeer avail draw"
    let ?b = "if toShare > 0 then each + 1 else each"
    let ?s = "if toShare > 0 then toShare - 1 else toShare"
    let ?avail = "DifferenceString peers' (chosen @ [?p])"
    have p: "?p \<in> set avail" using False getRandomPeer_in by blast
    have P: "peers' = peers" using 2(3) by simp
    have A: "?avail = filter (\<lambda>x. x \<noteq> ?p) avail" using 2(2) by (simp add: P DifferenceString_snoc)
    have "distinct avail" using 2(2) d by (simp add: DifferenceString_def)
    then have len: "Suc (length ?avail) = length avail" unfolding A using p by (rule length_remove_one)
    have b: "unat ?b = unat each + (if toShare > 0 then 1 else 0)" using 2(6) by (simp add: unat_Suc_small)
    have s: "unat ?s = unat toShare - 1" by (auto simp: unat_pred word_gt_0)
    have s': "unat ?s \<le> length ?avail" using s 2(5) len by simp
    have "\<exists>out. share_budget choices (chosen @ [?p]) ?avail each ?s = Some out
      \<and> total_budget out = unat each * length ?avail + unat ?s \<and> shared_evenly (unat each) ?avail out"
      by (rule 2(1) [OF False refl refl refl refl]) (use 2(3,4,6) s' len P in \<open>auto simp: word_gt_0\<close>)
    then obtain out where o: "share_budget choices (chosen @ [?p]) ?avail each ?s = Some out"
      "total_budget out = unat each * length ?avail + unat ?s" "shared_evenly (unat each) ?avail out" by blast
    have "?b > 0" using False b by (auto simp: word_gt_0 unat_eq_zero [symmetric])
    moreover have "unat toShare = unat ?s + (if toShare > 0 then 1 else 0)" using s by (auto simp: word_gt_0 unat_gt_0 [symmetric])
    moreover have "length avail = length ?avail + 1" using len by simp
    ultimately show ?thesis using False o b p A
      by (auto simp: Let_def total_budget_def shared_evenly_def algebra_simps split: if_splits)
  qed
qed

lemma remainder_half:
  fixes b n :: nat
  assumes "b mod n > 0"
  shows "2 * (b div n) \<le> b"
proof (cases "n \<le> 1")
  case True
  with assms show ?thesis by (cases n) auto
next
  case False
  then have "2 * (b div n) \<le> n * (b div n)" by (intro mult_le_mono1) simp
  then show ?thesis using times_div_less_eq_dividend [of n b] by linarith
qed

lemma forward_shared:
  assumes st: "steady peers choices" and avail: "avail = DifferenceString peers [sender]" "avail \<noteq> []" and len: "length peers < 2 ^ 64"
    and b: "budget > 0"
  shows "\<exists>out. forwardSearchRequestWithBudget peers choices sender budget = Some out
    \<and> total_budget out = unat budget \<and> shared_evenly (unat budget div length avail) avail out"
proof -
  let ?n = "length avail"
  have le: "?n \<le> length peers" by (simp add: avail DifferenceString_def)
  have n: "unat (of_nat ?n :: uint64) = ?n" using le len by (simp add: unat_of_nat)
  have each: "unat (budget div of_nat ?n) = unat budget div ?n" and share: "unat (budget mod of_nat ?n) = unat budget mod ?n"
    by (simp_all add: unat_div unat_mod n)
  have small: "unat budget div ?n + 1 < 2 ^ 64" if "budget mod of_nat ?n > 0"
  proof -
    have "unat budget mod ?n > 0" using that share by (metis unat_gt_0 word_neq_0_conv)
    then have "2 * (unat budget div ?n) \<le> unat budget" by (rule remainder_half)
    moreover have "unat budget < 2 ^ 64" using unsigned_less [of budget] by simp
    ultimately show ?thesis by simp
  qed
  have "\<exists>out. share_budget choices [sender] avail (budget div of_nat ?n) (budget mod of_nat ?n) = Some out
      \<and> total_budget out = unat (budget div of_nat ?n) * ?n + unat (budget mod of_nat ?n)
      \<and> shared_evenly (unat (budget div of_nat ?n)) avail out"
  proof (rule share_budget_even [OF _ avail(1)])
    show "unat (budget mod of_nat ?n) \<le> ?n" unfolding share using avail(2) by (simp add: less_imp_le_nat)
    show "budget mod of_nat ?n > 0 \<longrightarrow> unat (budget div of_nat ?n) + 1 < 2 ^ 64" unfolding each using small by blast
  qed (use st le in \<open>auto simp: steady_def\<close>)
  then obtain out where o: "share_budget choices [sender] avail (budget div of_nat ?n) (budget mod of_nat ?n) = Some out"
    "total_budget out = unat budget div ?n * ?n + unat budget mod ?n" "shared_evenly (unat budget div ?n) avail out"
    unfolding each share by blast
  have "forwardSearchRequestWithBudget peers choices sender budget = Some out"
    using b avail(2) o(1) by (simp add: forwardSearchRequestWithBudget_def Let_def avail(1) [symmetric])
  with o(2,3) show ?thesis by simp
qed

text \<open>
  Claim C8. What a node forwards of a search request is one less than the budget it came with, split among all its other peers so that
  the shares differ by one at most, no share is zero, nobody gets two and the sender gets none. A request that comes with budget 0
  is not dropped: the budget wraps around and the node forwards \<open>2 ^ 64 - 1\<close>.
\<close>

theorem search_budget_shared:
  assumes "steady (nd_Peers nd) choices" and "length (nd_Peers nd) < 2 ^ 64"
    and "gp_SearchRequest (ext_Packet ext) = Some sr" and "\<not> fst (isRecentSearchRequest H now fh sr)"
    and "avail = DifferenceString (nd_Peers nd) [ext_SenderAddr ext]" and "avail \<noteq> []" and "sq_Budget sr \<noteq> 1"
  shows "\<exists>fh' reply sr' out. processSearchRequest H rx rng app nd now choices fh ext = Some (Inr (fh', reply @ sends (ext_Packet ext) sr' out))
    \<and> total_budget out = (if sq_Budget sr = 0 then 2 ^ 64 - 1 else unat (sq_Budget sr) - 1)
    \<and> shared_evenly (total_budget out div length avail) avail out"
proof -
  obtain fh' sr' where r: "isRecentSearchRequest H now fh sr = (False, fh', sr')" and b: "sq_Budget sr' = sq_Budget sr"
    using assms(4) by (auto simp: isRecentSearchRequest_def Let_def split: if_splits)
  have pos: "sq_Budget sr - 1 > 0" using assms(7) by (simp add: word_gt_0)
  have v: "unat (sq_Budget sr - 1) = (if sq_Budget sr = 0 then 2 ^ 64 - 1 else unat (sq_Budget sr) - 1)"
    by (auto simp: unat_pred word_gt_0 unsigned_minus_1_eq_mask mask_eq_exp_minus_1)
  from forward_shared [OF assms(1,5,6,2) pos] obtain out where
    f: "forwardSearchRequestWithBudget (nd_Peers nd) choices (ext_SenderAddr ext) (sq_Budget sr - 1) = Some out"
    and o: "total_budget out = unat (sq_Budget sr - 1)" "shared_evenly (unat (sq_Budget sr - 1) div length avail) avail out" by blast
  have "\<exists>reply. processSearchRequest H rx rng app nd now choices fh ext = Some (Inr (fh', reply @ sends (ext_Packet ext) sr' out))"
    by (simp add: processSearchRequest_def assms(3) r b Let_def f)
  with o v show ?thesis by metis
qed

definition sample_request :: "string \<Rightarrow> uint64 \<Rightarrow> string list \<Rightarrow> ExtendedGossipPacket" where
  "sample_request origin budget keywords = \<lparr>ext_Packet = empty_packet\<lparr>gp_SearchRequest :=
     Some \<lparr>sq_Origin = origin, sq_Budget = budget, sq_Keywords = keywords\<rparr>\<rparr>, ext_SenderAddr = ''p0''\<rparr>"

theorem search_budget_shared_witness:
  "\<exists>fh' reply sr' out. processSearchRequest flat_hash (\<lambda>_ _. False) rev toy_app ((sample_node ''a'')\<lparr>nd_Peers := [''p0'', ''p1'', ''p2'']\<rparr>) 7
      (replicate 3 (5, [''p0'', ''p1'', ''p2''])) NewFileHandler (sample_request ''z'' 8 [''x''])
      = Some (Inr (fh', reply @ sends (ext_Packet (sample_request ''z'' 8 [''x''])) sr' out))
    \<and> total_budget out = 7 \<and> shared_evenly (7 div length [''p1'', ''p2'']) [''p1'', ''p2''] out"
proof -
  have s: "steady (nd_Peers ((sample_node ''a'')\<lparr>nd_Peers := [''p0'', ''p1'', ''p2'']\<rparr>)) (replicate 3 (5, [''p0'', ''p1'', ''p2'']))"
    by (simp add: steady_def)
  have n: "\<not> fst (isRecentSearchRequest flat_hash 7 NewFileHandler \<lparr>sq_Origin = ''z'', sq_Budget = 8, sq_Keywords = [''x'']\<rparr>)"
    by (simp add: isRecentSearchRequest_def Let_def NewFileHandler_def)
  have "\<exists>fh' reply sr' out. processSearchRequest flat_hash (\<lambda>_ _. False) rev toy_app ((sample_node ''a'')\<lparr>nd_Peers := [''p0'', ''p1'', ''p2'']\<rparr>) 7
      (replicate 3 (5, [''p0'', ''p1'', ''p2''])) NewFileHandler (sample_request ''z'' 8 [''x''])
      = Some (Inr (fh', reply @ sends (ext_Packet (sample_request ''z'' 8 [''x''])) sr' out))
    \<and> total_budget out = (if sq_Budget \<lparr>sq_Origin = ''z'', sq_Budget = 8, sq_Keywords = [''x'']\<rparr> = 0 then 2 ^ 64 - 1
         else unat (sq_Budget \<lparr>sq_Origin = ''z'', sq_Budget = 8, sq_Keywords = [''x'']\<rparr>) - 1)
    \<and> shared_evenly (total_budget out div length [''p1'', ''p2'']) [''p1'', ''p2''] out"
    by (rule search_budget_shared [OF s _ _ n]) (simp_all add: sample_request_def DifferenceString_def)
  then show ?thesis by (simp cong: conj_cong)
qed

section \<open>A search ends, or not\<close>

definition steady_tick :: "search_tick \<Rightarrow> bool" where
  "steady_tick t \<longleftrightarrow> (case t of (fh, peers, choices) \<Rightarrow> steady peers choices \<and> length peers < 2 ^ 64)"

lemma forward_returns:
  assumes "steady peers choices" and "length peers < 2 ^ 64"
  shows "\<exists>out. forwardSearchRequestWithBudget peers choices sender budget = Some out"
proof (cases "budget > 0 \<and> DifferenceString peers [sender] \<noteq> []")
  case True
  with forward_shared [OF assms(1) refl _ assms(2)] show ?thesis by blast
next
  case False
  then show ?thesis by (auto simp: forwardSearchRequestWithBudget_def)
qed

text \<open>\<open>n\<close> doublings take the budget above the maximum.\<close>

lemma search_ticks_end:
  "\<forall>t \<in> set ticks. steady_tick t \<Longrightarrow> n < length ticks \<Longrightarrow> unat budget * 2 ^ n > unat maxBudget \<Longrightarrow> unat budget * 2 ^ n < 2 ^ 64 \<Longrightarrow>
   search_ticks rx rng keywords sender True budget ticks \<noteq> None"
proof (induction n arbitrary: budget ticks)
  case 0
  then obtain fh peers choices ticks' where "ticks = (fh, peers, choices) # ticks'" by (cases ticks) auto
  then show ?case using 0 by (simp add: word_less_nat_alt)
next
  case (Suc n)
  then obtain fh peers choices ticks' where t: "ticks = (fh, peers, choices) # ticks'" by (cases ticks) auto
  obtain out where o: "forwardSearchRequestWithBudget peers choices sender (budget * 2 - 1) = Some out"
    using Suc.prems(1) t forward_returns by (force simp: steady_tick_def)
  have "unat budget * 2 \<le> unat budget * 2 ^ Suc n" by simp
  then have "unat budget * 2 < 2 ^ 64" using Suc.prems(4) by (rule le_less_trans)
  then have u: "unat (budget * 2) = unat budget * 2" by (simp add: unat_word_ariths)
  have "search_ticks rx rng keywords sender True (budget * 2) ticks' \<noteq> None"
    by (rule Suc.IH) (use Suc.prems t u in \<open>auto simp: algebra_simps\<close>)
  then show ?case using o by (auto simp: t go_option_bind_def split: sum.splits bool.splits)
qed

text \<open>
  Claim C10. A search with the default budget ends: the budget doubles at each tick of the timer, so at the sixth tick at the latest it
  is above the maximum, whatever the peers answer.
\<close>

theorem default_search_ends:
  assumes "steady peers choices" and "length peers < 2 ^ 64" and "\<forall>t \<in> set ticks. steady_tick t" and "6 \<le> length ticks"
    and "sq_Budget sr = defaultBudget"
  shows "searchFilesWithTimeout rx rng sender sr True peers choices ticks \<noteq> None"
proof -
  obtain out where o: "forwardSearchRequestWithBudget peers choices sender (sq_Budget sr - 1) = Some out"
    using forward_returns [OF assms(1,2)] by blast
  have "search_ticks rx rng (sq_Keywords sr) sender True (sq_Budget sr) ticks \<noteq> None"
    by (rule search_ticks_end [where n = 5]) (use assms(3-5) in \<open>simp_all add: defaultBudget_def maxBudget_def\<close>)
  then show ?thesis using o
    by (auto simp: searchFilesWithTimeout_def go_option_bind_def assms(5) defaultBudget_def split: sum.splits)
qed

theorem default_search_ends_witness:
  "searchFilesWithTimeout (\<lambda>_ _. False) rev ''me'' \<lparr>sq_Origin = ''a'', sq_Budget = 2, sq_Keywords = [''x'']\<rparr> True [''p''] [(0, [''p''])]
     (replicate 6 (NewFileHandler, [''p''], [(0, [''p''])])) \<noteq> None"
  by (rule default_search_ends) (simp_all add: steady_def steady_tick_def defaultBudget_def)

lemma given_ticks_never_end:
  assumes "budget \<le> maxBudget" and "\<forall>(fh, peers, choices) \<in> set ticks. isFileMatchThresholdReached rx rng fh keywords = Inr False"
  shows "search_ticks rx rng keywords sender False budget ticks = None"
  using assms(2)
proof (induction ticks)
  case (Cons t ticks)
  obtain fh peers choices where t: "t = (fh, peers, choices)" by (cases t) auto
  show ?case using Cons assms(1) by (auto simp: t go_option_bind_def bind_eq_None_conv not_less)
qed simp

text \<open>
  A search whose budget the user gave (up to the maximum) is sent again at every tick for ever, unless two matching files are
  located: no number of ticks ends it.
\<close>

theorem given_search_never_ends:
  assumes "sq_Budget sr > 0" and "sq_Budget sr \<le> maxBudget"
    and "\<forall>(fh, peers, choices) \<in> set ticks. isFileMatchThresholdReached rx rng fh (sq_Keywords sr) = Inr False"
  shows "searchFilesWithTimeout rx rng sender sr False peers choices ticks = None"
  using given_ticks_never_end [OF assms(2,3)] assms(1)
  by (auto simp: searchFilesWithTimeout_def go_option_bind_def bind_eq_None_conv word_gt_0)

theorem given_search_never_ends_witness:
  "searchFilesWithTimeout (\<lambda>_ _. False) rev ''me'' \<lparr>sq_Origin = ''a'', sq_Budget = 2, sq_Keywords = [''x'']\<rparr> False [''p''] [(0, [''p''])]
     (replicate 100 (NewFileHandler, [''p''], [(0, [''p''])])) = None"
  by (rule given_search_never_ends)
    (simp_all add: maxBudget_def isFileMatchThresholdReached_def NewFileHandler_def matchThreshold_def)

section \<open>Recent requests\<close>

lemma sort_Strings_mset: "mset xs = mset ys \<Longrightarrow> sort_Strings xs = sort_Strings ys"
  unfolding sort_Strings_def
  by (rule sort_key_inj_key_eq)
    (auto simp: inj_on_def sorted_sort_key intro!: map_injective [OF _ inj_on_inverseI [of _ char_of]])

text \<open>
  A search request is served once: for half a second every request of the same origin for the same keywords, in any
  order, from any neighbour and with any budget, changes nothing and is not forwarded.
\<close>

theorem repeated_search_ignored:
  assumes "processSearchRequest H rx rng app nd now choices fh ext = Some (Inr (fh', acts))"
    and "gp_SearchRequest (ext_Packet ext) = Some sr" and "gp_SearchRequest (ext_Packet ext') = Some sr'"
    and "\<not> fst (isRecentSearchRequest H now fh sr)"
    and "sq_Origin sr' = sq_Origin sr" and "mset (sq_Keywords sr') = mset (sq_Keywords sr)" and "now' \<le> now + searchRequestDuplicateTimeout"
  shows "processSearchRequest H rx rng app nd now' choices' fh' ext' = Some (Inr (fh', []))"
proof -
  obtain r where r: "isRecentSearchRequest H now fh sr =
      (False, fh\<lparr>fh_lastSearchRequests := (fh_lastSearchRequests fh)(request_identifier H sr \<mapsto> now)\<rparr>, r)"
    using assms(4) by (auto simp: isRecentSearchRequest_def Let_def split: if_splits)
  have f: "fh' = fh\<lparr>fh_lastSearchRequests := (fh_lastSearchRequests fh)(request_identifier H sr \<mapsto> now)\<rparr>"
    using assms(1) by (auto simp: processSearchRequest_def assms(2) r Let_def)
  have "request_identifier H sr' = request_identifier H sr"
    by (simp add: request_identifier_def assms(5) sort_Strings_mset [OF assms(6)])
  then show ?thesis
    using assms(7) by (simp add: processSearchRequest_def assms(3) f isRecentSearchRequest_def Let_def)
qed

theorem repeated_search_ignored_witness:
  "let nd = (sample_node ''a'')\<lparr>nd_Peers := [''p0'', ''p1'']\<rparr>;
       first = processSearchRequest flat_hash (\<lambda>_ _. False) rev toy_app nd 1000 [] NewFileHandler (sample_request ''z'' 1 [''x'', ''y''])
   in \<exists>fh' acts. first = Some (Inr (fh', acts)) \<and>
        processSearchRequest flat_hash (\<lambda>_ _. False) rev toy_app nd 1400 [] fh' (sample_request ''z'' 9 [''y'', ''x'']) = Some (Inr (fh', []))"
proof -
  let ?nd = "(sample_node ''a'')\<lparr>nd_Peers := [''p0'', ''p1'']\<rparr>"
  let ?sr = "\<lparr>sq_Origin = ''z'', sq_Budget = 1, sq_Keywords = [''x'', ''y'']\<rparr>" and ?sr' = "\<lparr>sq_Origin = ''z'', sq_Budget = 9, sq_Keywords = [''y'', ''x'']\<rparr>"
  have new: "\<not> fst (isRecentSearchRequest flat_hash 1000 NewFileHandler ?sr)"
    by (simp add: isRecentSearchRequest_def Let_def NewFileHandler_def)
  then have "\<exists>fh' acts. processSearchRequest flat_hash (\<lambda>_ _. False) rev toy_app ?nd 1000 [] NewFileHandler (sample_request ''z'' 1 [''x'', ''y''])
      = Some (Inr (fh', acts))"
    by (auto simp: processSearchRequest_def sample_request_def isRecentSearchRequest_def Let_def NewFileHandler_def
        forwardSearchRequestWithBudget_def split: prod.splits)
  then obtain fh' acts where
    f: "processSearchRequest flat_hash (\<lambda>_ _. False) rev toy_app ?nd 1000 [] NewFileHandler (sample_request ''z'' 1 [''x'', ''y'']) = Some (Inr (fh', acts))"
    by blast
  have "processSearchRequest flat_hash (\<lambda>_ _. False) rev toy_app ?nd 1400 [] fh' (sample_request ''z'' 9 [''y'', ''x'']) = Some (Inr (fh', []))"
    by (rule repeated_search_ignored [OF f, where sr = ?sr and sr' = ?sr'])
      (use new in \<open>simp_all add: sample_request_def searchRequestDuplicateTimeout_def\<close>)
  with f show ?thesis by (simp add: Let_def)
qed

section \<open>Locating files\<close>













section \<open>The threshold\<close>

definition wanted :: "regexp \<Rightarrow> FileHandler \<Rightarrow> string list \<Rightarrow> FileMetadata \<Rightarrow> bool" where
  "wanted rx fh keywords f \<longleftrightarrow> containsKeyword rx (fm_FileName f) keywords \<and> fm_Size f = 0 \<and> checkAllChunksLocation fh f = Inr True"

lemma count_matches_exact:
  "n < matchThreshold \<Longrightarrow> \<forall>f \<in> set fs. \<exists>b. checkAllChunksLocation fh f = Inr b \<Longrightarrow>
   count_matches rx fh keywords n fs = Inr (min matchThreshold (n + length (filter (wanted rx fh keywords) fs)))"
proof (induction fs arbitrary: n)
  case Nil
  then show ?case by (simp add: min_absorb2)
next
  case (Cons f fs)
  then obtain b where b: "checkAllChunksLocation fh f = Inr b" by auto
  have "wanted rx fh keywords f \<longleftrightarrow> containsKeyword rx (fm_FileName f) keywords \<and> fm_Size f = 0 \<and> b" by (simp add: wanted_def b)
  moreover have "n = 0 \<or> n = 1" using Cons.prems(1) by (auto simp: matchThreshold_def)
  ultimately show ?case
    using Cons.IH [of n] Cons.IH [of "n + 1"] Cons.prems b by (cases b) (auto simp: Let_def matchThreshold_def)
qed

text \<open>
  A search counts as finished exactly when at least two files match a keyword, have been located completely and are not
  yet on disk, in whatever order the files are iterated over and although the iteration stops early.
\<close>

theorem threshold_exact:
  assumes "\<And>xs. mset (rng xs) = mset xs" and "\<forall>f \<in> set (map snd (fh_filesMetadata fh)). \<exists>b. checkAllChunksLocation fh f = Inr b"
  shows "isFileMatchThresholdReached rx rng fh keywords =
    Inr (2 \<le> length (filter (wanted rx fh keywords) (map snd (fh_filesMetadata fh))))"
proof -
  let ?fs = "map snd (fh_filesMetadata fh)"
  have "set (rng ?fs) = set ?fs" using arg_cong [OF assms(1), of set_mset] by simp
  moreover have "length (filter (wanted rx fh keywords) (rng ?fs)) = length (filter (wanted rx fh keywords) ?fs)"
    by (metis assms(1) mset_filter size_mset)
  ultimately show ?thesis
    using count_matches_exact [of 0 "rng ?fs" fh rx "keywords"] assms(2) by (auto simp: isFileMatchThresholdReached_def matchThreshold_def)
qed

theorem threshold_exact_witness:
  "isFileMatchThresholdReached (\<lambda>_ _. False) rev (NewFileHandler\<lparr>fh_filesMetadata := [(''k'', sample_metadata 3)]\<rparr>) [''f''] = Inr False"
proof -
  let ?fh = "NewFileHandler\<lparr>fh_filesMetadata := [(''k'', sample_metadata 3)]\<rparr>"
  have "checkAllChunksLocation ?fh (sample_metadata 3) = Inr False"
    by (simp add: checkAllChunksLocation_def data_Load_def sample_metadata_def NewFileHandler_def)
  then show ?thesis using threshold_exact [of rev ?fh "\<lambda>_ _. False" "[''f'']"] by (auto simp: wanted_def)
qed

end
