(* ===== verification/Mongering.thy ===== *)
theory Mongering
  imports GossipNode
begin

text \<open>
  The timed parts of gossip: rumor mongering with its listeners for status packets (\<open>src/gossiper/rumormongering.go\<close>, the listeners of
  \<open>src/gossiper/status.go\<close>), anti-entropy, and route rumors (\<open>src/gossiper/routinghandler.go\<close>). Listeners are kept by peer and
  message; of their channels the model keeps how many notifications they hold. Timers and arriving packets are lists of events; \<open>None\<close> is a
  goroutine that still waits when its list ends.
\<close>

section \<open>Listeners\<close>

type_synonym listeners = "string \<rightharpoonup> (string \<times> uint32 \<rightharpoonup> nat)"

definition getListenerForStatus :: "listeners \<Rightarrow> string \<Rightarrow> uint32 \<Rightarrow> string \<Rightarrow> listeners \<times> bool" where
  "getListenerForStatus ls origin i peer =
     (let m = (case ls peer of None \<Rightarrow> Map.empty | Some m \<Rightarrow> m)
      in case m (origin, i) of
           None \<Rightarrow> (ls(peer \<mapsto> m((origin, i) \<mapsto> 0)), False)
         | Some c \<Rightarrow> (ls(peer \<mapsto> m), True))"

definition deleteListenerForStatus :: "listeners \<Rightarrow> string \<Rightarrow> uint32 \<Rightarrow> string \<Rightarrow> listeners" where
  "deleteListenerForStatus ls origin i peer =
     (let m = (case ls peer of None \<Rightarrow> Map.empty | Some m \<Rightarrow> m) in ls(peer \<mapsto> m((origin, i) := None)))"

text \<open>Every entry of the status that names the origin with a higher next identifier notifies once.\<close>

definition notifications :: "PeerStatus list \<Rightarrow> string \<times> uint32 \<Rightarrow> nat" where
  "notifications want msg = length (filter (\<lambda>ps. ps_Identifier ps = fst msg \<and> snd msg < ps_NextID ps) want)"

definition notifyListenersForStatus :: "listeners \<Rightarrow> address \<Rightarrow> PeerStatus list \<Rightarrow> listeners" where
  "notifyListenersForStatus ls sender want =
     (case ls sender of None \<Rightarrow> ls
      | Some m \<Rightarrow> ls(sender \<mapsto> (\<lambda>msg. map_option (\<lambda>c. c + notifications want msg) (m msg))))"

definition waiting_in :: "listeners \<Rightarrow> string \<Rightarrow> uint32 \<Rightarrow> string \<Rightarrow> nat option" where
  "waiting_in ls origin i peer = Option.bind (ls peer) (\<lambda>m. m (origin, i))"

section \<open>Sending a rumor\<close>

datatype mongering_event = StatusFrom address "PeerStatus list" | RumorTimeout

fun wait_for_status :: "listeners \<Rightarrow> string \<Rightarrow> uint32 \<Rightarrow> string \<Rightarrow> mongering_event list \<Rightarrow> (bool \<times> listeners \<times> mongering_event list) option" where
  "wait_for_status ls origin i peer events =
     (case waiting_in ls origin i peer of
        Some (Suc c) \<Rightarrow> Some (True, deleteListenerForStatus ls origin i peer, events)
      | _ \<Rightarrow>
          (case events of
             [] \<Rightarrow> None
           | RumorTimeout # es \<Rightarrow> Some (False, deleteListenerForStatus ls origin i peer, es)
           | StatusFrom sender want # es \<Rightarrow> wait_for_status (notifyListenersForStatus ls sender want) origin i peer es))"

definition sendRumorWithTimeout ::
  "listeners \<Rightarrow> GossipPacket \<Rightarrow> string \<Rightarrow> uint32 \<Rightarrow> address \<Rightarrow> mongering_event list \<Rightarrow>
   action \<times> (bool \<times> listeners \<times> mongering_event list) option" where
  "sendRumorWithTimeout ls packet origin i peer events =
     (SendPacket packet peer, wait_for_status (fst (getListenerForStatus ls origin i peer)) origin i peer events)"

section \<open>Timers\<close>

text \<open>One element per tick: the node then and the random draw.\<close>

definition startAntiEntropy :: "AppConstants \<Rightarrow> clock_range \<Rightarrow> (Node \<times> nat) list \<Rightarrow> action list" where
  "startAntiEntropy app rng ticks =
     (if app_antiEntropyTimeout app > 0 then
        concat (map (\<lambda>(nd, draw).
          if length (nd_Peers nd) \<noteq> 0 then [SendPacket (status_packet rng (nd_gossip nd)) (getRandomPeer (nd_Peers nd) draw)] else []) ticks)
      else [])"

definition create_route_rumor :: "Node \<Rightarrow> (ExtendedGossipPacket \<times> Node) option" where
  "create_route_rumor nd =
     map_option (\<lambda>(ext, gh). (ext, nd\<lparr>nd_gossip := gh\<rparr>)) (CreateRumorMessage (nd_Name nd) (nd_Address nd) (nd_gossip nd) [])"

fun route_rumor_ticks :: "nat \<Rightarrow> Node \<Rightarrow> (action list \<times> Node) option" where
  "route_rumor_ticks 0 nd = Some ([], nd)"
| "route_rumor_ticks (Suc n) nd =
     Option.bind (create_route_rumor nd) (\<lambda>(ext, nd').
       map_option (\<lambda>(acts, nd''). ((case gp_Rumor (ext_Packet ext) of
           Some r \<Rightarrow> [StartMongering ext (nd_Name nd) (rum_ID r)] | None \<Rightarrow> []) @ acts, nd''))
         (route_rumor_ticks n nd'))"

definition startRouteRumormongering :: "AppConstants \<Rightarrow> nat \<Rightarrow> Node \<Rightarrow> (action list \<times> Node) option" where
  "startRouteRumormongering app n nd =
     (if app_routeRumorTimeout app > 0 then
        Option.bind (create_route_rumor nd) (\<lambda>(ext, nd').
          map_option (\<lambda>(acts, nd''). (BroadcastToPeers ext (nd_Peers nd') @ acts, nd'')) (route_rumor_ticks n nd'))
      else Some ([], nd))"

declare wait_for_status.simps [simp del]

section \<open>What a mongering waits for\<close>

definition confirms :: "string \<Rightarrow> uint32 \<Rightarrow> string \<Rightarrow> mongering_event \<Rightarrow> bool" where
  "confirms origin i peer e = (case e of RumorTimeout \<Rightarrow> False
     | StatusFrom sender want \<Rightarrow> sender = peer \<and> (\<exists>ps \<in> set want. ps_Identifier ps = origin \<and> i < ps_NextID ps))"

lemma waiting_in_notify:
  "waiting_in (notifyListenersForStatus ls sender want) origin i peer =
     (if sender = peer then map_option (\<lambda>c. c + notifications want (origin, i)) (waiting_in ls origin i peer) else waiting_in ls origin i peer)"
  by (auto simp: waiting_in_def notifyListenersForStatus_def split: option.splits)

lemma waiting_in_delete [simp]: "waiting_in (deleteListenerForStatus ls origin i peer) origin i peer = None"
  by (simp add: waiting_in_def deleteListenerForStatus_def Let_def)

lemma waiting_in_get: "waiting_in ls origin i peer = None \<Longrightarrow> waiting_in (fst (getListenerForStatus ls origin i peer)) origin i peer = Some 0"
  by (auto simp: waiting_in_def getListenerForStatus_def Let_def bind_eq_None_conv split: option.splits)

lemma notifications_pos: "0 < notifications want (origin, i) \<longleftrightarrow> (\<exists>ps \<in> set want. ps_Identifier ps = origin \<and> i < ps_NextID ps)"
  by (auto simp: notifications_def filter_empty_conv)

lemma wait_notified:
  assumes "waiting_in ls origin i peer = Some c" and "c > 0"
  shows "wait_for_status ls origin i peer es = Some (True, deleteListenerForStatus ls origin i peer, es)"
  using assms by (cases c) (simp_all add: wait_for_status.simps [of ls])

lemma wait_for_status_exact:
  "waiting_in ls origin i peer = Some 0 \<Longrightarrow>
   map_option (\<lambda>(b, ls', es). (b, es, waiting_in ls' origin i peer)) (wait_for_status ls origin i peer events) =
   (case dropWhile (\<lambda>e. e \<noteq> RumorTimeout \<and> \<not> confirms origin i peer e) events of
      [] \<Rightarrow> None | e # es \<Rightarrow> Some (confirms origin i peer e, es, None))"
proof (induction events arbitrary: ls)
  case Nil
  then show ?case by (simp add: wait_for_status.simps [of ls])
next
  case (Cons e es)
  show ?case
  proof (cases e)
    case RumorTimeout
    with Cons.prems show ?thesis by (simp add: wait_for_status.simps [of ls] confirms_def)
  next
    case (StatusFrom sender want)
    let ?ls = "notifyListenersForStatus ls sender want"
    have step: "wait_for_status ls origin i peer (e # es) = wait_for_status ?ls origin i peer es"
      using Cons.prems StatusFrom by (simp add: wait_for_status.simps [of ls])
    show ?thesis
    proof (cases "confirms origin i peer e")
      case True
      then have "waiting_in ?ls origin i peer = Some (notifications want (origin, i))" "notifications want (origin, i) > 0"
        using Cons.prems by (simp_all add: StatusFrom confirms_def waiting_in_notify notifications_pos)
      from wait_notified [OF this] True show ?thesis unfolding step by simp
    next
      case False
      then have "sender \<noteq> peer \<or> notifications want (origin, i) = 0"
        using notifications_pos [of want origin i] by (auto simp: StatusFrom confirms_def)
      then have "waiting_in ?ls origin i peer = Some 0" using Cons.prems by (auto simp: waiting_in_notify)
      from Cons.IH [OF this] False show ?thesis unfolding step by (simp add: StatusFrom)
    qed
  qed
qed

text \<open>
  Claim C25. A mongering goroutine goes on exactly at the first relevant event: a status of the peer it sent the rumor to that shows that the
  peer has the message, or the time-out. Other packets do not wake it, the flag tells which of the two it was, and no listener is left behind.
\<close>

theorem mongering_waits_exactly:
  assumes "waiting_in ls origin i peer = None"
  shows "map_option (\<lambda>(b, ls', es). (b, es, waiting_in ls' origin i peer)) (snd (sendRumorWithTimeout ls packet origin i peer events)) =
    (case dropWhile (\<lambda>e. e \<noteq> RumorTimeout \<and> \<not> confirms origin i peer e) events of
       [] \<Rightarrow> None | e # es \<Rightarrow> Some (confirms origin i peer e, es, None))"
  using wait_for_status_exact [OF waiting_in_get [OF assms]] by (simp add: sendRumorWithTimeout_def)

theorem mongering_waits_exactly_witness:
  "map_option fst (snd (sendRumorWithTimeout Map.empty empty_packet ''a'' 3 ''p''
     [StatusFrom ''p'' [\<lparr>ps_Identifier = ''a'', ps_NextID = 3\<rparr>], StatusFrom ''q'' [\<lparr>ps_Identifier = ''a'', ps_NextID = 4\<rparr>],
      StatusFrom ''p'' [\<lparr>ps_Identifier = ''a'', ps_NextID = 4\<rparr>], RumorTimeout])) = Some True"
  (is "map_option fst ?r = _")
proof -
  have "map_option (\<lambda>(b, ls', es). (b, es, waiting_in ls' ''a'' 3 ''p'')) ?r = Some (True, [RumorTimeout], None)"
    by (subst mongering_waits_exactly) (simp_all add: waiting_in_def confirms_def)
  then show ?thesis by (auto split: prod.splits)
qed

section \<open>Route rumors\<close>

definition own_numbers :: "string \<Rightarrow> action list \<Rightarrow> uint32 list" where
  "own_numbers self acts = List.map_filter (\<lambda>a. case a of StartMongering ext origin i \<Rightarrow> if origin = self then Some i else None | _ \<Rightarrow> None) acts"

lemma create_route_rumor_shape:
  assumes "create_route_rumor nd = Some (ext, nd')"
  shows "ext_Packet ext = empty_packet\<lparr>gp_Rumor := Some \<lparr>rum_Origin = nd_Name nd, rum_ID = gh_seqID (nd_gossip nd), rum_Text = []\<rparr>\<rparr>"
    and "nd_Name nd' = nd_Name nd" and "nd_Peers nd' = nd_Peers nd" and "gh_seqID (nd_gossip nd') = gh_seqID (nd_gossip nd) + 1"
  using assms by (auto simp: create_route_rumor_def CreateRumorMessage_def publish_rumor_def load_seqID_def add_seqID_def Let_def storeMessage_def updateStatus_def bind_eq_Some_conv
      split: option.splits prod.splits if_splits)

text \<open>The rumors of \<open>n\<close> ticks carry consecutive identifiers, each mongered once.\<close>

lemma route_rumor_ticks_numbers:
  "route_rumor_ticks n nd = Some (acts, nd') \<Longrightarrow>
   own_numbers (nd_Name nd) acts = map (\<lambda>k. gh_seqID (nd_gossip nd) + of_nat k) [0..<n]
   \<and> nd_Name nd' = nd_Name nd \<and> gh_seqID (nd_gossip nd') = gh_seqID (nd_gossip nd) + of_nat n"
proof (induction n arbitrary: nd acts)
  case 0
  then show ?case by (simp add: own_numbers_def)
next
  case (Suc n)
  then obtain ext nd1 acts1 where c: "create_route_rumor nd = Some (ext, nd1)" and r: "route_rumor_ticks n nd1 = Some (acts1, nd')"
    and a: "acts = (case gp_Rumor (ext_Packet ext) of Some r \<Rightarrow> [StartMongering ext (nd_Name nd) (rum_ID r)] | None \<Rightarrow> []) @ acts1"
    by (auto simp: bind_eq_Some_conv)
  note s = create_route_rumor_shape [OF c]
  have acts: "acts = StartMongering ext (nd_Name nd) (gh_seqID (nd_gossip nd)) # acts1" by (simp add: a s(1))
  have "map (\<lambda>k. gh_seqID (nd_gossip nd) + of_nat k) [0..<Suc n]
      = gh_seqID (nd_gossip nd) # map (\<lambda>k. gh_seqID (nd_gossip nd) + 1 + of_nat k) [0..<n]"
    unfolding upt_conv_Cons [OF zero_less_Suc] map_Suc_upt [symmetric] by (simp add: algebra_simps)
  with Suc.IH [OF r] s acts show ?case by (simp add: own_numbers_def algebra_simps)
qed

end
