(* ===== verification/Ratchet.thy ===== *)
theory Ratchet
  imports AEAD
begin

text \<open>
  The Double Ratchet (\<open>src/adssignal/adsDoubleRatchet.go\<close>). The state record has the fields of
  \<open>DRatchetState\<close>, with an option for every pointer and the 64-bit counters as words compared by \<open>sint\<close>. An operation returns the
  updated state, or the panic it ends in. The private scalar that \<open>DHRatchet\<close> and \<open>SInitializeRatchet\<close> draw is
  an argument. The one line that the ratchet itself prints is part of the results of \<open>SkipMessageKeys\<close> and \<open>RatchetDecrypt_run\<close>.
\<close>

section \<open>State\<close>

record DRatchetState =
  rs_Peer :: string
  rs_DHs :: "DHPair option"
  rs_DHr :: "EllipticPoint option"
  rs_RK :: "bytes option"
  rs_CKs :: "bytes option"
  rs_CKr :: "bytes option"
  rs_Ns :: "64 word"
  rs_Nr :: "64 word"
  rs_PN :: "64 word"
  rs_MKSKIPPED :: "string \<rightharpoonup> bytes"

record RatchetMessage =
  rm_Header :: RatchetHeader
  rm_Message :: RatchetCipher

definition zero_ratchet :: DRatchetState where
  "zero_ratchet = \<lparr>rs_Peer = [], rs_DHs = None, rs_DHr = None, rs_RK = None, rs_CKs = None, rs_CKr = None,
     rs_Ns = 0, rs_Nr = 0, rs_PN = 0, rs_MKSKIPPED = Map.empty\<rparr>"

definition ratchetHopLimit :: "32 word" where "ratchetHopLimit = 10"
definition MaxSkip :: "64 word" where "MaxSkip = 10"

section \<open>Operations\<close>

definition SInitializeRatchet ::
  "Crypto \<Rightarrow> bytes \<Rightarrow> DRatchetState \<Rightarrow> bytes \<Rightarrow> EllipticPoint \<Rightarrow> string \<Rightarrow> DRatchetState go" where
  "SInitializeRatchet cr d st SK pubKey peer =
     (let DHs = GenerateDH cr d
      in go_bind (DH cr DHs pubKey) (\<lambda>dhOut.
           let (rk, cks) = KdfRK cr SK dhOut
           in Inr (st\<lparr>rs_Peer := peer, rs_DHs := Some DHs, rs_DHr := Some pubKey, rs_RK := Some rk,
                rs_CKs := Some cks, rs_CKr := None, rs_Ns := 0, rs_Nr := 0, rs_PN := 0,
                rs_MKSKIPPED := Map.empty\<rparr>)))"

definition RInitializeRatchet :: "DRatchetState \<Rightarrow> bytes \<Rightarrow> DHPair \<Rightarrow> DRatchetState" where
  "RInitializeRatchet st SK dhPair =
     st\<lparr>rs_DHs := Some dhPair, rs_DHr := None, rs_RK := Some SK, rs_CKs := None, rs_CKr := None,
        rs_Ns := 0, rs_Nr := 0, rs_PN := 0, rs_MKSKIPPED := Map.empty\<rparr>"

definition ComposeRatchetHeader ::
  "Crypto \<Rightarrow> DHPair \<Rightarrow> 64 word \<Rightarrow> 64 word \<Rightarrow> string \<Rightarrow> string \<Rightarrow> RatchetHeader go" where
  "ComposeRatchetHeader cr dhPair pn n origin destination =
     go_bind (Marshal (curve cr) (pt_x (PubKey dhPair)) (pt_y (PubKey dhPair))) (\<lambda>pubKey.
       Inr \<lparr>hdr_PubKey = pubKey, hdr_Pn = pn, hdr_N = n, hdr_Origin = origin,
            hdr_Destination = destination, hdr_HopLimit = ratchetHopLimit\<rparr>)"

definition RatchetEncrypt ::
  "Crypto \<Rightarrow> DRatchetState \<Rightarrow> string \<Rightarrow> string \<Rightarrow> string \<Rightarrow> bytes \<Rightarrow> (RatchetMessage \<times> DRatchetState) go" where
  "RatchetEncrypt cr st plaintext origin destination AD =
     go_bind (go_deref (rs_CKs st)) (\<lambda>cks. let (cks', mk) = KdfCK cr cks in
     go_bind (go_deref (rs_DHs st)) (\<lambda>DHs.
     go_bind (ComposeRatchetHeader cr DHs (rs_PN st) (rs_Ns st) origin destination) (\<lambda>ratchetHeader.
     let concatADH = Concat cr AD ratchetHeader in
     go_bind (EncryptAEAD cr mk plaintext concatADH) (\<lambda>ratchetCipher.
       Inr (\<lparr>rm_Header = ratchetHeader, rm_Message = ratchetCipher\<rparr>,
            st\<lparr>rs_CKs := Some cks', rs_Ns := rs_Ns st + 1\<rparr>)))))"

definition getKeyFromRatchet :: "Crypto \<Rightarrow> EllipticPoint \<Rightarrow> 64 word \<Rightarrow> string go" where
  "getKeyFromRatchet cr DHr Nr =
     go_bind (CompressPoint (curve cr) DHr) (\<lambda>DHrCompressed.
       Inr (EncodeToString (PutUint64 Nr @ Sum256 cr DHrCompressed)))"

text \<open>A skipped key that fails to decrypt is deleted as well, and the result is nil as if there were none.\<close>

definition TrySkippedMessageKeys ::
  "Crypto \<Rightarrow> DRatchetState \<Rightarrow> RatchetHeader \<Rightarrow> RatchetCipher \<Rightarrow> (string option \<times> DRatchetState) go" where
  "TrySkippedMessageKeys cr st header ciph =
     (let dhr = UncompressPoint (curve cr) (hdr_PubKey header)
      in go_bind (getKeyFromRatchet cr dhr (hdr_N header)) (\<lambda>key.
           case rs_MKSKIPPED st key of
             Some mk \<Rightarrow>
               go_bind (DecryptAEAD cr mk ciph header) (\<lambda>r.
                 Inr (r, st\<lparr>rs_MKSKIPPED := (rs_MKSKIPPED st)(key := None)\<rparr>))
           | None \<Rightarrow> Inr (None, st)))"

lemma sint_Suc: "sint (a :: 64 word) < sint (b :: 64 word) \<Longrightarrow> sint (a + 1) = sint a + 1"
proof -
  assume "sint a < sint b"
  moreover have "sint b < 2 ^ 63" "- (2 ^ 63) \<le> sint a"
    using sint_lt [of b] sint_ge [of a] by simp_all
  ultimately show ?thesis
    by (simp add: sint_word_ariths signed_take_bit_int_eq_self)
qed

function SkipMessageKeys_loop :: "Crypto \<Rightarrow> 64 word \<Rightarrow> DRatchetState \<Rightarrow> DRatchetState go" where
  "SkipMessageKeys_loop cr until st =
     (if sint (rs_Nr st) < sint until then
        go_bind (go_deref (rs_CKr st)) (\<lambda>ck. let (ckr, mk) = KdfCK cr ck in
        go_bind (go_deref (rs_DHr st)) (\<lambda>dhr.
        go_bind (getKeyFromRatchet cr dhr (rs_Nr st)) (\<lambda>key.
          SkipMessageKeys_loop cr until
            (st\<lparr>rs_CKr := Some ckr, rs_MKSKIPPED := (rs_MKSKIPPED st)(key \<mapsto> mk), rs_Nr := rs_Nr st + 1\<rparr>))))
      else Inr st)"
  by auto
termination
  by (relation "measure (\<lambda>(cr, until, st). nat (sint until - sint (rs_Nr st)))") (auto simp: sint_Suc)

declare SkipMessageKeys_loop.simps [simp del]

text \<open>
  The limit \<open>MaxSkip\<close> is only reported: the line is printed and the loop runs all the same. The first component is what is printed.
\<close>

definition skip_warning :: "64 word \<Rightarrow> 64 word \<Rightarrow> string list" where
  "skip_warning nr until = (if sint (nr + MaxSkip) < sint until then [''Too many skipped keys error''] else [])"

definition SkipMessageKeys :: "Crypto \<Rightarrow> DRatchetState \<Rightarrow> 64 word \<Rightarrow> (string list \<times> DRatchetState) go" where
  "SkipMessageKeys cr st until =
     go_bind (if rs_CKr st \<noteq> None then SkipMessageKeys_loop cr until st else Inr st) (\<lambda>st'.
       Inr (skip_warning (rs_Nr st) until, st'))"

definition DHRatchet :: "Crypto \<Rightarrow> bytes \<Rightarrow> DRatchetState \<Rightarrow> RatchetHeader \<Rightarrow> DRatchetState go" where
  "DHRatchet cr d st header =
     (let st1 = st\<lparr>rs_PN := rs_Ns st, rs_Ns := 0, rs_Nr := 0\<rparr>;
          (x, y, C) = Unmarshal (curve cr) (hdr_PubKey header);
          rcvPubKey = \<lparr>pt_C = C, pt_x = x, pt_y = y\<rparr>
      in go_bind (go_deref (rs_RK st1)) (\<lambda>rk.
         go_bind (go_deref (rs_DHs st1)) (\<lambda>DHs.
         go_bind (DH cr DHs rcvPubKey) (\<lambda>dh1.
         let (rk1, ckr) = KdfRK cr rk dh1; DHs' = GenerateDH cr d in
         go_bind (DH cr DHs' rcvPubKey) (\<lambda>dh2.
         let (rk2, cks) = KdfRK cr rk1 dh2
         in Inr (st1\<lparr>rs_DHr := Some rcvPubKey, rs_CKr := Some ckr, rs_DHs := Some DHs',
              rs_RK := Some rk2, rs_CKs := Some cks\<rparr>))))))"

definition RatchetDecrypt_run ::
  "Crypto \<Rightarrow> bytes \<Rightarrow> DRatchetState \<Rightarrow> RatchetHeader \<Rightarrow> RatchetCipher \<Rightarrow> (string option \<times> DRatchetState \<times> string list) go" where
  "RatchetDecrypt_run cr d st header ciph =
     go_bind (TrySkippedMessageKeys cr st header ciph) (\<lambda>(plaintext, st1).
       if plaintext \<noteq> None then Inr (plaintext, st1, [])
       else
         let (x, y, C) = Unmarshal (curve cr) (hdr_PubKey header);
             rcvPubKey = \<lparr>pt_C = C, pt_x = x, pt_y = y\<rparr>
         in go_bind (case rs_DHr st1 of None \<Rightarrow> Inr True
                     | Some dhr \<Rightarrow> go_bind (ComparePoints rcvPubKey dhr) (\<lambda>same. Inr (\<not> same))) (\<lambda>ratchet.
            go_bind (if ratchet then go_bind (SkipMessageKeys cr st1 (hdr_N header)) (\<lambda>(out, st2).
                       go_bind (DHRatchet cr d st2 header) (\<lambda>st3. Inr (out, st3)))
                     else Inr ([], st1)) (\<lambda>(out1, st3).
            go_bind (SkipMessageKeys cr st3 (hdr_N header)) (\<lambda>(out2, st4).
            go_bind (go_deref (rs_CKr st4)) (\<lambda>ck.
              let (ckr, mk) = KdfCK cr ck in
              go_bind (DecryptAEAD cr mk ciph header) (\<lambda>r.
                Inr (r, st4\<lparr>rs_CKr := Some ckr, rs_Nr := rs_Nr st4 + 1\<rparr>, out1 @ out2)))))))"

text \<open>What the callers use.\<close>

definition RatchetDecrypt ::
  "Crypto \<Rightarrow> bytes \<Rightarrow> DRatchetState \<Rightarrow> RatchetHeader \<Rightarrow> RatchetCipher \<Rightarrow> (string option \<times> DRatchetState) go" where
  "RatchetDecrypt cr d st header ciph = go_bind (RatchetDecrypt_run cr d st header ciph) (\<lambda>(r, st', out). Inr (r, st'))"

section \<open>Without what is printed\<close>

definition skip_keys :: "Crypto \<Rightarrow> DRatchetState \<Rightarrow> 64 word \<Rightarrow> DRatchetState go" where
  "skip_keys cr st until = go_bind (SkipMessageKeys cr st until) (\<lambda>(out, st'). Inr st')"

lemma skip_keys_eq: "skip_keys cr st until = (if rs_CKr st \<noteq> None then SkipMessageKeys_loop cr until st else Inr st)"
  by (cases "SkipMessageKeys_loop cr until st") (simp_all add: skip_keys_def SkipMessageKeys_def)

lemma SkipMessageKeys_eq:
  "SkipMessageKeys cr st until = go_bind (skip_keys cr st until) (\<lambda>st'. Inr (skip_warning (rs_Nr st) until, st'))"
  by (simp add: SkipMessageKeys_def skip_keys_eq)

lemma RatchetDecrypt_eq:
  "RatchetDecrypt cr d st header ciph =
     go_bind (TrySkippedMessageKeys cr st header ciph) (\<lambda>(plaintext, st1).
       if plaintext \<noteq> None then Inr (plaintext, st1)
       else
         let (x, y, C) = Unmarshal (curve cr) (hdr_PubKey header);
             rcvPubKey = \<lparr>pt_C = C, pt_x = x, pt_y = y\<rparr>
         in go_bind (case rs_DHr st1 of None \<Rightarrow> Inr True
                     | Some dhr \<Rightarrow> go_bind (ComparePoints rcvPubKey dhr) (\<lambda>same. Inr (\<not> same))) (\<lambda>ratchet.
            go_bind (if ratchet then go_bind (skip_keys cr st1 (hdr_N header)) (\<lambda>st2. DHRatchet cr d st2 header)
                     else Inr st1) (\<lambda>st3.
            go_bind (skip_keys cr st3 (hdr_N header)) (\<lambda>st4.
            go_bind (go_deref (rs_CKr st4)) (\<lambda>ck.
              let (ckr, mk) = KdfCK cr ck in
              go_bind (DecryptAEAD cr mk ciph header) (\<lambda>r.
                Inr (r, st4\<lparr>rs_CKr := Some ckr, rs_Nr := rs_Nr st4 + 1\<rparr>)))))))"
  unfolding RatchetDecrypt_def RatchetDecrypt_run_def SkipMessageKeys_eq
  by (auto simp: go_bind_def Let_def split: sum.splits prod.splits if_splits)

lemma DHRatchet_Nr: "DHRatchet cr d st h = Inr st' \<Longrightarrow> rs_Nr st' = 0"
  by (auto simp: DHRatchet_def Let_def go_bind_eq_Inr case_prod_unfold)

text \<open>The first message to a fresh receiver is checked against the limit twice, and read all the same.\<close>

lemma first_run_output:
  assumes "RatchetDecrypt cr d st h c = Inr (r, st')" and "rs_DHr st = None" "rs_CKr st = None" "rs_Nr st = 0" "rs_MKSKIPPED st = Map.empty"
  shows "RatchetDecrypt_run cr d st h c = Inr (r, st', skip_warning 0 (hdr_N h) @ skip_warning 0 (hdr_N h))"
proof -
  obtain out where run: "RatchetDecrypt_run cr d st h c = Inr (r, st', out)" using assms(1) by (auto simp: RatchetDecrypt_def go_bind_eq_Inr)
  obtain x y C where u: "Unmarshal (curve cr) (hdr_PubKey h) = (x, y, C)" by (metis surj_pair)
  have t: "TrySkippedMessageKeys cr st h c = Inr z \<Longrightarrow> z = (None, st)" for z
    using assms(5) by (auto simp: TrySkippedMessageKeys_def Let_def go_bind_eq_Inr)
  have "out = skip_warning 0 (hdr_N h) @ skip_warning 0 (hdr_N h)"
    using run assms(2-4)
    by (auto simp: RatchetDecrypt_run_def go_bind_eq_Inr u Let_def SkipMessageKeys_def case_prod_unfold dest!: t DHRatchet_Nr)
  with run show ?thesis by simp
qed

section \<open>Persistence\<close>

record DRatchetStateCompressed =
  rc_Peer :: string
  rc_DHsPrivKey :: bytes
  rc_DHsPubKey :: bytes
  rc_DHr :: bytes
  rc_RK :: bytes
  rc_CKs :: bytes
  rc_CKr :: bytes
  rc_Ns :: "64 word"
  rc_Nr :: "64 word"
  rc_PN :: "64 word"
  rc_MKSKIPPED :: "string \<rightharpoonup> bytes"

definition CompressRatchet :: "Crypto \<Rightarrow> DRatchetState \<Rightarrow> DRatchetStateCompressed go" where
  "CompressRatchet cr ratchet =
     go_bind (go_deref (rs_DHs ratchet)) (\<lambda>DHs.
     go_bind (CompressPoint (curve cr) (PubKey DHs)) (\<lambda>DHsCompressed.
     go_bind (go_deref (rs_DHr ratchet)) (\<lambda>DHr.
     go_bind (CompressPoint (curve cr) DHr) (\<lambda>DHrCompressed.
     go_bind (go_deref (rs_RK ratchet)) (\<lambda>RK.
     go_bind (go_deref (rs_CKs ratchet)) (\<lambda>CKs.
     go_bind (go_deref (rs_CKr ratchet)) (\<lambda>CKr.
       Inr \<lparr>rc_Peer = rs_Peer ratchet, rc_DHsPrivKey = PrivKey DHs, rc_DHsPubKey = DHsCompressed,
            rc_DHr = DHrCompressed, rc_RK = RK, rc_CKs = CKs, rc_CKr = CKr, rc_Ns = rs_Ns ratchet,
            rc_Nr = rs_Nr ratchet, rc_PN = rs_PN ratchet, rc_MKSKIPPED = rs_MKSKIPPED ratchet\<rparr>)))))))"

definition UncompressRatchet :: "Crypto \<Rightarrow> DRatchetStateCompressed \<Rightarrow> DRatchetState" where
  "UncompressRatchet cr compressed =
     \<lparr>rs_Peer = rc_Peer compressed,
      rs_DHs = Some \<lparr>PubKey = UncompressPoint (curve cr) (rc_DHsPubKey compressed), PrivKey = rc_DHsPrivKey compressed\<rparr>,
      rs_DHr = Some (UncompressPoint (curve cr) (rc_DHr compressed)),
      rs_RK = Some (rc_RK compressed), rs_CKs = Some (rc_CKs compressed), rs_CKr = Some (rc_CKr compressed),
      rs_Ns = rc_Ns compressed, rs_Nr = rc_Nr compressed, rs_PN = rc_PN compressed,
      rs_MKSKIPPED = rc_MKSKIPPED compressed\<rparr>"

section \<open>Public keys and skipped-message keys\<close>

abbreviation pub :: "Crypto \<Rightarrow> bytes \<Rightarrow> EllipticPoint" where
  "pub cr d \<equiv> PubKey (GenerateDH cr d)"

definition enc_pub :: "Crypto \<Rightarrow> bytes \<Rightarrow> bytes" where
  "enc_pub cr d = (case CompressPoint (curve cr) (pub cr d) of Inr b \<Rightarrow> b | Inl _ \<Rightarrow> [])"

definition skey :: "Crypto \<Rightarrow> bytes \<Rightarrow> 64 word \<Rightarrow> string" where
  "skey cr a n = EncodeToString (PutUint64 n @ Sum256 cr (enc_pub cr a))"

lemma UncompressPoint_eq:
  assumes "crypto_laws cr" "wf_point (curve cr) Q"
  obtains b where "CompressPoint (curve cr) Q = Inr b" "UncompressPoint (curve cr) b = Q"
    "length b = 1 + curve_byteLen (curve cr)"
proof -
  obtain x y where q: "pt_C Q = curve cr" "pt_x Q = Some x" "pt_y Q = Some y" "curve_point (curve cr) x y"
    using assms(2) by (auto simp: wf_point_def)
  then obtain bs where bs: "Marshal (curve cr) (Some x) (Some y) = Inr bs" "length bs = 1 + curve_byteLen (curve cr)"
    using Marshal_ok [OF crypto_lawsD(1) [OF assms(1)]] by blast
  have "UncompressPoint (curve cr) bs = Q"
    using q by (simp add: UncompressPoint_def Unmarshal_Marshal [OF crypto_lawsD(1) [OF assms(1)] q(4) bs(1)])
  then show ?thesis using that bs q by (simp add: CompressPoint_def)
qed

lemma pub_encoding:
  assumes "crypto_laws cr" "valid_scalar cr d"
  shows "CompressPoint (curve cr) (pub cr d) = Inr (enc_pub cr d)"
    "UncompressPoint (curve cr) (enc_pub cr d) = pub cr d"
    "Marshal (curve cr) (pt_x (pub cr d)) (pt_y (pub cr d)) = Inr (enc_pub cr d)"
    "Unmarshal (curve cr) (enc_pub cr d) = (pt_x (pub cr d), pt_y (pub cr d), pt_C (pub cr d))"
proof -
  obtain b where b: "CompressPoint (curve cr) (pub cr d) = Inr b" "UncompressPoint (curve cr) b = pub cr d"
    using UncompressPoint_eq [OF assms(1) PubKey_wf [OF assms]] by blast
  then have e: "enc_pub cr d = b" by (simp add: enc_pub_def)
  show "CompressPoint (curve cr) (pub cr d) = Inr (enc_pub cr d)"
    "UncompressPoint (curve cr) (enc_pub cr d) = pub cr d"
    "Marshal (curve cr) (pt_x (pub cr d)) (pt_y (pub cr d)) = Inr (enc_pub cr d)"
    using b e by (simp_all add: CompressPoint_def)
  then show "Unmarshal (curve cr) (enc_pub cr d) = (pt_x (pub cr d), pt_y (pub cr d), pt_C (pub cr d))"
    by (cases "Unmarshal (curve cr) (enc_pub cr d)") (metis EllipticPoint.select_convs UncompressPoint_def case_prod_conv)
qed

lemma getKey_pub:
  assumes "crypto_laws cr" "valid_scalar cr a"
  shows "getKeyFromRatchet cr (pub cr a) n = Inr (skey cr a n)"
  using pub_encoding [OF assms] by (simp add: getKeyFromRatchet_def skey_def)

lemma skey_inj: "skey cr a m = skey cr a n \<longleftrightarrow> m = n"
  by (simp add: skey_def EncodeToString_inj PutUint64_inj)

lemma ComparePoints_wf:
  "wf_point c p \<Longrightarrow> wf_point c q \<Longrightarrow> ComparePoints p q = Inr (p = q)"
  by (auto simp: wf_point_def ComparePoints_def intro: EllipticPoint.equality)

lemma pub_eta [simp]: "\<lparr>pt_C = pt_C Q, pt_x = pt_x Q, pt_y = pt_y Q\<rparr> = (Q :: EllipticPoint)"
  by (cases Q) simp

section \<open>The symmetric chain\<close>

definition chain :: "Crypto \<Rightarrow> bytes \<Rightarrow> nat \<Rightarrow> bytes" where
  "chain cr ck n = ((\<lambda>k. fst (KdfCK cr k)) ^^ n) ck"

definition mkey :: "Crypto \<Rightarrow> bytes \<Rightarrow> nat \<Rightarrow> bytes" where
  "mkey cr ck n = snd (KdfCK cr (chain cr ck n))"

lemma chain_0 [simp]: "chain cr ck 0 = ck"
  by (simp add: chain_def)

lemma KdfCK_chain: "KdfCK cr (chain cr ck n) = (chain cr ck (Suc n), mkey cr ck n)"
  by (simp add: mkey_def chain_def)

lemma sint_of_nat: "n < 2 ^ 63 \<Longrightarrow> sint (of_nat n :: 64 word) = int n"
  by (simp add: signed_of_nat signed_take_bit_int_eq_self)

definition stash :: "Crypto \<Rightarrow> bytes \<Rightarrow> bytes \<Rightarrow> nat \<Rightarrow> nat \<Rightarrow> (string \<rightharpoonup> bytes) \<Rightarrow> string \<rightharpoonup> bytes" where
  "stash cr a ck n i m = foldl (\<lambda>m j. m(skey cr a (of_nat j) \<mapsto> mkey cr ck j)) m [n..<i]"

lemma stash_Suc: "n < i \<Longrightarrow> stash cr a ck n i m = stash cr a ck (Suc n) i (m(skey cr a (of_nat n) \<mapsto> mkey cr ck n))"
  by (simp add: stash_def upt_conv_Cons)

lemma stash_same [simp]: "i \<le> n \<Longrightarrow> stash cr a ck n i m = m"
  by (simp add: stash_def)

lemma of_nat_inj_63: "i < 2 ^ 63 \<Longrightarrow> j < 2 ^ 63 \<Longrightarrow> (of_nat i :: 64 word) = of_nat j \<longleftrightarrow> i = j"
  by (metis sint_of_nat of_nat_eq_iff)

lemma stash_lookup:
  "i < 2 ^ 63 \<Longrightarrow> j < 2 ^ 63 \<Longrightarrow> stash cr a ck n i m (skey cr a (of_nat j)) =
     (if n \<le> j \<and> j < i then Some (mkey cr ck j) else m (skey cr a (of_nat j)))"
proof (induction i)
  case 0
  then show ?case by simp
next
  case (Suc i)
  show ?case
  proof (cases "n \<le> i")
    case True
    then have "stash cr a ck n (Suc i) m = (stash cr a ck n i m)(skey cr a (of_nat i) \<mapsto> mkey cr ck i)"
      by (simp add: stash_def)
    with Suc True show ?thesis by (auto simp: skey_inj of_nat_inj_63)
  next
    case False
    then show ?thesis by auto
  qed
qed

lemma stash_other: "(\<And>j. key \<noteq> skey cr a j) \<Longrightarrow> stash cr a ck n i m key = m key"
proof (induction i)
  case (Suc i)
  then show ?case by (cases "n \<le> i") (simp_all add: stash_def)
qed simp

lemma SkipMessageKeys_chain:
  assumes laws: "crypto_laws cr" and a: "valid_scalar cr a" and i: "i < 2 ^ 63"
  shows "n \<le> i \<Longrightarrow> rs_DHr st = Some (pub cr a) \<Longrightarrow> rs_CKr st = Some (chain cr ck n) \<Longrightarrow> rs_Nr st = of_nat n \<Longrightarrow>
    SkipMessageKeys_loop cr (of_nat i) st =
    Inr (st\<lparr>rs_CKr := Some (chain cr ck i), rs_MKSKIPPED := stash cr a ck n i (rs_MKSKIPPED st), rs_Nr := of_nat i\<rparr>)"
proof (induction "i - n" arbitrary: n st)
  case 0
  then have "n = i" by simp
  with 0 show ?case by (subst SkipMessageKeys_loop.simps) simp
next
  case (Suc k)
  then have n: "n < i" by simp
  let ?st = "st\<lparr>rs_CKr := Some (chain cr ck (Suc n)),
      rs_MKSKIPPED := (rs_MKSKIPPED st)(skey cr a (of_nat n) \<mapsto> mkey cr ck n), rs_Nr := of_nat (Suc n)\<rparr>"
  have "SkipMessageKeys_loop cr (of_nat i) ?st =
    Inr (?st\<lparr>rs_CKr := Some (chain cr ck i), rs_MKSKIPPED := stash cr a ck (Suc n) i (rs_MKSKIPPED ?st), rs_Nr := of_nat i\<rparr>)"
    using Suc n by (intro Suc.hyps) simp_all
  moreover have "SkipMessageKeys_loop cr (of_nat i) st = SkipMessageKeys_loop cr (of_nat i) ?st"
    using Suc.prems n i
    by (subst SkipMessageKeys_loop.simps) (simp add: sint_of_nat KdfCK_chain getKey_pub [OF laws a] add.commute)
  ultimately show ?case using n by (simp add: stash_Suc)
qed

section \<open>One receiving epoch\<close>

text \<open>
  The receiver's view of a sending chain \<open>ck\<close> of the public key \<open>a\<close>: \<open>n\<close> is the receive counter, \<open>R\<close> the set of
  message numbers already delivered; every undelivered number below \<open>n\<close> has its key in store, no
  number from \<open>n\<close> on has one.
\<close>

definition epoch :: "Crypto \<Rightarrow> bytes \<Rightarrow> bytes \<Rightarrow> nat \<Rightarrow> nat set \<Rightarrow> DRatchetState \<Rightarrow> bool" where
  "epoch cr a ck n R st \<longleftrightarrow> rs_DHr st = Some (pub cr a) \<and> rs_CKr st = Some (chain cr ck n) \<and>
     rs_Nr st = of_nat n \<and> R \<subseteq> {..<n} \<and>
     (\<forall>i < 2 ^ 63. if i < n then i \<notin> R \<longrightarrow> rs_MKSKIPPED st (skey cr a (of_nat i)) = Some (mkey cr ck i)
                  else rs_MKSKIPPED st (skey cr a (of_nat i)) = None)"

text \<open>The part of the state that receiving within an epoch leaves alone.\<close>

definition sending_part :: "DRatchetState \<Rightarrow> DHPair option \<times> bytes option \<times> bytes option \<times> 64 word \<times> 64 word" where
  "sending_part st = (rs_DHs st, rs_RK st, rs_CKs st, rs_Ns st, rs_PN st)"

lemma epochD:
  assumes "epoch cr a ck n R st"
  shows "rs_DHr st = Some (pub cr a)" "rs_CKr st = Some (chain cr ck n)" "rs_Nr st = of_nat n" "R \<subseteq> {..<n}"
    "i < 2 ^ 63 \<Longrightarrow> i < n \<Longrightarrow> i \<notin> R \<Longrightarrow> rs_MKSKIPPED st (skey cr a (of_nat i)) = Some (mkey cr ck i)"
    "i < 2 ^ 63 \<Longrightarrow> n \<le> i \<Longrightarrow> rs_MKSKIPPED st (skey cr a (of_nat i)) = None"
  using assms unfolding epoch_def by (auto dest: spec [of _ i])

lemma TrySkipped_pub:
  assumes "crypto_laws cr" "valid_scalar cr a" "hdr_PubKey h = enc_pub cr a"
  shows "TrySkippedMessageKeys cr st h c =
    (case rs_MKSKIPPED st (skey cr a (hdr_N h)) of None \<Rightarrow> Inr (None, st)
     | Some mk \<Rightarrow> go_bind (DecryptAEAD cr mk c h)
         (\<lambda>r. Inr (r, st\<lparr>rs_MKSKIPPED := (rs_MKSKIPPED st)(skey cr a (hdr_N h) := None)\<rparr>)))"
  using assms by (simp add: TrySkippedMessageKeys_def pub_encoding getKey_pub)

text \<open>A stored key decrypts its message and is removed; nothing else changes.\<close>

lemma receive_skipped:
  assumes laws: "crypto_laws cr" and a: "valid_scalar cr a" and ep: "epoch cr a ck n R st"
    and i: "i < n" "i \<notin> R" "i < 2 ^ 63"
    and h: "hdr_PubKey h = enc_pub cr a" "hdr_N h = of_nat i"
    and c: "EncryptAEAD cr (mkey cr ck i) pt (gob_Encode cr h) = Inr c"
  shows "\<exists>st'. RatchetDecrypt cr d st h c = Inr (Some pt, st') \<and> epoch cr a ck n (insert i R) st' \<and>
    sending_part st' = sending_part st"
proof -
  let ?st = "st\<lparr>rs_MKSKIPPED := (rs_MKSKIPPED st)(skey cr a (of_nat i) := None)\<rparr>"
  have "rs_MKSKIPPED st (skey cr a (of_nat i)) = Some (mkey cr ck i)" by (rule epochD(5) [OF ep i(3,1,2)])
  then have "TrySkippedMessageKeys cr st h c = Inr (Some pt, ?st)"
    using DecryptAEAD_EncryptAEAD [OF laws c] h by (simp add: TrySkipped_pub [OF laws a])
  then have "RatchetDecrypt cr d st h c = Inr (Some pt, ?st)" by (simp add: RatchetDecrypt_eq)
  moreover have "epoch cr a ck n (insert i R) ?st"
    using ep i by (auto simp: epoch_def skey_inj of_nat_inj_63)
  moreover have "sending_part ?st = sending_part st" by (simp add: sending_part_def)
  ultimately show ?thesis by blast
qed

text \<open>The rest of \<open>RatchetDecrypt\<close> once the public key is known and the number is not behind the chain.\<close>

definition receive_fresh ::
  "Crypto \<Rightarrow> DRatchetState \<Rightarrow> RatchetHeader \<Rightarrow> RatchetCipher \<Rightarrow> (string option \<times> DRatchetState) go" where
  "receive_fresh cr st h c =
     go_bind (skip_keys cr st (hdr_N h)) (\<lambda>st'.
     go_bind (go_deref (rs_CKr st')) (\<lambda>ck.
       let (ckr, mk) = KdfCK cr ck in
       go_bind (DecryptAEAD cr mk c h) (\<lambda>r.
         Inr (r, st'\<lparr>rs_CKr := Some ckr, rs_Nr := rs_Nr st' + 1\<rparr>))))"

lemma receive_fresh_chain:
  assumes laws: "crypto_laws cr" and a: "valid_scalar cr a" and ep: "epoch cr a ck n R st"
    and i: "n \<le> i" "i < 2 ^ 63" and h: "hdr_N h = of_nat i"
    and c: "EncryptAEAD cr (mkey cr ck i) pt (gob_Encode cr h) = Inr c"
  shows "\<exists>st'. receive_fresh cr st h c = Inr (Some pt, st') \<and> epoch cr a ck (Suc i) (insert i R) st' \<and>
    sending_part st' = sending_part st \<and>
    rs_MKSKIPPED st' = stash cr a ck n i (rs_MKSKIPPED st)"
proof -
  let ?m = "stash cr a ck n i (rs_MKSKIPPED st)"
  let ?st = "st\<lparr>rs_CKr := Some (chain cr ck (Suc i)), rs_MKSKIPPED := ?m, rs_Nr := of_nat (Suc i)\<rparr>"
  note e = epochD [OF ep]
  have "skip_keys cr st (of_nat i) =
      Inr (st\<lparr>rs_CKr := Some (chain cr ck i), rs_MKSKIPPED := ?m, rs_Nr := of_nat i\<rparr>)"
    using SkipMessageKeys_chain [OF laws a i(2,1) e(1,2,3)] e(2) by (simp add: skip_keys_eq)
  then have "receive_fresh cr st h c = Inr (Some pt, ?st)"
    using h DecryptAEAD_EncryptAEAD [OF laws c]
    by (simp add: receive_fresh_def KdfCK_chain add.commute)
  moreover have "epoch cr a ck (Suc i) (insert i R) ?st"
    using e i by (auto simp: epoch_def stash_lookup less_Suc_eq)
  moreover have "sending_part ?st = sending_part st" by (simp add: sending_part_def)
  ultimately show ?thesis by auto
qed

lemma RatchetDecrypt_same_key:
  assumes laws: "crypto_laws cr" and a: "valid_scalar cr a" and dhr: "rs_DHr st = Some (pub cr a)"
    and h: "hdr_PubKey h = enc_pub cr a" and none: "rs_MKSKIPPED st (skey cr a (hdr_N h)) = None"
  shows "RatchetDecrypt cr d st h c = receive_fresh cr st h c"
  using h none dhr PubKey_wf [OF laws a]
  by (simp add: RatchetDecrypt_eq TrySkipped_pub [OF laws a] pub_encoding [OF laws a] ComparePoints_wf
      receive_fresh_def)

lemma RatchetDecrypt_new_key:
  assumes laws: "crypto_laws cr" and a: "valid_scalar cr a" and b: "valid_scalar cr b"
    and dhr: "rs_DHr st = None \<or> rs_DHr st = Some (pub cr b)" and new: "pub cr a \<noteq> pub cr b"
    and h: "hdr_PubKey h = enc_pub cr a" and none: "rs_MKSKIPPED st (skey cr a (hdr_N h)) = None"
  shows "RatchetDecrypt cr d st h c =
    go_bind (skip_keys cr st (hdr_N h)) (\<lambda>st2. go_bind (DHRatchet cr d st2 h) (\<lambda>st3. receive_fresh cr st3 h c))"
  using h none dhr new PubKey_wf [OF laws a] PubKey_wf [OF laws b]
  by (auto simp: RatchetDecrypt_eq TrySkipped_pub [OF laws a] pub_encoding [OF laws a] ComparePoints_wf
      receive_fresh_def go_bind_assoc)

text \<open>One message of the epoch, early, late or in order.\<close>

lemma receive_in_epoch:
  assumes laws: "crypto_laws cr" and a: "valid_scalar cr a" and ep: "epoch cr a ck n R st"
    and i: "i \<notin> R" "i < 2 ^ 63"
    and h: "hdr_PubKey h = enc_pub cr a" "hdr_N h = of_nat i"
    and c: "EncryptAEAD cr (mkey cr ck i) pt (gob_Encode cr h) = Inr c"
  shows "\<exists>st' n'. RatchetDecrypt cr d st h c = Inr (Some pt, st') \<and> epoch cr a ck n' (insert i R) st' \<and>
    sending_part st' = sending_part st"
proof (cases "i < n")
  case True
  from receive_skipped [OF laws a ep True i h c] show ?thesis by blast
next
  case False
  then have n: "n \<le> i" by simp
  have "rs_MKSKIPPED st (skey cr a (hdr_N h)) = None" using epochD(6) [OF ep i(2) n] h(2) by simp
  from RatchetDecrypt_same_key [OF laws a epochD(1) [OF ep] h(1) this]
    receive_fresh_chain [OF laws a ep n i(2) h(2) c] show ?thesis by metis
qed

section \<open>The sending side and the ratchet step\<close>

definition sender :: "Crypto \<Rightarrow> bytes \<Rightarrow> bytes \<Rightarrow> nat \<Rightarrow> DRatchetState \<Rightarrow> bool" where
  "sender cr a ck n st \<longleftrightarrow> rs_DHs st = Some (GenerateDH cr a) \<and> rs_CKs st = Some (chain cr ck n) \<and> rs_Ns st = of_nat n"

definition message_of :: "Crypto \<Rightarrow> bytes \<Rightarrow> bytes \<Rightarrow> nat \<Rightarrow> string \<Rightarrow> RatchetMessage \<Rightarrow> bool" where
  "message_of cr a ck n pt m \<longleftrightarrow> hdr_PubKey (rm_Header m) = enc_pub cr a \<and> hdr_N (rm_Header m) = of_nat n \<and>
     EncryptAEAD cr (mkey cr ck n) pt (gob_Encode cr (rm_Header m)) = Inr (rm_Message m)"

lemma RatchetEncrypt_sender:
  assumes laws: "crypto_laws cr" and a: "valid_scalar cr a" and s: "sender cr a ck n st"
  shows "\<exists>m. RatchetEncrypt cr st pt orig dest AD = Inr (m, st\<lparr>rs_CKs := Some (chain cr ck (Suc n)), rs_Ns := of_nat (Suc n)\<rparr>) \<and>
    message_of cr a ck n pt m \<and> hdr_Destination (rm_Header m) = dest \<and> hdr_Origin (rm_Header m) = orig"
proof -
  let ?h = "\<lparr>hdr_PubKey = enc_pub cr a, hdr_Pn = rs_PN st, hdr_N = of_nat n, hdr_Origin = orig,
      hdr_Destination = dest, hdr_HopLimit = ratchetHopLimit\<rparr>"
  obtain c where c: "EncryptAEAD cr (mkey cr ck n) pt (gob_Encode cr ?h) = Inr c"
    using EncryptAEAD_total [OF laws] by blast
  have "RatchetEncrypt cr st pt orig dest AD =
      Inr (\<lparr>rm_Header = ?h, rm_Message = c\<rparr>, st\<lparr>rs_CKs := Some (chain cr ck (Suc n)), rs_Ns := of_nat (Suc n)\<rparr>)"
    using s c by (simp add: sender_def RatchetEncrypt_def KdfCK_chain ComposeRatchetHeader_def
        pub_encoding [OF laws a] Concat_def add.commute)
  with c show ?thesis by (simp add: message_of_def)
qed

lemma DHRatchet_pub:
  assumes laws: "crypto_laws cr" and v: "valid_scalar cr a" "valid_scalar cr b" "valid_scalar cr d"
    and st: "rs_DHs st = Some (GenerateDH cr b)" "rs_RK st = Some rk" and h: "hdr_PubKey h = enc_pub cr a"
    and k: "KdfRK cr rk (shared cr a b) = (rk1, ck)" "KdfRK cr rk1 (shared cr d a) = (rk2, ck2)"
  shows "DHRatchet cr d st h = Inr (st\<lparr>rs_PN := rs_Ns st, rs_Ns := 0, rs_Nr := 0, rs_DHr := Some (pub cr a),
    rs_CKr := Some ck, rs_DHs := Some (GenerateDH cr d), rs_RK := Some rk2, rs_CKs := Some ck2\<rparr>)"
  using st h k by (simp add: DHRatchet_def pub_encoding [OF laws v(1)] DH_symmetric(2) [OF laws v(1,2)]
      DH_symmetric(1) [OF laws v(3,1)])

section \<open>Delivery in any order\<close>

fun encrypt_all ::
  "Crypto \<Rightarrow> DRatchetState \<Rightarrow> (string \<times> string \<times> string \<times> bytes) list \<Rightarrow> (RatchetMessage list \<times> DRatchetState) go" where
  "encrypt_all cr st [] = Inr ([], st)"
| "encrypt_all cr st ((pt, orig, dest, AD) # pts) =
     go_bind (RatchetEncrypt cr st pt orig dest AD) (\<lambda>(m, st').
     go_bind (encrypt_all cr st' pts) (\<lambda>(ms, st''). Inr (m # ms, st'')))"

fun decrypt_all ::
  "Crypto \<Rightarrow> bytes \<Rightarrow> DRatchetState \<Rightarrow> RatchetMessage list \<Rightarrow> (string option list \<times> DRatchetState) go" where
  "decrypt_all cr d st [] = Inr ([], st)"
| "decrypt_all cr d st (m # ms) =
     go_bind (RatchetDecrypt cr d st (rm_Header m) (rm_Message m)) (\<lambda>(r, st').
     go_bind (decrypt_all cr d st' ms) (\<lambda>(rs, st''). Inr (r # rs, st'')))"

lemma encrypt_all_sender:
  assumes laws: "crypto_laws cr" and a: "valid_scalar cr a"
  shows "sender cr a ck n st \<Longrightarrow> \<exists>ms st'. encrypt_all cr st pts = Inr (ms, st') \<and> length ms = length pts \<and>
    (\<forall>i < length pts. message_of cr a ck (n + i) (fst (pts ! i)) (ms ! i)) \<and> sender cr a ck (n + length pts) st'"
proof (induction pts arbitrary: n st)
  case Nil
  then show ?case by simp
next
  case (Cons p pts)
  obtain pt orig dest AD where p: "p = (pt, orig, dest, AD)" by (metis surj_pair)
  let ?st = "st\<lparr>rs_CKs := Some (chain cr ck (Suc n)), rs_Ns := of_nat (Suc n)\<rparr>"
  obtain m where m: "RatchetEncrypt cr st pt orig dest AD = Inr (m, ?st)" "message_of cr a ck n pt m"
    using RatchetEncrypt_sender [OF laws a Cons.prems] by blast
  have "sender cr a ck (Suc n) ?st" using Cons.prems by (simp add: sender_def)
  from Cons.IH [OF this] obtain ms st' where ms: "encrypt_all cr ?st pts = Inr (ms, st')" "length ms = length pts"
    "\<forall>i < length pts. message_of cr a ck (Suc n + i) (fst (pts ! i)) (ms ! i)" "sender cr a ck (Suc n + length pts) st'"
    by blast
  have "\<forall>i < length (p # pts). message_of cr a ck (n + i) (fst ((p # pts) ! i)) ((m # ms) ! i)"
    using m(2) ms(3) p by (auto simp: less_Suc_eq_0_disj)
  with m ms p show ?case by simp
qed

lemma decrypt_all_epoch:
  assumes laws: "crypto_laws cr" and a: "valid_scalar cr a" and len: "length pts < 2 ^ 63"
    and ms: "length ms = length pts" "\<forall>i < length pts. message_of cr a ck i (fst (pts ! i)) (ms ! i)"
  shows "epoch cr a ck n R st \<Longrightarrow> distinct idxs \<Longrightarrow> set idxs \<subseteq> {..<length pts} - R \<Longrightarrow>
    \<exists>st' n'. decrypt_all cr d st (map ((!) ms) idxs) = Inr (map (\<lambda>i. Some (fst (pts ! i))) idxs, st') \<and>
      epoch cr a ck n' (R \<union> set idxs) st'"
proof (induction idxs arbitrary: n R st)
  case Nil
  then show ?case by auto
next
  case (Cons i idxs)
  have i: "i < length pts" "i \<notin> R" "i < 2 ^ 63" using Cons.prems(3) len by auto
  have m: "hdr_PubKey (rm_Header (ms ! i)) = enc_pub cr a" "hdr_N (rm_Header (ms ! i)) = of_nat i"
    "EncryptAEAD cr (mkey cr ck i) (fst (pts ! i)) (gob_Encode cr (rm_Header (ms ! i))) = Inr (rm_Message (ms ! i))"
    using ms(2) i(1) by (simp_all add: message_of_def)
  obtain st1 n1 where st1: "RatchetDecrypt cr d st (rm_Header (ms ! i)) (rm_Message (ms ! i)) = Inr (Some (fst (pts ! i)), st1)"
    "epoch cr a ck n1 (insert i R) st1"
    using receive_in_epoch [OF laws a Cons.prems(1) i(2,3) m] by blast
  have "set idxs \<subseteq> {..<length pts} - insert i R" using Cons.prems(2,3) by auto
  with Cons.IH [OF st1(2)] Cons.prems(2) obtain st2 n2 where
    "decrypt_all cr d st1 (map ((!) ms) idxs) = Inr (map (\<lambda>i. Some (fst (pts ! i))) idxs, st2)"
    "epoch cr a ck n2 (insert i R \<union> set idxs) st2" by auto
  with st1(1) show ?case by auto
qed

text \<open>The first message of a sender, whatever its number, opens the receiver's epoch.\<close>

lemma receive_first:
  assumes laws: "crypto_laws cr" and v: "valid_scalar cr a" "valid_scalar cr b" "valid_scalar cr d"
    and st: "rs_DHs st = Some (GenerateDH cr b)" "rs_RK st = Some rk" "rs_DHr st = None" "rs_CKr st = None"
      "rs_MKSKIPPED st = Map.empty"
    and k: "KdfRK cr rk (shared cr a b) = (rk1, ck)" and m: "message_of cr a ck i pt m" and i: "i < 2 ^ 63"
  shows "\<exists>st'. RatchetDecrypt cr d st (rm_Header m) (rm_Message m) = Inr (Some pt, st') \<and> epoch cr a ck (Suc i) {i} st'"
proof -
  obtain rk2 ck2 where k2: "KdfRK cr rk1 (shared cr d a) = (rk2, ck2)" by fastforce
  note h = m [unfolded message_of_def]
  let ?st = "st\<lparr>rs_PN := rs_Ns st, rs_Ns := 0, rs_Nr := 0, rs_DHr := Some (pub cr a), rs_CKr := Some ck,
    rs_DHs := Some (GenerateDH cr d), rs_RK := Some rk2, rs_CKs := Some ck2\<rparr>"
  have "RatchetDecrypt cr d st (rm_Header m) (rm_Message m) =
      go_bind (DHRatchet cr d st (rm_Header m)) (\<lambda>st3. receive_fresh cr st3 (rm_Header m) (rm_Message m))"
    using h st by (simp add: RatchetDecrypt_eq TrySkipped_pub [OF laws v(1)] pub_encoding [OF laws v(1)]
        skip_keys_eq receive_fresh_def go_bind_assoc)
  moreover have "DHRatchet cr d st (rm_Header m) = Inr ?st"
    using h by (intro DHRatchet_pub [OF laws v st(1,2) _ k k2]) simp
  moreover have "epoch cr a ck 0 {} ?st" using st(5) by (simp add: epoch_def)
  ultimately show ?thesis
    using receive_fresh_chain [OF laws v(1) _ _ i] h by fastforce
qed

text \<open>
  Claim C3. Double-ratchet delivery: after the two sides are initialised with the same secret, the messages
  the sender encrypts decrypt to their plaintexts in whatever order they arrive, and with any of them missing. The limit \<open>MaxSkip\<close>
  on the keys that may be skipped is not enforced: a message more than 10 ahead, even the first to arrive, prints \<open>Too many skipped keys
  error\<close> (twice for a new chain) and is decrypted.
\<close>

theorem ratchet_any_order:
  assumes laws: "crypto_laws cr" and v: "valid_scalar cr a" "valid_scalar cr b" "valid_scalar cr d"
    and S: "SInitializeRatchet cr a zero_ratchet SK (PubKey (GenerateDH cr b)) peer = Inr S"
    and len: "length pts < 2 ^ 63" and idxs: "distinct idxs" "set idxs \<subseteq> {..<length pts}"
  shows "\<exists>ms S' R'. encrypt_all cr S pts = Inr (ms, S') \<and>
    decrypt_all cr d (RInitializeRatchet zero_ratchet SK (GenerateDH cr b)) (map ((!) ms) idxs) =
      Inr (map (\<lambda>i. Some (fst (pts ! i))) idxs, R') \<and>
    (\<forall>i < length pts. \<exists>R1. RatchetDecrypt_run cr d (RInitializeRatchet zero_ratchet SK (GenerateDH cr b)) (rm_Header (ms ! i)) (rm_Message (ms ! i)) =
       Inr (Some (fst (pts ! i)), R1, if 10 < i then [''Too many skipped keys error'', ''Too many skipped keys error''] else []))"
proof -
  let ?R = "RInitializeRatchet zero_ratchet SK (GenerateDH cr b)"
  obtain rk1 ck where k: "KdfRK cr SK (shared cr a b) = (rk1, ck)" by fastforce
  have "sender cr a ck 0 S"
    using S k by (auto simp: SInitializeRatchet_def DH_symmetric(1) [OF laws v(1,2)] sender_def)
  from encrypt_all_sender [OF laws v(1) this, of pts] obtain ms S' where ms: "encrypt_all cr S pts = Inr (ms, S')"
    "length ms = length pts" "\<forall>i < length pts. message_of cr a ck i (fst (pts ! i)) (ms ! i)" by auto
  have first: "\<exists>st1. RatchetDecrypt cr d ?R (rm_Header (ms ! i)) (rm_Message (ms ! i)) = Inr (Some (fst (pts ! i)), st1) \<and>
      epoch cr a ck (Suc i) {i} st1" if "i < length pts" for i
    using receive_first [OF laws v _ _ _ _ _ k, of ?R i "fst (pts ! i)" "ms ! i"] ms(3) len that
    by (auto simp: RInitializeRatchet_def)
  have "\<exists>R1. RatchetDecrypt_run cr d ?R (rm_Header (ms ! i)) (rm_Message (ms ! i)) =
      Inr (Some (fst (pts ! i)), R1, if 10 < i then [''Too many skipped keys error'', ''Too many skipped keys error''] else [])"
    if i: "i < length pts" for i
  proof -
    have N: "hdr_N (rm_Header (ms ! i)) = of_nat i" using ms(3) i by (simp add: message_of_def)
    have "i < 2 ^ 63" using i len by simp
    then have "sint (of_nat i :: 64 word) = int i" by (rule sint_of_nat)
    then have w: "skip_warning 0 (of_nat i) = (if 10 < i then [''Too many skipped keys error''] else [])"
      by (simp add: skip_warning_def MaxSkip_def)
    from first [OF i] obtain st1 where "RatchetDecrypt cr d ?R (rm_Header (ms ! i)) (rm_Message (ms ! i)) = Inr (Some (fst (pts ! i)), st1)" by blast
    from first_run_output [OF this] N w show ?thesis by (auto simp: RInitializeRatchet_def zero_ratchet_def)
  qed
  moreover have "\<exists>R'. decrypt_all cr d ?R (map ((!) ms) idxs) = Inr (map (\<lambda>i. Some (fst (pts ! i))) idxs, R')"
  proof (cases idxs)
    case Nil
    then show ?thesis by simp
  next
    case (Cons i rest)
    then have i: "i < length pts" using idxs by simp
    then obtain st1 where st1: "RatchetDecrypt cr d ?R (rm_Header (ms ! i)) (rm_Message (ms ! i)) = Inr (Some (fst (pts ! i)), st1)"
      "epoch cr a ck (Suc i) {i} st1"
      using first by blast
    have "distinct rest" "set rest \<subseteq> {..<length pts} - {i}" using idxs Cons by auto
    from decrypt_all_epoch [OF laws v(1) len ms(2,3) st1(2) this] obtain st2 where
      "decrypt_all cr d st1 (map ((!) ms) rest) = Inr (map (\<lambda>i. Some (fst (pts ! i))) rest, st2)" by blast
    with st1(1) Cons show ?thesis by simp
  qed
  ultimately show ?thesis using ms(1) by blast
qed

theorem ratchet_any_order_witness:
  "\<exists>S ms S' R'. SInitializeRatchet toy_crypto [1] zero_ratchet [5] (PubKey (GenerateDH toy_crypto [2])) ''bob'' = Inr S \<and>
    encrypt_all toy_crypto S [(''one'', ''a'', ''b'', []), (''two'', ''a'', ''b'', []), (''three'', ''a'', ''b'', [])] = Inr (ms, S') \<and>
    decrypt_all toy_crypto [3] (RInitializeRatchet zero_ratchet [5] (GenerateDH toy_crypto [2])) [ms ! 2, ms ! 0] =
      Inr ([Some ''three'', Some ''one''], R')"
proof -
  let ?pts = "[(''one'', ''a'', ''b'', []), (''two'', ''a'', ''b'', []), (''three'', ''a'', ''b'', [])]"
  obtain S where "SInitializeRatchet toy_crypto [1] zero_ratchet [5] (PubKey (GenerateDH toy_crypto [2])) ''bob'' = Inr S"
    by (simp add: SInitializeRatchet_def DH_symmetric(1) [OF toy_laws] Let_def case_prod_unfold)
  moreover from ratchet_any_order [OF toy_laws toy_scalars(1,2,3) this, of ?pts "[2, 0]"]
  have "\<exists>ms S' R'. encrypt_all toy_crypto S ?pts = Inr (ms, S') \<and>
    decrypt_all toy_crypto [3] (RInitializeRatchet zero_ratchet [5] (GenerateDH toy_crypto [2])) [ms ! 2, ms ! 0] =
      Inr ([Some ''three'', Some ''one''], R')" by auto
  ultimately show ?thesis by blast
qed

section \<open>Conversations\<close>

text \<open>
  Two parties take turns in any pattern; each message is delivered before the next is sent. A turn names the
  sender (\<open>True\<close>: the first party), the plaintext and the scalar the receiver draws if it ratchets.
\<close>

fun converse ::
  "Crypto \<Rightarrow> (bool \<times> string \<times> bytes) list \<Rightarrow> DRatchetState \<Rightarrow> DRatchetState \<Rightarrow>
   (string option list \<times> DRatchetState \<times> DRatchetState) go" where
  "converse cr [] X Y = Inr ([], X, Y)"
| "converse cr ((fromX, pt, d) # script) X Y =
     (if fromX then
        go_bind (RatchetEncrypt cr X pt (rs_Peer Y) (rs_Peer X) []) (\<lambda>(m, X').
        go_bind (RatchetDecrypt cr d Y (rm_Header m) (rm_Message m)) (\<lambda>(r, Y').
        go_bind (converse cr script X' Y') (\<lambda>(rs, Z). Inr (r # rs, Z))))
      else
        go_bind (RatchetEncrypt cr Y pt (rs_Peer X) (rs_Peer Y) []) (\<lambda>(m, Y').
        go_bind (RatchetDecrypt cr d X (rm_Header m) (rm_Message m)) (\<lambda>(r, X').
        go_bind (converse cr script X' Y') (\<lambda>(rs, Z). Inr (r # rs, Z)))))"

text \<open>
  \<open>ahead cr t a b X Y\<close>: \<open>X\<close> holds a sending chain under its key \<open>a\<close> that \<open>Y\<close> has not seen yet, while \<open>Y\<close>, with key
  \<open>b\<close>, sends on a chain that \<open>X\<close> follows; no keys are skipped and no counter exceeds \<open>t\<close>.
\<close>

definition follows :: "Crypto \<Rightarrow> nat \<Rightarrow> bytes \<Rightarrow> DRatchetState \<Rightarrow> DRatchetState \<Rightarrow> bool" where
  "follows cr t b Y X \<longleftrightarrow> (\<exists>ck n. n \<le> t \<and> sender cr b ck n Y \<and> rs_DHr X = Some (pub cr b) \<and>
     rs_CKr X = Some (chain cr ck n) \<and> rs_Nr X = of_nat n)"

definition ahead :: "Crypto \<Rightarrow> nat \<Rightarrow> bytes \<Rightarrow> bytes \<Rightarrow> DRatchetState \<Rightarrow> DRatchetState \<Rightarrow> bool" where
  "ahead cr t a b X Y \<longleftrightarrow> valid_scalar cr a \<and> valid_scalar cr b \<and>
     rs_MKSKIPPED X = Map.empty \<and> rs_MKSKIPPED Y = Map.empty \<and>
     rs_DHr X = Some (pub cr b) \<and> rs_DHs Y = Some (GenerateDH cr b) \<and>
     (\<exists>rk rk1 ck. rs_RK Y = Some rk \<and> rs_RK X = Some rk1 \<and> KdfRK cr rk (shared cr a b) = (rk1, ck) \<and>
        sender cr a ck 0 X) \<and>
     (rs_DHr Y = None \<or> (\<exists>a'. valid_scalar cr a' \<and> rs_DHr Y = Some (pub cr a') \<and> pub cr a \<noteq> pub cr a')) \<and>
     (\<exists>n \<le> t. rs_Nr Y = of_nat n) \<and> (\<exists>n \<le> t. rs_Nr X = of_nat n)"

lemma SkipMessageKeys_none: "0 \<le> sint (rs_Nr st) \<Longrightarrow> sint n \<le> sint (rs_Nr st) \<Longrightarrow> skip_keys cr st n = Inr st"
  by (simp add: skip_keys_eq SkipMessageKeys_loop.simps [of cr n st])

lemma shared_sym:
  "crypto_laws cr \<Longrightarrow> valid_scalar cr a \<Longrightarrow> valid_scalar cr b \<Longrightarrow> shared cr a b = shared cr b a"
  using DH_symmetric(1) [of cr b a] DH_symmetric(2) [of cr a b] by simp

lemma receive_in_sync:
  assumes laws: "crypto_laws cr" and b: "valid_scalar cr b"
    and X: "rs_DHr X = Some (pub cr b)" "rs_CKr X = Some (chain cr ck n)" "rs_Nr X = of_nat n" "rs_MKSKIPPED X = Map.empty"
    and m: "message_of cr b ck n pt m"
  shows "RatchetDecrypt cr d X (rm_Header m) (rm_Message m) =
    Inr (Some pt, X\<lparr>rs_CKr := Some (chain cr ck (Suc n)), rs_Nr := of_nat (Suc n)\<rparr>)"
proof -
  note h = m [unfolded message_of_def]
  have "skip_keys cr X (of_nat n) = Inr X"
    using X(3) by (simp add: skip_keys_eq SkipMessageKeys_loop.simps)
  then show ?thesis
    using RatchetDecrypt_same_key [OF laws b X(1)] h X DecryptAEAD_EncryptAEAD [OF laws, of _ pt "rm_Header m"]
    by (simp add: receive_fresh_def KdfCK_chain add.commute)
qed

text \<open>The party that is behind sends: nothing but two chain steps.\<close>

lemma turn_behind:
  assumes laws: "crypto_laws cr" and ah: "ahead cr t a b X Y" and fo: "follows cr t b Y X"
  shows "\<exists>m Y' X'. RatchetEncrypt cr Y pt orig dest [] = Inr (m, Y') \<and>
    RatchetDecrypt cr d X (rm_Header m) (rm_Message m) = Inr (Some pt, X') \<and>
    ahead cr (Suc t) a b X' Y' \<and> follows cr (Suc t) b Y' X'"
proof -
  obtain ck n where f: "n \<le> t" "sender cr b ck n Y" "rs_DHr X = Some (pub cr b)"
    "rs_CKr X = Some (chain cr ck n)" "rs_Nr X = of_nat n" using fo by (auto simp: follows_def)
  have b: "valid_scalar cr b" and mk: "rs_MKSKIPPED X = Map.empty" using ah by (auto simp: ahead_def)
  let ?Y = "Y\<lparr>rs_CKs := Some (chain cr ck (Suc n)), rs_Ns := of_nat (Suc n)\<rparr>"
  let ?X = "X\<lparr>rs_CKr := Some (chain cr ck (Suc n)), rs_Nr := of_nat (Suc n)\<rparr>"
  obtain m where m: "RatchetEncrypt cr Y pt orig dest [] = Inr (m, ?Y)" "message_of cr b ck n pt m"
    using RatchetEncrypt_sender [OF laws b f(2)] by blast
  note r = receive_in_sync [OF laws b f(3,4,5) mk m(2), of d]
  have "ahead cr (Suc t) a b ?X ?Y"
    using ah f(1) unfolding ahead_def sender_def by (auto intro: le_SucI exI [of _ "Suc n"])
  moreover have "follows cr (Suc t) b ?Y ?X"
    using f unfolding follows_def sender_def by (intro exI [of _ ck] exI [of _ "Suc n"]) simp
  ultimately show ?thesis using m(1) r by blast
qed

text \<open>The party that is ahead sends: the receiver ratchets and is ahead itself.\<close>

lemma turn_ahead:
  assumes laws: "crypto_laws cr" and ah: "ahead cr t a b X Y" and t: "t < 2 ^ 63"
    and d: "valid_scalar cr d" "pub cr d \<noteq> pub cr b"
  shows "\<exists>m X' Y'. RatchetEncrypt cr X pt orig dest [] = Inr (m, X') \<and>
    RatchetDecrypt cr d Y (rm_Header m) (rm_Message m) = Inr (Some pt, Y') \<and>
    ahead cr (Suc t) d a Y' X' \<and> follows cr (Suc t) a X' Y'"
proof -
  note h = ah [unfolded ahead_def]
  obtain rk rk1 ck n where k: "rs_RK Y = Some rk" "rs_RK X = Some rk1" "KdfRK cr rk (shared cr a b) = (rk1, ck)"
    "sender cr a ck 0 X" and n: "n \<le> t" "rs_Nr Y = of_nat n" using h by blast
  have v: "valid_scalar cr a" "valid_scalar cr b" and Y: "rs_DHs Y = Some (GenerateDH cr b)"
    and mk: "rs_MKSKIPPED Y = Map.empty" using h by auto
  obtain rk2 ck2 where k2: "KdfRK cr rk1 (shared cr d a) = (rk2, ck2)" by fastforce
  let ?X = "X\<lparr>rs_CKs := Some (chain cr ck (Suc 0)), rs_Ns := of_nat (Suc 0)\<rparr>"
  let ?Y1 = "Y\<lparr>rs_PN := rs_Ns Y, rs_Ns := 0, rs_Nr := 0, rs_DHr := Some (pub cr a), rs_CKr := Some ck,
    rs_DHs := Some (GenerateDH cr d), rs_RK := Some rk2, rs_CKs := Some ck2\<rparr>"
  let ?Y = "?Y1\<lparr>rs_CKr := Some (chain cr ck (Suc 0)), rs_Nr := of_nat (Suc 0)\<rparr>"
  obtain m where m: "RatchetEncrypt cr X pt orig dest [] = Inr (m, ?X)" "message_of cr a ck 0 pt m"
    using RatchetEncrypt_sender [OF laws v(1) k(4)] by blast
  note mh = m(2) [unfolded message_of_def]
  have sk: "skip_keys cr Y (hdr_N (rm_Header m)) = Inr Y"
    using mh n t by (intro SkipMessageKeys_none) (simp_all add: sint_of_nat)
  have dr: "DHRatchet cr d Y (rm_Header m) = Inr ?Y1"
    using mh by (intro DHRatchet_pub [OF laws v(1,2) d(1) Y k(1) _ k(3) k2]) simp
  have none: "rs_MKSKIPPED Y (skey cr a (hdr_N (rm_Header m))) = None" using mk by simp
  have hp: "hdr_PubKey (rm_Header m) = enc_pub cr a" using mh by simp
  obtain b' where b': "valid_scalar cr b'" "rs_DHr Y = None \<or> rs_DHr Y = Some (pub cr b')" "pub cr a \<noteq> pub cr b'
    \<or> rs_DHr Y = None" using h v(1) by blast
  have "RatchetDecrypt cr d Y (rm_Header m) (rm_Message m) = receive_fresh cr ?Y1 (rm_Header m) (rm_Message m)"
  proof (cases "rs_DHr Y = None")
    case True
    then show ?thesis
      using sk dr none hp by (simp add: RatchetDecrypt_eq TrySkipped_pub [OF laws v(1)] pub_encoding [OF laws v(1)]
          receive_fresh_def)
  next
    case False
    then have "pub cr a \<noteq> pub cr b'" using b'(3) by auto
    then show ?thesis
      using RatchetDecrypt_new_key [OF laws v(1) b'(1,2) _ hp none] sk dr by simp
  qed
  also have "\<dots> = RatchetDecrypt cr d ?Y1 (rm_Header m) (rm_Message m)"
    using mk hp by (intro RatchetDecrypt_same_key [OF laws v(1), symmetric]) simp_all
  also have "\<dots> = Inr (Some pt, ?Y)"
    using receive_in_sync [OF laws v(1) _ _ _ _ m(2), of ?Y1 d] mk by simp
  finally have r: "RatchetDecrypt cr d Y (rm_Header m) (rm_Message m) = Inr (Some pt, ?Y)" .
  have "ahead cr (Suc t) d a ?Y ?X"
    unfolding ahead_def
  proof (intro conjI)
    show "\<exists>rk rk1' ck. rs_RK ?X = Some rk \<and> rs_RK ?Y = Some rk1' \<and> KdfRK cr rk (shared cr d a) = (rk1', ck) \<and>
        sender cr d ck 0 ?Y"
      using k(2) k2 by (simp add: sender_def)
    show "rs_DHr ?X = None \<or> (\<exists>a'. valid_scalar cr a' \<and> rs_DHr ?X = Some (pub cr a') \<and> pub cr d \<noteq> pub cr a')"
      using h v(2) d(2) by auto
    show "\<exists>n\<le>Suc t. rs_Nr ?X = of_nat n" "\<exists>n\<le>Suc t. rs_Nr ?Y = of_nat n"
      using h by (auto intro: le_SucI exI [of _ "Suc 0"])
  qed (use h v d k(4) mk in \<open>auto simp: sender_def\<close>)
  moreover have "follows cr (Suc t) a ?X ?Y"
    using k(4) unfolding follows_def sender_def by (intro exI [of _ ck] exI [of _ "Suc 0"]) simp
  ultimately show ?thesis using m(1) r by blast
qed

lemma converse_delivers:
  assumes laws: "crypto_laws cr"
  shows "(ahead cr t a b X Y \<and> follows cr t b Y X) \<or> (ahead cr t b a Y X \<and> follows cr t a X Y) \<Longrightarrow>
    t + length script < 2 ^ 63 \<Longrightarrow> distinct (map (pub cr) (a # b # map (\<lambda>(f, pt, d). d) script)) \<Longrightarrow>
    (\<forall>(f, pt, d) \<in> set script. valid_scalar cr d) \<Longrightarrow>
    \<exists>Z. converse cr script X Y = Inr (map (\<lambda>(f, pt, d). Some pt) script, Z)"
proof (induction script arbitrary: t a b X Y)
  case Nil
  then show ?case by simp
next
  case (Cons turn script)
  obtain f pt d where turn: "turn = (f, pt, d)" by (metis surj_pair)
  have d: "valid_scalar cr d" "pub cr d \<noteq> pub cr b" "pub cr d \<noteq> pub cr a" and t: "t < 2 ^ 63"
    and fresh: "distinct (map (pub cr) (a # b # map (\<lambda>(f, pt, d). d) script))"
      "distinct (map (pub cr) (a # d # map (\<lambda>(f, pt, d). d) script))"
      "distinct (map (pub cr) (d # b # map (\<lambda>(f, pt, d). d) script))"
    and rest: "Suc t + length script < 2 ^ 63" "\<forall>(f, pt, d) \<in> set script. valid_scalar cr d"
    using Cons.prems turn by auto
  note IH = Cons.IH [OF _ rest(1) _ rest(2)]
  show ?case
  proof (cases f)
    case True
    show ?thesis
    proof (rule disjE [OF Cons.prems(1)])
      assume s: "ahead cr t a b X Y \<and> follows cr t b Y X"
      obtain m X' Y' where st: "RatchetEncrypt cr X pt (rs_Peer Y) (rs_Peer X) [] = Inr (m, X')"
        "RatchetDecrypt cr d Y (rm_Header m) (rm_Message m) = Inr (Some pt, Y')"
        "ahead cr (Suc t) d a Y' X'" "follows cr (Suc t) a X' Y'"
        using turn_ahead [OF laws _ t d(1,2)] s by blast
      with IH [of a d X' Y'] fresh(2) True turn show ?thesis by auto
    next
      assume s: "ahead cr t b a Y X \<and> follows cr t a X Y"
      obtain m X' Y' where st: "RatchetEncrypt cr X pt (rs_Peer Y) (rs_Peer X) [] = Inr (m, X')"
        "RatchetDecrypt cr d Y (rm_Header m) (rm_Message m) = Inr (Some pt, Y')"
        "ahead cr (Suc t) b a Y' X'" "follows cr (Suc t) a X' Y'"
        using turn_behind [OF laws] s by blast
      with IH [of a b X' Y'] fresh(1) True turn show ?thesis by auto
    qed
  next
    case False
    show ?thesis
    proof (rule disjE [OF Cons.prems(1)])
      assume s: "ahead cr t a b X Y \<and> follows cr t b Y X"
      obtain m X' Y' where st: "RatchetEncrypt cr Y pt (rs_Peer X) (rs_Peer Y) [] = Inr (m, Y')"
        "RatchetDecrypt cr d X (rm_Header m) (rm_Message m) = Inr (Some pt, X')"
        "ahead cr (Suc t) a b X' Y'" "follows cr (Suc t) b Y' X'"
        using turn_behind [OF laws] s by blast
      with IH [of a b X' Y'] fresh(1) False turn show ?thesis by auto
    next
      assume s: "ahead cr t b a Y X \<and> follows cr t a X Y"
      obtain m X' Y' where st: "RatchetEncrypt cr Y pt (rs_Peer X) (rs_Peer Y) [] = Inr (m, Y')"
        "RatchetDecrypt cr d X (rm_Header m) (rm_Message m) = Inr (Some pt, X')"
        "ahead cr (Suc t) d b X' Y'" "follows cr (Suc t) b Y' X'"
        using turn_ahead [OF laws _ t d(1,3)] s by blast
      with IH [of d b X' Y'] fresh(3) False turn show ?thesis by auto
    qed
  qed
qed

lemma initial_ahead:
  assumes laws: "crypto_laws cr" and v: "valid_scalar cr a" "valid_scalar cr b"
    and S: "SInitializeRatchet cr a zero_ratchet SK (pub cr b) peer = Inr S"
  shows "ahead cr 0 a b S (RInitializeRatchet zero_ratchet SK (GenerateDH cr b))"
proof -
  obtain rk1 ck where k: "KdfRK cr SK (shared cr a b) = (rk1, ck)" by fastforce
  have "rs_DHr S = Some (pub cr b) \<and> rs_RK S = Some rk1 \<and> sender cr a ck 0 S \<and> rs_MKSKIPPED S = Map.empty \<and> rs_Nr S = 0"
    using S k by (auto simp: SInitializeRatchet_def DH_symmetric(1) [OF laws v] sender_def)
  with v k show ?thesis by (simp add: ahead_def RInitializeRatchet_def)
qed

text \<open>
  Claim C2. Double-ratchet conversations: once initialised with one secret, two parties that talk in any
  pattern of turns, beginning with the initiator, decrypt every message, through every Diffie-Hellman
  ratchet step, as long as the freshly drawn public keys are pairwise distinct.
\<close>

theorem ratchet_conversation:
  assumes laws: "crypto_laws cr" and v: "valid_scalar cr a" "valid_scalar cr b"
    and S: "SInitializeRatchet cr a zero_ratchet SK (PubKey (GenerateDH cr b)) peer = Inr S"
    and script: "script \<noteq> []" "fst (hd script)" "length script < 2 ^ 62" "\<forall>(f, pt, d) \<in> set script. valid_scalar cr d"
    and fresh: "distinct (map (\<lambda>d. PubKey (GenerateDH cr d)) (a # b # map (\<lambda>(f, pt, d). d) script))"
  shows "\<exists>Z. converse cr script S (RInitializeRatchet zero_ratchet SK (GenerateDH cr b)) =
    Inr (map (\<lambda>(f, pt, d). Some pt) script, Z)"
proof -
  let ?R = "RInitializeRatchet zero_ratchet SK (GenerateDH cr b)"
  obtain pt d rest where sc: "script = (True, pt, d) # rest"
    using script(1,2) by (cases script) (auto simp: prod_eq_iff)
  have d: "valid_scalar cr d" "pub cr d \<noteq> pub cr b" using script(4) fresh sc by auto
  have z: "(0 :: nat) < 2 ^ 63" by simp
  obtain m S' R' where st: "RatchetEncrypt cr S pt (rs_Peer ?R) (rs_Peer S) [] = Inr (m, S')"
    "RatchetDecrypt cr d ?R (rm_Header m) (rm_Message m) = Inr (Some pt, R')"
    "ahead cr (Suc 0) d a R' S'" "follows cr (Suc 0) a S' R'"
    using turn_ahead [OF laws initial_ahead [OF laws v S] z d] by blast
  have "\<exists>Z. converse cr rest S' R' = Inr (map (\<lambda>(f, pt, d). Some pt) rest, Z)"
    using st script sc fresh by (intro converse_delivers [OF laws, of "Suc 0" a d]) auto
  with st(1,2) sc show ?thesis by auto
qed

theorem ratchet_conversation_witness:
  "\<exists>S Z. SInitializeRatchet toy_crypto [1] zero_ratchet [5] (PubKey (GenerateDH toy_crypto [2])) ''bob'' = Inr S \<and>
    converse toy_crypto [(True, ''ping'', [3]), (False, ''pong'', [4])] S
      (RInitializeRatchet zero_ratchet [5] (GenerateDH toy_crypto [2])) = Inr ([Some ''ping'', Some ''pong''], Z)"
proof -
  obtain S where S: "SInitializeRatchet toy_crypto [1] zero_ratchet [5] (PubKey (GenerateDH toy_crypto [2])) ''bob'' = Inr S"
    by (simp add: SInitializeRatchet_def DH_symmetric(1) [OF toy_laws] Let_def case_prod_unfold)
  have "distinct (map (\<lambda>d. PubKey (GenerateDH toy_crypto d)) [[1], [2], [3], [4]])"
    by (simp add: GenerateDH_def toy_crypto_def toy_curve_def toy_mult_def toy_multiples_def big_SetBytes_def Let_def)
  with ratchet_conversation [OF toy_laws toy_scalars(1,2) S, of "[(True, ''ping'', [3]), (False, ''pong'', [4])]"] S
  show ?thesis by auto
qed

section \<open>Storing a session\<close>

lemma CompressRatchet_restore:
  assumes laws: "crypto_laws cr"
    and st: "rs_DHs st = Some DHs" "wf_point (curve cr) (PubKey DHs)" "rs_DHr st = Some DHr" "wf_point (curve cr) DHr"
      "rs_RK st = Some rk" "rs_CKs st = Some cks"
  shows "(rs_CKr st \<noteq> None \<longrightarrow> (\<exists>c. CompressRatchet cr st = Inr c \<and> UncompressRatchet cr c = st)) \<and>
    (rs_CKr st = None \<longrightarrow> CompressRatchet cr st = Inl NilDereference)"
proof -
  obtain b1 where b1: "CompressPoint (curve cr) (PubKey DHs) = Inr b1" "UncompressPoint (curve cr) b1 = PubKey DHs"
    using UncompressPoint_eq [OF laws st(2)] by blast
  obtain b2 where b2: "CompressPoint (curve cr) DHr = Inr b2" "UncompressPoint (curve cr) b2 = DHr"
    using UncompressPoint_eq [OF laws st(4)] by blast
  have "CompressRatchet cr st = go_bind (go_deref (rs_CKr st)) (\<lambda>CKr.
      Inr \<lparr>rc_Peer = rs_Peer st, rc_DHsPrivKey = PrivKey DHs, rc_DHsPubKey = b1, rc_DHr = b2, rc_RK = rk,
        rc_CKs = cks, rc_CKr = CKr, rc_Ns = rs_Ns st, rc_Nr = rs_Nr st, rc_PN = rs_PN st,
        rc_MKSKIPPED = rs_MKSKIPPED st\<rparr>)"
    using st b1 b2 by (simp add: CompressRatchet_def)
  moreover have "UncompressRatchet cr \<lparr>rc_Peer = rs_Peer st, rc_DHsPrivKey = PrivKey DHs, rc_DHsPubKey = b1, rc_DHr = b2,
      rc_RK = rk, rc_CKs = cks, rc_CKr = CKr, rc_Ns = rs_Ns st, rc_Nr = rs_Nr st, rc_PN = rs_PN st,
      rc_MKSKIPPED = rs_MKSKIPPED st\<rparr> = st" if "rs_CKr st = Some CKr" for CKr
    using st b1 b2 that by (simp add: UncompressRatchet_def)
  ultimately show ?thesis by (cases "rs_CKr st") simp_all
qed

text \<open>
  A session saved by \<open>CompressRatchet\<close> and loaded by \<open>UncompressRatchet\<close> is the same session, provided
  that both chains exist; a session that has not received anything yet (nil \<open>CKr\<close>, the state after
  \<open>SInitializeRatchet\<close>) makes \<open>CompressRatchet\<close> dereference nil.
\<close>

theorem CompressRatchet_roundtrip:
  assumes laws: "crypto_laws cr"
    and st: "rs_DHs st = Some DHs" "wf_point (curve cr) (PubKey DHs)" "rs_DHr st = Some DHr" "wf_point (curve cr) DHr"
      "rs_RK st = Some rk" "rs_CKs st = Some cks"
  shows "(rs_CKr st \<noteq> None \<longrightarrow> (\<exists>c. CompressRatchet cr st = Inr c \<and> UncompressRatchet cr c = st)) \<and>
    (rs_CKr st = None \<longrightarrow> CompressRatchet cr st = Inl NilDereference)"
  by (rule CompressRatchet_restore [OF laws st])

theorem CompressRatchet_roundtrip_witness:
  "\<exists>st. SInitializeRatchet toy_crypto [1] zero_ratchet [5] (PubKey (GenerateDH toy_crypto [2])) ''bob'' = Inr st \<and>
    CompressRatchet toy_crypto st = Inl NilDereference"
proof -
  obtain st where S: "SInitializeRatchet toy_crypto [1] zero_ratchet [5] (PubKey (GenerateDH toy_crypto [2])) ''bob'' = Inr st"
    by (simp add: SInitializeRatchet_def DH_symmetric(1) [OF toy_laws] Let_def case_prod_unfold)
  then have "rs_DHs st = Some (GenerateDH toy_crypto [1])" "rs_DHr st = Some (pub toy_crypto [2])"
    "\<exists>rk. rs_RK st = Some rk" "\<exists>ck. rs_CKs st = Some ck" "rs_CKr st = None"
    by (auto simp: SInitializeRatchet_def DH_symmetric(1) [OF toy_laws] Let_def case_prod_unfold)
  with S CompressRatchet_roundtrip [OF toy_laws _ PubKey_wf [OF toy_laws toy_scalars(1)] _ PubKey_wf [OF toy_laws toy_scalars(2)]]
  show ?thesis by blast
qed

section \<open>What a receiver accepts from the network\<close>

text \<open>
  Claim C24. The receive counter moves before authentication: a message that fails to decrypt (forged, or a
  duplicate of one already read) under the receiver's current chain still consumes the message key, so
  the genuine message with that number is then tried with the following key.
\<close>

theorem RatchetDecrypt_unauthenticated_step:
  assumes laws: "crypto_laws cr" and a: "valid_scalar cr a" and n: "n < 2 ^ 63"
    and st: "rs_DHr st = Some (PubKey (GenerateDH cr a))" "rs_CKr st = Some (chain cr ck n)" "rs_Nr st = of_nat n"
      "rs_MKSKIPPED st = Map.empty"
    and h: "hdr_PubKey h = enc_pub cr a" "hdr_N h = of_nat n"
    and bad: "DecryptAEAD cr (mkey cr ck n) bad h = Inr None"
  shows "\<exists>st'. RatchetDecrypt cr d st h bad = Inr (None, st') \<and> rs_Nr st' = of_nat n + 1 \<and>
    (n + 1 < 2 ^ 63 \<longrightarrow> (\<forall>m. hdr_PubKey (rm_Header m) = enc_pub cr a \<longrightarrow> hdr_N (rm_Header m) = of_nat n \<longrightarrow>
       (\<forall>r st''. RatchetDecrypt cr d st' (rm_Header m) (rm_Message m) = Inr (r, st'') \<longrightarrow>
          DecryptAEAD cr (mkey cr ck (n + 1)) (rm_Message m) (rm_Header m) = Inr r)))"
proof -
  let ?st = "st\<lparr>rs_CKr := Some (chain cr ck (Suc n)), rs_Nr := of_nat n + 1\<rparr>"
  have "skip_keys cr st (of_nat n) = Inr st"
    using st(3) by (simp add: skip_keys_eq SkipMessageKeys_loop.simps)
  then have "RatchetDecrypt cr d st h bad = Inr (None, ?st)"
    using RatchetDecrypt_same_key [OF laws a st(1) h(1)] st h bad
    by (simp add: receive_fresh_def KdfCK_chain)
  moreover have "DecryptAEAD cr (mkey cr ck (n + 1)) (rm_Message m) (rm_Header m) = Inr r"
    if n1: "n + 1 < 2 ^ 63" and m: "hdr_PubKey (rm_Header m) = enc_pub cr a" "hdr_N (rm_Header m) = of_nat n"
      and r: "RatchetDecrypt cr d ?st (rm_Header m) (rm_Message m) = Inr (r, st'')" for m r st''
  proof -
    have "sint (of_nat (Suc n) :: 64 word) = int (Suc n)" using n1 by (intro sint_of_nat) simp
    then have "sint (of_nat n + 1 :: 64 word) = int n + 1" by (simp add: add.commute)
    then have "skip_keys cr ?st (of_nat n) = Inr ?st"
      using n by (intro SkipMessageKeys_none) (simp_all add: sint_of_nat)
    then show ?thesis
      using RatchetDecrypt_same_key [OF laws a, of ?st "rm_Header m"] r m st
      by (auto simp: receive_fresh_def KdfCK_chain go_bind_eq_Inr)
  qed
  ultimately show ?thesis by (intro exI [of _ ?st]) auto
qed

theorem RatchetDecrypt_unauthenticated_step_witness:
  "\<exists>st'. RatchetDecrypt toy_crypto [3]
      (zero_ratchet\<lparr>rs_DHr := Some (PubKey (GenerateDH toy_crypto [1])), rs_CKr := Some [9]\<rparr>)
      \<lparr>hdr_PubKey = enc_pub toy_crypto [1], hdr_Pn = 0, hdr_N = 0, hdr_Origin = ''a'', hdr_Destination = ''b'', hdr_HopLimit = 1\<rparr>
      \<lparr>cph_Ad = [], cph_Ciph = replicate 16 1\<rparr> = Inr (None, st') \<and> rs_Nr st' = 1"
proof -
  let ?st = "zero_ratchet\<lparr>rs_DHr := Some (PubKey (GenerateDH toy_crypto [1])), rs_CKr := Some [9]\<rparr>"
  let ?h = "\<lparr>hdr_PubKey = enc_pub toy_crypto [1], hdr_Pn = 0, hdr_N = 0, hdr_Origin = ''a'', hdr_Destination = ''b'', hdr_HopLimit = 1\<rparr>"
  let ?c = "\<lparr>cph_Ad = [], cph_Ciph = replicate 16 1\<rparr>"
  have "Sum256 toy_crypto = toy_hash" by (simp add: toy_crypto_def)
  then have "take 16 (NewHMAC toy_crypto x k) = replicate 16 0" and "length (NewHMAC toy_crypto x k) = 32" for x k
    by (simp_all add: NewHMAC_def Let_def toy_hash_def)
  moreover have "replicate 16 (1 :: byte) \<noteq> replicate 16 0" by (simp add: numeral_eq_Suc)
  ultimately have "DecryptAEAD toy_crypto (mkey toy_crypto [9] 0) ?c ?h = Inr None"
    by (simp add: DecryptAEAD_def AESBlock_def Let_def case_prod_unfold)
  from RatchetDecrypt_unauthenticated_step [OF toy_laws toy_scalars(1) _ _ _ _ _ _ _ this, of ?st "[3]"]
  show ?thesis by (auto simp: zero_ratchet_def)
qed

text \<open>
  Two headers that crash every receiver: a public key that is not a well-formed point
  (\<open>Unmarshal\<close> returns nil coordinates), and, between \<open>SInitializeRatchet\<close> and the first answer, a header carrying the peer's
  own signed prekey (no ratchet step is taken, so the receiving chain is still nil).
\<close>

theorem RatchetDecrypt_panics:
  assumes laws: "crypto_laws cr" and b: "valid_scalar cr b"
  shows "(fst (Unmarshal (curve cr) (hdr_PubKey h)) = None \<and> fst (snd (Unmarshal (curve cr) (hdr_PubKey h))) = None \<longrightarrow>
      RatchetDecrypt cr d st h c = Inl NilDereference) \<and>
    (rs_DHr st = Some (PubKey (GenerateDH cr b)) \<and> rs_CKr st = None \<and> rs_MKSKIPPED st = Map.empty \<and>
      hdr_PubKey h = enc_pub cr b \<longrightarrow> RatchetDecrypt cr d st h c = Inl NilDereference)"
proof (intro conjI impI; elim conjE)
  assume "fst (Unmarshal (curve cr) (hdr_PubKey h)) = None" "fst (snd (Unmarshal (curve cr) (hdr_PubKey h))) = None"
  then show "RatchetDecrypt cr d st h c = Inl NilDereference"
    by (simp add: RatchetDecrypt_eq TrySkippedMessageKeys_def UncompressPoint_def getKeyFromRatchet_def
        CompressPoint_def Marshal_def Let_def case_prod_unfold)
next
  assume st: "rs_DHr st = Some (PubKey (GenerateDH cr b))" "rs_CKr st = None" "rs_MKSKIPPED st = Map.empty"
    "hdr_PubKey h = enc_pub cr b"
  then show "RatchetDecrypt cr d st h c = Inl NilDereference"
    using RatchetDecrypt_same_key [OF laws b st(1,4)]
    by (simp add: receive_fresh_def skip_keys_eq)
qed

theorem RatchetDecrypt_panics_witness:
  "RatchetDecrypt toy_crypto [3] zero_ratchet
     \<lparr>hdr_PubKey = [], hdr_Pn = 0, hdr_N = 0, hdr_Origin = ''a'', hdr_Destination = ''b'', hdr_HopLimit = 1\<rparr>
     \<lparr>cph_Ad = [], cph_Ciph = []\<rparr> = Inl NilDereference"
  using RatchetDecrypt_panics [OF toy_laws toy_scalars(2), of
      "\<lparr>hdr_PubKey = [], hdr_Pn = 0, hdr_N = 0, hdr_Origin = ''a'', hdr_Destination = ''b'', hdr_HopLimit = 1\<rparr>"]
  by (simp add: Unmarshal_def elliptic_Unmarshal_def)

end
