(* ===== verification/X3DH.thy ===== *)
theory X3DH
  imports Ratchet
begin

text \<open>
  Extended triple Diffie-Hellman (\<open>src/adssignal/adsX3DH.go\<close>): identities, the two ends of the key agreement,
  and the compressed identities written to disk or published in the store. The ratchet table \<open>stateTable\<close> is a map from peer
  names to ratchet states; the Go code stores a pointer and keeps updating the ratchet through it, so the model
  enters the final state. A signature error is a nil result with the table unchanged.
\<close>

section \<open>Identities\<close>

definition DEFAULTOPKN :: nat where "DEFAULTOPKN = 10"

record SelfIdentity =
  si_IK :: DHPair
  si_SPK :: DHPair
  si_Sign :: "ECDSA option"
  si_OPK :: "DHPair list"

record RemoteIdentity =
  ri_IK :: EllipticPoint
  ri_SPK :: EllipticPoint
  ri_Sign :: "ECDSA option"
  ri_OPK :: "EllipticPoint list"

record X3DHMessage =
  xm_RMessage :: RatchetMessage
  xm_IK :: bytes
  xm_EK :: bytes
  xm_OPK :: "bytes option"

type_synonym state_table = "string \<rightharpoonup> DRatchetState"

text \<open>The drawn scalars: \<open>ik\<close>, \<open>spk\<close>, the randomness of the signature, and \<open>opk i\<close> for the \<open>i\<close>-th one-time prekey.\<close>

definition GenerateIdentity :: "Crypto \<Rightarrow> bytes \<Rightarrow> bytes \<Rightarrow> bytes \<Rightarrow> (nat \<Rightarrow> bytes) \<Rightarrow> SelfIdentity go" where
  "GenerateIdentity cr ik spk rnd opk =
     (let IK = GenerateDH cr ik; SPK = GenerateDH cr spk
      in go_bind (Marshal (curve cr) (pt_x (PubKey SPK)) (pt_y (PubKey SPK))) (\<lambda>compressedSPK.
           let Sign = GenerateSignature cr rnd compressedSPK (PrivKey IK) (PubKey IK);
               OPKS = map (\<lambda>i. GenerateDH cr (opk i)) [0..<DEFAULTOPKN]
           in Inr \<lparr>si_IK = IK, si_SPK = SPK, si_Sign = Sign, si_OPK = OPKS\<rparr>))"

definition UpdateIdentity :: "Crypto \<Rightarrow> bytes \<Rightarrow> bytes \<Rightarrow> SelfIdentity \<Rightarrow> SelfIdentity go" where
  "UpdateIdentity cr spk rnd identity =
     (let SPK = GenerateDH cr spk
      in go_bind (Marshal (curve cr) (pt_x (PubKey SPK)) (pt_y (PubKey SPK))) (\<lambda>compressedSPK.
           let Sign = GenerateSignature cr rnd compressedSPK (PrivKey (si_IK identity)) (PubKey (si_IK identity))
           in Inr (identity\<lparr>si_SPK := SPK, si_Sign := Sign\<rparr>)))"

section \<open>Initiator\<close>

abbreviation Marshal_point :: "Crypto \<Rightarrow> EllipticPoint \<Rightarrow> bytes go" where
  "Marshal_point cr Q \<equiv> Marshal (curve cr) (pt_x Q) (pt_y Q)"

text \<open>\<open>ek\<close> is the ephemeral scalar, \<open>d\<close> the one drawn by \<open>SInitializeRatchet\<close>.\<close>

definition SInitializeX3DH ::
  "Crypto \<Rightarrow> bytes \<Rightarrow> bytes \<Rightarrow> RemoteIdentity \<Rightarrow> EllipticPoint option \<Rightarrow> string \<Rightarrow> string \<Rightarrow> SelfIdentity \<Rightarrow>
   state_table \<Rightarrow> string option \<Rightarrow> (X3DHMessage option \<times> state_table) go" where
  "SInitializeX3DH cr ek d rIdentity oneTimePk snd_name rcv_name selfIdentity stateTable message =
     go_bind (Marshal_point cr (ri_SPK rIdentity)) (\<lambda>compressedSPK.
     go_bind (go_deref (ri_Sign rIdentity)) (\<lambda>sign.
     if \<not> VerifySignature cr compressedSPK sign (ri_IK rIdentity) then Inr (None, stateTable)
     else
       let EK = GenerateDH cr ek in
       go_bind (DH cr (si_IK selfIdentity) (ri_SPK rIdentity)) (\<lambda>dh1.
       go_bind (DH cr EK (ri_IK rIdentity)) (\<lambda>dh2.
       go_bind (DH cr EK (ri_SPK rIdentity)) (\<lambda>dh3.
       go_bind (case oneTimePk of None \<Rightarrow> Inr (dh1 @ dh2 @ dh3)
                | Some opk \<Rightarrow> go_bind (DH cr EK opk) (\<lambda>dh4. Inr (dh1 @ dh2 @ dh3 @ dh4))) (\<lambda>dhx.
       let SK = KdfX3DH cr dhx in
       go_bind (Marshal_point cr (ri_IK rIdentity)) (\<lambda>rIKcompressed.
       go_bind (Marshal_point cr (PubKey (si_IK selfIdentity))) (\<lambda>sIKcompressed.
       let AD = sIKcompressed @ rIKcompressed in
       go_bind (Marshal_point cr (PubKey EK)) (\<lambda>EKcompressed.
       go_bind (SInitializeRatchet cr d zero_ratchet SK (ri_SPK rIdentity) rcv_name) (\<lambda>ratchetState.
       let msg = (case message of None \<Rightarrow> snd_name @ '':'' @ rcv_name
                  | Some m \<Rightarrow> snd_name @ '':'' @ rcv_name @ '':'' @ m) in
       go_bind (RatchetEncrypt cr ratchetState msg snd_name rcv_name AD) (\<lambda>(ratchetMessage, ratchetState').
       go_bind (case oneTimePk of None \<Rightarrow> Inr None
                | Some opk \<Rightarrow> go_bind (Marshal_point cr opk) (\<lambda>b. Inr (Some b))) (\<lambda>opkbytes.
         Inr (Some \<lparr>xm_RMessage = ratchetMessage, xm_IK = sIKcompressed, xm_EK = EKcompressed, xm_OPK = opkbytes\<rparr>,
              stateTable(rcv_name \<mapsto> ratchetState'))))))))))))))"

section \<open>Responder\<close>

text \<open>The four agreements of the receiving side, shared by \<open>RInitializeX3DH\<close> and \<open>IInitializeX3DH\<close>.\<close>

definition receiver_SK :: "Crypto \<Rightarrow> X3DHMessage \<Rightarrow> DHPair option \<Rightarrow> SelfIdentity \<Rightarrow> bytes go" where
  "receiver_SK cr msg OPK selfIdentity =
     (let rIK = UncompressPoint (curve cr) (xm_IK msg); rEK = UncompressPoint (curve cr) (xm_EK msg)
      in go_bind (DH cr (si_SPK selfIdentity) rIK) (\<lambda>dh1.
         go_bind (DH cr (si_IK selfIdentity) rEK) (\<lambda>dh2.
         go_bind (DH cr (si_SPK selfIdentity) rEK) (\<lambda>dh3.
         go_bind (if xm_OPK msg = None then Inr (dh1 @ dh2 @ dh3)
                  else case OPK of None \<Rightarrow> Inr (dh1 @ dh2 @ dh3)
                  | Some opk \<Rightarrow> go_bind (DH cr opk rEK) (\<lambda>dh4. Inr (dh1 @ dh2 @ dh3 @ dh4))) (\<lambda>dhx.
           Inr (KdfX3DH cr dhx))))))"

text \<open>The common tail: the ratchet is entered in the table under the name the plaintext begins with.\<close>

definition receiver_finish ::
  "Crypto \<Rightarrow> bytes \<Rightarrow> X3DHMessage \<Rightarrow> SelfIdentity \<Rightarrow> state_table \<Rightarrow> bytes \<Rightarrow> nat \<Rightarrow> (string option \<times> state_table) go" where
  "receiver_finish cr d msg selfIdentity stateTable SK field =
     (let ratchetState = RInitializeRatchet zero_ratchet SK (si_SPK selfIdentity)
      in go_bind (RatchetDecrypt cr d ratchetState (rm_Header (xm_RMessage msg)) (rm_Message (xm_RMessage msg)))
           (\<lambda>(plaintext, ratchetState').
             case plaintext of None \<Rightarrow> Inr (None, stateTable)
             | Some pt \<Rightarrow>
                 let plainarray = strings_Split (CHR '':'') pt in
                 go_bind (go_nth plainarray 0) (\<lambda>peer.
                 go_bind (go_nth plainarray field) (\<lambda>res.
                   Inr (Some res, stateTable(peer \<mapsto> ratchetState'\<lparr>rs_Peer := peer\<rparr>))))))"

definition RInitializeX3DH ::
  "Crypto \<Rightarrow> bytes \<Rightarrow> X3DHMessage \<Rightarrow> DHPair option \<Rightarrow> SelfIdentity \<Rightarrow> state_table \<Rightarrow> (string option \<times> state_table) go" where
  "RInitializeX3DH cr d msg OPK selfIdentity stateTable =
     go_bind (receiver_SK cr msg OPK selfIdentity) (\<lambda>SK.
       receiver_finish cr d msg selfIdentity stateTable SK 1)"

fun find_OPK :: "Crypto \<Rightarrow> bytes \<Rightarrow> DHPair list \<Rightarrow> DHPair option go" where
  "find_OPK cr target [] = Inr None"
| "find_OPK cr target (p # ps) =
     go_bind (CompressPoint (curve cr) (PubKey p)) (\<lambda>b.
       if b = target then Inr (Some p) else find_OPK cr target ps)"

definition IInitializeX3DH ::
  "Crypto \<Rightarrow> bytes \<Rightarrow> X3DHMessage \<Rightarrow> SelfIdentity \<Rightarrow> state_table \<Rightarrow> (string option \<times> state_table) go" where
  "IInitializeX3DH cr d msg selfIdentity stateTable =
     go_bind (case xm_OPK msg of None \<Rightarrow> Inr None | Some b \<Rightarrow> find_OPK cr b (si_OPK selfIdentity)) (\<lambda>OPK.
     go_bind (receiver_SK cr msg OPK selfIdentity) (\<lambda>SK.
       receiver_finish cr d msg selfIdentity stateTable SK 2))"

section \<open>Compressed identities\<close>

record SelfIdentityCompressed =
  sc_IKPrivKey :: bytes
  sc_IKPubKey :: bytes
  sc_SPKPrivKey :: bytes
  sc_SPKPubKey :: bytes
  sc_R :: bytes
  sc_S :: bytes
  sc_OPK :: "bytes list list"

record RemoteIdentityCompressed =
  rmc_IK :: bytes
  rmc_SPK :: bytes
  rmc_R :: bytes
  rmc_S :: bytes
  rmc_OPK :: "bytes list"

text \<open>A loop \<open>for i := 0; i < DEFAULTOPKN; i++\<close> that appends the value of its body.\<close>

definition opk_loop :: "(nat \<Rightarrow> 'a go) \<Rightarrow> 'a list go" where
  "opk_loop body = go_foldM (\<lambda>acc i. go_bind (body i) (\<lambda>v. Inr (acc @ [v]))) [] [0..<DEFAULTOPKN]"

definition CompressIdentity :: "Crypto \<Rightarrow> SelfIdentity \<Rightarrow> SelfIdentityCompressed go" where
  "CompressIdentity cr selfIdentity =
     go_bind (CompressPoint (curve cr) (PubKey (si_IK selfIdentity))) (\<lambda>IKcompressed.
     go_bind (CompressPoint (curve cr) (PubKey (si_SPK selfIdentity))) (\<lambda>SPKcompressed.
     go_bind (opk_loop (\<lambda>i. go_bind (go_nth (si_OPK selfIdentity) i) (\<lambda>p.
                go_bind (CompressPoint (curve cr) (PubKey p)) (\<lambda>b. Inr [PrivKey p, b])))) (\<lambda>OPK.
     go_bind (go_deref (si_Sign selfIdentity)) (\<lambda>sign.
       Inr \<lparr>sc_IKPrivKey = PrivKey (si_IK selfIdentity), sc_IKPubKey = IKcompressed,
            sc_SPKPrivKey = PrivKey (si_SPK selfIdentity), sc_SPKPubKey = SPKcompressed,
            sc_R = sig_R sign, sc_S = sig_S sign, sc_OPK = OPK\<rparr>))))"

definition CompressRemoteIdentity :: "SelfIdentityCompressed \<Rightarrow> RemoteIdentityCompressed go" where
  "CompressRemoteIdentity selfIdentity =
     go_bind (opk_loop (\<lambda>i. go_bind (go_nth (sc_OPK selfIdentity) i) (\<lambda>p. go_nth p 1))) (\<lambda>OPK.
       Inr \<lparr>rmc_IK = sc_IKPubKey selfIdentity, rmc_SPK = sc_SPKPubKey selfIdentity,
            rmc_R = sc_R selfIdentity, rmc_S = sc_S selfIdentity, rmc_OPK = OPK\<rparr>)"

text \<open>
  The variables \<open>OPKPrivKey\<close> and \<open>OPKPubKey\<close> are declared before the loop and every appended \<open>DHPair\<close> holds their
  addresses: when the loop ends all pairs read the last values. The model runs the loop over the two
  variables and resolves the pointers at the end.
\<close>

definition opk_variables :: "Crypto \<Rightarrow> bytes list list \<Rightarrow> (bytes \<times> EllipticPoint) go" where
  "opk_variables cr opks =
     go_foldM (\<lambda>vars i. go_bind (go_nth opks i) (\<lambda>p.
         go_bind (go_nth p 0) (\<lambda>priv. go_bind (go_nth p 1) (\<lambda>b. Inr (priv, UncompressPoint (curve cr) b)))))
       ([], \<lparr>pt_C = curve cr, pt_x = None, pt_y = None\<rparr>) [0..<DEFAULTOPKN]"

definition UncompressIdentity :: "Crypto \<Rightarrow> SelfIdentityCompressed \<Rightarrow> SelfIdentity go" where
  "UncompressIdentity cr compressed =
     go_bind (opk_variables cr (sc_OPK compressed)) (\<lambda>(OPKPrivKey, OPKPubKey).
       Inr \<lparr>si_IK = \<lparr>PubKey = UncompressPoint (curve cr) (sc_IKPubKey compressed), PrivKey = sc_IKPrivKey compressed\<rparr>,
            si_SPK = \<lparr>PubKey = UncompressPoint (curve cr) (sc_SPKPubKey compressed), PrivKey = sc_SPKPrivKey compressed\<rparr>,
            si_Sign = Some \<lparr>sig_R = sc_R compressed, sig_S = sc_S compressed\<rparr>,
            si_OPK = replicate DEFAULTOPKN \<lparr>PubKey = OPKPubKey, PrivKey = OPKPrivKey\<rparr>\<rparr>)"

definition UncompressRemoteIdentity :: "Crypto \<Rightarrow> RemoteIdentityCompressed \<Rightarrow> RemoteIdentity go" where
  "UncompressRemoteIdentity cr compressed =
     go_bind (opk_loop (\<lambda>i. go_bind (go_nth (rmc_OPK compressed) i) (\<lambda>b. Inr (UncompressPoint (curve cr) b)))) (\<lambda>OPK.
       Inr \<lparr>ri_IK = UncompressPoint (curve cr) (rmc_IK compressed), ri_SPK = UncompressPoint (curve cr) (rmc_SPK compressed),
            ri_Sign = Some \<lparr>sig_R = rmc_R compressed, sig_S = rmc_S compressed\<rparr>, ri_OPK = OPK\<rparr>)"

section \<open>Splitting\<close>

lemma Split_hd: "strings_Split sep m \<noteq> [] \<and> hd (strings_Split sep m) = takeWhile (\<lambda>c. c \<noteq> sep) m"
  by (induction m) (auto split: list.splits)

lemma Split_append: "sep \<notin> set s \<Longrightarrow> strings_Split sep (s @ sep # r) = s # strings_Split sep r"
  by (induction s) auto

lemma Split_message:
  assumes "CHR '':'' \<notin> set a" "CHR '':'' \<notin> set b"
  shows "\<exists>rest. strings_Split (CHR '':'') (a @ '':'' @ b @ '':'' @ m) = a # b # takeWhile (\<lambda>c. c \<noteq> CHR '':'') m # rest"
proof -
  obtain w rest where w: "strings_Split (CHR '':'') m = w # rest" "w = takeWhile (\<lambda>c. c \<noteq> CHR '':'') m"
    using Split_hd [of "CHR '':''" m] by (cases "strings_Split (CHR '':'') m") auto
  show ?thesis
    using Split_append [OF assms(1), of "b @ '':'' @ m"] Split_append [OF assms(2), of m] w by simp
qed

section \<open>Both ends derive the same key\<close>

lemma RatchetEncrypt_AD: "RatchetEncrypt cr st pt orig dest AD = RatchetEncrypt cr st pt orig dest AD'"
  by (simp add: RatchetEncrypt_def Concat_def)

lemma enc_pub_inj:
  "crypto_laws cr \<Longrightarrow> valid_scalar cr a \<Longrightarrow> valid_scalar cr b \<Longrightarrow> enc_pub cr a = enc_pub cr b \<Longrightarrow> pub cr a = pub cr b"
  by (metis pub_encoding(2))

lemma shared_pub:
  "pub cr b = pub cr c \<Longrightarrow> shared cr a b = shared cr a c"
  by (simp add: shared_def)

lemma find_OPK_generated:
  assumes laws: "crypto_laws cr" and s: "valid_scalar cr s"
  shows "\<forall>x \<in> set xs. valid_scalar cr x \<Longrightarrow> s \<in> set xs \<Longrightarrow>
    \<exists>x. find_OPK cr (enc_pub cr s) (map (GenerateDH cr) xs) = Inr (Some (GenerateDH cr x)) \<and> valid_scalar cr x \<and>
      pub cr x = pub cr s"
proof (induction xs)
  case Nil
  then show ?case by simp
next
  case (Cons x xs)
  then have x: "valid_scalar cr x" by simp
  show ?case
  proof (cases "enc_pub cr x = enc_pub cr s")
    case True
    then have "find_OPK cr (enc_pub cr s) (map (GenerateDH cr) (x # xs)) = Inr (Some (GenerateDH cr x))"
      by (simp add: pub_encoding [OF laws x])
    then show ?thesis using x enc_pub_inj [OF laws x s True] by blast
  next
    case False
    then have "s \<in> set xs" using Cons.prems(2) by auto
    with Cons False show ?thesis by (simp add: pub_encoding [OF laws x])
  qed
qed

text \<open>The input of the final key derivation, as the initiator computes it.\<close>

definition x3dh_input :: "Crypto \<Rightarrow> bytes \<Rightarrow> bytes \<Rightarrow> bytes \<Rightarrow> bytes \<Rightarrow> bytes \<Rightarrow> bytes" where
  "x3dh_input cr ika ek ikb spkb opkb =
     shared cr ika spkb @ shared cr ek ikb @ shared cr ek spkb @ shared cr ek opkb"

lemma SInitializeX3DH_eq:
  assumes laws: "crypto_laws cr"
    and v: "valid_scalar cr ika" "valid_scalar cr ek" "valid_scalar cr ikb" "valid_scalar cr spkb" "valid_scalar cr opkb"
    and r: "ri_IK rid = pub cr ikb" "ri_SPK rid = pub cr spkb" "ri_Sign rid = Some sig"
      "VerifySignature cr (enc_pub cr spkb) sig (pub cr ikb)"
    and A: "si_IK A = GenerateDH cr ika"
    and S: "SInitializeRatchet cr d zero_ratchet (KdfX3DH cr (x3dh_input cr ika ek ikb spkb opkb)) (pub cr spkb) b = Inr S"
    and enc: "RatchetEncrypt cr S (a @ '':'' @ b @ '':'' @ m) a b [] = Inr (rmsg, S')"
  shows "SInitializeX3DH cr ek d rid (Some (pub cr opkb)) a b A tab (Some m) =
    Inr (Some \<lparr>xm_RMessage = rmsg, xm_IK = enc_pub cr ika, xm_EK = enc_pub cr ek, xm_OPK = Some (enc_pub cr opkb)\<rparr>, tab(b \<mapsto> S'))"
proof -
  have AD: "RatchetEncrypt cr S (a @ '':'' @ b @ '':'' @ m) a b AD = Inr (rmsg, S')" for AD
    using enc RatchetEncrypt_AD by metis
  have k: "KdfX3DH cr (shared cr ika spkb @ shared cr ek ikb @ shared cr ek spkb @ shared cr ek opkb) =
      KdfX3DH cr (x3dh_input cr ika ek ikb spkb opkb)" by (simp add: x3dh_input_def)
  show ?thesis
    unfolding SInitializeX3DH_def
    by (simp only: r A pub_encoding(3) [OF laws v(1)] pub_encoding(3) [OF laws v(2)] pub_encoding(3) [OF laws v(3)]
        pub_encoding(3) [OF laws v(4)] pub_encoding(3) [OF laws v(5)] go_bind_Inr go_deref_simps Let_def not_True_eq_False if_False
        DH_symmetric(1) [OF laws v(1,4)] DH_symmetric(1) [OF laws v(2,3)] DH_symmetric(1) [OF laws v(2,4)]
        DH_symmetric(1) [OF laws v(2,5)] option.case k S AD case_prod_conv)
qed

lemma receiver_SK_eq:
  assumes laws: "crypto_laws cr"
    and v: "valid_scalar cr ika" "valid_scalar cr ek" "valid_scalar cr ikb" "valid_scalar cr spkb" "valid_scalar cr opk"
    and same: "pub cr opk = pub cr opkb"
    and B: "si_IK B = GenerateDH cr ikb" "si_SPK B = GenerateDH cr spkb"
    and msg: "xm_IK msg = enc_pub cr ika" "xm_EK msg = enc_pub cr ek" "xm_OPK msg = Some x"
  shows "receiver_SK cr msg (Some (GenerateDH cr opk)) B = Inr (KdfX3DH cr (x3dh_input cr ika ek ikb spkb opkb))"
  using shared_pub [OF same, of ek]
  by (simp add: receiver_SK_def msg B pub_encoding [OF laws v(1)] pub_encoding [OF laws v(2)] Let_def
      DH_symmetric(2) [OF laws v(1,4)] DH_symmetric(2) [OF laws v(2,3)] DH_symmetric(2) [OF laws v(2,4)]
      DH_symmetric(2) [OF laws v(2,5)] x3dh_input_def)

lemma GenerateIdentity_parts:
  assumes laws: "crypto_laws cr" and v: "valid_scalar cr ik" "valid_scalar cr spk"
    and gen: "GenerateIdentity cr ik spk rnd opk = Inr B"
  shows "si_IK B = GenerateDH cr ik" "si_SPK B = GenerateDH cr spk"
    "si_OPK B = map (GenerateDH cr) (map opk [0..<DEFAULTOPKN])"
    "\<exists>sig. si_Sign B = Some sig \<and> VerifySignature cr (enc_pub cr spk) sig (pub cr ik)"
  using gen signature_verifies [OF laws v(1), of rnd "enc_pub cr spk"]
  by (auto simp: GenerateIdentity_def Let_def pub_encoding [OF laws v(2)])

lemma rs_Peer_irrelevant:
  "ahead cr t a b (X\<lparr>rs_Peer := p\<rparr>) Y = ahead cr t a b X Y" "follows cr t a Y (X\<lparr>rs_Peer := p\<rparr>) = follows cr t a Y X"
  by (simp_all add: ahead_def follows_def sender_def)

lemma RatchetEncrypt_header:
  "RatchetEncrypt cr st pt og dst ad = Inr (m, st') \<Longrightarrow>
   hdr_Origin (rm_Header m) = og \<and> hdr_Destination (rm_Header m) = dst \<and> rs_Peer st' = rs_Peer st"
  by (clarsimp simp: RatchetEncrypt_def ComposeRatchetHeader_def go_bind_eq_Inr Let_def case_prod_unfold)

lemma x3dh_initiation:
  assumes laws: "crypto_laws cr"
    and v: "valid_scalar cr ika" "valid_scalar cr ek" "valid_scalar cr d1" "valid_scalar cr ik" "valid_scalar cr spk"
      "valid_scalar cr d2" "\<forall>i < DEFAULTOPKN. valid_scalar cr (opk i)" "j < DEFAULTOPKN"
    and gen: "GenerateIdentity cr ik spk rnd opk = Inr B" and A: "si_IK A = GenerateDH cr ika"
    and names: "CHR '':'' \<notin> set a" "CHR '':'' \<notin> set b" and d2: "pub cr d2 \<noteq> pub cr spk"
  shows "\<exists>msg rA rB.
    SInitializeX3DH cr ek d1 \<lparr>ri_IK = PubKey (si_IK B), ri_SPK = PubKey (si_SPK B), ri_Sign = si_Sign B,
        ri_OPK = map PubKey (si_OPK B)\<rparr> (Some (PubKey (si_OPK B ! j))) a b A tA (Some m) = Inr (Some msg, tA(b \<mapsto> rA)) \<and>
    IInitializeX3DH cr d2 msg B tB = Inr (Some (takeWhile (\<lambda>c. c \<noteq> CHR '':'') m), tB(a \<mapsto> rB)) \<and>
    rs_Peer rA = b \<and> rs_Peer rB = a \<and> hdr_Origin (rm_Header (xm_RMessage msg)) = a \<and>
    hdr_Destination (rm_Header (xm_RMessage msg)) = b \<and> xm_OPK msg \<noteq> None \<and>
    ahead cr (Suc 0) d2 d1 rB rA \<and> follows cr (Suc 0) d1 rA rB"
proof -
  note B = GenerateIdentity_parts [OF laws v(4,5) gen]
  obtain sig where sig: "si_Sign B = Some sig" "VerifySignature cr (enc_pub cr spk) sig (pub cr ik)" using B(4) by blast
  have opk: "valid_scalar cr (opk j)" using v(7,8) by blast
  have pj: "PubKey (si_OPK B ! j) = pub cr (opk j)" using B(3) v(8) by simp
  let ?SK = "KdfX3DH cr (x3dh_input cr ika ek ik spk (opk j))"
  let ?R = "RInitializeRatchet zero_ratchet ?SK (GenerateDH cr spk)"
  obtain S where S: "SInitializeRatchet cr d1 zero_ratchet ?SK (pub cr spk) b = Inr S"
    by (simp add: SInitializeRatchet_def DH_symmetric(1) [OF laws v(3,5)] Let_def case_prod_unfold)
  have z: "(0 :: nat) < 2 ^ 63" by simp
  let ?text = "a @ '':'' @ b @ '':'' @ m"
  obtain rmsg rA R' where st: "RatchetEncrypt cr S ?text a b [] = Inr (rmsg, rA)"
    "RatchetDecrypt cr d2 ?R (rm_Header rmsg) (rm_Message rmsg) = Inr (Some ?text, R')"
    "ahead cr (Suc 0) d2 d1 R' rA" "follows cr (Suc 0) d1 rA R'"
    using turn_ahead [OF laws initial_ahead [OF laws v(3,5) S] z v(6) d2] by blast
  let ?msg = "\<lparr>xm_RMessage = rmsg, xm_IK = enc_pub cr ika, xm_EK = enc_pub cr ek, xm_OPK = Some (enc_pub cr (opk j))\<rparr>"
  let ?rB = "R'\<lparr>rs_Peer := a\<rparr>"
  have init: "SInitializeX3DH cr ek d1 \<lparr>ri_IK = PubKey (si_IK B), ri_SPK = PubKey (si_SPK B), ri_Sign = si_Sign B,
        ri_OPK = map PubKey (si_OPK B)\<rparr> (Some (PubKey (si_OPK B ! j))) a b A tA (Some m) = Inr (Some ?msg, tA(b \<mapsto> rA))"
    unfolding pj using sig by (intro SInitializeX3DH_eq [OF laws v(1,2,4,5) opk _ _ _ _ A S st(1)]) (simp_all add: B(1,2))
  obtain x where x: "find_OPK cr (enc_pub cr (opk j)) (si_OPK B) = Inr (Some (GenerateDH cr x))" "valid_scalar cr x"
    "pub cr x = pub cr (opk j)"
    using find_OPK_generated [OF laws opk, of "map opk [0..<DEFAULTOPKN]"] v(7,8) B(3) by auto
  have sk: "receiver_SK cr ?msg (Some (GenerateDH cr x)) B = Inr ?SK"
    by (rule receiver_SK_eq [OF laws v(1,2,4,5) x(2,3) B(1,2)]) simp_all
  obtain rest where "strings_Split (CHR '':'') ?text = a # b # takeWhile (\<lambda>c. c \<noteq> CHR '':'') m # rest"
    using Split_message [OF names] by blast
  then have fin: "receiver_finish cr d2 ?msg B tB ?SK 2 =
      Inr (Some (takeWhile (\<lambda>c. c \<noteq> CHR '':'') m), tB(a \<mapsto> ?rB))"
    using st(2) by (simp add: receiver_finish_def B(2) Let_def)
  have resp: "IInitializeX3DH cr d2 ?msg B tB = Inr (Some (takeWhile (\<lambda>c. c \<noteq> CHR '':'') m), tB(a \<mapsto> ?rB))"
    using x(1) sk fin by (simp add: IInitializeX3DH_def)
  have ah: "ahead cr (Suc 0) d2 d1 ?rB rA \<and> follows cr (Suc 0) d1 rA ?rB"
    using st(3,4) by (simp add: rs_Peer_irrelevant)
  have "rs_Peer S = b" using S by (auto simp: SInitializeRatchet_def go_bind_eq_Inr Let_def case_prod_unfold)
  with init resp ah RatchetEncrypt_header [OF st(1)] show ?thesis
    by (intro exI [of _ ?msg] exI [of _ rA] exI [of _ ?rB]) simp
qed

text \<open>
  Claim C1. X3DH and the double ratchet end to end. When an initiator uses the published identity of a responder
  and one of its one-time prekeys, the first message verifies the signature, both sides derive one
  key, the responder files the session under the initiator's name and returns the text up to its first colon
  (the whole text if it has none), and from then on any pattern of turns is decrypted on both sides.
\<close>

theorem x3dh_session:
  assumes laws: "crypto_laws cr"
    and v: "valid_scalar cr ika" "valid_scalar cr ek" "valid_scalar cr d1" "valid_scalar cr ik" "valid_scalar cr spk"
      "valid_scalar cr d2" "\<forall>i < DEFAULTOPKN. valid_scalar cr (opk i)" "j < DEFAULTOPKN"
    and gen: "GenerateIdentity cr ik spk rnd opk = Inr B" and A: "si_IK A = GenerateDH cr ika"
    and names: "CHR '':'' \<notin> set a" "CHR '':'' \<notin> set b"
    and script: "length script < 2 ^ 62" "\<forall>(f, pt, d) \<in> set script. valid_scalar cr d"
    and fresh: "distinct (map (\<lambda>d. PubKey (GenerateDH cr d)) (spk # d1 # d2 # map (\<lambda>(f, pt, d). d) script))"
  shows "\<exists>msg rA rB Z.
    SInitializeX3DH cr ek d1 \<lparr>ri_IK = PubKey (si_IK B), ri_SPK = PubKey (si_SPK B), ri_Sign = si_Sign B,
        ri_OPK = map PubKey (si_OPK B)\<rparr> (Some (PubKey (si_OPK B ! j))) a b A tA (Some m) = Inr (Some msg, tA(b \<mapsto> rA)) \<and>
    IInitializeX3DH cr d2 msg B tB = Inr (Some (takeWhile (\<lambda>c. c \<noteq> CHR '':'') m), tB(a \<mapsto> rB)) \<and>
    rs_Peer rA = b \<and> rs_Peer rB = a \<and>
    converse cr script rA rB = Inr (map (\<lambda>(f, pt, d). Some pt) script, Z)"
proof -
  have d2: "pub cr d2 \<noteq> pub cr spk" using fresh by auto
  obtain msg rA rB where init: "SInitializeX3DH cr ek d1 \<lparr>ri_IK = PubKey (si_IK B), ri_SPK = PubKey (si_SPK B), ri_Sign = si_Sign B,
        ri_OPK = map PubKey (si_OPK B)\<rparr> (Some (PubKey (si_OPK B ! j))) a b A tA (Some m) = Inr (Some msg, tA(b \<mapsto> rA))"
    "IInitializeX3DH cr d2 msg B tB = Inr (Some (takeWhile (\<lambda>c. c \<noteq> CHR '':'') m), tB(a \<mapsto> rB))"
    "rs_Peer rA = b" "rs_Peer rB = a" "ahead cr (Suc 0) d2 d1 rB rA" "follows cr (Suc 0) d1 rA rB"
    using x3dh_initiation [OF laws v gen A names d2] by blast
  then obtain Z where "converse cr script rA rB = Inr (map (\<lambda>(f, pt, d). Some pt) script, Z)"
    using converse_delivers [OF laws, of "Suc 0" d1 d2 rA rB script] script fresh by auto
  with init show ?thesis by blast
qed

theorem x3dh_session_witness:
  "\<exists>B A msg rA rB Z.
    SInitializeX3DH toy_crypto [2] [2] \<lparr>ri_IK = PubKey (si_IK B), ri_SPK = PubKey (si_SPK B), ri_Sign = si_Sign B,
        ri_OPK = map PubKey (si_OPK B)\<rparr> (Some (PubKey (si_OPK B ! 3))) ''alice'' ''bob'' A Map.empty (Some ''hi: there'')
      = Inr (Some msg, [''bob'' \<mapsto> rA]) \<and>
    IInitializeX3DH toy_crypto [3] msg B Map.empty = Inr (Some ''hi'', [''alice'' \<mapsto> rB]) \<and>
    converse toy_crypto [(False, ''pong'', [4])] rA rB = Inr ([Some ''pong''], Z)"
proof -
  have v: "\<forall>i < DEFAULTOPKN. valid_scalar toy_crypto ((\<lambda>_. [2]) i)" by simp
  obtain B where B: "GenerateIdentity toy_crypto [3] [1] [] (\<lambda>_. [2]) = Inr B"
    by (simp add: GenerateIdentity_def Let_def pub_encoding [OF toy_laws toy_scalars(1)])
  define A where "A = B\<lparr>si_IK := GenerateDH toy_crypto [1]\<rparr>"
  have "si_IK A = GenerateDH toy_crypto [1]" by (simp add: A_def)
  moreover have "distinct (map (\<lambda>d. PubKey (GenerateDH toy_crypto d)) [[1], [2], [3], [4]])"
    by (simp add: GenerateDH_def toy_crypto_def toy_curve_def toy_mult_def toy_multiples_def big_SetBytes_def Let_def)
  ultimately have "\<exists>msg rA rB Z.
    SInitializeX3DH toy_crypto [2] [2] \<lparr>ri_IK = PubKey (si_IK B), ri_SPK = PubKey (si_SPK B), ri_Sign = si_Sign B,
        ri_OPK = map PubKey (si_OPK B)\<rparr> (Some (PubKey (si_OPK B ! 3))) ''alice'' ''bob'' A Map.empty (Some ''hi: there'')
      = Inr (Some msg, Map.empty(''bob'' \<mapsto> rA)) \<and>
    IInitializeX3DH toy_crypto [3] msg B Map.empty =
      Inr (Some (takeWhile (\<lambda>c. c \<noteq> CHR '':'') ''hi: there''), Map.empty(''alice'' \<mapsto> rB)) \<and>
    rs_Peer rA = ''bob'' \<and> rs_Peer rB = ''alice'' \<and>
    converse toy_crypto [(False, ''pong'', [4])] rA rB = Inr (map (\<lambda>(f, pt, d). Some pt) [(False, ''pong'', [4 :: byte])], Z)"
    by (intro x3dh_session [OF toy_laws toy_scalars(1,2,2,3,1,3) v _ B]) (simp_all add: DEFAULTOPKN_def)
  moreover have "takeWhile (\<lambda>c. c \<noteq> CHR '':'') ''hi: there'' = ''hi''" by simp
  moreover have "map (\<lambda>(f, pt, d). Some pt) [(False, ''pong'', [4 :: byte])] = [Some ''pong'']" by simp
  ultimately show ?thesis by metis
qed

section \<open>Stored and published identities\<close>

lemma opk_loop_ok:
  assumes "\<forall>i < DEFAULTOPKN. body i = Inr (f i)"
  shows "opk_loop body = Inr (map f [0..<DEFAULTOPKN])"
proof -
  have "(\<forall>i \<in> set xs. body i = Inr (f i)) \<Longrightarrow>
      go_foldM (\<lambda>acc i. go_bind (body i) (\<lambda>v. Inr (acc @ [v]))) acc xs = Inr (acc @ map f xs)" for acc xs
    by (induction xs arbitrary: acc) simp_all
  with assms show ?thesis by (simp add: opk_loop_def)
qed

lemma go_foldM_last:
  "xs \<noteq> [] \<Longrightarrow> \<forall>s. \<forall>x \<in> set xs. f s x = Inr (g x) \<Longrightarrow> go_foldM f s xs = Inr (g (last xs))"
  by (induction xs arbitrary: s) auto

definition own_identity :: "Crypto \<Rightarrow> SelfIdentity \<Rightarrow> bool" where
  "own_identity cr B \<longleftrightarrow> wf_point (curve cr) (PubKey (si_IK B)) \<and> wf_point (curve cr) (PubKey (si_SPK B)) \<and>
     si_Sign B \<noteq> None \<and> length (si_OPK B) = DEFAULTOPKN \<and> (\<forall>p \<in> set (si_OPK B). wf_point (curve cr) (PubKey p))"

lemma CompressIdentity_ok:
  assumes laws: "crypto_laws cr" and B: "own_identity cr B"
  shows "\<exists>c. CompressIdentity cr B = Inr c \<and>
    UncompressPoint (curve cr) (sc_IKPubKey c) = PubKey (si_IK B) \<and> sc_IKPrivKey c = PrivKey (si_IK B) \<and>
    UncompressPoint (curve cr) (sc_SPKPubKey c) = PubKey (si_SPK B) \<and> sc_SPKPrivKey c = PrivKey (si_SPK B) \<and>
    Some \<lparr>sig_R = sc_R c, sig_S = sc_S c\<rparr> = si_Sign B \<and>
    (\<exists>enc. sc_OPK c = map (\<lambda>i. [PrivKey (si_OPK B ! i), enc i]) [0..<DEFAULTOPKN] \<and>
       (\<forall>i < DEFAULTOPKN. UncompressPoint (curve cr) (enc i) = PubKey (si_OPK B ! i)))"
proof -
  have e: "\<exists>b. CompressPoint (curve cr) Q = Inr b \<and> UncompressPoint (curve cr) b = Q" if "wf_point (curve cr) Q" for Q
    using UncompressPoint_eq [OF laws that] by blast
  obtain b1 where b1: "CompressPoint (curve cr) (PubKey (si_IK B)) = Inr b1" "UncompressPoint (curve cr) b1 = PubKey (si_IK B)"
    using e B unfolding own_identity_def by blast
  obtain b2 where b2: "CompressPoint (curve cr) (PubKey (si_SPK B)) = Inr b2" "UncompressPoint (curve cr) b2 = PubKey (si_SPK B)"
    using e B unfolding own_identity_def by blast
  have "\<forall>i. i < DEFAULTOPKN \<longrightarrow> (\<exists>b. CompressPoint (curve cr) (PubKey (si_OPK B ! i)) = Inr b \<and>
      UncompressPoint (curve cr) b = PubKey (si_OPK B ! i))"
    using e B unfolding own_identity_def by (metis nth_mem)
  then obtain enc where enc: "\<And>i. i < DEFAULTOPKN \<Longrightarrow> CompressPoint (curve cr) (PubKey (si_OPK B ! i)) = Inr (enc i)"
    "\<And>i. i < DEFAULTOPKN \<Longrightarrow> UncompressPoint (curve cr) (enc i) = PubKey (si_OPK B ! i)" by metis
  have len: "length (si_OPK B) = DEFAULTOPKN" and sg: "\<exists>s. si_Sign B = Some s" using B by (auto simp: own_identity_def)
  have opks: "opk_loop (\<lambda>i. go_bind (go_nth (si_OPK B) i) (\<lambda>p. go_bind (CompressPoint (curve cr) (PubKey p)) (\<lambda>b. Inr [PrivKey p, b]))) =
      Inr (map (\<lambda>i. [PrivKey (si_OPK B ! i), enc i]) [0..<DEFAULTOPKN])"
    using enc(1) len by (intro opk_loop_ok) simp
  obtain sign where sign: "si_Sign B = Some sign" using sg by blast
  let ?c = "\<lparr>sc_IKPrivKey = PrivKey (si_IK B), sc_IKPubKey = b1,
      sc_SPKPrivKey = PrivKey (si_SPK B), sc_SPKPubKey = b2, sc_R = sig_R sign, sc_S = sig_S sign,
      sc_OPK = map (\<lambda>i. [PrivKey (si_OPK B ! i), enc i]) [0..<DEFAULTOPKN]\<rparr>"
  have "CompressIdentity cr B = Inr ?c"
    using b1 b2 opks sign by (simp add: CompressIdentity_def)
  then show ?thesis
    using b1 b2 sign enc(2) by (intro exI [of _ ?c] conjI exI [of _ enc]) simp_all
qed

text \<open>
  Publishing an identity is lossless: compressing it, taking the remote part and uncompressing that
  yields the public keys of the identity, its signature, and every one-time prekey in order.
\<close>

lemma published_identity:
  assumes laws: "crypto_laws cr" and B: "own_identity cr B"
  shows "\<exists>c r. CompressIdentity cr B = Inr c \<and> CompressRemoteIdentity c = Inr r \<and>
    UncompressRemoteIdentity cr r = Inr \<lparr>ri_IK = PubKey (si_IK B), ri_SPK = PubKey (si_SPK B), ri_Sign = si_Sign B,
      ri_OPK = map PubKey (si_OPK B)\<rparr>"
proof -
  obtain c enc where c: "CompressIdentity cr B = Inr c" "UncompressPoint (curve cr) (sc_IKPubKey c) = PubKey (si_IK B)"
    "UncompressPoint (curve cr) (sc_SPKPubKey c) = PubKey (si_SPK B)" "Some \<lparr>sig_R = sc_R c, sig_S = sc_S c\<rparr> = si_Sign B"
    "sc_OPK c = map (\<lambda>i. [PrivKey (si_OPK B ! i), enc i]) [0..<DEFAULTOPKN]"
    "\<forall>i < DEFAULTOPKN. UncompressPoint (curve cr) (enc i) = PubKey (si_OPK B ! i)"
    using CompressIdentity_ok [OF laws B] by (elim exE conjE) (rule that)
  have r: "opk_loop (\<lambda>i. go_bind (go_nth (sc_OPK c) i) (\<lambda>p. go_nth p 1)) = Inr (map enc [0..<DEFAULTOPKN])"
    by (intro opk_loop_ok) (simp add: c(5))
  have u: "opk_loop (\<lambda>i. go_bind (go_nth (map enc [0..<DEFAULTOPKN]) i) (\<lambda>b. Inr (UncompressPoint (curve cr) b))) =
      Inr (map (\<lambda>i. PubKey (si_OPK B ! i)) [0..<DEFAULTOPKN])"
    by (intro opk_loop_ok) (simp add: c(6))
  have "map (\<lambda>i. PubKey (si_OPK B ! i)) [0..<DEFAULTOPKN] = map PubKey (si_OPK B)"
    using B by (intro nth_equalityI) (simp_all add: own_identity_def)
  with c r u show ?thesis by (simp add: CompressRemoteIdentity_def UncompressRemoteIdentity_def)
qed

lemma toy_identity:
  "own_identity toy_crypto \<lparr>si_IK = GenerateDH toy_crypto [1], si_SPK = GenerateDH toy_crypto [2],
     si_Sign = Some \<lparr>sig_R = [1], sig_S = [2]\<rparr>,
     si_OPK = replicate 9 (GenerateDH toy_crypto [3]) @ [GenerateDH toy_crypto [4]]\<rparr>"
  using PubKey_wf [OF toy_laws] by (auto simp: own_identity_def DEFAULTOPKN_def)

text \<open>
  Restoring an identity from disk keeps the identity key, the signed prekey and the signature, but
  all ten one-time prekeys become the last one: the loop appends the address of the same two variables. A
  first message that uses any other prekey then finds no private key.
\<close>

theorem restored_identity_aliases_prekeys:
  assumes laws: "crypto_laws cr" and B: "own_identity cr B"
  shows "\<exists>c. CompressIdentity cr B = Inr c \<and>
    UncompressIdentity cr c = Inr (B\<lparr>si_OPK := replicate DEFAULTOPKN (last (si_OPK B))\<rparr>) \<and>
    (\<forall>b. CompressPoint (curve cr) (PubKey (last (si_OPK B))) \<noteq> Inr b \<longrightarrow>
       find_OPK cr b (replicate DEFAULTOPKN (last (si_OPK B))) = Inr None)"
proof -
  let ?l = "DEFAULTOPKN - 1"
  obtain c enc where c: "CompressIdentity cr B = Inr c" "UncompressPoint (curve cr) (sc_IKPubKey c) = PubKey (si_IK B)"
    "sc_IKPrivKey c = PrivKey (si_IK B)" "UncompressPoint (curve cr) (sc_SPKPubKey c) = PubKey (si_SPK B)"
    "sc_SPKPrivKey c = PrivKey (si_SPK B)" "Some \<lparr>sig_R = sc_R c, sig_S = sc_S c\<rparr> = si_Sign B"
    "sc_OPK c = map (\<lambda>i. [PrivKey (si_OPK B ! i), enc i]) [0..<DEFAULTOPKN]"
    "\<forall>i < DEFAULTOPKN. UncompressPoint (curve cr) (enc i) = PubKey (si_OPK B ! i)"
    using CompressIdentity_ok [OF laws B] by (elim exE conjE) (rule that)
  have len: "length (si_OPK B) = DEFAULTOPKN" using B by (simp add: own_identity_def)
  then have "si_OPK B \<noteq> []" by (auto simp: DEFAULTOPKN_def)
  with len have last: "last (si_OPK B) = si_OPK B ! ?l" and last_in: "last (si_OPK B) \<in> set (si_OPK B)"
    by (auto simp: last_conv_nth DEFAULTOPKN_def)
  have "opk_variables cr (sc_OPK c) =
      Inr ((\<lambda>i. (PrivKey (si_OPK B ! i), PubKey (si_OPK B ! i))) (last [0..<DEFAULTOPKN]))"
    unfolding opk_variables_def using c(7,8) by (intro go_foldM_last) (simp_all add: DEFAULTOPKN_def)
  then have "opk_variables cr (sc_OPK c) = Inr (PrivKey (last (si_OPK B)), PubKey (last (si_OPK B)))"
    by (simp add: last DEFAULTOPKN_def)
  then have u: "UncompressIdentity cr c = Inr (B\<lparr>si_OPK := replicate DEFAULTOPKN (last (si_OPK B))\<rparr>)"
    using c by (simp add: UncompressIdentity_def)
  obtain b0 where b0: "CompressPoint (curve cr) (PubKey (last (si_OPK B))) = Inr b0"
    using UncompressPoint_eq [OF laws] B last_in unfolding own_identity_def by metis
  have "find_OPK cr b (replicate n (last (si_OPK B))) = Inr None" if "b \<noteq> b0" for b n
    using that b0 by (induction n) auto
  with c(1) u b0 show ?thesis by auto
qed

theorem restored_identity_aliases_prekeys_witness:
  "\<exists>c B. CompressIdentity toy_crypto \<lparr>si_IK = GenerateDH toy_crypto [1], si_SPK = GenerateDH toy_crypto [2],
     si_Sign = Some \<lparr>sig_R = [1], sig_S = [2]\<rparr>,
     si_OPK = replicate 9 (GenerateDH toy_crypto [3]) @ [GenerateDH toy_crypto [4]]\<rparr> = Inr c \<and>
    UncompressIdentity toy_crypto c = Inr B \<and> si_OPK B = replicate DEFAULTOPKN (GenerateDH toy_crypto [4])"
  using restored_identity_aliases_prekeys [OF toy_laws toy_identity] by auto

end
