(* ===== verification/WhisperFilters.thy ===== *)
theory WhisperFilters
  imports WhisperEnvelope
begin

text \<open>
  Subscriptions (\<open>src/whisper/filter.go\<close>) and the key store (\<open>src/whisper/crypto.go\<close>). Filters are shared by pointer
  between the subscriptions and the index by topic, so they live in a heap addressed by numbers; \<open>AddFilter\<close> gets the
  address of its argument. The write lock of the storage is modelled because one path leaves it taken: an
  operation on a storage whose lock is taken never returns (\<open>None\<close>).
\<close>

section \<open>Random identifiers\<close>

definition keyIDSize :: nat where "keyIDSize = 32"

text \<open>\<open>rnd\<close> is the outcome of the random source.\<close>

definition generateRandomBytes :: "bytes option \<Rightarrow> nat \<Rightarrow> bytes option" where
  "generateRandomBytes rnd n = map_option (\<lambda>r. take n r @ replicate (n - length r) 0) rnd"

definition generateRandomID :: "bytes option \<Rightarrow> string option" where
  "generateRandomID rnd =
     (case generateRandomBytes rnd keyIDSize of
        None \<Rightarrow> None
      | Some buf \<Rightarrow> if length buf \<noteq> keyIDSize then None else Some (EncodeToString buf))"

section \<open>The filter storage\<close>

record FilterStorage =
  fs_heap :: "nat \<rightharpoonup> Filter"
  fs_subscribers :: "string \<rightharpoonup> nat"
  fs_topicToFilters :: "Topic \<rightharpoonup> nat set"
  fs_locked :: bool

definition NewFilterStorage :: FilterStorage where
  "NewFilterStorage = \<lparr>fs_heap = Map.empty, fs_subscribers = Map.empty, fs_topicToFilters = Map.empty, fs_locked = False\<rparr>"

definition index_topic :: "nat \<Rightarrow> (Topic \<rightharpoonup> nat set) \<Rightarrow> bytes \<Rightarrow> (Topic \<rightharpoonup> nat set)" where
  "index_topic p m t =
     (let topic = ConvertBytesToTopic t
      in m(topic \<mapsto> insert p (case m topic of None \<Rightarrow> {} | Some s \<Rightarrow> s)))"

definition unindex_topic :: "nat \<Rightarrow> (Topic \<rightharpoonup> nat set) \<Rightarrow> bytes \<Rightarrow> (Topic \<rightharpoonup> nat set)" where
  "unindex_topic p m t =
     (let topic = ConvertBytesToTopic t in m(topic := map_option (\<lambda>s. s - {p}) (m topic)))"

text \<open>
  The result carries the identifier, or \<open>None\<close> for an error. A filter stored by \<open>AddFilter\<close> never has a nil message map, so
  nil maps need no value of their own.
\<close>

definition AddFilter :: "FilterStorage \<Rightarrow> nat \<Rightarrow> Filter \<Rightarrow> bytes option \<Rightarrow> (string option \<times> FilterStorage) option" where
  "AddFilter fs p flt rnd =
     (if fl_KeySym flt \<noteq> None \<and> fl_KeyAsym flt \<noteq> None then Some (None, fs)
      else case generateRandomID rnd of
        None \<Rightarrow> Some (None, fs)
      | Some i \<Rightarrow>
          if fs_locked fs then None
          else if fs_subscribers fs i \<noteq> None then Some (None, fs\<lparr>fs_locked := True\<rparr>)
          else Some (Some i, fs\<lparr>fs_heap := (fs_heap fs)(p \<mapsto> flt), fs_subscribers := (fs_subscribers fs)(i \<mapsto> p),
                                fs_topicToFilters := foldl (index_topic p) (fs_topicToFilters fs) (fl_Topics flt)\<rparr>))"

definition RemoveFilter :: "FilterStorage \<Rightarrow> string \<Rightarrow> (bool \<times> FilterStorage) option" where
  "RemoveFilter fs i =
     (if fs_locked fs then None
      else case fs_subscribers fs i of
        None \<Rightarrow> Some (False, fs)
      | Some p \<Rightarrow>
          let topics = (case fs_heap fs p of None \<Rightarrow> [] | Some sub \<Rightarrow> fl_Topics sub)
          in Some (True, fs\<lparr>fs_subscribers := (fs_subscribers fs)(i := None),
                            fs_topicToFilters := foldl (unindex_topic p) (fs_topicToFilters fs) topics\<rparr>))"

text \<open>\<open>rng\<close> is the order in which the run time ranges over a set of filters.\<close>

definition getSubscribersByTopic :: "(nat set \<Rightarrow> nat list) \<Rightarrow> FilterStorage \<Rightarrow> Topic \<Rightarrow> nat list" where
  "getSubscribersByTopic rng fs topic = (case fs_topicToFilters fs topic of None \<Rightarrow> [] | Some s \<Rightarrow> rng s)"

definition GetFilterFromID :: "FilterStorage \<Rightarrow> string \<Rightarrow> nat option option" where
  "GetFilterFromID fs i = (if fs_locked fs then None else Some (fs_subscribers fs i))"

definition notify_one :: "WCrypto \<Rightarrow> Envelope \<Rightarrow> FilterStorage \<Rightarrow> nat \<Rightarrow> FilterStorage go" where
  "notify_one wc env fs p =
     go_bind (go_deref (fs_heap fs p)) (\<lambda>sub.
       if float_geq (Fin 0) (fl_Pow sub) \<or> float_geq (en_pow env) (fl_Pow sub) then
         go_bind (GetMessageFromEnvelope wc env sub) (\<lambda>m.
           case m of None \<Rightarrow> Inr fs
           | Some msg \<Rightarrow>
               Inr (if fl_Messages sub (rm_EnvelopeHash msg) = None
                    then fs\<lparr>fs_heap := (fs_heap fs)(p \<mapsto> sub\<lparr>fl_Messages := (fl_Messages sub)(rm_EnvelopeHash msg \<mapsto> msg)\<rparr>)\<rparr>
                    else fs))
       else Inr fs)"

definition NotifySubscribers :: "(nat set \<Rightarrow> nat list) \<Rightarrow> WCrypto \<Rightarrow> FilterStorage \<Rightarrow> Envelope \<Rightarrow> FilterStorage go option" where
  "NotifySubscribers rng wc fs env =
     (if fs_locked fs then None
      else Some (go_foldM (notify_one wc env) fs (getSubscribersByTopic rng fs (en_Topic env))))"

text \<open>\<open>rng\<close> enumerates the values of a map; reading the messages empties the filter.\<close>

definition GetReceivedMessagesFromFilter ::
  "((bytes \<rightharpoonup> ReceivedMessage) \<Rightarrow> ReceivedMessage list) \<Rightarrow> Filter \<Rightarrow> ReceivedMessage list \<times> Filter" where
  "GetReceivedMessagesFromFilter rng f = (rng (fl_Messages f), f\<lparr>fl_Messages := Map.empty\<rparr>)"

section \<open>The key store\<close>

datatype crypto_key = SymKey bytes | PrivateKey bytes

type_synonym key_store = "string \<rightharpoonup> crypto_key"

text \<open>\<open>LoadOrStore\<close> under a fresh identifier; \<open>None\<close> for an error.\<close>

definition store_key :: "key_store \<Rightarrow> crypto_key \<Rightarrow> bytes option \<Rightarrow> string option \<times> key_store" where
  "store_key ks key rnd =
     (case generateRandomID rnd of
        None \<Rightarrow> (None, ks)
      | Some i \<Rightarrow> if ks i \<noteq> None then (None, ks) else (Some i, ks(i \<mapsto> key)))"

definition NewKeyPair :: "key_store \<Rightarrow> bytes \<Rightarrow> bytes option \<Rightarrow> string option \<times> key_store" where
  "NewKeyPair ks key rnd = store_key ks (PrivateKey key) rnd"

definition DeleteKey :: "key_store \<Rightarrow> string \<Rightarrow> key_store" where
  "DeleteKey ks i = ks(i := None)"

definition AddKeyPair :: "key_store \<Rightarrow> bytes \<Rightarrow> bytes option \<Rightarrow> string option \<times> key_store" where
  "AddKeyPair ks key rnd = store_key ks (PrivateKey key) rnd"

definition HasKey :: "key_store \<Rightarrow> string \<Rightarrow> bool" where
  "HasKey ks i \<longleftrightarrow> ks i \<noteq> None"

definition GetPrivateKey :: "key_store \<Rightarrow> string \<Rightarrow> bytes option go" where
  "GetPrivateKey ks i =
     (case ks i of None \<Rightarrow> Inr None | Some (PrivateKey k) \<Rightarrow> Inr (Some k) | Some (SymKey k) \<Rightarrow> Inl FailedTypeAssertion)"

definition aesKeyLength :: nat where "aesKeyLength = 32"

definition GenerateSymKey :: "key_store \<Rightarrow> bytes option \<Rightarrow> bytes option \<Rightarrow> string option \<times> key_store" where
  "GenerateSymKey ks rndKey rnd =
     (case generateRandomBytes rndKey aesKeyLength of
        None \<Rightarrow> (None, ks)
      | Some key \<Rightarrow> store_key ks (SymKey key) rnd)"

text \<open>\<open>hex.DecodeString\<close>: the bytes decoded before the first error.\<close>

definition fromHexChar :: "char \<Rightarrow> nat option" where
  "fromHexChar c =
     (let n = of_char c :: nat
      in if 48 \<le> n \<and> n \<le> 57 then Some (n - 48)
         else if 97 \<le> n \<and> n \<le> 102 then Some (n - 87)
         else if 65 \<le> n \<and> n \<le> 70 then Some (n - 55) else None)"

fun hex_DecodeString :: "string \<Rightarrow> bytes" where
  "hex_DecodeString (a # b # cs) =
     (case (fromHexChar a, fromHexChar b) of
        (Some x, Some y) \<Rightarrow> of_nat (16 * x + y) # hex_DecodeString cs
      | _ \<Rightarrow> [])"
| "hex_DecodeString _ = []"

definition AddSymKey :: "key_store \<Rightarrow> string \<Rightarrow> bytes option \<Rightarrow> string option \<times> key_store" where
  "AddSymKey ks k rnd =
     (let key = hex_DecodeString k
      in if length key \<noteq> aesKeyLength then (None, ks) else store_key ks (SymKey key) rnd)"

definition GetSymKeyFromID :: "key_store \<Rightarrow> string \<Rightarrow> bytes option go" where
  "GetSymKeyFromID ks i =
     (case ks i of None \<Rightarrow> Inr None | Some (SymKey k) \<Rightarrow> Inr (Some k) | Some (PrivateKey k) \<Rightarrow> Inl FailedTypeAssertion)"

text \<open>\<open>import_key\<close> is \<open>ecies.NewPrivateKeyFromBytes\<close>, \<open>pub\<close> the encoding of the public key.\<close>

definition AddPrivateKey :: "(bytes \<Rightarrow> bytes) \<Rightarrow> key_store \<Rightarrow> bytes \<Rightarrow> bytes option \<Rightarrow> string option \<times> key_store" where
  "AddPrivateKey import_key ks privateKey rnd = AddKeyPair ks (import_key privateKey) rnd"

definition GetPublicKeyFromID :: "(bytes \<Rightarrow> bytes) \<Rightarrow> key_store \<Rightarrow> string \<Rightarrow> (bytes \<times> bool) go" where
  "GetPublicKeyFromID pub ks i =
     go_bind (GetPrivateKey ks i) (\<lambda>r. case r of None \<Rightarrow> Inr ([], True) | Some k \<Rightarrow> Inr (pub k, False))"

definition GetPrivateKeyFromID :: "key_store \<Rightarrow> string \<Rightarrow> (bytes \<times> bool) go" where
  "GetPrivateKeyFromID ks i =
     go_bind (GetPrivateKey ks i) (\<lambda>r. case r of None \<Rightarrow> Inr ([], True) | Some k \<Rightarrow> Inr (k, False))"


section \<open>The index by topic\<close>

definition indexed :: "FilterStorage \<Rightarrow> Topic \<Rightarrow> nat set" where
  "indexed fs t = (case fs_topicToFilters fs t of None \<Rightarrow> {} | Some s \<Rightarrow> s)"

definition subscribed :: "FilterStorage \<Rightarrow> Topic \<Rightarrow> nat set" where
  "subscribed fs t = {p. \<exists>i f. fs_subscribers fs i = Some p \<and> fs_heap fs p = Some f \<and> t \<in> ConvertBytesToTopic ` set (fl_Topics f)}"

definition fs_inv :: "FilterStorage \<Rightarrow> bool" where
  "fs_inv fs \<longleftrightarrow> indexed fs = subscribed fs \<and> (\<forall>t. finite (indexed fs t)) \<and>
     (\<forall>i p. fs_subscribers fs i = Some p \<longrightarrow> fs_heap fs p \<noteq> None) \<and>
     (\<forall>i j p. fs_subscribers fs i = Some p \<and> fs_subscribers fs j = Some p \<longrightarrow> i = j)"

definition set_at :: "(Topic \<rightharpoonup> nat set) \<Rightarrow> Topic \<Rightarrow> nat set" where
  "set_at m t = (case m t of None \<Rightarrow> {} | Some s \<Rightarrow> s)"

lemma indexed_set_at: "indexed fs = set_at (fs_topicToFilters fs)"
  by (simp add: indexed_def set_at_def fun_eq_iff)

lemma set_at_index:
  "set_at (foldl (index_topic p) m ts) t = set_at m t \<union> (if t \<in> ConvertBytesToTopic ` set ts then {p} else {})"
  by (induction ts arbitrary: m) (auto simp: index_topic_def set_at_def Let_def)

lemma set_at_unindex:
  "set_at (foldl (unindex_topic p) m ts) t = set_at m t - (if t \<in> ConvertBytesToTopic ` set ts then {p} else {})"
  by (induction ts arbitrary: m) (auto simp: unindex_topic_def set_at_def Let_def split: option.splits)

lemma AddFilter_cases:
  assumes "AddFilter fs p flt rnd = Some (r, fs')"
  obtains "fs' = fs" | "fs' = fs\<lparr>fs_locked := True\<rparr>"
  | i where "r = Some i" "fs_subscribers fs i = None"
      "fs' = fs\<lparr>fs_heap := (fs_heap fs)(p \<mapsto> flt), fs_subscribers := (fs_subscribers fs)(i \<mapsto> p),
                fs_topicToFilters := foldl (index_topic p) (fs_topicToFilters fs) (fl_Topics flt)\<rparr>"
proof (cases "fl_KeySym flt \<noteq> None \<and> fl_KeyAsym flt \<noteq> None \<or> generateRandomID rnd = None")
  case True
  with assms have "fs' = fs" by (auto simp: AddFilter_def split: if_splits)
  then show thesis by (rule that(1))
next
  case False
  then obtain i where i: "generateRandomID rnd = Some i" "\<not> (fl_KeySym flt \<noteq> None \<and> fl_KeyAsym flt \<noteq> None)" by blast
  note a = assms [unfolded AddFilter_def if_not_P [OF i(2)] i(1) option.case]
  show thesis
  proof (cases "fs_subscribers fs i = None")
    case True
    with a show thesis by (intro that(3) [of i]) (simp_all split: if_splits)
  next
    case False
    with a show thesis by (intro that(2)) (simp split: if_splits)
  qed
qed

lemma AddFilter_inv:
  assumes inv: "fs_inv fs" and fresh: "fs_heap fs p = None" and add: "AddFilter fs p flt rnd = Some (r, fs')"
  shows "fs_inv fs'"
  using add
proof (cases rule: AddFilter_cases)
  case 1
  with inv show ?thesis by simp
next
  case 2
  then have "indexed fs' = indexed fs" "subscribed fs' = subscribed fs"
    by (simp_all add: indexed_def subscribed_def fun_eq_iff)
  with inv 2 show ?thesis by (auto simp: fs_inv_def)
next
  case (3 i)
  have p: "fs_subscribers fs j \<noteq> Some p" for j using inv fresh unfolding fs_inv_def by metis
  have ix: "indexed fs' t = indexed fs t \<union> (if t \<in> ConvertBytesToTopic ` set (fl_Topics flt) then {p} else {})" for t
    unfolding indexed_set_at 3(3) by (simp add: set_at_index)
  have "subscribed fs' t = subscribed fs t \<union> (if t \<in> ConvertBytesToTopic ` set (fl_Topics flt) then {p} else {})" for t
    using p 3(2) unfolding subscribed_def 3(3) by auto (metis option.discI)+
  with ix inv have "indexed fs' = subscribed fs'" "\<forall>t. finite (indexed fs' t)" by (auto simp: fs_inv_def fun_eq_iff)
  moreover have "\<forall>j q. fs_subscribers fs' j = Some q \<longrightarrow> fs_heap fs' q \<noteq> None"
    using inv unfolding fs_inv_def 3(3) by auto
  moreover have "\<forall>j k q. fs_subscribers fs' j = Some q \<and> fs_subscribers fs' k = Some q \<longrightarrow> j = k"
    using inv p unfolding fs_inv_def 3(3) by auto
  ultimately show ?thesis unfolding fs_inv_def by blast
qed

lemma removed_range:
  "(\<And>j. m j = Some p \<Longrightarrow> j = i) \<Longrightarrow> m i = Some p \<Longrightarrow> (\<exists>j. (m(i := None)) j = Some q) \<longleftrightarrow> (\<exists>j. m j = Some q) \<and> q \<noteq> p"
  by (metis fun_upd_apply option.distinct(1) option.inject)

lemma RemoveFilter_inv:
  assumes inv: "fs_inv fs" and rem: "RemoveFilter fs i = Some (r, fs')"
  shows "fs_inv fs'"
proof (cases "fs_subscribers fs i")
  case None
  with rem inv show ?thesis by (auto simp: RemoveFilter_def split: if_splits)
next
  case (Some p)
  then obtain f where f: "fs_heap fs p = Some f" using inv unfolding fs_inv_def by blast
  have fs': "fs' = fs\<lparr>fs_subscribers := (fs_subscribers fs)(i := None),
      fs_topicToFilters := foldl (unindex_topic p) (fs_topicToFilters fs) (fl_Topics f)\<rparr>"
    using rem Some f by (auto simp: RemoveFilter_def split: if_splits)
  have sub: "fs_subscribers fs' = (fs_subscribers fs)(i := None)" unfolding fs' by simp
  have uniq: "fs_subscribers fs j = Some p \<Longrightarrow> j = i" for j using inv Some unfolding fs_inv_def by blast
  have ix: "indexed fs' t = indexed fs t - (if t \<in> ConvertBytesToTopic ` set (fl_Topics f) then {p} else {})" for t
    unfolding indexed_set_at fs' by (simp add: set_at_unindex)
  have "subscribed fs' t = subscribed fs t - (if t \<in> ConvertBytesToTopic ` set (fl_Topics f) then {p} else {})" for t
  proof -
    have "(\<exists>j. fs_subscribers fs' j = Some q) \<longleftrightarrow> (\<exists>j. fs_subscribers fs j = Some q) \<and> q \<noteq> p" for q
      unfolding sub by (rule removed_range) (use uniq Some in blast)+
    then have "subscribed fs' t = subscribed fs t - {p}" unfolding subscribed_def fs' by auto
    moreover have "p \<in> subscribed fs t \<Longrightarrow> t \<in> ConvertBytesToTopic ` set (fl_Topics f)"
      using f by (auto simp: subscribed_def)
    ultimately show ?thesis by auto
  qed
  with ix inv have "indexed fs' = subscribed fs'" "\<forall>t. finite (indexed fs' t)" by (auto simp: fs_inv_def fun_eq_iff)
  moreover have "(\<forall>j q. fs_subscribers fs' j = Some q \<longrightarrow> fs_heap fs' q \<noteq> None) \<and>
      (\<forall>j k q. fs_subscribers fs' j = Some q \<and> fs_subscribers fs' k = Some q \<longrightarrow> j = k)"
    using inv unfolding fs_inv_def fs' by (auto split: if_splits)
  ultimately show ?thesis unfolding fs_inv_def by blast
qed

text \<open>Notification changes only the messages of filters.\<close>

definition same_filters :: "FilterStorage \<Rightarrow> FilterStorage \<Rightarrow> bool" where
  "same_filters fs fs' \<longleftrightarrow> fs_subscribers fs' = fs_subscribers fs \<and> fs_topicToFilters fs' = fs_topicToFilters fs \<and>
     fs_locked fs' = fs_locked fs \<and> (\<forall>p. map_option fl_Topics (fs_heap fs' p) = map_option fl_Topics (fs_heap fs p))"

lemma notify_one_same: "notify_one wc env fs p = Inr fs' \<Longrightarrow> same_filters fs fs'"
  by (auto simp: notify_one_def same_filters_def go_bind_eq_Inr split: if_splits option.splits)

lemma notify_all_same: "go_foldM (notify_one wc env) fs ps = Inr fs' \<Longrightarrow> same_filters fs fs'"
proof (induction ps arbitrary: fs)
  case Nil
  then show ?case by (simp add: same_filters_def)
next
  case (Cons p ps)
  then obtain fs1 where "notify_one wc env fs p = Inr fs1" "go_foldM (notify_one wc env) fs1 ps = Inr fs'"
    by (auto simp: go_bind_eq_Inr)
  with notify_one_same [of wc env fs p fs1] Cons.IH [of fs1] show ?case by (auto simp: same_filters_def)
qed

lemma same_filters_inv:
  assumes "same_filters fs fs'" "fs_inv fs"
  shows "fs_inv fs'"
proof -
  have topics: "(\<exists>f. fs_heap fs' p = Some f \<and> P (fl_Topics f)) \<longleftrightarrow> (\<exists>f. fs_heap fs p = Some f \<and> P (fl_Topics f))" for p P
    using assms(1) unfolding same_filters_def by (metis map_option_eq_Some)
  have "subscribed fs' = subscribed fs"
    using assms(1) topics [of _ "\<lambda>ts. _ \<in> ConvertBytesToTopic ` set ts"] unfolding subscribed_def same_filters_def by auto
  moreover have "indexed fs' = indexed fs" using assms(1) by (simp add: indexed_set_at same_filters_def)
  moreover have "fs_heap fs' p = None \<longleftrightarrow> fs_heap fs p = None" for p
    using assms(1) unfolding same_filters_def by (metis map_option_is_None)
  moreover have "fs_subscribers fs' = fs_subscribers fs" using assms(1) by (simp add: same_filters_def)
  ultimately show ?thesis using assms(2) by (auto simp: fs_inv_def)
qed

inductive fs_reachable :: "FilterStorage \<Rightarrow> bool" where
  start: "fs_reachable NewFilterStorage"
| add: "fs_reachable fs \<Longrightarrow> fs_heap fs p = None \<Longrightarrow> AddFilter fs p flt rnd = Some (r, fs') \<Longrightarrow> fs_reachable fs'"
| remove: "fs_reachable fs \<Longrightarrow> RemoveFilter fs i = Some (b, fs') \<Longrightarrow> fs_reachable fs'"
| notify: "fs_reachable fs \<Longrightarrow> NotifySubscribers rng wc fs env = Some (Inr fs') \<Longrightarrow> fs_reachable fs'"

lemma fs_reachable_inv: "fs_reachable fs \<Longrightarrow> fs_inv fs"
proof (induction rule: fs_reachable.induct)
  case start
  show ?case by (simp add: fs_inv_def indexed_def subscribed_def NewFilterStorage_def fun_eq_iff)
next
  case (add fs p flt rnd r fs')
  then show ?case using AddFilter_inv by blast
next
  case (remove fs i b fs')
  then show ?case using RemoveFilter_inv by blast
next
  case (notify fs rng wc env fs')
  then have "same_filters fs fs'" using notify_all_same by (auto simp: NotifySubscribers_def split: if_splits)
  with notify show ?case using same_filters_inv by blast
qed

lemma getSubscribersByTopic_set:
  assumes inv: "fs_inv fs" and rng: "\<And>s. finite s \<Longrightarrow> set (rng s) = s"
  shows "set (getSubscribersByTopic rng fs topic) = subscribed fs topic"
proof -
  have "finite (indexed fs topic)" using inv unfolding fs_inv_def by blast
  then have "set (getSubscribersByTopic rng fs topic) = indexed fs topic"
    using rng [of "indexed fs topic"] by (simp add: getSubscribersByTopic_def indexed_def split: option.splits)
  then show ?thesis using inv by (simp add: fs_inv_def)
qed

text \<open>
  Claim C30. Subscriptions by topic are exact: after any sequence of adding, removing and notifying filters, the
  candidates for a topic are exactly the filters subscribed at that moment that list the topic, each found
  under one identifier; a removed filter receives nothing more.
\<close>

theorem subscribers_by_topic_exact:
  assumes "fs_reachable fs" and "\<And>s. finite s \<Longrightarrow> set (rng s) = s"
  shows "set (getSubscribersByTopic rng fs topic) =
    {p. \<exists>!i. fs_subscribers fs i = Some p \<and> (\<exists>f. fs_heap fs p = Some f \<and> topic \<in> ConvertBytesToTopic ` set (fl_Topics f))}"
proof -
  from fs_reachable_inv [OF assms(1)] have inv: "fs_inv fs" .
  have "set (getSubscribersByTopic rng fs topic) = subscribed fs topic" by (rule getSubscribersByTopic_set [OF inv assms(2)])
  with inv show ?thesis unfolding subscribed_def fs_inv_def by blast
qed

lemma single_subscription:
  "P f \<Longrightarrow> {p. \<exists>!i. [k \<mapsto> q] i = Some p \<and> (\<exists>f'. [q \<mapsto> f] p = Some f' \<and> P f')} = {q}"
  by (auto split: if_splits)

theorem subscribers_by_topic_exact_witness:
  "let f = \<lparr>fl_KeyAsym = None, fl_KeySym = None, fl_Pow = Fin 0, fl_Topics = [[1, 2, 3, 4]], fl_Messages = Map.empty\<rparr>;
       fs = snd (the (AddFilter NewFilterStorage 7 f (Some (replicate 32 5))))
   in set (getSubscribersByTopic sorted_list_of_set fs [1, 2, 3, 4]) = {7}"
proof -
  let ?f = "\<lparr>fl_KeyAsym = None, fl_KeySym = None, fl_Pow = Fin 0, fl_Topics = [[1, 2, 3, 4]], fl_Messages = Map.empty\<rparr>"
  let ?r = "AddFilter NewFilterStorage 7 ?f (Some (replicate 32 5))"
  let ?i = "EncodeToString (replicate 32 5)"
  have r: "?r = Some (Some ?i, NewFilterStorage\<lparr>fs_heap := [7 \<mapsto> ?f], fs_subscribers := [?i \<mapsto> 7],
      fs_topicToFilters := foldl (index_topic 7) Map.empty [[1, 2, 3, 4]]\<rparr>)" (is "_ = Some (_, ?fs)")
    by (simp add: AddFilter_def NewFilterStorage_def generateRandomID_def generateRandomBytes_def keyIDSize_def)
  have h: "fs_subscribers ?fs = [?i \<mapsto> 7]" "fs_heap ?fs = [7 \<mapsto> ?f]" by (simp_all del: EncodeToString.simps)
  have "fs_reachable ?fs"
    by (rule fs_reachable.add [OF fs_reachable.start _ r]) (simp add: NewFilterStorage_def)
  then have "set (getSubscribersByTopic sorted_list_of_set ?fs [1, 2, 3, 4]) =
      {p. \<exists>!i. fs_subscribers ?fs i = Some p \<and> (\<exists>f. fs_heap ?fs p = Some f \<and> [1, 2, 3, 4] \<in> ConvertBytesToTopic ` set (fl_Topics f))}"
    by (rule subscribers_by_topic_exact) simp
  also have "\<dots> = {7}"
    unfolding h by (rule single_subscription) (simp add: ConvertBytesToTopic_def TopicLength_def upt_rec eval_nat_numeral)
  finally have "set (getSubscribersByTopic sorted_list_of_set ?fs [1, 2, 3, 4]) = {7}" .
  with r show ?thesis by (simp add: Let_def)
qed

end
