(* ===== verification/Whisper.thy ===== *)
theory Whisper
  imports WhisperFilters GossipNode
begin

text \<open>
  The Whisper node (\<open>src/whisper/whisper.go\<close>, \<open>src/whisper/api.go\<close>, the forwarding of \<open>src/whisper/routing.go\<close>): its
  parameters, the envelopes it keeps, the checks of \<open>handleEnvelope\<close>, the queue to the subscribers, the blacklist, and
  the operations of the application. The effects a handler starts are returned as actions. The time in seconds, the
  order of map ranges and random bytes are arguments; the queue holds what its goroutines will have sent.
\<close>

section \<open>State\<close>

record EnvelopeOrigin =
  eo_Envelope :: Envelope
  eo_Origin :: address

record Whisper =
  wh_minPow :: "go_float option"
  wh_minPowTolerance :: "go_float option"
  wh_maxMsgSize :: "uint32 option"
  wh_bloomFilter :: "bytes option"
  wh_bloomFilterTolerance :: "bytes option"
  wh_filters :: FilterStorage
  wh_cryptoKeys :: key_store
  wh_envelopes :: "bytes \<rightharpoonup> EnvelopeOrigin"
  wh_routing :: WRoutingHandler
  wh_blacklist :: "address set"
  wh_queue :: "Envelope list"

text \<open>\<open>DefaultMinimumPoW\<close> is the double nearest to 0.2.\<close>

definition DefaultMinimumPoW :: go_float where "DefaultMinimumPoW = float_of_rat (1 / 5)"
definition MaxMessageSize :: uint32 where "MaxMessageSize = 10 * 1024 * 1024"
definition DefaultMaxMessageSize :: uint32 where "DefaultMaxMessageSize = 1024 * 1024"
definition DefaultSyncAllowance :: uint32 where "DefaultSyncAllowance = 10"

definition NewWhisper :: Whisper where
  "NewWhisper = \<lparr>wh_minPow = Some DefaultMinimumPoW, wh_minPowTolerance = None, wh_maxMsgSize = Some DefaultMaxMessageSize,
     wh_bloomFilter = Some GetEmptyBloomFilter, wh_bloomFilterTolerance = None, wh_filters = NewFilterStorage,
     wh_cryptoKeys = Map.empty, wh_envelopes = Map.empty, wh_routing = w_NewRoutingHandler, wh_blacklist = {}, wh_queue = []\<rparr>"

datatype whisper_action =
    SendStatus WhisperStatus
  | BloomToleranceAfterSync bytes
  | PowToleranceAfterSync go_float
  | SendEnvelopePacket GossipPacket address

section \<open>Parameters\<close>

definition GetEnvelope :: "Whisper \<Rightarrow> bytes \<Rightarrow> EnvelopeOrigin option" where
  "GetEnvelope wh hash = wh_envelopes wh hash"

definition GetMinPow :: "Whisper \<Rightarrow> go_float" where
  "GetMinPow wh = (case wh_minPow wh of None \<Rightarrow> DefaultMinimumPoW | Some v \<Rightarrow> v)"

definition GetMinPowTolerated :: "Whisper \<Rightarrow> go_float" where
  "GetMinPowTolerated wh = (case wh_minPowTolerance wh of None \<Rightarrow> DefaultMinimumPoW | Some v \<Rightarrow> v)"

definition GetBloomFilter :: "Whisper \<Rightarrow> bytes option" where
  "GetBloomFilter wh = wh_bloomFilter wh"

definition GetBloomFilterTolerated :: "Whisper \<Rightarrow> bytes option" where
  "GetBloomFilterTolerated wh = wh_bloomFilterTolerance wh"

definition status_of :: "uint32 \<Rightarrow> bytes option \<Rightarrow> go_float \<Rightarrow> WhisperStatus" where
  "status_of code bloom pow = \<lparr>ws_Origin = [], ws_ID = 0, ws_Code = code, ws_Bloom = bloom, ws_Pow = pow\<rparr>"

text \<open>The first component tells whether the operation succeeded; the delayed store is the action \<open>BloomToleranceAfterSync\<close>.\<close>

definition SetBloomFilter :: "Whisper \<Rightarrow> bytes \<Rightarrow> bool \<times> Whisper \<times> whisper_action list" where
  "SetBloomFilter wh bloom =
     (if length bloom \<noteq> BloomFilterSize then (False, wh, [])
      else (True, wh\<lparr>wh_bloomFilter := Some bloom\<rparr>,
            [SendStatus (status_of bloomFilterExCode (Some bloom) (Fin 0)), BloomToleranceAfterSync bloom]))"

definition SetMinPoW :: "Whisper \<Rightarrow> go_float \<Rightarrow> bool \<times> Whisper \<times> whisper_action list" where
  "SetMinPoW wh pow =
     (if float_less pow (Fin 0) then (False, wh, [])
      else (True, wh\<lparr>wh_minPow := Some pow\<rparr>,
            [SendStatus (status_of powRequirementCode None pow), PowToleranceAfterSync pow]))"

text \<open>What the two timers store when they fire.\<close>

fun after_sync :: "Whisper \<Rightarrow> whisper_action \<Rightarrow> Whisper" where
  "after_sync wh (BloomToleranceAfterSync bloom) = wh\<lparr>wh_bloomFilterTolerance := Some bloom\<rparr>"
| "after_sync wh (PowToleranceAfterSync pow) = wh\<lparr>wh_minPowTolerance := Some pow\<rparr>"
| "after_sync wh _ = wh"

definition topics_bloom :: "bytes list \<Rightarrow> bytes go" where
  "topics_bloom topics =
     go_foldM (\<lambda>aggregate t. AggregateBloom aggregate (ConvertTopicToBloom (ConvertBytesToTopic t)))
       (replicate BloomFilterSize 0) topics"

definition updateBloomFilter :: "Whisper \<Rightarrow> Filter \<Rightarrow> (Whisper \<times> whisper_action list) go" where
  "updateBloomFilter wh f =
     go_bind (topics_bloom (fl_Topics f)) (\<lambda>aggregate.
     go_bind (CheckFilterMatch (GetBloomFilter wh) aggregate) (\<lambda>m.
       if \<not> m then
         go_bind (AggregateBloom (slice_of (GetBloomFilter wh)) aggregate) (\<lambda>aggregate'.
           Inr (snd (SetBloomFilter wh aggregate')))
       else Inr (wh, [])))"

section \<open>Envelopes\<close>

fun interesting_loop :: "WCrypto \<Rightarrow> address \<Rightarrow> Envelope \<Rightarrow> (address \<times> Status) list \<Rightarrow> (bool \<times> Envelope) go" where
  "interesting_loop wc origin e [] = Inr (False, e)"
| "interesting_loop wc origin e ((peer, status) # rest) =
     (if peer \<noteq> origin then
        let (b, e1) = GetBloom e in
        go_bind (CheckFilterMatch (st_Bloom status) b) (\<lambda>m.
          if m then
            let (w, e2) = GetPow wc e1 in
            if float_geq w (st_Pow status) then Inr (True, e2) else interesting_loop wc origin e2 rest
          else interesting_loop wc origin e1 rest)
      else interesting_loop wc origin e rest)"

datatype whisper_error = CreatedInFuture | VeryOld | HugeMessage | LowPow | BloomMismatch

text \<open>The checks of \<open>handleEnvelope\<close>: the last failed one, and the envelope with its caches filled.\<close>

definition check_time :: "WCrypto \<Rightarrow> uint32 \<Rightarrow> Envelope \<Rightarrow> whisper_error option \<times> Envelope" where
  "check_time wc now e =
     (let sent = en_Expiry e - en_TTL e;
          (err, e1) = (if sent > now
                       then (if sent - DefaultSyncAllowance > now then Some CreatedInFuture else None,
                             computePow wc (sent - now + 1) e)
                       else (None, e))
      in (if en_Expiry e < now \<and> en_Expiry e + DefaultSyncAllowance * 2 < now then Some VeryOld else err, e1))"

definition check_envelope :: "WCrypto \<Rightarrow> uint32 \<Rightarrow> Whisper \<Rightarrow> Envelope \<Rightarrow> (whisper_error option \<times> Envelope) go" where
  "check_envelope wc now wh e =
     (let (err1, e1) = check_time wc now e;
          err2 = (if (of_nat (GetSize wc e1) :: uint32) > MaxMessageSize then Some HugeMessage else err1);
          (w, e2) = GetPow wc e1;
          err3 = (if float_less w (GetMinPow wh) \<and> float_less w (GetMinPowTolerated wh) then Some LowPow else err2);
          (b, e3) = GetBloom e2
      in go_bind (CheckFilterMatch (GetBloomFilter wh) b) (\<lambda>m.
         if m then Inr (err3, e3)
         else go_bind (CheckFilterMatch (GetBloomFilterTolerated wh) b) (\<lambda>m'.
                Inr (if m' then err3 else Some BloomMismatch, e3))))"

text \<open>
  \<open>peers\<close> is the range over the routing table. The code takes no lock for it; \<open>WhisperNode\<close> treats the writes that may overlap.
\<close>

definition handleEnvelope ::
  "WCrypto \<Rightarrow> uint32 \<Rightarrow> (address \<times> Status) list \<Rightarrow> Whisper \<Rightarrow> EnvelopeOrigin \<Rightarrow> (whisper_error option \<times> Whisper) go" where
  "handleEnvelope wc now peers wh eo =
     go_bind (interesting_loop wc (eo_Origin eo) (eo_Envelope eo) peers) (\<lambda>(isInterestingForPeers, e0).
     go_bind (check_envelope wc now wh e0) (\<lambda>(err, e).
       if err \<noteq> None \<and> \<not> isInterestingForPeers then Inr (err, wh)
       else
         let hash = GetHash wc e in
         if wh_envelopes wh hash = None
         then Inr (None, wh\<lparr>wh_envelopes := (wh_envelopes wh)(hash \<mapsto> eo\<lparr>eo_Envelope := e\<rparr>), wh_queue := wh_queue wh @ [e]\<rparr>)
         else Inr (None, wh)))"

definition SendEnvelope ::
  "WCrypto \<Rightarrow> uint32 \<Rightarrow> (address \<times> Status) list \<Rightarrow> address \<Rightarrow> Whisper \<Rightarrow> Envelope \<Rightarrow> (whisper_error option \<times> Whisper) go" where
  "SendEnvelope wc now peers self wh envelope =
     handleEnvelope wc now peers wh \<lparr>eo_Envelope = envelope, eo_Origin = self\<rparr>"

text \<open>
  \<open>decode\<close> is \<open>protobuf.Decode\<close> into a new envelope: the fields read, and whether it failed. A failure is printed, and
  what was read is handled all the same.
\<close>

definition processWhisperPacket ::
  "WCrypto \<Rightarrow> (bytes \<Rightarrow> Envelope \<times> bool) \<Rightarrow> uint32 \<Rightarrow> (address \<times> Status) list \<Rightarrow> Whisper \<Rightarrow> ExtendedGossipPacket \<Rightarrow> Whisper go" where
  "processWhisperPacket wc decode now peers wh ext =
     (let sender = ext_SenderAddr ext in
      if sender \<in> wh_blacklist wh then Inr wh
      else
        go_bind (go_deref (gp_WhisperPacket (ext_Packet ext))) (\<lambda>packet.
          if wp_Code packet = messagesCode then
            let (envelope, _) = decode (wp_Payload packet) in
            go_bind (handleEnvelope wc now peers wh \<lparr>eo_Envelope = envelope, eo_Origin = sender\<rparr>) (\<lambda>(err, wh').
              Inr (if err \<noteq> None then wh'\<lparr>wh_blacklist := insert sender (wh_blacklist wh')\<rparr> else wh'))
          else Inr wh))"

text \<open>Status packets update the routing table and go on as gossip; the last component is \<open>None\<close> if storing them does not return.\<close>

definition processWhisperStatus ::
  "clock_range \<Rightarrow> Whisper \<Rightarrow> Node \<Rightarrow> ExtendedGossipPacket \<Rightarrow> (Whisper \<times> (Node \<times> action list) option) go" where
  "processWhisperStatus rng wh nd ext =
     (if ext_SenderAddr ext \<in> wh_blacklist wh then Inr (wh, Some (nd, []))
      else
        go_bind (go_deref (gp_WhisperStatus (ext_Packet ext))) (\<lambda>ws.
        go_bind (w_updateRoutingTable (wh_routing wh) ws (ext_SenderAddr ext)) (\<lambda>rh.
          Inr (wh\<lparr>wh_routing := rh\<rparr>, HandleGossipMessage rng nd ext (ws_Origin ws) (ws_ID ws)))))"

text \<open>One turn of \<open>processQueue\<close>; \<open>None\<close> when the lock of the filters is never released.\<close>

definition processQueue :: "(nat set \<Rightarrow> nat list) \<Rightarrow> WCrypto \<Rightarrow> Whisper \<Rightarrow> Whisper go option" where
  "processQueue rng wc wh =
     (case wh_queue wh of
        [] \<Rightarrow> Some (Inr wh)
      | e # rest \<Rightarrow>
          map_option (\<lambda>r. go_bind r (\<lambda>fs. Inr (wh\<lparr>wh_filters := fs, wh_queue := rest\<rparr>)))
            (NotifySubscribers rng wc (wh_filters wh) e))"

text \<open>
  Forwarding: every neighbour but the one an envelope came from, if its entry admits the envelope and the peer is
  known.
\<close>

fun forwardEnvelope ::
  "WCrypto \<Rightarrow> address list \<Rightarrow> EnvelopeOrigin \<Rightarrow> (address \<times> Status) list \<Rightarrow> whisper_action list go" where
  "forwardEnvelope wc known envOr [] = Inr []"
| "forwardEnvelope wc known envOr ((peer, status) # rest) =
     (let (b, e1) = GetBloom (eo_Envelope envOr); payload = encode_Envelope wc (eo_Envelope envOr);
          packet = empty_packet\<lparr>gp_WhisperPacket := Some \<lparr>wp_Code = messagesCode, wp_Size = of_nat (length payload), wp_Payload = payload\<rparr>\<rparr>
      in if peer \<noteq> eo_Origin envOr then
           go_bind (CheckFilterMatch (st_Bloom status) b) (\<lambda>m.
             let (w, e2) = GetPow wc e1;
                 now_sent = (if m \<and> float_geq w (st_Pow status)
                             then case GetPeerFromString known peer of None \<Rightarrow> [] | Some a \<Rightarrow> [SendEnvelopePacket packet a]
                             else [])
             in go_bind (forwardEnvelope wc known (envOr\<lparr>eo_Envelope := if m then e2 else e1\<rparr>) rest) (\<lambda>acts. Inr (now_sent @ acts)))
         else forwardEnvelope wc known envOr rest)"

text \<open>\<open>envs\<close> is the range over the stored envelopes.\<close>

definition Envelopes :: "((bytes \<rightharpoonup> EnvelopeOrigin) \<Rightarrow> EnvelopeOrigin list) \<Rightarrow> Whisper \<Rightarrow> EnvelopeOrigin list" where
  "Envelopes rng wh = rng (wh_envelopes wh)"

definition broadcastMessages ::
  "WCrypto \<Rightarrow> address list \<Rightarrow> ((bytes \<rightharpoonup> EnvelopeOrigin) \<Rightarrow> EnvelopeOrigin list) \<Rightarrow> (address \<times> Status) list \<Rightarrow> Whisper \<Rightarrow>
   whisper_action list go" where
  "broadcastMessages wc known rng peers wh =
     go_foldM (\<lambda>acts env. go_bind (forwardEnvelope wc known env peers) (\<lambda>as. Inr (acts @ as))) [] (Envelopes rng wh)"

definition removeExpiredEnvelopes :: "uint32 \<Rightarrow> Whisper \<Rightarrow> Whisper" where
  "removeExpiredEnvelopes now wh =
     wh\<lparr>wh_envelopes := (\<lambda>hash. case wh_envelopes wh hash of
          None \<Rightarrow> None | Some env \<Rightarrow> if en_Expiry (eo_Envelope env) < now then None else Some env)\<rparr>"

definition sendStatus :: "Whisper \<Rightarrow> whisper_action" where
  "sendStatus wh = SendStatus (status_of statusCode (GetBloomFilter wh) (GetMinPow wh))"

section \<open>The application's operations\<close>

record NewMessage =
  nm_SymKeyID :: string
  nm_PublicKey :: bytes
  nm_TTL :: uint32
  nm_Topic :: Topic
  nm_PowTime :: uint32
  nm_Payload :: bytes

text \<open>
  \<open>pub_of\<close> is \<open>ecies.NewPublicKeyFromBytes\<close>. The result is the hash of the envelope, or one of the errors: the message
  is refused, or \<open>handleEnvelope\<close> failed.
\<close>

datatype message_result = Refused | SendFailed whisper_error | Sent bytes

definition NewWhisperMessage ::
  "WCrypto \<Rightarrow> (bytes \<Rightarrow> bytes option) \<Rightarrow> bytes option \<Rightarrow> bytes \<Rightarrow> nat \<Rightarrow> uint32 \<Rightarrow> (address \<times> Status) list \<Rightarrow> address \<Rightarrow>
   Whisper \<Rightarrow> NewMessage \<Rightarrow> (message_result \<times> Whisper) go" where
  "NewWhisperMessage wc pub_of nonce rnd rounds now peers self wh message =
     (let isSymKey = (0 < length (nm_SymKeyID message)); isPubKey = (0 < length (nm_PublicKey message));
          params = (\<lambda>dst key. \<lparr>mp_Src = None, mp_Dst = dst, mp_KeySym = key, mp_Topic = nm_Topic message, mp_PowTime = nm_PowTime message,
                      mp_TTL = nm_TTL message, mp_Payload = nm_Payload message, mp_Padding = []\<rparr>);
          send = (\<lambda>dst key. case GetEnvelopeFromMessage wc nonce rnd rounds now (params dst key) of
              None \<Rightarrow> Inr (Refused, wh)
            | Some env \<Rightarrow> go_bind (SendEnvelope wc now peers self wh env) (\<lambda>(err, wh').
                Inr (case err of None \<Rightarrow> Sent (GetHash wc env) | Some x \<Rightarrow> SendFailed x, wh')))
      in if isSymKey \<and> isPubKey then Inr (Refused, wh)
         else if isSymKey then
           if nm_Topic message = replicate TopicLength 0 then Inr (Refused, wh)
           else go_bind (GetSymKeyFromID (wh_cryptoKeys wh) (nm_SymKeyID message)) (\<lambda>k.
             case k of None \<Rightarrow> Inr (Refused, wh)
             | Some key \<Rightarrow> if length key \<noteq> aesKeyLength then Inr (Refused, wh) else send None (Some key))
         else if isPubKey then
           case pub_of (nm_PublicKey message) of None \<Rightarrow> Inr (Refused, wh) | Some key \<Rightarrow> send (Some key) None
         else send None None)"

record FilterOptions =
  fo_SymKeyID :: string
  fo_PrivateKeyID :: string
  fo_MinPow :: go_float
  fo_Topics :: "Topic list"

text \<open>
  \<open>p\<close> is the address of the new filter. The result is the identifier, or \<open>None\<close> for an error; the outer \<open>None\<close> is a lock never
  released.
\<close>

definition add_filter ::
  "Whisper \<Rightarrow> nat \<Rightarrow> bytes option \<Rightarrow> Filter \<Rightarrow> (string option \<times> Whisper \<times> whisper_action list) go option" where
  "add_filter wh p rnd f =
     (case AddFilter (wh_filters wh) p f rnd of
        None \<Rightarrow> None
      | Some (s, fs) \<Rightarrow>
          let wh' = wh\<lparr>wh_filters := fs\<rparr> in
          if s \<noteq> None then Some (go_bind (updateBloomFilter wh' f) (\<lambda>(wh'', acts). Inr (s, wh'', acts)))
          else Some (Inr (s, wh', [])))"

definition NewMessageFilter ::
  "Whisper \<Rightarrow> nat \<Rightarrow> bytes option \<Rightarrow> FilterOptions \<Rightarrow> (string option \<times> Whisper \<times> whisper_action list) go option" where
  "NewMessageFilter wh p rnd req =
     (let isSymKey = (0 < length (fo_SymKeyID req)); isPrivKey = (0 < length (fo_PrivateKeyID req));
          refused = Inr (None, wh, []);
          mk = (\<lambda>asym sym. \<lparr>fl_KeyAsym = asym, fl_KeySym = sym, fl_Pow = fo_MinPow req, fl_Topics = fo_Topics req, fl_Messages = Map.empty\<rparr>)
      in if isSymKey \<and> isPrivKey then Some refused
         else if isSymKey then
           (case GetSymKeyFromID (wh_cryptoKeys wh) (fo_SymKeyID req) of
              Inl x \<Rightarrow> Some (Inl x)
            | Inr None \<Rightarrow> Some refused
            | Inr (Some key) \<Rightarrow> if length key \<noteq> aesKeyLength then Some refused else add_filter wh p rnd (mk None (Some key)))
         else if isPrivKey then
           (case GetPrivateKey (wh_cryptoKeys wh) (fo_PrivateKeyID req) of
              Inl x \<Rightarrow> Some (Inl x)
            | Inr None \<Rightarrow> Some refused
            | Inr (Some key) \<Rightarrow> add_filter wh p rnd (mk (Some key) None))
         else add_filter wh p rnd (mk None None))"

text \<open>\<open>None\<close>: no filter has the identifier.\<close>

definition GetFilterMessages ::
  "((bytes \<rightharpoonup> ReceivedMessage) \<Rightarrow> ReceivedMessage list) \<Rightarrow> Whisper \<Rightarrow> string \<Rightarrow> (ReceivedMessage list option \<times> Whisper) go option" where
  "GetFilterMessages rng wh i =
     (case GetFilterFromID (wh_filters wh) i of
        None \<Rightarrow> None
      | Some None \<Rightarrow> Some (Inr (None, wh))
      | Some (Some p) \<Rightarrow>
          Some (go_bind (go_deref (fs_heap (wh_filters wh) p)) (\<lambda>f.
            let (ms, f') = GetReceivedMessagesFromFilter rng f
            in Inr (Some ms, wh\<lparr>wh_filters := (wh_filters wh)\<lparr>fs_heap := (fs_heap (wh_filters wh))(p \<mapsto> f')\<rparr>\<rparr>))))"


section \<open>The node's own filter\<close>

lemma go_foldM_map: "go_foldM (\<lambda>a t. f a (g t)) acc ts = go_foldM f acc (map g ts)"
  by (induction ts arbitrary: acc) simp_all

lemma topics_bloom_bits:
  "\<exists>a. topics_bloom ts = Inr a \<and> valid_bloom a \<and>
     bloom_bits a = (\<Union>t \<in> set ts. bloom_bits (ConvertTopicToBloom (ConvertBytesToTopic t)))"
proof -
  have "topics_bloom ts = go_foldM AggregateBloom (replicate BloomFilterSize 0) (map (\<lambda>t. ConvertTopicToBloom (ConvertBytesToTopic t)) ts)"
    unfolding topics_bloom_def by (rule go_foldM_map)
  with blooms.join_list [of "replicate BloomFilterSize 0" "map (\<lambda>t. ConvertTopicToBloom (ConvertBytesToTopic t)) ts"]
  show ?thesis by auto
qed

definition wants :: "Filter \<Rightarrow> nat set" where
  "wants f = (\<Union>t \<in> set (fl_Topics f). bloom_bits (ConvertTopicToBloom (ConvertBytesToTopic t)))"

lemma updateBloomFilter_bits:
  assumes "wh_bloomFilter wh = Some b" "valid_bloom b"
  shows "\<exists>wh' acts b'. updateBloomFilter wh f = Inr (wh', acts) \<and> wh_bloomFilter wh' = Some b' \<and> valid_bloom b' \<and>
    bloom_bits b' = bloom_bits b \<union> wants f"
proof -
  obtain a where a: "topics_bloom (fl_Topics f) = Inr a" "valid_bloom a" "bloom_bits a = wants f"
    using topics_bloom_bits [of "fl_Topics f"] unfolding wants_def by blast
  obtain c where c: "AggregateBloom b a = Inr c" "valid_bloom c" "bloom_bits c = bloom_bits b \<union> bloom_bits a"
    using blooms.join_bits [OF assms(2) a(2)] by blast
  from assms a c show ?thesis
    by (cases "bloom_bits a \<subseteq> bloom_bits b")
      (auto simp: updateBloomFilter_def GetBloomFilter_def CheckFilterMatch_bits slice_of_def SetBloomFilter_def)
qed

definition update_run :: "Whisper \<Rightarrow> Filter list \<Rightarrow> Whisper go" where
  "update_run wh fs = go_foldM (\<lambda>wh f. go_bind (updateBloomFilter wh f) (\<lambda>r. Inr (fst r))) wh fs"

lemma update_run_bits:
  "wh_bloomFilter wh = Some b \<Longrightarrow> valid_bloom b \<Longrightarrow>
   \<exists>wh' b'. update_run wh fs = Inr wh' \<and> wh_bloomFilter wh' = Some b' \<and> valid_bloom b' \<and>
     bloom_bits b' = bloom_bits b \<union> (\<Union>f \<in> set fs. wants f)"
proof (induction fs arbitrary: wh b)
  case Nil
  then show ?case by (simp add: update_run_def)
next
  case (Cons f fs)
  from updateBloomFilter_bits [OF Cons.prems, of f] obtain wh1 acts b1
    where 1: "updateBloomFilter wh f = Inr (wh1, acts)" "wh_bloomFilter wh1 = Some b1" "valid_bloom b1"
      "bloom_bits b1 = bloom_bits b \<union> wants f" by blast
  from Cons.IH [OF 1(2,3)] 1 show ?case by (auto simp: update_run_def Un_assoc)
qed

text \<open>
  The node's own bloom filter has no false negatives and is never wider than needed: installing any
  sequence of filters never faults, afterwards every envelope on a topic of one of them matches the node's filter, and the
  bits of that filter are exactly those it had and those of the topics.
\<close>

theorem own_filter_exact:
  assumes "wh_bloomFilter wh = Some b" and "valid_bloom b"
  shows "\<exists>wh' b'. update_run wh fs = Inr wh' \<and> GetBloomFilter wh' = Some b' \<and>
    (\<forall>f \<in> set fs. \<forall>t \<in> set (fl_Topics f). \<forall>e. en_Topic e = ConvertBytesToTopic t \<and> en_bloom e = None \<longrightarrow>
       CheckFilterMatch (GetBloomFilter wh') (fst (GetBloom e)) = Inr True) \<and>
    bloom_bits b' = bloom_bits b \<union> (\<Union>f \<in> set fs. \<Union>t \<in> set (fl_Topics f). bloom_bits (ConvertTopicToBloom (ConvertBytesToTopic t)))"
proof -
  obtain wh' b' where r: "update_run wh fs = Inr wh'" "wh_bloomFilter wh' = Some b'" "valid_bloom b'"
    and bits: "bloom_bits b' = bloom_bits b \<union> (\<Union>f \<in> set fs. wants f)"
    using update_run_bits [OF assms, of fs] by blast
  have "CheckFilterMatch (GetBloomFilter wh') (fst (GetBloom e)) = Inr True"
    if "f \<in> set fs" "t \<in> set (fl_Topics f)" "en_Topic e = ConvertBytesToTopic t" "en_bloom e = None" for f t e
  proof -
    have "bloom_bits (ConvertTopicToBloom (ConvertBytesToTopic t)) \<subseteq> bloom_bits b'"
      using that bits by (auto simp: wants_def)
    with that r show ?thesis by (simp add: GetBloomFilter_def GetBloom_def CheckFilterMatch_bits Let_def)
  qed
  with r bits show ?thesis unfolding wants_def GetBloomFilter_def by blast
qed

theorem own_filter_exact_witness:
  "\<exists>wh' b'. update_run NewWhisper [\<lparr>fl_KeyAsym = None, fl_KeySym = None, fl_Pow = Fin 0, fl_Topics = [[9, 9]], fl_Messages = Map.empty\<rparr>] = Inr wh' \<and>
     GetBloomFilter wh' = Some b' \<and> bloom_bits b' = bloom_bits GetEmptyBloomFilter \<union> bloom_bits (ConvertTopicToBloom (ConvertBytesToTopic [9, 9]))"
  using own_filter_exact [of NewWhisper GetEmptyBloomFilter "[\<lparr>fl_KeyAsym = None, fl_KeySym = None, fl_Pow = Fin 0, fl_Topics = [[9, 9]], fl_Messages = Map.empty\<rparr>]"]
  by (auto simp: NewWhisper_def)

section \<open>Envelopes are processed once\<close>

abbreviation exported :: "Envelope \<Rightarrow> uint32 \<times> uint32 \<times> Topic \<times> bytes \<times> uint64" where
  "exported e \<equiv> (en_Expiry e, en_TTL e, en_Topic e, en_Data e, en_Nonce e)"

lemma computePow_fields [simp]:
  "en_Expiry (computePow wc d e) = en_Expiry e" "en_TTL (computePow wc d e) = en_TTL e"
  "en_Topic (computePow wc d e) = en_Topic e" "en_Data (computePow wc d e) = en_Data e"
  "en_Nonce (computePow wc d e) = en_Nonce e" "en_bloom (computePow wc d e) = en_bloom e"
  by (simp_all add: computePow_def)

lemma exported_caches [simp]:
  "exported (computePow wc d e) = exported e" "exported (snd (GetPow wc e)) = exported e" "exported (snd (GetBloom e)) = exported e"
  by (simp_all add: GetPow_def GetBloom_def Let_def split: option.splits)

lemma GetHash_exported: "exported e = exported e' \<Longrightarrow> GetHash wc e = GetHash wc e'"
  by (simp add: GetHash_def encode_Envelope_def)

lemma interesting_exported: "interesting_loop wc origin e peers = Inr (i, e') \<Longrightarrow> exported e' = exported e"
proof (induction peers arbitrary: e)
  case Nil
  then show ?case by simp
next
  case (Cons p peers)
  obtain peer status where p: "p = (peer, status)" by (cases p)
  obtain b e1 where b: "GetBloom e = (b, e1)" by (cases "GetBloom e")
  obtain w e2 where w: "GetPow wc e1 = (w, e2)" by (cases "GetPow wc e1")
  have "exported e1 = exported e" "exported e2 = exported e1"
    using exported_caches(3) [of e] exported_caches(2) [of wc e1] b w by simp_all
  with Cons b w p show ?case by (auto simp: go_bind_eq_Inr split: if_splits)
qed

lemma check_exported: "check_envelope wc now wh e = Inr (err, e') \<Longrightarrow> exported e' = exported e"
proof -
  assume c: "check_envelope wc now wh e = Inr (err, e')"
  obtain err1 e1 where t: "check_time wc now e = (err1, e1)" by (cases "check_time wc now e")
  obtain w e2 where w: "GetPow wc e1 = (w, e2)" by (cases "GetPow wc e1")
  obtain b e3 where b: "GetBloom e2 = (b, e3)" by (cases "GetBloom e2")
  have "exported e1 = exported e" using t by (auto simp: check_time_def Let_def split: if_splits)
  moreover have "exported e2 = exported e1" "exported e3 = exported e2"
    using exported_caches(3) [of e2] exported_caches(2) [of wc e1] b w by simp_all
  moreover have "e' = e3" using c t w b by (auto simp: check_envelope_def Let_def go_bind_eq_Inr split: if_splits)
  ultimately show "exported e' = exported e" by simp
qed

lemma handleEnvelope_cases:
  assumes "handleEnvelope wc now peers wh eo = Inr (err, wh')"
  shows "wh' = wh \<and> (err = None \<longrightarrow> wh_envelopes wh (GetHash wc (eo_Envelope eo)) \<noteq> None) \<or>
    err = None \<and> wh_envelopes wh (GetHash wc (eo_Envelope eo)) = None \<and>
      (\<exists>e. exported e = exported (eo_Envelope eo) \<and>
         wh' = wh\<lparr>wh_envelopes := (wh_envelopes wh)(GetHash wc (eo_Envelope eo) \<mapsto> eo\<lparr>eo_Envelope := e\<rparr>), wh_queue := wh_queue wh @ [e]\<rparr>)"
proof -
  obtain i e0 where 0: "interesting_loop wc (eo_Origin eo) (eo_Envelope eo) peers = Inr (i, e0)"
    using assms by (auto simp: handleEnvelope_def go_bind_eq_Inr)
  with assms obtain x e where 1: "check_envelope wc now wh e0 = Inr (x, e)" by (auto simp: handleEnvelope_def go_bind_eq_Inr)
  have ex: "exported e = exported (eo_Envelope eo)" using interesting_exported [OF 0] check_exported [OF 1] by simp
  then have h: "GetHash wc e = GetHash wc (eo_Envelope eo)" by (rule GetHash_exported)
  note r = assms [unfolded handleEnvelope_def 0 1 go_bind_Inr prod.case Let_def h]
  show ?thesis
  proof (cases "x \<noteq> None \<and> \<not> i \<or> wh_envelopes wh (GetHash wc (eo_Envelope eo)) \<noteq> None")
    case True
    with r show ?thesis by (auto split: if_splits)
  next
    case False
    then have no: "\<not> (x \<noteq> None \<and> \<not> i)" "wh_envelopes wh (GetHash wc (eo_Envelope eo)) = None" by blast+
    from r [unfolded if_not_P [OF no(1)] if_P [OF no(2)]] no(2) ex show ?thesis by blast
  qed
qed

type_synonym arrival = "uint32 \<times> (address \<times> Status) list \<times> EnvelopeOrigin"

definition arrive :: "WCrypto \<Rightarrow> Whisper \<Rightarrow> arrival \<Rightarrow> Whisper go" where
  "arrive wc wh a = (case a of (now, peers, eo) \<Rightarrow> go_bind (handleEnvelope wc now peers wh eo) (\<lambda>r. Inr (snd r)))"

text \<open>
  Claim C29. Each envelope is processed once: whatever envelopes arrive, from whichever peers and with whatever repetitions,
  the envelopes added to the queue of the subscribers have pairwise different hashes, none of which was stored before, and the
  stored envelopes afterwards are those stored before and those queued; nothing stored is changed.
\<close>

theorem envelopes_queued_once:
  assumes "go_foldM (arrive wc) wh arrivals = Inr wh'"
  shows "\<exists>new. wh_queue wh' = wh_queue wh @ new \<and> distinct (map (GetHash wc) new) \<and>
    dom (wh_envelopes wh) \<inter> set (map (GetHash wc) new) = {} \<and>
    dom (wh_envelopes wh') = dom (wh_envelopes wh) \<union> set (map (GetHash wc) new) \<and>
    wh_envelopes wh \<subseteq>\<^sub>m wh_envelopes wh' \<and>
    set (map (GetHash wc) new) \<subseteq> (\<lambda>(now, peers, eo). GetHash wc (eo_Envelope eo)) ` set arrivals"
  using assms
proof (induction arrivals arbitrary: wh)
  case Nil
  then show ?case by (auto intro: exI [of _ "[]"])
next
  case (Cons a arrivals)
  obtain now peers eo where a: "a = (now, peers, eo)" by (metis surj_pair)
  let ?h = "GetHash wc (eo_Envelope eo)"
  obtain wh1 where s: "arrive wc wh a = Inr wh1" and rest: "go_foldM (arrive wc) wh1 arrivals = Inr wh'"
    using Cons.prems by (auto simp: go_bind_eq_Inr)
  from s obtain err where 1: "handleEnvelope wc now peers wh eo = Inr (err, wh1)"
    by (auto simp: a arrive_def go_bind_eq_Inr)
  obtain new where n: "wh_queue wh' = wh_queue wh1 @ new" "distinct (map (GetHash wc) new)"
    "dom (wh_envelopes wh1) \<inter> set (map (GetHash wc) new) = {}"
    "dom (wh_envelopes wh') = dom (wh_envelopes wh1) \<union> set (map (GetHash wc) new)" "wh_envelopes wh1 \<subseteq>\<^sub>m wh_envelopes wh'"
    "set (map (GetHash wc) new) \<subseteq> (\<lambda>(now, peers, eo). GetHash wc (eo_Envelope eo)) ` set arrivals"
    using Cons.IH [OF rest] by blast
  show ?case
  proof (cases "wh1 = wh")
    case True
    with n show ?thesis by (intro exI [of _ new]) auto
  next
    case False
    with handleEnvelope_cases [OF 1] obtain e where e: "wh_envelopes wh ?h = None" "exported e = exported (eo_Envelope eo)"
      "wh1 = wh\<lparr>wh_envelopes := (wh_envelopes wh)(?h \<mapsto> eo\<lparr>eo_Envelope := e\<rparr>), wh_queue := wh_queue wh @ [e]\<rparr>" by blast
    have h: "GetHash wc e = ?h" using e(2) by (rule GetHash_exported)
    have "wh_envelopes wh \<subseteq>\<^sub>m wh_envelopes wh1" using e(1) unfolding e(3) map_le_def by (simp add: dom_def)
    then have "wh_envelopes wh \<subseteq>\<^sub>m wh_envelopes wh'" using n(5) by (rule map_le_trans)
    with n e(1) h a show ?thesis by (intro exI [of _ "e # new"]) (auto simp: e(3))
  qed
qed

lemma zero_ttl_GetPow:
  assumes "en_TTL e = 0" "en_pow e = Fin 0" "GetSize wc e < 2 ^ 52"
  shows "fst (GetPow wc e) = PInf"
proof -
  obtain k where "Pow2 (leadingZeroes wc e (en_Nonce e)) = Fin k" "0 < k" by (auto simp: Pow2_def)
  with assms float64_of_exact [OF assms(3)] show ?thesis by (simp add: GetPow_def computePow_def float_of_rat_def Let_def)
qed

text \<open>
  Work is free for envelopes without lifetime: an envelope whose time-to-live is 0 has infinite proof of work,
  because the work is divided by the lifetime, so one that expires now and fits the node's filter is accepted, stored and queued
  whatever nonce it carries and whatever work the node demands.
\<close>

theorem zero_ttl_needs_no_work:
  assumes ttl: "en_TTL e = 0" and caches: "en_pow e = Fin 0" "en_bloom e = None" and now: "en_Expiry e = now"
    and size: "GetSize wc e \<le> unat MaxMessageSize"
    and filt: "CheckFilterMatch (GetBloomFilter wh) (ConvertTopicToBloom (en_Topic e)) = Inr True"
    and new: "wh_envelopes wh (GetHash wc e) = None"
  shows "\<exists>e'. handleEnvelope wc now [] wh \<lparr>eo_Envelope = e, eo_Origin = origin\<rparr> =
    Inr (None, wh\<lparr>wh_envelopes := (wh_envelopes wh)(GetHash wc e \<mapsto> \<lparr>eo_Envelope = e', eo_Origin = origin\<rparr>), wh_queue := wh_queue wh @ [e']\<rparr>) \<and>
    en_pow e' = PInf"
proof -
  have size': "GetSize wc e < 2 ^ 52" "\<not> (of_nat (GetSize wc e) :: uint32) > MaxMessageSize"
    using size by (simp_all add: MaxMessageSize_def word_less_nat_alt unat_of_nat)
  let ?e1 = "computePow wc 0 e"
  have pow: "en_pow ?e1 = PInf"
    using zero_ttl_GetPow [OF ttl caches(1) size'(1)] caches(1) by (simp add: GetPow_def Let_def)
  have t: "check_time wc now e = (None, e)" using now ttl by (simp add: check_time_def)
  have p: "GetPow wc e = (PInf, ?e1)" using caches pow by (simp add: GetPow_def)
  have b: "GetBloom ?e1 = (ConvertTopicToBloom (en_Topic e), ?e1\<lparr>en_bloom := Some (ConvertTopicToBloom (en_Topic e))\<rparr>)"
    using caches by (simp add: GetBloom_def Let_def)
  let ?e2 = "?e1\<lparr>en_bloom := Some (ConvertTopicToBloom (en_Topic e))\<rparr>"
  have nl: "\<not> float_less PInf x" for x by (cases x) simp_all
  have c: "check_envelope wc now wh e = Inr (None, ?e2)"
    unfolding check_envelope_def t p b Let_def prod.case using size'(2) filt nl by simp
  have h: "GetHash wc ?e2 = GetHash wc e" by (rule GetHash_exported) (simp add: computePow_def)
  have "handleEnvelope wc now [] wh \<lparr>eo_Envelope = e, eo_Origin = origin\<rparr> =
      Inr (None, wh\<lparr>wh_envelopes := (wh_envelopes wh)(GetHash wc e \<mapsto> \<lparr>eo_Envelope = ?e2, eo_Origin = origin\<rparr>), wh_queue := wh_queue wh @ [?e2]\<rparr>)"
    using new by (simp add: handleEnvelope_def c h)
  moreover have "en_pow ?e2 = PInf" using pow by simp
  ultimately show ?thesis by blast
qed


theorem zero_ttl_needs_no_work_witness:
  "let e = NewEnvelope 100 0 [1, 2, 3, 4] []; wh = NewWhisper\<lparr>wh_bloomFilter := Some (ConvertTopicToBloom [1, 2, 3, 4]), wh_minPow := Some (Fin 1000000)\<rparr>
   in \<exists>e'. handleEnvelope toy_wcrypto 100 [] wh \<lparr>eo_Envelope = e, eo_Origin = ''p''\<rparr> =
     Inr (None, wh\<lparr>wh_envelopes := [GetHash toy_wcrypto e \<mapsto> \<lparr>eo_Envelope = e', eo_Origin = ''p''\<rparr>], wh_queue := [e']\<rparr>) \<and> en_pow e' = PInf"
proof -
  let ?e = "NewEnvelope 100 0 [1, 2, 3, 4] []"
  let ?wh = "NewWhisper\<lparr>wh_bloomFilter := Some (ConvertTopicToBloom [1, 2, 3, 4]), wh_minPow := Some (Fin 1000000)\<rparr>"
  have "GetSize toy_wcrypto ?e \<le> unat MaxMessageSize"
    by (simp add: GetSize_def encode_Envelope_def toy_wcrypto_def NewEnvelope_def MaxMessageSize_def)
  then show ?thesis
    using zero_ttl_needs_no_work [of ?e 100 toy_wcrypto ?wh "''p''"]
    by (simp add: NewEnvelope_def NewWhisper_def GetBloomFilter_def blooms.covers_refl Let_def)
qed

lemma handleEnvelope_again:
  assumes "handleEnvelope wc now [] wh \<lparr>eo_Envelope = e, eo_Origin = o1\<rparr> = Inr (None, wh')"
  shows "handleEnvelope wc now [] wh' \<lparr>eo_Envelope = e, eo_Origin = o2\<rparr> = Inr (None, wh')"
proof -
  obtain err e1 where c: "check_envelope wc now wh e = Inr (err, e1)" using assms by (auto simp: handleEnvelope_def go_bind_eq_Inr)
  then have n: "err = None" using assms by (auto simp: handleEnvelope_def Let_def split: if_splits)
  have h: "wh_envelopes wh' (GetHash wc e1) \<noteq> None"
    using assms by (auto simp: handleEnvelope_def c n Let_def split: if_splits)
  have "check_envelope wc now (wh\<lparr>wh_envelopes := es, wh_queue := q\<rparr>) e = check_envelope wc now wh e" for es q
  proof -
    have f: "GetMinPow (wh\<lparr>wh_envelopes := es, wh_queue := q\<rparr>) = GetMinPow wh" "GetMinPowTolerated (wh\<lparr>wh_envelopes := es, wh_queue := q\<rparr>) = GetMinPowTolerated wh"
      "GetBloomFilter (wh\<lparr>wh_envelopes := es, wh_queue := q\<rparr>) = GetBloomFilter wh"
      "GetBloomFilterTolerated (wh\<lparr>wh_envelopes := es, wh_queue := q\<rparr>) = GetBloomFilterTolerated wh"
      by (simp_all add: GetMinPow_def GetMinPowTolerated_def GetBloomFilter_def GetBloomFilterTolerated_def)
    show ?thesis unfolding check_envelope_def f ..
  qed
  with handleEnvelope_cases [OF assms] c n have "check_envelope wc now wh' e = Inr (None, e1)" by fastforce
  with h show ?thesis by (auto simp: handleEnvelope_def Let_def)
qed

theorem envelopes_queued_once_witness:
  "let e = NewEnvelope 100 0 [1, 2, 3, 4] []; wh = NewWhisper\<lparr>wh_bloomFilter := Some (ConvertTopicToBloom [1, 2, 3, 4])\<rparr>
   in \<exists>wh' e'. go_foldM (arrive toy_wcrypto) wh [(100, [], \<lparr>eo_Envelope = e, eo_Origin = ''p''\<rparr>), (100, [], \<lparr>eo_Envelope = e, eo_Origin = ''q''\<rparr>)] = Inr wh' \<and>
        wh_queue wh' = [e'] \<and> GetHash toy_wcrypto e' = GetHash toy_wcrypto e \<and> dom (wh_envelopes wh') = {GetHash toy_wcrypto e}"
proof -
  let ?e = "NewEnvelope 100 0 [1, 2, 3, 4] []" and ?wh = "NewWhisper\<lparr>wh_bloomFilter := Some (ConvertTopicToBloom [1, 2, 3, 4])\<rparr>"
  let ?arrivals = "[(100, [], \<lparr>eo_Envelope = ?e, eo_Origin = ''p''\<rparr>), (100, [], \<lparr>eo_Envelope = ?e, eo_Origin = ''q''\<rparr>)]"
  have "GetSize toy_wcrypto ?e \<le> unat MaxMessageSize"
    by (simp add: GetSize_def encode_Envelope_def toy_wcrypto_def NewEnvelope_def MaxMessageSize_def)
  then obtain wh' where h: "handleEnvelope toy_wcrypto 100 [] ?wh \<lparr>eo_Envelope = ?e, eo_Origin = ''p''\<rparr> = Inr (None, wh')"
    and stored: "wh_envelopes wh' \<noteq> Map.empty"
    using zero_ttl_needs_no_work [of ?e 100 toy_wcrypto ?wh "''p''"]
    by (auto simp: NewEnvelope_def NewWhisper_def GetBloomFilter_def blooms.covers_refl)
  have run: "go_foldM (arrive toy_wcrypto) ?wh ?arrivals = Inr wh'"
    using h handleEnvelope_again [OF h, of "''q''"] by (simp add: arrive_def)
  from envelopes_queued_once [OF run] obtain new where q: "wh_queue wh' = new" "distinct (map (GetHash toy_wcrypto) new)"
    "dom (wh_envelopes wh') = set (map (GetHash toy_wcrypto) new)" "set (map (GetHash toy_wcrypto) new) \<subseteq> {GetHash toy_wcrypto ?e}"
    by (auto simp: NewWhisper_def)
  with stored have "new \<noteq> []" by auto
  then obtain e' es where new: "new = e' # es" by (cases new) auto
  with q(2,4) have "es = []" "GetHash toy_wcrypto e' = GetHash toy_wcrypto ?e" by (cases es; auto)+
  with q(1,3) new run show ?thesis by (simp add: Let_def)
qed

section \<open>Delivery\<close>

text \<open>Reading a message that is long enough never faults.\<close>

lemma GetMessage_total:
  "gcm_NonceSize \<le> length (en_Data e) \<Longrightarrow> \<exists>m. GetMessageFromEnvelope wc e sub = Inr m \<and> (\<forall>x. m = Some x \<longrightarrow> rm_EnvelopeHash x = GetHash wc e)"
  by (auto simp: GetMessageFromEnvelope_def decryptWithSymmetricKey_def Let_def split: option.splits)

lemma notify_one_step:
  assumes "gcm_NonceSize \<le> length (en_Data e)" "fs_heap fs q = Some sub"
  shows "\<exists>fs'. notify_one wc e fs q = Inr fs' \<and> (\<forall>p. p \<noteq> q \<longrightarrow> fs_heap fs' p = fs_heap fs p) \<and> fs_heap fs' q \<noteq> None"
proof -
  obtain m where "GetMessageFromEnvelope wc e sub = Inr m" using GetMessage_total [OF assms(1)] by blast
  with assms(2) show ?thesis by (cases m) (auto simp: notify_one_def)
qed

text \<open>Delivering to a filter that can read the envelope, when it has not got it yet, and when it has.\<close>

lemma notify_one_deliver:
  assumes "fs_heap fs p = Some sub" "GetMessageFromEnvelope wc e sub = Inr (Some msg)"
    "rm_EnvelopeHash msg = h" "float_geq (Fin 0) (fl_Pow sub) \<or> float_geq (en_pow e) (fl_Pow sub)"
  shows "notify_one wc e fs p = Inr (if fl_Messages sub h = None
    then fs\<lparr>fs_heap := (fs_heap fs)(p \<mapsto> sub\<lparr>fl_Messages := (fl_Messages sub)(h \<mapsto> msg)\<rparr>)\<rparr> else fs)"
  using assms by (simp add: notify_one_def)

definition delivered :: "Filter \<Rightarrow> bytes \<Rightarrow> ReceivedMessage \<Rightarrow> Filter" where
  "delivered f h msg = (if fl_Messages f h = None then f\<lparr>fl_Messages := (fl_Messages f)(h \<mapsto> msg)\<rparr> else f)"

lemma GetMessage_messages [simp]:
  "GetMessageFromEnvelope wc e (f\<lparr>fl_Messages := ms\<rparr>) = GetMessageFromEnvelope wc e f"
  by (auto simp: GetMessageFromEnvelope_def Let_def split: option.splits)

lemma delivered_twice: "delivered (delivered f h msg) h msg = delivered f h msg"
  by (simp add: delivered_def)

lemma notify_all_deliver:
  assumes "gcm_NonceSize \<le> length (en_Data e)" "\<forall>q \<in> set ps. fs_heap fs q \<noteq> None"
    "fs_heap fs p = Some f'" "f' = f \<or> f' = delivered f h msg" "GetMessageFromEnvelope wc e f = Inr (Some msg)"
    "rm_EnvelopeHash msg = h" "float_geq (Fin 0) (fl_Pow f) \<or> float_geq (en_pow e) (fl_Pow f)"
  shows "\<exists>fs'. go_foldM (notify_one wc e) fs ps = Inr fs' \<and>
    fs_heap fs' p = Some (if p \<in> set ps then delivered f h msg else f')"
  using assms(2,3,4)
proof (induction ps arbitrary: fs f')
  case Nil
  then show ?case by simp
next
  case (Cons q ps)
  obtain sub where q: "fs_heap fs q = Some sub" using Cons.prems(1) by auto
  obtain fs1 where 1: "notify_one wc e fs q = Inr fs1" "\<forall>p. p \<noteq> q \<longrightarrow> fs_heap fs1 p = fs_heap fs p" "fs_heap fs1 q \<noteq> None"
    using notify_one_step [OF assms(1) q] by blast
  have all: "\<forall>r \<in> set ps. fs_heap fs1 r \<noteq> None" using Cons.prems(1) 1 by (metis list.set_intros(2))
  show ?case
  proof (cases "q = p")
    case True
    have "GetMessageFromEnvelope wc e f' = Inr (Some msg)" "fl_Pow f' = fl_Pow f"
      using Cons.prems(3) assms(5) by (auto simp: delivered_def)
    then have "notify_one wc e fs p = Inr (if fl_Messages f' h = None
        then fs\<lparr>fs_heap := (fs_heap fs)(p \<mapsto> f'\<lparr>fl_Messages := (fl_Messages f')(h \<mapsto> msg)\<rparr>)\<rparr> else fs)"
      using notify_one_deliver [of fs p f' wc e msg h] Cons.prems(2) assms(6,7) by simp
    then have "fs_heap fs1 p = Some (delivered f' h msg)" using 1(1) True Cons.prems(2) by (auto simp: delivered_def)
    moreover have "delivered f' h msg = delivered f h msg" using Cons.prems(3) delivered_twice by auto
    ultimately have "fs_heap fs1 p = Some (delivered f h msg)" by simp
    from Cons.IH [OF all this] 1(1) True show ?thesis by simp
  next
    case False
    then have "fs_heap fs1 p = Some f'" using 1(2) Cons.prems(2) by simp
    from Cons.IH [OF all this Cons.prems(3)] 1(1) False show ?thesis by simp
  qed
qed

text \<open>
  Claim C28. What is sent under a symmetric key is received: an envelope made from a message with a topic and a shared key, once
  handed to the subscribers of a node, puts the decrypted payload among the messages of every subscribed filter that has the
  topic, the key and a work bound the envelope reaches, whatever other filters are subscribed, and no other subscription can
  make the notification fault.
\<close>

theorem symmetric_message_delivered:
  assumes gcm: "\<And>n d. gcm_Open wc key n (gcm_Seal wc key n d) = Some d"
    and key: "length key = aesKeyLength" and nonce: "gcm_NonceSize \<le> length n"
    and params: "mp_Dst params = None" "mp_KeySym params = Some key" "mp_Topic params = ConvertBytesToTopic t"
    and env: "GetEnvelopeFromMessage wc (Some n) rnd rounds now params = Some env"
    and reach: "fs_reachable fs" "\<not> fs_locked fs" and rng: "\<And>s. finite s \<Longrightarrow> set (rng s) = s"
    and sub: "fs_subscribers fs i = Some p" "fs_heap fs p = Some f" "t \<in> set (fl_Topics f)"
      "fl_KeyAsym f = None" "fl_KeySym f = Some key"
      "float_geq (Fin 0) (fl_Pow f) \<or> float_geq (en_pow env) (fl_Pow f)"
    and unseen: "fl_Messages f (GetHash wc env) = None"
  shows "\<exists>fs' f' msg. NotifySubscribers rng wc fs env = Some (Inr fs') \<and> fs_heap fs' p = Some f' \<and>
    fl_Messages f' = (fl_Messages f)(GetHash wc env \<mapsto> msg) \<and> rm_Payload msg = mp_Payload params"
proof -
  let ?n = "take gcm_NonceSize n"
  have ok: "aes_key_ok key" using key by (simp add: aes_key_ok_def aesKeyLength_def)
  have data: "en_Data env = ?n @ gcm_Seal wc key ?n (mp_Payload params)" and topic: "en_Topic env = ConvertBytesToTopic t"
    using env params ok by (auto simp: GetEnvelopeFromMessage_def encryptWithSymmetricKey_def addNonceForPow_def computePow_def
        NewEnvelope_def Let_def)
  then have len: "gcm_NonceSize \<le> length (en_Data env)" using nonce by simp
  have "decryptWithSymmetricKey wc (en_Data env) key = Inr (Some (mp_Payload params))"
    using ok nonce gcm by (simp add: decryptWithSymmetricKey_def data)
  then obtain msg where msg: "GetMessageFromEnvelope wc env f = Inr (Some msg)" "rm_Payload msg = mp_Payload params"
    using sub(4,5) by (auto simp: GetMessageFromEnvelope_def Let_def)
  have h: "rm_EnvelopeHash msg = GetHash wc env" using GetMessage_total [OF len, of wc f] msg(1) by auto
  have inv: "fs_inv fs" using fs_reachable_inv [OF reach(1)] .
  let ?ps = "getSubscribersByTopic rng fs (en_Topic env)"
  have ps: "set ?ps = subscribed fs (en_Topic env)" by (rule getSubscribersByTopic_set [OF inv rng])
  then have "p \<in> set ?ps" "\<forall>q \<in> set ?ps. fs_heap fs q \<noteq> None" using sub topic by (auto simp: subscribed_def)
  with notify_all_deliver [OF len this(2) sub(2) _ msg(1) h sub(6)]
  obtain fs' where "go_foldM (notify_one wc env) fs ?ps = Inr fs'" "fs_heap fs' p = Some (delivered f (GetHash wc env) msg)" by auto
  with reach(2) unseen msg(2) show ?thesis by (auto simp: NotifySubscribers_def delivered_def)
qed


theorem symmetric_message_delivered_witness:
  "let key = replicate 32 1;
       f = \<lparr>fl_KeyAsym = None, fl_KeySym = Some key, fl_Pow = Fin 0, fl_Topics = [[1, 2, 3, 4]], fl_Messages = Map.empty\<rparr>;
       fs = snd (the (AddFilter NewFilterStorage 7 f (Some (replicate 32 5))));
       env = the (GetEnvelopeFromMessage toy_wcrypto (Some (replicate 12 9)) [] 0 100
         \<lparr>mp_Src = None, mp_Dst = None, mp_KeySym = Some key, mp_Topic = [1, 2, 3, 4], mp_PowTime = 0, mp_TTL = 0, mp_Payload = [72, 105], mp_Padding = []\<rparr>)
   in \<exists>fs' f' msg. NotifySubscribers sorted_list_of_set toy_wcrypto fs env = Some (Inr fs') \<and> fs_heap fs' 7 = Some f' \<and>
        fl_Messages f' = [GetHash toy_wcrypto env \<mapsto> msg] \<and> rm_Payload msg = [72, 105]"
proof -
  let ?key = "replicate 32 1"
  let ?f = "\<lparr>fl_KeyAsym = None, fl_KeySym = Some ?key, fl_Pow = Fin 0, fl_Topics = [[1, 2, 3, 4]], fl_Messages = Map.empty\<rparr>"
  let ?p = "\<lparr>mp_Src = None, mp_Dst = None, mp_KeySym = Some ?key, mp_Topic = [1, 2, 3, 4], mp_PowTime = 0, mp_TTL = 0, mp_Payload = [72, 105], mp_Padding = []\<rparr>"
  let ?i = "EncodeToString (replicate 32 5)"
  have add: "AddFilter NewFilterStorage 7 ?f (Some (replicate 32 5)) = Some (Some ?i, NewFilterStorage\<lparr>fs_heap := [7 \<mapsto> ?f],
      fs_subscribers := [?i \<mapsto> 7], fs_topicToFilters := foldl (index_topic 7) Map.empty [[1, 2, 3, 4]]\<rparr>)" (is "_ = Some (_, ?fs)")
    by (simp add: AddFilter_def NewFilterStorage_def generateRandomID_def generateRandomBytes_def keyIDSize_def)
  have reach: "fs_reachable ?fs" by (rule fs_reachable.add [OF fs_reachable.start _ add]) (simp add: NewFilterStorage_def)
  have topic: "ConvertBytesToTopic [1, 2, 3, 4] = [1, 2, 3, 4]"
    by (simp add: ConvertBytesToTopic_def TopicLength_def upt_rec eval_nat_numeral)
  have "encryptWithSymmetricKey toy_wcrypto (Some (replicate 12 9)) [72, 105] ?key \<noteq> None"
    by (simp add: encryptWithSymmetricKey_def aes_key_ok_def Let_def)
  then obtain env where env: "GetEnvelopeFromMessage toy_wcrypto (Some (replicate 12 9)) [] 0 100 ?p = Some env"
    by (auto simp: GetEnvelopeFromMessage_def Let_def)
  have f: "fs_heap ?fs 7 = Some ?f" "fs_subscribers ?fs ?i = Some 7" "\<not> fs_locked ?fs"
    by (simp_all add: NewFilterStorage_def del: EncodeToString.simps)
  have "\<exists>fs' f' msg. NotifySubscribers sorted_list_of_set toy_wcrypto ?fs env = Some (Inr fs') \<and> fs_heap fs' 7 = Some f' \<and>
      fl_Messages f' = (fl_Messages ?f)(GetHash toy_wcrypto env \<mapsto> msg) \<and> rm_Payload msg = mp_Payload ?p"
    by (rule symmetric_message_delivered [where t = "[1, 2, 3, 4]" and key = ?key and n = "replicate 12 9" and i = ?i,
          OF _ _ _ _ _ _ env reach f(3) _ f(2,1)])
      (simp_all add: toy_wcrypto_def aesKeyLength_def gcm_NonceSize_def topic)
  then show ?thesis by (simp only: Let_def add env option.sel snd_conv Filter.select_convs MessageParams.select_convs)
qed

section \<open>Forwarding\<close>

lemma GetPow_cached [simp]: "fst (GetPow wc (snd (GetPow wc e))) = fst (GetPow wc e)"
  by (simp add: GetPow_def Let_def computePow_def)

lemma GetPow_GetBloom [simp]: "fst (GetPow wc (snd (GetBloom e))) = fst (GetPow wc e)"
  by (simp add: GetPow_def GetBloom_def computePow_def leadingZeroes_def GetSize_def encode_Envelope_def Let_def split: option.splits)

lemma GetBloom_cached [simp]: "fst (GetBloom (snd (GetBloom e))) = fst (GetBloom e)" "fst (GetBloom (snd (GetPow wc e))) = fst (GetBloom e)"
  by (simp_all add: GetBloom_def GetPow_def computePow_def Let_def split: option.splits)

lemma GetPeerFromString_iff: "GetPeerFromString ps a = Some b \<longleftrightarrow> a \<in> set ps \<and> b = a"
  by (induction ps a rule: GetPeerFromString.induct) auto

text \<open>
  Envelopes are forwarded to exactly the interested neighbours: never to the peer the envelope came from, and to
  every other known peer whose entry in the routing table admits the envelope, once, in the order of the table.
\<close>

theorem forwardEnvelope_targets:
  assumes "forwardEnvelope wc known env peers = Inr acts"
  shows "map (\<lambda>act. case act of SendEnvelopePacket packet a \<Rightarrow> a) acts =
      map fst (filter (\<lambda>(peer, status). peer \<noteq> eo_Origin env \<and> peer \<in> set known \<and>
        status_admits status (fst (GetBloom (eo_Envelope env))) (fst (GetPow wc (eo_Envelope env))) = Inr True) peers) \<and>
    (\<forall>act \<in> set acts. \<exists>packet a. act = SendEnvelopePacket packet a)"
  using assms
proof (induction peers arbitrary: env acts)
  case Nil
  then show ?case by simp
next
  case (Cons p peers)
  obtain peer status where p: "p = (peer, status)" by (cases p)
  show ?case
  proof (cases "peer = eo_Origin env")
    case True
    with Cons p show ?thesis by (simp add: Let_def split_beta)
  next
    case False
    let ?b = "fst (GetBloom (eo_Envelope env))" and ?w = "fst (GetPow wc (eo_Envelope env))"
    obtain m where m: "CheckFilterMatch (st_Bloom status) ?b = Inr m"
      using Cons.prems False p by (auto simp: Let_def split_beta go_bind_eq_Inr)
    let ?env = "env\<lparr>eo_Envelope := if m then snd (GetPow wc (snd (GetBloom (eo_Envelope env)))) else snd (GetBloom (eo_Envelope env))\<rparr>"
    obtain rest where rest: "forwardEnvelope wc known ?env peers = Inr rest"
      using Cons.prems False p m by (auto simp: Let_def split_beta go_bind_eq_Inr)
    have same: "fst (GetBloom (eo_Envelope ?env)) = ?b" "fst (GetPow wc (eo_Envelope ?env)) = ?w" "eo_Origin ?env = eo_Origin env"
      by simp_all
    have adm: "status_admits status ?b ?w = Inr True \<longleftrightarrow> m \<and> float_geq ?w (st_Pow status)"
      using m by (simp add: status_admits_def)
    note ih = Cons.IH [OF rest, unfolded same]
    show ?thesis
    proof (cases "m \<and> float_geq ?w (st_Pow status) \<and> peer \<in> set known")
      case True
      then have "GetPeerFromString known peer = Some peer" by (simp add: GetPeerFromString_iff)
      with Cons.prems False p m rest ih adm True show ?thesis by (auto simp: Let_def split_beta)
    next
      case n: False
      then have "(if m \<and> float_geq ?w (st_Pow status) then GetPeerFromString known peer else None) = None"
        by (cases "GetPeerFromString known peer") (auto simp: GetPeerFromString_iff)
      with Cons.prems False p m rest ih adm n show ?thesis by (auto simp: Let_def split_beta split: if_splits)
    qed
  qed
qed

theorem forwardEnvelope_targets_witness:
  "let e = NewEnvelope 100 0 [1, 2, 3, 4] []; st = \<lparr>st_Pow = Fin 2, st_Bloom = None\<rparr>
   in \<exists>acts. forwardEnvelope toy_wcrypto [''a'', ''b''] \<lparr>eo_Envelope = e, eo_Origin = ''a''\<rparr> [(''c'', st), (''b'', st), (''a'', st)] = Inr acts \<and>
        map (\<lambda>act. case act of SendEnvelopePacket packet a \<Rightarrow> a) acts = [''b'']"
proof -
  let ?e = "NewEnvelope 100 0 [1, 2, 3, 4] []" and ?st = "\<lparr>st_Pow = Fin 2, st_Bloom = None\<rparr>"
  let ?peers = "[(''c'', ?st), (''b'', ?st), (''a'', ?st)]"
  have "fst (GetPow toy_wcrypto ?e) = PInf"
    by (rule zero_ttl_GetPow) (simp_all add: NewEnvelope_def GetSize_def encode_Envelope_def toy_wcrypto_def)
  then have "status_admits ?st b (fst (GetPow toy_wcrypto ?e)) = Inr True" for b
    by (simp add: status_admits_def CheckFilterMatch_def)
  moreover obtain acts where "forwardEnvelope toy_wcrypto [''a'', ''b''] \<lparr>eo_Envelope = ?e, eo_Origin = ''a''\<rparr> ?peers = Inr acts"
    by (simp add: Let_def split_beta CheckFilterMatch_def)
  ultimately show ?thesis
    using forwardEnvelope_targets [of toy_wcrypto "[''a'', ''b'']" "\<lparr>eo_Envelope = ?e, eo_Origin = ''a''\<rparr>" ?peers acts]
    by (auto simp: Let_def)
qed

end
