(* ===== verification/Signal.thy ===== *)
theory Signal
  imports X3DH Whisper Store
begin

text \<open>
  The Signal handler (\<open>src/adssignal/signalhandler.go\<close>, and the file operations of \<open>adsDoubleRatchet.go\<close>): identities and
  sessions kept on disk, the key agreement in its two forms (an identity sent on request, and an identity published in the
  distributed store), and the exchange of messages over Whisper. Directory and files are a map from names to contents,
  the JSON and protobuf encodings the fields of \<open>SignalCodec\<close>; goroutines and packets sent are returned as actions.
\<close>

section \<open>Packets\<close>

record X3DHIdentity =
  xi_Origin :: string
  xi_Destination :: string
  xi_HopLimit :: uint32
  xi_IK :: bytes
  xi_SPK :: bytes
  xi_Sign :: "ECDSA option"
  xi_OPK :: "bytes option"

record SignalPacket =
  sp_X3DHIdentity :: "X3DHIdentity option"
  sp_X3DHMessage :: "X3DHMessage option"
  sp_RatchetMessage :: "RatchetMessage option"

definition identity_packet :: "X3DHIdentity \<Rightarrow> SignalPacket" where
  "identity_packet i = \<lparr>sp_X3DHIdentity = Some i, sp_X3DHMessage = None, sp_RatchetMessage = None\<rparr>"

definition x3dh_packet :: "X3DHMessage option \<Rightarrow> SignalPacket" where
  "x3dh_packet m = \<lparr>sp_X3DHIdentity = None, sp_X3DHMessage = m, sp_RatchetMessage = None\<rparr>"

definition ratchet_packet :: "RatchetMessage \<Rightarrow> SignalPacket" where
  "ratchet_packet m = \<lparr>sp_X3DHIdentity = None, sp_X3DHMessage = None, sp_RatchetMessage = Some m\<rparr>"

record SignalCodec =
  json_ratchet :: "DRatchetStateCompressed \<Rightarrow> bytes"
  unjson_ratchet :: "bytes \<Rightarrow> DRatchetStateCompressed option"
  json_self :: "SelfIdentityCompressed \<Rightarrow> bytes"
  unjson_self :: "bytes \<Rightarrow> SelfIdentityCompressed option"
  json_remote :: "RemoteIdentityCompressed \<Rightarrow> bytes"
  unjson_remote :: "bytes \<Rightarrow> RemoteIdentityCompressed option"
  sp_Encode :: "SignalPacket \<Rightarrow> bytes"
  sp_Decode :: "bytes \<Rightarrow> SignalPacket"

section \<open>Files\<close>

type_synonym files = "string \<rightharpoonup> bytes"

definition RatchetFile :: string where "RatchetFile = ''Ratchet.txt''"
definition identityFile :: string where "identityFile = ''Identity.txt''"

text \<open>Names inside the signal folder; \<open>ok\<close> tells whether the operations on the file succeed.\<close>

definition StoreRatchet :: "Crypto \<Rightarrow> SignalCodec \<Rightarrow> bool \<Rightarrow> files \<Rightarrow> DRatchetState \<Rightarrow> string \<Rightarrow> string \<Rightarrow> files go" where
  "StoreRatchet cr co ok fs st origin destination =
     go_bind (CompressRatchet cr st) (\<lambda>c.
       Inr (if ok then fs(destination @ ''_'' @ origin @ RatchetFile \<mapsto> json_ratchet co c) else fs))"

definition RetrieveRatchet :: "Crypto \<Rightarrow> SignalCodec \<Rightarrow> files \<Rightarrow> string \<Rightarrow> DRatchetState option" where
  "RetrieveRatchet cr co fs name =
     (case fs name of None \<Rightarrow> None
      | Some b \<Rightarrow> map_option (UncompressRatchet cr) (unjson_ratchet co b))"

definition HasSuffix :: "string \<Rightarrow> string \<Rightarrow> bool" where
  "HasSuffix s suffix \<longleftrightarrow> length suffix \<le> length s \<and> drop (length s - length suffix) s = suffix"

text \<open>\<open>dir\<close> is the listing of the folder; without a folder the process exits.\<close>

definition retrieveRatchets ::
  "Crypto \<Rightarrow> SignalCodec \<Rightarrow> files \<Rightarrow> string list option \<Rightarrow> string \<Rightarrow> state_table \<Rightarrow> state_table go" where
  "retrieveRatchets cr co fs dir name states =
     (case dir of None \<Rightarrow> Inl ExplicitPanic
      | Some listing \<Rightarrow>
          go_foldM (\<lambda>states n. go_bind (go_deref (RetrieveRatchet cr co fs n)) (\<lambda>r. Inr (states(rs_Peer r \<mapsto> r)))) states
            (filter (\<lambda>n. HasSuffix n (name @ RatchetFile)) listing))"

definition storeIdentity :: "Crypto \<Rightarrow> SignalCodec \<Rightarrow> bool \<Rightarrow> files \<Rightarrow> SelfIdentity \<Rightarrow> string \<Rightarrow> files go" where
  "storeIdentity cr co ok fs self name =
     go_bind (CompressIdentity cr self) (\<lambda>c. Inr (if ok then fs(name @ identityFile \<mapsto> json_self co c) else fs))"

definition retrieveIdentity :: "Crypto \<Rightarrow> SignalCodec \<Rightarrow> files \<Rightarrow> string \<Rightarrow> SelfIdentity option go" where
  "retrieveIdentity cr co fs name =
     (case fs (name @ identityFile) of None \<Rightarrow> Inr None
      | Some b \<Rightarrow>
          (case unjson_self co b of None \<Rightarrow> Inr None
           | Some c \<Rightarrow> go_bind (UncompressIdentity cr c) (\<lambda>i. Inr (Some i))))"

section \<open>The handler\<close>

record SignalHandler =
  sg_Name :: string
  sg_selfIdentity :: SelfIdentity
  sg_stateTable :: state_table
  sg_identityChannels :: "string set"
  sg_latestMessages :: "string \<Rightarrow> RumorMessage list"
  sg_identityStr :: string
  sg_files :: files

datatype signal_action =
    SendWhisper SignalPacket string
  | ReplyToIdentity string X3DHMessage
  | SendIdentity X3DHIdentity DHPair "string option"

definition identityMessageSelf :: "Crypto \<Rightarrow> SelfIdentity \<Rightarrow> string go" where
  "identityMessageSelf cr self =
     go_bind (CompressIdentity cr self) (\<lambda>c.
     go_bind (go_nth (sc_OPK c) 0) (\<lambda>o0. go_bind (go_nth o0 1) (\<lambda>pk.
       Inr (''$IK%:'' @ EncodeToString (sc_IKPubKey c) @ ''$SPK%:'' @ EncodeToString (sc_SPKPubKey c) @
            ''$Signature%:'' @ EncodeToString (sc_R c) @ ''-'' @ EncodeToString (sc_S c) @
            ''$OPK%:'' @ EncodeToString pk @ ''...''))))"

text \<open>\<open>fresh\<close> generates the identity of a node that has none on disk.\<close>

definition NewSignalHandler ::
  "Crypto \<Rightarrow> SignalCodec \<Rightarrow> bool \<Rightarrow> files \<Rightarrow> string list option \<Rightarrow> SelfIdentity go \<Rightarrow> string \<Rightarrow> SignalHandler go" where
  "NewSignalHandler cr co ok fs dir fresh_identity name =
     go_bind (retrieveIdentity cr co fs name) (\<lambda>stored.
     go_bind (case stored of
                None \<Rightarrow> go_bind fresh_identity (\<lambda>i. go_bind (storeIdentity cr co ok fs i name) (\<lambda>fs'. Inr (i, Map.empty, fs')))
              | Some i \<Rightarrow> go_bind (retrieveRatchets cr co fs dir name Map.empty) (\<lambda>states. Inr (i, states, fs)))
       (\<lambda>(identity, states, fs').
     go_bind (identityMessageSelf cr identity) (\<lambda>str.
       Inr \<lparr>sg_Name = name, sg_selfIdentity = identity, sg_stateTable = states, sg_identityChannels = {},
            sg_latestMessages = (\<lambda>_. []), sg_identityStr = str, sg_files = fs'\<rparr>)))"

definition defaultPoWRequired :: go_float where "defaultPoWRequired = float_of_rat (1 / 5)"

text \<open>The filter a node installs, and the identity it publishes.\<close>

definition signal_filter :: "string \<Rightarrow> FilterOptions" where
  "signal_filter name = \<lparr>fo_SymKeyID = [], fo_PrivateKeyID = [], fo_MinPow = defaultPoWRequired,
     fo_Topics = [ConvertBytesToTopic (string_bytes name)]\<rparr>"

definition publish_identity :: "Crypto \<Rightarrow> SignalCodec \<Rightarrow> Hashes \<Rightarrow> SelfIdentity \<Rightarrow> (chunk_calls \<times> bytes) go option" where
  "publish_identity cr co h self =
     (case go_bind (CompressIdentity cr self) CompressRemoteIdentity of
        Inl e \<Rightarrow> Some (Inl e)
      | Inr r \<Rightarrow> StoreFile h (json_remote co r) 1 TypeBasicFile [])"

definition signal_message :: "SignalCodec \<Rightarrow> SignalPacket \<Rightarrow> string \<Rightarrow> NewMessage" where
  "signal_message co packet destination =
     \<lparr>nm_SymKeyID = [], nm_PublicKey = [], nm_TTL = 60, nm_Topic = ConvertBytesToTopic (string_bytes destination),
      nm_PowTime = 1, nm_Payload = sp_Encode co packet\<rparr>"

text \<open>The channel a received packet is put on.\<close>

definition signal_mode :: "SignalPacket \<Rightarrow> nat option" where
  "signal_mode packet =
     (if sp_X3DHIdentity packet \<noteq> None then Some 0
      else if sp_X3DHMessage packet \<noteq> None then Some 1
      else if sp_RatchetMessage packet \<noteq> None then Some 2 else None)"

definition add_latest :: "SignalHandler \<Rightarrow> string \<Rightarrow> RumorMessage \<Rightarrow> SignalHandler" where
  "add_latest sg user m = sg\<lparr>sg_latestMessages := (sg_latestMessages sg)(user := sg_latestMessages sg user @ [m])\<rparr>"

definition haveRatchet :: "SignalHandler \<Rightarrow> string \<Rightarrow> DRatchetState option" where
  "haveRatchet sg destination = sg_stateTable sg destination"

text \<open>The identity sent on request: a fresh one-time key \<open>opk\<close> goes with it.\<close>

definition sStartX3DH :: "Crypto \<Rightarrow> bytes \<Rightarrow> SignalHandler \<Rightarrow> string option \<Rightarrow> string option \<Rightarrow> signal_action go" where
  "sStartX3DH cr opk sg user message =
     go_bind (CompressPoint (curve cr) (PubKey (si_IK (sg_selfIdentity sg)))) (\<lambda>ik.
     go_bind (CompressPoint (curve cr) (PubKey (si_SPK (sg_selfIdentity sg)))) (\<lambda>spk.
     let OPK = GenerateDH cr opk in
     go_bind (CompressPoint (curve cr) (PubKey OPK)) (\<lambda>copk.
       Inr (SendIdentity \<lparr>xi_Origin = sg_Name sg, xi_Destination = (case user of None \<Rightarrow> [] | Some u \<Rightarrow> u), xi_HopLimit = 10,
              xi_IK = ik, xi_SPK = spk, xi_Sign = si_Sign (sg_selfIdentity sg), xi_OPK = Some copk\<rparr> OPK message))))"

text \<open>
  Starting from a published identity, with the prekey at index \<open>i\<close>. \<open>rand.Intn\<close> panics when there is none.
\<close>

definition iStartX3DH ::
  "Crypto \<Rightarrow> nat \<Rightarrow> bytes \<Rightarrow> bytes \<Rightarrow> SignalHandler \<Rightarrow> string \<Rightarrow> string option \<Rightarrow> RemoteIdentity \<Rightarrow> (SignalHandler \<times> signal_action list) go" where
  "iStartX3DH cr i ek d sg user message rIdentity =
     (if ri_OPK rIdentity = [] then Inl ExplicitPanic
      else
        let OPK = ri_OPK rIdentity ! (i mod length (ri_OPK rIdentity)) in
        go_bind (SInitializeX3DH cr ek d rIdentity (Some OPK) (sg_Name sg) user (sg_selfIdentity sg) (sg_stateTable sg) message)
          (\<lambda>(res, states).
        go_bind (CompressPoint (curve cr) OPK) (\<lambda>_.
          Inr (sg\<lparr>sg_stateTable := states\<rparr>, [SendWhisper (x3dh_packet res) user]))))"

definition hex_valid :: "string \<Rightarrow> bool" where
  "hex_valid s \<longleftrightarrow> even (length s) \<and> list_all (\<lambda>c. fromHexChar c \<noteq> None) s"

text \<open>
  \<open>retrieve\<close> is \<open>RetrieveFile\<close> of the node's store; \<open>ok\<close> the outcome of the file operations; \<open>opk\<close>, \<open>i\<close>, \<open>ek\<close> and \<open>d\<close> the random
  choices. A malformed identity string ends the process.
\<close>

definition sendPrivateRatchet ::
  "Crypto \<Rightarrow> SignalCodec \<Rightarrow> bool \<Rightarrow> (bytes \<Rightarrow> bytes) \<Rightarrow> bytes \<Rightarrow> nat \<Rightarrow> bytes \<Rightarrow> bytes \<Rightarrow> SignalHandler \<Rightarrow> string \<Rightarrow> string \<Rightarrow> string \<Rightarrow>
   (SignalHandler \<times> signal_action list) go" where
  "sendPrivateRatchet cr co ok retrieve opk i ek d sg message destination identity =
     (case haveRatchet sg destination of
        Some st \<Rightarrow>
          go_bind (RatchetEncrypt cr st message (sg_Name sg) destination []) (\<lambda>(rm, st').
          go_bind (StoreRatchet cr co ok (sg_files sg) st' (sg_Name sg) destination) (\<lambda>fs.
            Inr (add_latest (sg\<lparr>sg_stateTable := (sg_stateTable sg)(destination \<mapsto> st'), sg_files := fs\<rparr>) destination
                   \<lparr>rum_Origin = sg_Name sg, rum_ID = ucast (hdr_N (rm_Header rm)), rum_Text = message\<rparr>,
                 [SendWhisper (ratchet_packet rm) destination])))
      | None \<Rightarrow>
          if identity \<noteq> [] then
            if \<not> hex_valid identity then Inl ExplicitPanic
            else (case unjson_remote co (retrieve (hex_DecodeString identity)) of
                    None \<Rightarrow> go_bind (sStartX3DH cr opk sg (Some destination) (Some message)) (\<lambda>a. Inr (sg, [a]))
                  | Some c \<Rightarrow> go_bind (UncompressRemoteIdentity cr c) (\<lambda>r. iStartX3DH cr i ek d sg destination (Some message) r))
          else go_bind (sStartX3DH cr opk sg (Some destination) (Some message)) (\<lambda>a. Inr (sg, [a])))"

definition listenForClientMessage ::
  "Crypto \<Rightarrow> SignalCodec \<Rightarrow> bool \<Rightarrow> (bytes \<Rightarrow> bytes) \<Rightarrow> bytes \<Rightarrow> nat \<Rightarrow> bytes \<Rightarrow> bytes \<Rightarrow> SignalHandler \<Rightarrow> ClientMessage \<Rightarrow>
   (SignalHandler \<times> signal_action list) go" where
  "listenForClientMessage cr co ok retrieve opk i ek d sg m =
     go_bind (go_deref (cm_Destination m)) (\<lambda>destination.
       sendPrivateRatchet cr co ok retrieve opk i ek d sg (cm_Text m) destination
         (case cm_Identity m of None \<Rightarrow> [] | Some s \<Rightarrow> s))"

definition receivePrivateRatchet ::
  "Crypto \<Rightarrow> SignalCodec \<Rightarrow> bool \<Rightarrow> bytes \<Rightarrow> SignalHandler \<Rightarrow> RatchetMessage \<Rightarrow> (string option \<times> SignalHandler) go" where
  "receivePrivateRatchet cr co ok d sg rm =
     (let origin = hdr_Origin (rm_Header rm) in
      case haveRatchet sg origin of
        None \<Rightarrow> Inr (None, sg)
      | Some st \<Rightarrow>
          go_bind (RatchetDecrypt cr d st (rm_Header rm) (rm_Message rm)) (\<lambda>(plaintext, st').
            let sg1 = sg\<lparr>sg_stateTable := (sg_stateTable sg)(origin \<mapsto> st')\<rparr> in
            case plaintext of
              None \<Rightarrow> Inr (None, sg1)
            | Some text \<Rightarrow>
                let sg2 = add_latest sg1 origin \<lparr>rum_Origin = origin, rum_ID = ucast (hdr_N (rm_Header rm)), rum_Text = text\<rparr> in
                go_bind (StoreRatchet cr co ok (sg_files sg2) st' (sg_Name sg) origin) (\<lambda>fs.
                  Inr (Some text, sg2\<lparr>sg_files := fs\<rparr>))))"

definition processRatchetMessage ::
  "Crypto \<Rightarrow> SignalCodec \<Rightarrow> bool \<Rightarrow> bytes \<Rightarrow> SignalHandler \<Rightarrow> SignalPacket \<Rightarrow> (SignalHandler \<times> signal_action list) go" where
  "processRatchetMessage cr co ok d sg packet =
     go_bind (go_deref (sp_RatchetMessage packet)) (\<lambda>rm.
       if hdr_Destination (rm_Header rm) = sg_Name sg
       then go_bind (receivePrivateRatchet cr co ok d sg rm) (\<lambda>(_, sg'). Inr (sg', []))
       else Inr (sg, [SendWhisper packet (hdr_Destination (rm_Header rm))]))"

section \<open>Key agreement\<close>

text \<open>The answer to a received identity.\<close>

definition rStartX3DH :: "Crypto \<Rightarrow> bytes \<Rightarrow> bytes \<Rightarrow> SignalHandler \<Rightarrow> X3DHIdentity \<Rightarrow> (SignalHandler \<times> signal_action list) go" where
  "rStartX3DH cr ek d sg rIdentity =
     (let remote = \<lparr>ri_IK = UncompressPoint (curve cr) (xi_IK rIdentity), ri_SPK = UncompressPoint (curve cr) (xi_SPK rIdentity),
                    ri_Sign = xi_Sign rIdentity, ri_OPK = []\<rparr> in
      go_bind (go_deref (xi_OPK rIdentity)) (\<lambda>o0.
      go_bind (go_deref (xi_Sign rIdentity)) (\<lambda>_.
      go_bind (SInitializeX3DH cr ek d remote (Some (UncompressPoint (curve cr) o0)) (sg_Name sg) (xi_Origin rIdentity)
                 (sg_selfIdentity sg) (sg_stateTable sg) None) (\<lambda>(msg, states).
        Inr (sg\<lparr>sg_stateTable := states\<rparr>, [SendWhisper (x3dh_packet msg) (xi_Origin rIdentity)])))))"

definition processIdentityMessage ::
  "Crypto \<Rightarrow> bytes \<Rightarrow> bytes \<Rightarrow> SignalHandler \<Rightarrow> SignalPacket \<Rightarrow> (SignalHandler \<times> signal_action list) go" where
  "processIdentityMessage cr ek d sg packet =
     go_bind (go_deref (sp_X3DHIdentity packet)) (\<lambda>i.
       if xi_Destination i = sg_Name sg then rStartX3DH cr ek d sg i
       else Inr (sg, [SendWhisper packet (xi_Destination i)]))"

definition processDHMessage ::
  "Crypto \<Rightarrow> SignalCodec \<Rightarrow> bool \<Rightarrow> bytes \<Rightarrow> SignalHandler \<Rightarrow> SignalPacket \<Rightarrow> (SignalHandler \<times> signal_action list) go" where
  "processDHMessage cr co ok d sg packet =
     go_bind (go_deref (sp_X3DHMessage packet)) (\<lambda>xm.
       let header = rm_Header (xm_RMessage xm); origin = hdr_Origin header; k = GetKeyFromString (Sum256 cr) origin in
       if hdr_Destination header \<noteq> sg_Name sg then Inr (sg, [SendWhisper packet (hdr_Destination header)])
       else if k \<in> sg_identityChannels sg then Inr (sg, [ReplyToIdentity k xm])
       else
         go_bind (go_deref (xm_OPK xm)) (\<lambda>_.
         go_bind (IInitializeX3DH cr d xm (sg_selfIdentity sg) (sg_stateTable sg)) (\<lambda>(res, states).
           let sg1 = sg\<lparr>sg_stateTable := states\<rparr> in
           case res of
             None \<Rightarrow> Inr (sg1, [])
           | Some text \<Rightarrow>
               let sg2 = add_latest sg1 origin \<lparr>rum_Origin = origin, rum_ID = ucast (hdr_N header), rum_Text = text\<rparr> in
               (case haveRatchet sg2 origin of
                  None \<Rightarrow> Inr (sg2, [])
                | Some st \<Rightarrow> go_bind (StoreRatchet cr co ok (sg_files sg2) st (sg_Name sg) origin) (\<lambda>fs. Inr (sg2\<lparr>sg_files := fs\<rparr>, []))))))"

text \<open>
  The goroutine \<open>sendIdentity\<close> as a state: what it does first, on a timeout, and on an answer. \<open>None\<close> is its end; the flag is its
  result. The entry it makes in \<open>identityChannels\<close> stays.
\<close>

record Waiting =
  wt_identity :: X3DHIdentity
  wt_OPK :: DHPair
  wt_message :: "string option"
  wt_retry :: nat

definition sendIdentity_start :: "Crypto \<Rightarrow> SignalHandler \<Rightarrow> X3DHIdentity \<Rightarrow> DHPair \<Rightarrow> string option \<Rightarrow> (SignalHandler \<times> Waiting \<times> signal_action list) go" where
  "sendIdentity_start cr sg identity OPK message =
     go_bind (go_deref (xi_OPK identity)) (\<lambda>_.
       Inr (sg\<lparr>sg_identityChannels := insert (GetKeyFromString (Sum256 cr) (xi_Destination identity)) (sg_identityChannels sg)\<rparr>,
            \<lparr>wt_identity = identity, wt_OPK = OPK, wt_message = message, wt_retry = 3\<rparr>,
            [SendWhisper (identity_packet identity) (xi_Destination identity)]))"

definition sendIdentity_timeout :: "Crypto \<Rightarrow> bytes \<Rightarrow> Waiting \<Rightarrow> (Waiting option \<times> signal_action list) go" where
  "sendIdentity_timeout cr opk w =
     (if wt_retry w - 1 = 0 then Inr (None, [])
      else
        let OPK = GenerateDH cr opk in
        go_bind (CompressPoint (curve cr) (PubKey OPK)) (\<lambda>copk.
          let identity = (wt_identity w)\<lparr>xi_OPK := Some copk\<rparr> in
          Inr (Some (w\<lparr>wt_identity := identity, wt_OPK := OPK, wt_retry := wt_retry w - 1\<rparr>),
               [SendWhisper (identity_packet identity) (xi_Destination identity)])))"

definition sendIdentity_reply ::
  "Crypto \<Rightarrow> SignalCodec \<Rightarrow> bool \<Rightarrow> (bytes \<Rightarrow> bytes) \<Rightarrow> bytes \<Rightarrow> nat \<Rightarrow> bytes \<Rightarrow> bytes \<Rightarrow> bytes \<Rightarrow> SignalHandler \<Rightarrow> Waiting \<Rightarrow> X3DHMessage \<Rightarrow>
   (bool \<times> SignalHandler \<times> signal_action list) go" where
  "sendIdentity_reply cr co ok retrieve opk i ek d d' sg w reply =
     go_bind (go_deref (xm_OPK reply)) (\<lambda>_.
     go_bind (RInitializeX3DH cr d reply (Some (wt_OPK w)) (sg_selfIdentity sg) (sg_stateTable sg)) (\<lambda>(res, states).
       let sg1 = sg\<lparr>sg_stateTable := states\<rparr> in
       case wt_message w of
         None \<Rightarrow> Inr (False, sg1, [])
       | Some message \<Rightarrow>
           if res = Some (sg_Name sg1) then
             go_bind (sendPrivateRatchet cr co ok retrieve opk i ek d' sg1 message (hdr_Origin (rm_Header (xm_RMessage reply))) [])
               (\<lambda>(sg2, acts). Inr (True, sg2, acts))
           else Inr (False, sg1, [])))"

definition GetRatchetMessages :: "SignalHandler \<Rightarrow> string \<Rightarrow> RumorMessage list" where
  "GetRatchetMessages sg user = sg_latestMessages sg user"

definition GetIdentity :: "SignalHandler \<Rightarrow> string" where
  "GetIdentity sg = sg_identityStr sg"


section \<open>Sessions that have not been answered\<close>

lemma RatchetEncrypt_keeps_CKr: "RatchetEncrypt cr st pt og dst ad = Inr (m, st') \<Longrightarrow> rs_CKr st' = rs_CKr st"
  by (clarsimp simp: RatchetEncrypt_def Let_def go_bind_eq_Inr case_prod_unfold)

lemma SInitializeRatchet_CKr: "SInitializeRatchet cr d st SK pk peer = Inr st' \<Longrightarrow> rs_CKr st' = None"
  by (clarsimp simp: SInitializeRatchet_def Let_def go_bind_eq_Inr case_prod_unfold)

lemma CompressRatchet_nil: "rs_CKr st = None \<Longrightarrow> \<exists>e. CompressRatchet cr st = Inl e"
  by (cases "CompressRatchet cr st") (auto simp: CompressRatchet_def go_bind_eq_Inr)

lemma send_without_chain:
  assumes "haveRatchet sg destination = Some st" "rs_CKr st = None"
  shows "\<exists>e. sendPrivateRatchet cr co ok retrieve opk i ek d sg message destination identity = Inl e"
proof (cases "RatchetEncrypt cr st message (sg_Name sg) destination []")
  case (Inl e)
  with assms show ?thesis by (simp add: sendPrivateRatchet_def)
next
  case (Inr r)
  obtain rm st' where r: "r = (rm, st')" by (cases r)
  obtain e where "CompressRatchet cr st' = Inl e"
    using CompressRatchet_nil RatchetEncrypt_keeps_CKr [OF Inr [unfolded r]] assms(2) by auto
  with Inr r assms show ?thesis by (simp add: sendPrivateRatchet_def StoreRatchet_def)
qed

lemma SInitializeX3DH_session:
  assumes "SInitializeX3DH cr ek d rI opk snd_name rcv_name self states message = Inr (Some m, states')"
  shows "\<exists>st. states' rcv_name = Some st \<and> rs_CKr st = None"
proof -
  obtain sk st0 st x y z v w where "SInitializeRatchet cr d zero_ratchet sk (ri_SPK rI) rcv_name = Inr st0"
    "RatchetEncrypt cr st0 x y z w = Inr (v, st)" "states' rcv_name = Some st"
    using assms unfolding SInitializeX3DH_def Let_def
    by (clarsimp simp: go_bind_eq_Inr split: if_splits)
  then show ?thesis using RatchetEncrypt_keeps_CKr SInitializeRatchet_CKr by metis
qed

text \<open>
  Impatience crashes the node: once a node has opened a session from a published identity, sending another
  message to the same peer before the first reply panics, whatever the message and whether or not files can be written,
  because the session is saved after every message and saving dereferences the receiving chain, which does not exist yet.
\<close>

theorem second_message_before_reply_panics:
  assumes "iStartX3DH cr i ek d sg user message rIdentity = Inr (sg', [SendWhisper (x3dh_packet (Some m)) user])"
  shows "\<exists>e. sendPrivateRatchet cr co ok retrieve opk i' ek' d' sg' message' user identity = Inl e"
proof -
  obtain states where "SInitializeX3DH cr ek d rIdentity (Some (ri_OPK rIdentity ! (i mod length (ri_OPK rIdentity)))) (sg_Name sg) user
      (sg_selfIdentity sg) (sg_stateTable sg) message = Inr (Some m, states)" "sg' = sg\<lparr>sg_stateTable := states\<rparr>"
    using assms by (auto simp: iStartX3DH_def Let_def go_bind_eq_Inr x3dh_packet_def split: if_splits)
  with SInitializeX3DH_session obtain st where "haveRatchet sg' user = Some st" "rs_CKr st = None"
    by (fastforce simp: haveRatchet_def)
  then show ?thesis by (rule send_without_chain)
qed

section \<open>A session from a published identity\<close>

lemma CompressRatchet_complete:
  assumes laws: "crypto_laws cr" and st: "ahead cr t a b X Y" "follows cr t b Y X"
  shows "\<exists>c. CompressRatchet cr X = Inr c"
proof -
  have v: "valid_scalar cr a" "valid_scalar cr b" and DHr: "rs_DHr X = Some (pub cr b)" "\<exists>rk. rs_RK X = Some rk"
    "\<exists>ck. sender cr a ck 0 X" using st(1) by (auto simp: ahead_def)
  have "rs_CKr X \<noteq> None" using st(2) by (auto simp: follows_def)
  moreover have "rs_DHs X = Some (GenerateDH cr a)" "\<exists>cks. rs_CKs X = Some cks" using DHr(3) by (auto simp: sender_def)
  ultimately show ?thesis
    using CompressRatchet_restore [OF laws _ PubKey_wf [OF laws v(1)] DHr(1) PubKey_wf [OF laws v(2)]] DHr(2) by blast
qed

lemma RatchetEncrypt_compressible:
  "RatchetEncrypt cr X pt og dst ad = Inr (m, X') \<Longrightarrow> CompressRatchet cr X = Inr c \<Longrightarrow> \<exists>c'. CompressRatchet cr X' = Inr c'"
  by (clarsimp simp: RatchetEncrypt_def CompressRatchet_def go_bind_eq_Inr Let_def case_prod_unfold)

lemma StoreRatchet_ok: "CompressRatchet cr st = Inr c \<Longrightarrow> \<exists>fs'. StoreRatchet cr co ok fs st og dst = Inr fs'"
  by (simp add: StoreRatchet_def)

lemma private_reply:
  assumes laws: "crypto_laws cr" and names: "a = sg_Name sgA" "b = sg_Name sgB"
    and have_B: "haveRatchet sgB a = Some rB" "CompressRatchet cr rB = Inr c" and have_A: "haveRatchet sgA b = Some rA"
    and ahead: "ahead cr (Suc 0) d2 d1 rB rA" and d3: "valid_scalar cr d3" "pub cr d3 \<noteq> pub cr d1"
  shows "\<exists>rm sgB' sgA'.
    sendPrivateRatchet cr co ok retrieve opk i ek d sgB reply a identity = Inr (sgB', [SendWhisper (ratchet_packet rm) a]) \<and>
    processRatchetMessage cr co ok d3 sgA (ratchet_packet rm) = Inr (sgA', []) \<and>
    map rum_Text (GetRatchetMessages sgA' b) = map rum_Text (GetRatchetMessages sgA b) @ [reply]"
proof -
  have z: "Suc 0 < 2 ^ 63" by simp
  obtain rm rB' rA' where t: "RatchetEncrypt cr rB reply b a [] = Inr (rm, rB')"
    "RatchetDecrypt cr d3 rA (rm_Header rm) (rm_Message rm) = Inr (Some reply, rA')"
    "ahead cr (Suc (Suc 0)) d3 d2 rA' rB'" "follows cr (Suc (Suc 0)) d2 rB' rA'"
    using turn_ahead [OF laws ahead z d3] by blast
  obtain c2 where c2: "CompressRatchet cr rB' = Inr c2" using RatchetEncrypt_compressible [OF t(1) have_B(2)] by blast
  obtain c3 where c3: "CompressRatchet cr rA' = Inr c3" using CompressRatchet_complete [OF laws t(3,4)] by blast
  obtain fs2 where fs2: "StoreRatchet cr co ok (sg_files sgB) rB' b a = Inr fs2" using StoreRatchet_ok [OF c2] by blast
  obtain fs3 where fs3: "StoreRatchet cr co ok (sg_files sgA) rA' a b = Inr fs3" using StoreRatchet_ok [OF c3] by blast
  note h = RatchetEncrypt_header [OF t(1)]
  have "\<exists>sgB'. sendPrivateRatchet cr co ok retrieve opk i ek d sgB reply a identity = Inr (sgB', [SendWhisper (ratchet_packet rm) a])"
    using t(1) fs2 have_B(1) names by (simp add: sendPrivateRatchet_def haveRatchet_def add_latest_def)
  moreover have "\<exists>sgA'. processRatchetMessage cr co ok d3 sgA (ratchet_packet rm) = Inr (sgA', []) \<and>
      map rum_Text (GetRatchetMessages sgA' b) = map rum_Text (GetRatchetMessages sgA b) @ [reply]"
    using t(2) fs3 h have_A names
    by (simp add: processRatchetMessage_def ratchet_packet_def receivePrivateRatchet_def haveRatchet_def add_latest_def Let_def
        GetRatchetMessages_def)
  ultimately show ?thesis by blast
qed

text \<open>
  Claim C39. Two nodes talk: a node that sends a text to a name with the metahash of the identity published under it starts a
  session with its first packet; the node of that name, on that packet, records the text (up to its first colon) under
  the name of the sender, and keeps the session; what it then answers is sent under this session, reaches the first node, and is
  recorded there, each side saving its session on the way.
\<close>

theorem first_message_and_reply:
  assumes laws: "crypto_laws cr"
    and v: "valid_scalar cr ika" "valid_scalar cr ek" "valid_scalar cr d1" "valid_scalar cr ik" "valid_scalar cr spk"
      "valid_scalar cr d2" "\<forall>i < DEFAULTOPKN. valid_scalar cr (opks i)"
    and d3: "valid_scalar cr d3" "pub cr d3 \<noteq> pub cr d1" and d2: "pub cr d2 \<noteq> pub cr spk"
    and gen: "GenerateIdentity cr ik spk rnd opks = Inr (sg_selfIdentity sgB)"
    and A: "si_IK (sg_selfIdentity sgA) = GenerateDH cr ika"
    and names: "CHR '':'' \<notin> set (sg_Name sgA)" "CHR '':'' \<notin> set (sg_Name sgB)"
    and json: "unjson_remote co (json_remote co r) = Some r"
    and published: "go_bind (CompressIdentity cr (sg_selfIdentity sgB)) CompressRemoteIdentity = Inr r"
      "retrieve (hex_DecodeString identity) = json_remote co r" "identity \<noteq> []" "hex_valid identity"
    and new: "haveRatchet sgA (sg_Name sgB) = None" "GetKeyFromString (Sum256 cr) (sg_Name sgA) \<notin> sg_identityChannels sgB"
  shows "\<exists>msg sgA' sgB' rm sgB'' sgA''.
    sendPrivateRatchet cr co ok retrieve opk i ek d1 sgA m (sg_Name sgB) identity =
      Inr (sgA', [SendWhisper (x3dh_packet (Some msg)) (sg_Name sgB)]) \<and>
    processDHMessage cr co ok d2 sgB (x3dh_packet (Some msg)) = Inr (sgB', []) \<and>
    map rum_Text (GetRatchetMessages sgB' (sg_Name sgA)) =
      map rum_Text (GetRatchetMessages sgB (sg_Name sgA)) @ [takeWhile (\<lambda>c. c \<noteq> CHR '':'') m] \<and>
    sendPrivateRatchet cr co ok retrieve opk' i' ek' d' sgB' reply (sg_Name sgA) identity' =
      Inr (sgB'', [SendWhisper (ratchet_packet rm) (sg_Name sgA)]) \<and>
    processRatchetMessage cr co ok d3 sgA' (ratchet_packet rm) = Inr (sgA'', []) \<and>
    map rum_Text (GetRatchetMessages sgA'' (sg_Name sgB)) = map rum_Text (GetRatchetMessages sgA (sg_Name sgB)) @ [reply]"
proof -
  let ?A = "sg_selfIdentity sgA" and ?B = "sg_selfIdentity sgB" and ?a = "sg_Name sgA" and ?b = "sg_Name sgB"
  let ?rid = "\<lparr>ri_IK = PubKey (si_IK ?B), ri_SPK = PubKey (si_SPK ?B), ri_Sign = si_Sign ?B, ri_OPK = map PubKey (si_OPK ?B)\<rparr>"
  let ?j = "i mod DEFAULTOPKN" and ?w = "takeWhile (\<lambda>c. c \<noteq> CHR '':'') m"
  have j: "?j < DEFAULTOPKN" by (simp add: DEFAULTOPKN_def)
  note parts = GenerateIdentity_parts [OF laws v(4,5) gen]
  have own: "own_identity cr ?B" using parts v by (auto simp: own_identity_def PubKey_wf [OF laws])
  have len: "length (si_OPK ?B) = DEFAULTOPKN" using own by (simp add: own_identity_def)
  have rid: "UncompressRemoteIdentity cr r = Inr ?rid"
    using published_identity [OF laws own] published(1) by auto
  obtain msg rA rB where x: "SInitializeX3DH cr ek d1 ?rid (Some (PubKey (si_OPK ?B ! ?j))) ?a ?b ?A (sg_stateTable sgA) (Some m) =
      Inr (Some msg, (sg_stateTable sgA)(?b \<mapsto> rA))"
    "IInitializeX3DH cr d2 msg ?B (sg_stateTable sgB) = Inr (Some ?w, (sg_stateTable sgB)(?a \<mapsto> rB))"
    "hdr_Origin (rm_Header (xm_RMessage msg)) = ?a" "hdr_Destination (rm_Header (xm_RMessage msg)) = ?b" "xm_OPK msg \<noteq> None"
    "ahead cr (Suc 0) d2 d1 rB rA" "follows cr (Suc 0) d1 rA rB"
    using x3dh_initiation [OF laws v j gen A names d2] by blast
  let ?sgA = "sgA\<lparr>sg_stateTable := (sg_stateTable sgA)(?b \<mapsto> rA)\<rparr>"
  have opk_ok: "CompressPoint (curve cr) (PubKey (si_OPK ?B ! ?j)) = Inr (enc_pub cr (opks ?j))"
    using parts(3) j v(7) by (simp add: pub_encoding [OF laws])
  have ne: "si_OPK ?B \<noteq> []" using len by (auto simp: DEFAULTOPKN_def)
  have sent: "sendPrivateRatchet cr co ok retrieve opk i ek d1 sgA m ?b identity =
      Inr (?sgA, [SendWhisper (x3dh_packet (Some msg)) ?b])"
    using new(1) published(2-) json rid x(1) len ne opk_ok j
    by (simp add: sendPrivateRatchet_def iStartX3DH_def Let_def)
  obtain c where c: "CompressRatchet cr rB = Inr c" using CompressRatchet_complete [OF laws x(6,7)] by blast
  obtain fs1 where fs1: "StoreRatchet cr co ok (sg_files sgB) rB ?b ?a = Inr fs1"
    using StoreRatchet_ok [OF c] by blast
  define sgB' where "sgB' = (add_latest (sgB\<lparr>sg_stateTable := (sg_stateTable sgB)(?a \<mapsto> rB)\<rparr>) ?a
      \<lparr>rum_Origin = ?a, rum_ID = ucast (hdr_N (rm_Header (xm_RMessage msg))), rum_Text = ?w\<rparr>)\<lparr>sg_files := fs1\<rparr>"
  obtain o' where o': "xm_OPK msg = Some o'" using x(5) by blast
  have got: "processDHMessage cr co ok d2 sgB (x3dh_packet (Some msg)) = Inr (sgB', [])"
    using x(2,3,4) new(2) fs1 o'
    by (simp add: processDHMessage_def x3dh_packet_def Let_def haveRatchet_def add_latest_def sgB'_def)
  have "map rum_Text (GetRatchetMessages sgB' ?a) = map rum_Text (GetRatchetMessages sgB ?a) @ [?w]"
    by (simp add: sgB'_def add_latest_def GetRatchetMessages_def)
  moreover have "\<exists>rm sgB'' sgA''.
    sendPrivateRatchet cr co ok retrieve opk' i' ek' d' sgB' reply ?a identity' = Inr (sgB'', [SendWhisper (ratchet_packet rm) ?a]) \<and>
    processRatchetMessage cr co ok d3 ?sgA (ratchet_packet rm) = Inr (sgA'', []) \<and>
    map rum_Text (GetRatchetMessages sgA'' ?b) = map rum_Text (GetRatchetMessages ?sgA ?b) @ [reply]"
    by (rule private_reply [OF laws _ _ _ c _ x(6) d3]) (simp_all add: haveRatchet_def sgB'_def add_latest_def)
  then obtain rm sgB'' sgA'' where
    "sendPrivateRatchet cr co ok retrieve opk' i' ek' d' sgB' reply ?a identity' = Inr (sgB'', [SendWhisper (ratchet_packet rm) ?a])"
    "processRatchetMessage cr co ok d3 ?sgA (ratchet_packet rm) = Inr (sgA'', [])"
    "map rum_Text (GetRatchetMessages sgA'' ?b) = map rum_Text (GetRatchetMessages sgA ?b) @ [reply]"
    by (auto simp: GetRatchetMessages_def)
  ultimately show ?thesis using sent got by blast
qed

section \<open>Restart\<close>

lemma HasSuffix_append: "HasSuffix (xs @ ys) ys"
  by (simp add: HasSuffix_def)

lemma HasSuffix_mono: "HasSuffix a b \<Longrightarrow> HasSuffix (xs @ a @ c) (b @ c)"
  by (auto simp: HasSuffix_def)

text \<open>
  Sessions survive a restart, and leak to namesakes: a session with both chains that was saved for the node
  \<open>origin\<close> is loaded unchanged, under the name of its peer, by the node that restarts as \<open>origin\<close>, but equally by every node in
  the same folder whose name is a suffix of \<open>origin\<close>, because files are selected by the end of their name.
\<close>

theorem saved_session_loaded:
  assumes laws: "crypto_laws cr" and json: "\<And>c. CompressRatchet cr st = Inr c \<Longrightarrow> unjson_ratchet co (json_ratchet co c) = Some c"
    and st: "rs_DHs st = Some DHs" "wf_point (curve cr) (PubKey DHs)" "rs_DHr st = Some DHr" "wf_point (curve cr) DHr"
      "rs_RK st = Some rk" "rs_CKs st = Some cks" "rs_CKr st \<noteq> None"
    and name: "HasSuffix origin name"
  shows "\<exists>fs'. StoreRatchet cr co True fs st origin destination = Inr fs' \<and>
    retrieveRatchets cr co fs' (Some [destination @ ''_'' @ origin @ RatchetFile]) name states = Inr (states(rs_Peer st \<mapsto> st))"
proof -
  obtain c where c: "CompressRatchet cr st = Inr c" "UncompressRatchet cr c = st"
    using CompressRatchet_restore [OF laws st(1-6)] st(7) by blast
  let ?f = "destination @ ''_'' @ origin @ RatchetFile"
  have "HasSuffix ?f (name @ RatchetFile)" using HasSuffix_mono [OF name, of "destination @ ''_''" RatchetFile] by simp
  with c show ?thesis by (simp add: StoreRatchet_def retrieveRatchets_def RetrieveRatchet_def json)
qed

section \<open>A concrete network\<close>

text \<open>A node with nothing stored, and a codec that knows three values.\<close>

definition toy_node :: "string \<Rightarrow> SelfIdentity \<Rightarrow> SignalHandler" where
  "toy_node name identity = \<lparr>sg_Name = name, sg_selfIdentity = identity, sg_stateTable = Map.empty, sg_identityChannels = {},
     sg_latestMessages = (\<lambda>_. []), sg_identityStr = [], sg_files = Map.empty\<rparr>"

lemma toy_node_sel: "sg_Name (toy_node n i) = n" "sg_selfIdentity (toy_node n i) = i" "GetRatchetMessages (toy_node n i) u = []"
  by (simp_all add: toy_node_def GetRatchetMessages_def)

definition toy_codec :: "DRatchetStateCompressed \<Rightarrow> RemoteIdentityCompressed \<Rightarrow> SignalPacket \<Rightarrow> SignalCodec" where
  "toy_codec c r p =
     \<lparr>json_ratchet = (\<lambda>x. if x = c then [1] else []), unjson_ratchet = (\<lambda>b. if b = [1] then Some c else None),
      json_self = (\<lambda>_. []), unjson_self = (\<lambda>_. None),
      json_remote = (\<lambda>x. if x = r then [2] else []), unjson_remote = (\<lambda>b. if b = [2] then Some r else None),
      sp_Encode = (\<lambda>x. if x = p then replicate 12 3 else []), sp_Decode = (\<lambda>b. if b = replicate 12 3 then p else identity_packet
        \<lparr>xi_Origin = [], xi_Destination = [], xi_HopLimit = 0, xi_IK = [], xi_SPK = [], xi_Sign = None, xi_OPK = None\<rparr>)\<rparr>"

lemma toy_network:
  obtains A B :: SelfIdentity where "GenerateIdentity toy_crypto [3] [1] [] (\<lambda>_. [2]) = Inr B" "si_IK A = GenerateDH toy_crypto [1]"
proof -
  obtain B where B: "GenerateIdentity toy_crypto [3] [1] [] (\<lambda>_. [2]) = Inr B"
    by (simp add: GenerateIdentity_def Let_def pub_encoding [OF toy_laws toy_scalars(1)])
  then show ?thesis using that [of B "B\<lparr>si_IK := GenerateDH toy_crypto [1]\<rparr>"] by simp
qed

lemma toy_pubs_differ: "d \<in> {[1], [2], [3], [4]} \<Longrightarrow> e \<in> {[1], [2], [3], [4]} \<Longrightarrow> d \<noteq> e \<Longrightarrow> pub toy_crypto d \<noteq> pub toy_crypto e"
  by (auto simp: GenerateDH_def toy_crypto_def toy_curve_def toy_mult_def toy_multiples_def big_SetBytes_def Let_def)

theorem second_message_before_reply_panics_witness:
  "\<exists>A (B :: SelfIdentity) co m sg'. iStartX3DH toy_crypto 3 [2] [2] (toy_node ''alice'' A) ''bob'' (Some ''hi'')
      \<lparr>ri_IK = PubKey (si_IK B), ri_SPK = PubKey (si_SPK B), ri_Sign = si_Sign B, ri_OPK = map PubKey (si_OPK B)\<rparr> =
      Inr (sg', [SendWhisper (x3dh_packet (Some m)) ''bob'']) \<and>
    (\<exists>e. sendPrivateRatchet toy_crypto co True (\<lambda>_. []) [2] 0 [2] [2] sg' ''again'' ''bob'' [] = Inl e)"
proof -
  obtain A B :: SelfIdentity where B: "GenerateIdentity toy_crypto [3] [1] [] (\<lambda>_. [2]) = Inr B" and A: "si_IK A = GenerateDH toy_crypto [1]"
    by (rule toy_network)
  let ?rid = "\<lparr>ri_IK = PubKey (si_IK B), ri_SPK = PubKey (si_SPK B), ri_Sign = si_Sign B, ri_OPK = map PubKey (si_OPK B)\<rparr>"
  have v: "\<forall>i < DEFAULTOPKN. valid_scalar toy_crypto ((\<lambda>_. [2]) i)" and j: "3 < DEFAULTOPKN" by (simp_all add: DEFAULTOPKN_def)
  have opk: "si_OPK B = map (GenerateDH toy_crypto) (map (\<lambda>_. [2]) [0..<DEFAULTOPKN])"
    by (rule GenerateIdentity_parts [OF toy_laws toy_scalars(3,1) B])
  obtain msg rA where "SInitializeX3DH toy_crypto [2] [2] ?rid (Some (PubKey (si_OPK B ! 3))) ''alice'' ''bob'' A Map.empty (Some ''hi'') =
      Inr (Some msg, Map.empty(''bob'' \<mapsto> rA))"
    using x3dh_initiation [OF toy_laws toy_scalars(1,2,2,3,1,3) v j B A, of "''alice''" "''bob''" Map.empty "''hi''" Map.empty] toy_pubs_differ [of "[3]" "[1]"]
    by auto
  then have i: "iStartX3DH toy_crypto 3 [2] [2] (toy_node ''alice'' A) ''bob'' (Some ''hi'') ?rid =
      Inr ((toy_node ''alice'' A)\<lparr>sg_stateTable := Map.empty(''bob'' \<mapsto> rA)\<rparr>, [SendWhisper (x3dh_packet (Some msg)) ''bob''])"
    using j opk pub_encoding(1) [OF toy_laws toy_scalars(2)]
    by (simp add: iStartX3DH_def toy_node_def Let_def DEFAULTOPKN_def)
  show ?thesis
    using i second_message_before_reply_panics [where co = co and ok = True and retrieve = "\<lambda>_. []" and opk = "[2]" and i' = 0 and
        ek' = "[2]" and d' = "[2]" and message' = "''again''" and identity = "[]", OF i] by metis
qed

theorem first_message_and_reply_witness:
  "\<exists>A B co retrieve msg sgA' sgB' rm sgB'' sgA''.
    sendPrivateRatchet toy_crypto co True retrieve [2] 3 [2] [2] (toy_node ''alice'' A) ''hi: there'' ''bob'' ''00'' =
      Inr (sgA', [SendWhisper (x3dh_packet (Some msg)) ''bob'']) \<and>
    processDHMessage toy_crypto co True [3] (toy_node ''bob'' B) (x3dh_packet (Some msg)) = Inr (sgB', []) \<and>
    map rum_Text (GetRatchetMessages sgB' ''alice'') = [''hi''] \<and>
    sendPrivateRatchet toy_crypto co True retrieve [2] 0 [2] [2] sgB' ''hello'' ''alice'' [] =
      Inr (sgB'', [SendWhisper (ratchet_packet rm) ''alice'']) \<and>
    processRatchetMessage toy_crypto co True [4] sgA' (ratchet_packet rm) = Inr (sgA'', []) \<and>
    map rum_Text (GetRatchetMessages sgA'' ''bob'') = [''hello'']"
proof -
  obtain A B :: SelfIdentity where B: "GenerateIdentity toy_crypto [3] [1] [] (\<lambda>_. [2]) = Inr B" and A: "si_IK A = GenerateDH toy_crypto [1]"
    by (rule toy_network)
  have v: "\<forall>i < DEFAULTOPKN. valid_scalar toy_crypto ((\<lambda>_. [2]) i)" by simp
  have "own_identity toy_crypto B"
    using GenerateIdentity_parts [OF toy_laws toy_scalars(3,1) B] by (auto simp: own_identity_def PubKey_wf [OF toy_laws])
  then obtain r where r: "go_bind (CompressIdentity toy_crypto B) CompressRemoteIdentity = Inr r"
    using published_identity [OF toy_laws] by fastforce
  define co where "co = toy_codec undefined r undefined"
  have co: "unjson_remote co (json_remote co r) = Some r" by (simp add: co_def toy_codec_def)
  have "\<exists>msg sgA' sgB' rm sgB'' sgA''.
    sendPrivateRatchet toy_crypto co True (\<lambda>_. json_remote co r) [2] 3 [2] [2] (toy_node ''alice'' A) ''hi: there'' ''bob'' ''00'' =
      Inr (sgA', [SendWhisper (x3dh_packet (Some msg)) ''bob'']) \<and>
    processDHMessage toy_crypto co True [3] (toy_node ''bob'' B) (x3dh_packet (Some msg)) = Inr (sgB', []) \<and>
    map rum_Text (GetRatchetMessages sgB' ''alice'') =
      map rum_Text (GetRatchetMessages (toy_node ''bob'' B) ''alice'') @ [takeWhile (\<lambda>c. c \<noteq> CHR '':'') ''hi: there''] \<and>
    sendPrivateRatchet toy_crypto co True (\<lambda>_. json_remote co r) [2] 0 [2] [2] sgB' ''hello'' ''alice'' [] =
      Inr (sgB'', [SendWhisper (ratchet_packet rm) ''alice'']) \<and>
    processRatchetMessage toy_crypto co True [4] sgA' (ratchet_packet rm) = Inr (sgA'', []) \<and>
    map rum_Text (GetRatchetMessages sgA'' ''bob'') = map rum_Text (GetRatchetMessages (toy_node ''alice'' A) ''bob'') @ [''hello'']"
    by (rule first_message_and_reply [where sgA = "toy_node ''alice'' A" and sgB = "toy_node ''bob'' B",
          unfolded toy_node_sel(1,2), OF toy_laws toy_scalars(1,2,2,3,1,3) v toy_scalars(4) _ _ B A _ _ co r refl])
      (simp_all add: toy_pubs_differ haveRatchet_def toy_node_def hex_valid_def fromHexChar_def)
  then show ?thesis
    by (intro exI [of _ A] exI [of _ B] exI [of _ co] exI [of _ "\<lambda>_. json_remote co r"]) (simp add: toy_node_sel)
qed

theorem saved_session_loaded_witness:
  "\<exists>st co fs'. rs_Peer st = ''bob'' \<and> StoreRatchet toy_crypto co True Map.empty st ''alice'' ''bob'' = Inr fs' \<and>
    retrieveRatchets toy_crypto co fs' (Some [''bob_aliceRatchet.txt'']) ''ice'' Map.empty = Inr [''bob'' \<mapsto> st]"
proof -
  let ?st = "zero_ratchet\<lparr>rs_Peer := ''bob'', rs_DHs := Some (GenerateDH toy_crypto [1]), rs_DHr := Some (pub toy_crypto [2]),
    rs_RK := Some [1], rs_CKs := Some [2], rs_CKr := Some [3]\<rparr>"
  define co where "co = toy_codec (projr (CompressRatchet toy_crypto ?st)) undefined undefined"
  have co: "CompressRatchet toy_crypto ?st = Inr c \<Longrightarrow> unjson_ratchet co (json_ratchet co c) = Some c" for c
    by (simp add: co_def toy_codec_def)
  have "\<exists>fs'. StoreRatchet toy_crypto co True Map.empty ?st ''alice'' ''bob'' = Inr fs' \<and>
    retrieveRatchets toy_crypto co fs' (Some [''bob'' @ ''_'' @ ''alice'' @ RatchetFile]) ''ice'' Map.empty = Inr (Map.empty(rs_Peer ?st \<mapsto> ?st))"
    by (rule saved_session_loaded [OF toy_laws co _ PubKey_wf [OF toy_laws toy_scalars(1)] _ PubKey_wf [OF toy_laws toy_scalars(2)]])
      (simp_all add: HasSuffix_def)
  then show ?thesis by (intro exI [of _ ?st] exI [of _ co]) (simp add: RatchetFile_def)
qed

section \<open>Delivery over Whisper\<close>

text \<open>
  Claim C40. Signal packets reach the node they are sent to: the envelope Whisper makes of a packet for a node name, once handed to
  the subscribers of the node of that name, puts a message into the filter the node installed when it started, and that
  message decodes to the packet sent, which then goes to the channel of its kind.
\<close>

theorem signal_packet_delivered:
  assumes codec: "sp_Decode co (sp_Encode co packet) = packet" and len: "gcm_NonceSize \<le> length (sp_Encode co packet)"
    and env: "GetEnvelopeFromMessage wc nonce rnd rounds now \<lparr>mp_Src = None, mp_Dst = None, mp_KeySym = None,
        mp_Topic = nm_Topic (signal_message co packet name), mp_PowTime = nm_PowTime (signal_message co packet name),
        mp_TTL = nm_TTL (signal_message co packet name), mp_Payload = nm_Payload (signal_message co packet name), mp_Padding = []\<rparr> = Some env"
    and reach: "fs_reachable fs" "\<not> fs_locked fs" and rng: "\<And>s. finite s \<Longrightarrow> set (rng s) = s"
    and sub: "fs_subscribers fs i = Some p" "fs_heap fs p = Some f" "fl_KeyAsym f = None" "fl_KeySym f = None"
      "fl_Topics f = fo_Topics (signal_filter name)" "fl_Pow f = fo_MinPow (signal_filter name)"
    and pow: "float_geq (en_pow env) (fl_Pow f)" and unseen: "fl_Messages f (GetHash wc env) = None"
  shows "\<exists>fs' f' msg. NotifySubscribers rng wc fs env = Some (Inr fs') \<and> fs_heap fs' p = Some f' \<and>
    fl_Messages f' = (fl_Messages f)(GetHash wc env \<mapsto> msg) \<and> sp_Decode co (rm_Payload msg) = packet \<and>
    signal_mode (sp_Decode co (rm_Payload msg)) = signal_mode packet"
proof -
  have e: "en_Data env = sp_Encode co packet" "en_Topic env = ConvertBytesToTopic (string_bytes name)"
    using env by (auto simp: GetEnvelopeFromMessage_def signal_message_def addNonceForPow_def computePow_def NewEnvelope_def Let_def)
  have l: "gcm_NonceSize \<le> length (en_Data env)" using len e by simp
  obtain msg where msg: "GetMessageFromEnvelope wc env f = Inr (Some msg)" "rm_Payload msg = sp_Encode co packet"
    using sub(3,4) e(1) by (auto simp: GetMessageFromEnvelope_def Let_def)
  have h: "rm_EnvelopeHash msg = GetHash wc env" using GetMessage_total [OF l, of wc f] msg(1) by auto
  have inv: "fs_inv fs" by (rule fs_reachable_inv [OF reach(1)])
  let ?ps = "getSubscribersByTopic rng fs (en_Topic env)"
  have ps: "set ?ps = subscribed fs (en_Topic env)" by (rule getSubscribersByTopic_set [OF inv rng])
  have "fo_Topics (signal_filter name) = [ConvertBytesToTopic (string_bytes name)]" by (simp add: signal_filter_def)
  then have "p \<in> set ?ps" using ps sub(1,2,5) e(2) by (auto simp: subscribed_def ConvertBytesToTopic_idem)
  moreover have "\<forall>q \<in> set ?ps. fs_heap fs q \<noteq> None" using ps by (auto simp: subscribed_def)
  ultimately obtain fs' where "go_foldM (notify_one wc env) fs ?ps = Inr fs'" "fs_heap fs' p = Some (delivered f (GetHash wc env) msg)"
    using notify_all_deliver [OF l _ sub(2) _ msg(1) h disjI2 [OF pow], of ?ps] by auto
  with reach(2) unseen msg(2) codec show ?thesis by (auto simp: NotifySubscribers_def delivered_def)
qed

lemma quotient_of_frac:
  assumes "0 < d" "coprime n d"
  shows "quotient_of (of_int n / of_int d) = (n, d)"
  unfolding Fract_of_int_quotient [symmetric] quotient_of_Fract using assms by (simp add: Rat.normalize_def)

lemma defaultPoWRequired_eq: "defaultPoWRequired = Fin (3602879701896397 / 18014398509481984)"
proof -
  have q: "quotient_of (1 / 5) = (1, 5)" using quotient_of_frac [of 5 1] by simp
  have e: "float_exponent (Suc 0) 5 = - 55" by (simp add: float_exponent_def scaled_def Let_def BitLen.simps)
  have "float_round_pos (Suc 0) 5 = Fin (3602879701896397 / 18014398509481984)"
    by (simp add: float_round_pos_def e scaled_def div_half_even_def Let_def)
  then show ?thesis by (simp add: defaultPoWRequired_def float_of_rat_def q)
qed

lemma toy_pow: "float_of_rat (2048 / 75) = Fin (7686143364045647 / 281474976710656)"
proof -
  have "coprime ((2 :: int) ^ 11) 75" by (simp only: coprime_power_left_iff coprime_left_2_iff_odd) simp
  then have "coprime (2048 :: int) 75" by simp
  from quotient_of_frac [OF _ this] have q: "quotient_of (2048 / 75) = (2048, 75)" by simp
  have e: "float_exponent 2048 75 = - 48" by (simp add: float_exponent_def scaled_def Let_def BitLen.simps)
  have "float_round_pos 2048 75 = Fin (7686143364045647 / 281474976710656)"
    by (simp add: float_round_pos_def e scaled_def div_half_even_def Let_def)
  then show ?thesis by (simp add: float_of_rat_def q)
qed

text \<open>A hash with sixteen leading zero bits.\<close>

definition sixteen_zeros :: WCrypto where
  "sixteen_zeros = toy_wcrypto\<lparr>sha3_Sum256 := (\<lambda>_. [0, 0, 128] @ replicate 29 0)\<rparr>"

lemma leadingZeroes_sixteen: "leadingZeroes sixteen_zeros e n = 16"
proof -
  have "big_SetBytes ([0, 0, 128] @ replicate 29 0) = 128 * 256 ^ 29"
    using SetBytes_zeros [of 29 "[]"] by (simp only: SetBytes_append) (simp add: big_SetBytes_def)
  then show ?thesis by (simp add: leadingZeroes_def sixteen_zeros_def BitLen.simps)
qed

lemma GetSize_sixteen: "GetSize sixteen_zeros e = 24 + length (en_Topic e) + length (en_Data e)"
  by (simp add: GetSize_def encode_Envelope_def sixteen_zeros_def toy_wcrypto_def)

lemma toy_size: "float_mul (float64_of 40) (float64_of 60) = Fin 2400"
proof -
  have "float_round_pos 2400 1 = float64_of 2400" by (simp add: float64_of_def)
  then show ?thesis by (simp add: float64_of_exact float_of_rat_def)
qed

theorem signal_packet_delivered_witness:
  "let name = ''bob''; topic = ConvertBytesToTopic (string_bytes name);
       packet = x3dh_packet None; co = toy_codec undefined undefined packet;
       f = \<lparr>fl_KeyAsym = None, fl_KeySym = None, fl_Pow = defaultPoWRequired, fl_Topics = [topic], fl_Messages = Map.empty\<rparr>;
       fs = snd (the (AddFilter NewFilterStorage 7 f (Some (replicate 32 5))));
       env = the (GetEnvelopeFromMessage sixteen_zeros None [] 0 100
         \<lparr>mp_Src = None, mp_Dst = None, mp_KeySym = None, mp_Topic = nm_Topic (signal_message co packet name),
          mp_PowTime = nm_PowTime (signal_message co packet name), mp_TTL = nm_TTL (signal_message co packet name),
          mp_Payload = nm_Payload (signal_message co packet name), mp_Padding = []\<rparr>)
   in \<exists>fs' f' msg. NotifySubscribers sorted_list_of_set sixteen_zeros fs env = Some (Inr fs') \<and> fs_heap fs' 7 = Some f' \<and>
        fl_Messages f' = [GetHash sixteen_zeros env \<mapsto> msg] \<and> sp_Decode co (rm_Payload msg) = packet"
proof -
  let ?topic = "ConvertBytesToTopic (string_bytes ''bob'')"
  let ?packet = "x3dh_packet None"
  let ?co = "toy_codec undefined undefined ?packet"
  let ?f = "\<lparr>fl_KeyAsym = None, fl_KeySym = None, fl_Pow = defaultPoWRequired, fl_Topics = [?topic], fl_Messages = Map.empty\<rparr>"
  let ?m = "signal_message ?co ?packet ''bob''"
  let ?p = "\<lparr>mp_Src = None, mp_Dst = None, mp_KeySym = None, mp_Topic = nm_Topic ?m,
    mp_PowTime = nm_PowTime ?m, mp_TTL = nm_TTL ?m, mp_Payload = nm_Payload ?m, mp_Padding = []\<rparr>"
  let ?i = "EncodeToString (replicate 32 5)"
  have add: "AddFilter NewFilterStorage 7 ?f (Some (replicate 32 5)) = Some (Some ?i, NewFilterStorage\<lparr>fs_heap := [7 \<mapsto> ?f],
      fs_subscribers := [?i \<mapsto> 7], fs_topicToFilters := foldl (index_topic 7) Map.empty [?topic]\<rparr>)" (is "_ = Some (_, ?fs)")
    by (simp add: AddFilter_def NewFilterStorage_def generateRandomID_def generateRandomBytes_def keyIDSize_def)
  have reach: "fs_reachable ?fs" by (rule fs_reachable.add [OF fs_reachable.start _ add]) (simp add: NewFilterStorage_def)
  obtain env where env: "GetEnvelopeFromMessage sixteen_zeros None [] 0 100 ?p = Some env"
    by (simp add: GetEnvelopeFromMessage_def Let_def)
  have "en_pow env = float_div (Pow2 16) (float_mul (float64_of 40) (float64_of 60))"
    using env by (auto simp: GetEnvelopeFromMessage_def Let_def addNonceForPow_def computePow_def leadingZeroes_sixteen
        NewEnvelope_def signal_message_def GetSize_sixteen toy_codec_def TopicLength_def)
  then have "en_pow env = Fin (7686143364045647 / 281474976710656)"
    using toy_pow toy_size by (simp add: Pow2_def)
  then have pow: "float_geq (en_pow env) (fl_Pow ?f)" by (simp add: defaultPoWRequired_eq)
  have f: "fs_heap ?fs 7 = Some ?f" "fs_subscribers ?fs ?i = Some 7" "\<not> fs_locked ?fs"
    by (simp_all add: NewFilterStorage_def del: EncodeToString.simps)
  have "\<exists>fs' f' msg. NotifySubscribers sorted_list_of_set sixteen_zeros ?fs env = Some (Inr fs') \<and> fs_heap fs' 7 = Some f' \<and>
      fl_Messages f' = (fl_Messages ?f)(GetHash sixteen_zeros env \<mapsto> msg) \<and> sp_Decode ?co (rm_Payload msg) = ?packet \<and>
      signal_mode (sp_Decode ?co (rm_Payload msg)) = signal_mode ?packet"
    by (rule signal_packet_delivered [OF _ _ env reach f(3) _ f(2,1) _ _ _ _ pow])
      (simp_all add: toy_codec_def gcm_NonceSize_def signal_filter_def)
  then show ?thesis
    by (simp only: Let_def add env option.sel snd_conv Filter.select_convs) blast
qed

end
