(* ===== verification/Client.thy ===== *)
theory Client
  imports Search Mongering Signal
begin

text \<open>
  The user's side and the wiring of a node: the command-line client (\<open>src/client/clientsender/client.go\<close>), the form and the lists of the web server
  (\<open>src/webserver/webserver.go\<close>, \<open>src/gossiper/uifunctions.go\<close>), the whole of \<open>processClientMessages\<close> (\<open>src/gossiper/mainhandler.go\<close>), and the
  constructor of the gossiper with the loop that sends for the distributed store (\<open>src/gossiper/gossiper.go\<close>). \<open>share\<close> gives what can be
  read of a file of the shared folder; \<open>resolve\<close> is \<open>net.ResolveUDPAddr\<close>.
\<close>

section \<open>The client\<close>

definition getInputType :: "string \<Rightarrow> string \<Rightarrow> string \<Rightarrow> string \<Rightarrow> string \<Rightarrow> uint64 \<Rightarrow> string \<Rightarrow> string" where
  "getInputType msg dest file request kws budget identity =
     (if msg \<noteq> [] \<and> dest = [] \<and> file = [] \<and> request = [] \<and> kws = [] \<and> identity = [] then ''rumor''
      else if msg \<noteq> [] \<and> dest \<noteq> [] \<and> file = [] \<and> request = [] \<and> kws = [] \<and> identity = [] then ''private''
      else if msg \<noteq> [] \<and> dest \<noteq> [] \<and> file = [] \<and> request = [] \<and> kws = [] \<and> identity \<noteq> [] then ''ratchet''
      else if msg = [] \<and> dest = [] \<and> file \<noteq> [] \<and> request = [] \<and> kws = [] \<and> identity = [] then ''file''
      else if msg = [] \<and> file \<noteq> [] \<and> request \<noteq> [] \<and> kws = [] \<and> identity = [] then ''request''
      else if msg = [] \<and> dest = [] \<and> file = [] \<and> request = [] \<and> kws \<noteq> [] \<and> identity = [] then ''search''
      else ''unknown'')"

definition empty_message :: ClientMessage where
  "empty_message = \<lparr>cm_Text = [], cm_Destination = None, cm_File = None, cm_Request = None, cm_Keywords = None, cm_Budget = None, cm_Identity = None\<rparr>"

definition convertInputToMessage :: "string \<Rightarrow> string \<Rightarrow> string \<Rightarrow> string \<Rightarrow> string \<Rightarrow> uint64 \<Rightarrow> string \<Rightarrow> ClientMessage option" where
  "convertInputToMessage msg dest file request kws budget identity =
     (let typeMes = getInputType msg dest file request kws budget identity
      in if typeMes = ''rumor'' then Some (empty_message\<lparr>cm_Text := msg\<rparr>)
         else if typeMes = ''private'' then Some (empty_message\<lparr>cm_Text := msg, cm_Destination := Some dest\<rparr>)
         else if typeMes = ''ratchet'' then Some (empty_message\<lparr>cm_Text := msg, cm_Destination := Some dest, cm_Identity := Some identity\<rparr>)
         else if typeMes = ''file'' then Some (empty_message\<lparr>cm_File := Some file\<rparr>)
         else if typeMes = ''request'' then
           (if hex_valid request then
              Some (empty_message\<lparr>cm_Request := Some (hex_DecodeString request), cm_File := Some file, cm_Destination := Some dest\<rparr>)
            else None)
         else if typeMes = ''search'' then Some (empty_message\<lparr>cm_Keywords := Some kws, cm_Budget := Some budget\<rparr>)
         else None)"

section \<open>The web server\<close>

text \<open>\<open>strconv.ParseUint(s, 10, 64)\<close> with its error ignored: 0 on a syntax error, the maximum when out of range.\<close>

definition digit_of :: "char \<Rightarrow> nat option" where
  "digit_of c = (let v = of_char c :: nat in if 48 \<le> v \<and> v \<le> 57 then Some (v - 48) else None)"

fun ParseUint_loop :: "nat \<Rightarrow> string \<Rightarrow> uint64" where
  "ParseUint_loop n [] = of_nat n"
| "ParseUint_loop n (c # cs) =
     (case digit_of c of None \<Rightarrow> 0
      | Some d \<Rightarrow> if 10 * n + d \<ge> 2 ^ 64 then - 1 else ParseUint_loop (10 * n + d) cs)"

definition ParseUint :: "string \<Rightarrow> uint64" where
  "ParseUint s = (if s = [] then 0 else ParseUint_loop 0 s)"

definition postMessageHandler :: "(string \<Rightarrow> string) \<Rightarrow> ClientMessage option" where
  "postMessageHandler form =
     (let budget = (if form ''budget'' = [] then ''0'' else form ''budget'')
      in convertInputToMessage (form ''text'') (form ''destination'') (form ''file'') (form ''request'') (form ''keywords'')
           (ParseUint budget) (form ''identity''))"

definition postNodeHandler :: "(string \<Rightarrow> address option) \<Rightarrow> Node \<Rightarrow> string \<Rightarrow> Node" where
  "postNodeHandler resolve nd body =
     (case resolve body of None \<Rightarrow> nd | Some a \<Rightarrow> nd\<lparr>nd_Peers := AddPeer (nd_Address nd) (nd_Peers nd) a\<rparr>)"

text \<open>Reading \<open>n\<close> values of a buffered channel; \<open>None\<close> would wait.\<close>

fun drain :: "nat \<Rightarrow> 'a list \<Rightarrow> ('a list \<times> 'a list) option" where
  "drain 0 channel = Some ([], channel)"
| "drain (Suc n) [] = None"
| "drain (Suc n) (x # xs) = map_option (\<lambda>(ys, channel). (x # ys, channel)) (drain n xs)"

definition GetMessagesList :: "RumorMessage list \<Rightarrow> (RumorMessage list \<times> RumorMessage list) option" where
  "GetMessagesList channel = drain (length channel) channel"

definition GetFilesList :: "FileGUI list \<Rightarrow> (FileGUI list \<times> FileGUI list) option" where
  "GetFilesList channel = drain (length channel) channel"

definition GetBlockchainList :: "string list \<Rightarrow> (string list \<times> string list) option" where
  "GetBlockchainList channel = drain (length channel) channel"

lemma drain_all: "drain (length channel) channel = Some (channel, [])"
  by (induction channel) simp_all

definition GetOrigins :: "clock_range \<Rightarrow> RoutingHandler \<Rightarrow> string list" where
  "GetOrigins rng rh = map fst (rng (rh_originLastID rh))"

section \<open>Client messages\<close>

datatype client_action =
    GossipAction action
  | FileAction file_action
  | StartDownload string string bytes
  | StartSearch SearchRequest bool

definition client_simple :: "Node \<Rightarrow> ClientMessage \<Rightarrow> action list" where
  "client_simple nd message =
     BroadcastToPeers
       \<lparr>ext_Packet = empty_packet\<lparr>gp_Simple := Some \<lparr>sm_OriginalName = nd_Name nd, sm_RelayPeerAddr = nd_Address nd, sm_Contents = cm_Text message\<rparr>\<rparr>,
        ext_SenderAddr = nd_Address nd\<rparr> (nd_Peers nd)"

definition client_dataRequest :: "ClientMessage \<Rightarrow> client_action go" where
  "client_dataRequest message =
     go_bind (go_deref (cm_File message)) (\<lambda>file.
     go_bind (go_deref (cm_Destination message)) (\<lambda>destination.
     go_bind (go_deref (cm_Request message)) (\<lambda>request. Inr (StartDownload file destination request))))"

definition client_searchRequest :: "(string list \<Rightarrow> string list) \<Rightarrow> Node \<Rightarrow> ClientMessage \<Rightarrow> client_action go" where
  "client_searchRequest ords nd message =
     go_bind (go_deref (cm_Keywords message)) (\<lambda>kws.
     go_bind (go_deref (cm_Budget message)) (\<lambda>budget.
       let keywordsSplitted = RemoveDuplicatesFromStringSlice ords (strings_Split (CHR '','') kws);
           needIncrement = (budget = 0)
       in Inr (StartSearch \<lparr>sq_Origin = nd_Name nd, sq_Budget = (if needIncrement then defaultBudget else budget),
                            sq_Keywords = keywordsSplitted\<rparr> needIncrement)))"

definition processClientMessages ::
  "(bytes \<Rightarrow> bytes) \<Rightarrow> AppConstants \<Rightarrow> (string list \<Rightarrow> string list) \<Rightarrow> (string \<Rightarrow> bytes option) \<Rightarrow> Node \<Rightarrow> FileHandler \<Rightarrow> ClientMessage \<Rightarrow>
   (Node \<times> FileHandler \<times> client_action list) go option" where
  "processClientMessages H app ords share nd fh message =
     (let typeMessage = getTypeFromMessage (app_simpleMode app) message
      in if typeMessage = ''simple'' then Some (Inr (nd, fh, map GossipAction (client_simple nd message)))
         else if typeMessage = ''private'' then Some (go_bind (client_private app nd message) (\<lambda>acts. Inr (nd, fh, map GossipAction acts)))
         else if typeMessage = ''rumor'' then map_option (\<lambda>(nd', acts). Inr (nd', fh, map GossipAction acts)) (client_rumor nd message)
         else if typeMessage = ''file'' then
           Some (go_bind (go_deref (cm_File message)) (\<lambda>file.
             case indexFile H app fh file (share file) of (fh', acts) \<Rightarrow> Inr (nd, fh', map FileAction acts)))
         else if typeMessage = ''dataRequest'' then Some (go_bind (client_dataRequest message) (\<lambda>a. Inr (nd, fh, [a])))
         else if typeMessage = ''searchRequest'' then Some (go_bind (client_searchRequest ords nd message) (\<lambda>a. Inr (nd, fh, [a])))
         else Some (Inr (nd, fh, [])))"

section \<open>A gossiper\<close>

record Gossiper =
  gs_ledger :: Ledger
  gs_files :: FileHandler
  gs_dstore :: DStore

text \<open>\<open>self\<close> is the address that the gossiper's own address string resolves to.\<close>

definition NewGossiper :: "(bytes \<Rightarrow> bytes) \<Rightarrow> (string \<Rightarrow> address option) \<Rightarrow> string \<Rightarrow> string \<Rightarrow> string \<Rightarrow> uint64 \<Rightarrow> Gossiper option" where
  "NewGossiper sha256 resolve name gossiperAddress peers peersNum =
     map_option (\<lambda>self.
       \<lparr>gs_ledger = \<lparr>ld_node = \<lparr>nd_Name = name, nd_Address = self, nd_Peers = createPeersData resolve peers,
                               nd_gossip = NewGossipHandler, nd_routing = NewRoutingHandler\<rparr>,
                     ld_Size = peersNum, ld_bc = NewBlockchainHandler\<rparr>,
        gs_files = NewFileHandler, gs_dstore = NewDStorageHandler sha256 name gossiperAddress\<rparr>) (resolve gossiperAddress)"

text \<open>What \<open>Run\<close> sends of a message of the distributed store; an unknown address makes the write fail, which is ignored.\<close>

definition send_store_message :: "address \<Rightarrow> Node \<Rightarrow> MessageAddrPair \<Rightarrow> action list" where
  "send_store_message self nd m =
     (if ma_Address m = self then []
      else case GetPeerFromString (nd_Peers nd) (ma_Address m) of
             None \<Rightarrow> []
           | Some a \<Rightarrow> [SendPacket (empty_packet\<lparr>gp_DStoreMessage := Some (ma_Message m)\<rparr>) a])"

section \<open>Hexadecimal round trip\<close>

lemma fromHexChar_digit: "i < 16 \<Longrightarrow> fromHexChar (hexdigits ! i) = Some i"
proof -
  have "\<forall>i \<in> {..<16}. fromHexChar (hexdigits ! i) = Some i" by code_simp
  then show "i < 16 \<Longrightarrow> fromHexChar (hexdigits ! i) = Some i" by simp
qed

lemma hex_roundtrip: "hex_DecodeString (EncodeToString bs) = bs"
proof (induction bs)
  case (Cons b bs)
  have "unat b div 16 < 16" "unat b mod 16 < 16" using byte_bound [of b] by simp_all
  moreover have "of_nat (16 * (unat b div 16) + unat b mod 16) = b" by simp
  ultimately show ?case using Cons by (simp add: fromHexChar_digit del: mult_div_mod_eq of_nat_add of_nat_mult)
qed simp

lemma hex_valid_EncodeToString: "hex_valid (EncodeToString bs)"
proof -
  have "list_all (\<lambda>c. fromHexChar c \<noteq> None) (EncodeToString bs)"
  proof (induction bs)
    case (Cons b bs)
    have "unat b div 16 < 16" "unat b mod 16 < 16" using byte_bound [of b] by simp_all
    with Cons show ?case by (simp add: fromHexChar_digit)
  qed simp
  then show ?thesis by (simp add: hex_valid_def)
qed

section \<open>Commands reach their handler\<close>

lemma client_private_safe: "cm_Destination message \<noteq> None \<Longrightarrow> client_private app nd message \<noteq> Inl e"
  by (auto simp: client_private_def Let_def)

text \<open>What the gossiper makes of the client's kinds of input.\<close>

definition branch_of :: "string \<Rightarrow> string" where
  "branch_of t = (if t = ''ratchet'' then ''private'' else if t = ''request'' then ''dataRequest'' else if t = ''search'' then ''searchRequest'' else t)"

lemma if_chain:
  "(if c1 then s1 else if c2 then s2 else if c3 then s3 else if c4 then s4 else if c5 then s5 else if c6 then s6 else s7) = r \<Longrightarrow>
   c1 \<and> r = s1 \<or> c2 \<and> r = s2 \<or> c3 \<and> r = s3 \<or> c4 \<and> r = s4 \<or> c5 \<and> r = s5 \<or> c6 \<and> r = s6 \<or> r = s7"
  by (simp split: if_splits)

lemmas input_kinds = if_chain [OF getInputType_def [symmetric]]

lemma convert_message:
  assumes "convertInputToMessage msg dest file request kws budget identity = Some m" and "t = getInputType msg dest file request kws budget identity"
  shows "(t = ''rumor'' \<longrightarrow> m = empty_message\<lparr>cm_Text := msg\<rparr>)
    \<and> (t = ''private'' \<longrightarrow> m = empty_message\<lparr>cm_Text := msg, cm_Destination := Some dest\<rparr>)
    \<and> (t = ''ratchet'' \<longrightarrow> m = empty_message\<lparr>cm_Text := msg, cm_Destination := Some dest, cm_Identity := Some identity\<rparr>)
    \<and> (t = ''file'' \<longrightarrow> m = empty_message\<lparr>cm_File := Some file\<rparr>)
    \<and> (t = ''request'' \<longrightarrow> m = empty_message\<lparr>cm_Request := Some (hex_DecodeString request), cm_File := Some file, cm_Destination := Some dest\<rparr>)
    \<and> (t = ''search'' \<longrightarrow> m = empty_message\<lparr>cm_Keywords := Some kws, cm_Budget := Some budget\<rparr>)
    \<and> t \<noteq> ''unknown''"
  using assms(1) unfolding convertInputToMessage_def Let_def assms(2) [symmetric]
  by (intro conjI impI; simp split: if_splits)

lemma convert_fields:
  assumes "convertInputToMessage msg dest file request kws budget identity = Some m"
  shows "getTypeFromMessage False m = branch_of (getInputType msg dest file request kws budget identity)
    \<and> (cm_Keywords m \<noteq> None \<longrightarrow> cm_Budget m \<noteq> None) \<and> (cm_Request m \<noteq> None \<longrightarrow> cm_Destination m \<noteq> None)"
proof -
  define t where t: "t = getInputType msg dest file request kws budget identity"
  note m = convert_message [OF assms t]
  from input_kinds [of msg dest "file" request kws identity budget, folded t]
  have "getTypeFromMessage False m = branch_of t \<and> (cm_Keywords m \<noteq> None \<longrightarrow> cm_Budget m \<noteq> None) \<and> (cm_Request m \<noteq> None \<longrightarrow> cm_Destination m \<noteq> None)"
    (is ?P)
  proof (elim disjE conjE)
    assume "t = ''rumor''" "msg \<noteq> []"
    with m show ?P by (simp add: branch_of_def getTypeFromMessage_def empty_message_def)
  next
    assume "t = ''private''" "msg \<noteq> []"
    with m show ?P by (simp add: branch_of_def getTypeFromMessage_def empty_message_def)
  next
    assume "t = ''ratchet''" "msg \<noteq> []"
    with m show ?P by (simp add: branch_of_def getTypeFromMessage_def empty_message_def)
  next
    assume "t = ''file''" 
    with m show ?P by (simp add: branch_of_def getTypeFromMessage_def empty_message_def)
  next
    assume "t = ''request''"
    with m show ?P by (simp add: branch_of_def getTypeFromMessage_def empty_message_def)
  next
    assume "t = ''search''"
    with m show ?P by (simp add: branch_of_def getTypeFromMessage_def empty_message_def)
  next
    assume "t = ''unknown''"
    with m show ?P by blast
  qed
  then show ?thesis unfolding t .
qed

text \<open>A branch can fail only on a nil field; the fields each branch reads are the ones its type demands, or these.\<close>

lemma processClientMessages_safe:
  assumes "cm_Keywords m \<noteq> None \<longrightarrow> cm_Budget m \<noteq> None" and "cm_Request m \<noteq> None \<longrightarrow> cm_Destination m \<noteq> None"
  shows "processClientMessages H app ords share nd fh m \<noteq> Some (Inl e)"
proof -
  let ?t = "getTypeFromMessage (app_simpleMode app) m"
  have p: "cm_Destination m \<noteq> None" if "?t = ''private''" using that by (auto simp: getTypeFromMessage_def split: if_splits)
  have f: "cm_File m \<noteq> None" if "?t = ''file''" using that by (auto simp: getTypeFromMessage_def split: if_splits)
  have d: "cm_File m \<noteq> None \<and> cm_Request m \<noteq> None" if "?t = ''dataRequest''"
    using that by (auto simp: getTypeFromMessage_def split: if_splits)
  have s: "cm_Keywords m \<noteq> None" if "?t = ''searchRequest''" using that by (auto simp: getTypeFromMessage_def split: if_splits)
  consider "?t = ''private''" | "?t = ''file''" | "?t = ''dataRequest''" | "?t = ''searchRequest''"
    | "?t \<notin> {''private'', ''file'', ''dataRequest'', ''searchRequest''}" by blast
  then show ?thesis
  proof cases
    case 1
    then obtain acts where "client_private app nd m = Inr acts" using client_private_safe [OF p] by (cases "client_private app nd m") auto
    with 1 show ?thesis by (simp add: processClientMessages_def Let_def)
  next
    case 2
    with f show ?thesis by (auto simp: processClientMessages_def Let_def split: prod.splits)
  next
    case 3
    with d assms(2) show ?thesis by (auto simp: processClientMessages_def client_dataRequest_def Let_def)
  next
    case 4
    with s assms(1) show ?thesis by (auto simp: processClientMessages_def client_searchRequest_def Let_def)
  next
    case 5
    then show ?thesis by (auto simp: processClientMessages_def Let_def split: if_splits)
  qed
qed

text \<open>
  Every message the client builds is taken for what it is: its fields lead \<open>getTypeFromMessage\<close> to the branch of the input's kind (a
  message for the double ratchet counts as private, since the identity field is not looked at), and no branch meets a nil field, so the client
  cannot crash the gossiper, in any mode.
\<close>

theorem client_commands_dispatched:
  assumes "convertInputToMessage msg dest file request kws budget identity = Some m"
  shows "getTypeFromMessage False m = branch_of (getInputType msg dest file request kws budget identity) \<and>
    processClientMessages H app ords share nd fh m \<noteq> Some (Inl e)"
  using convert_fields [OF assms] processClientMessages_safe by blast

theorem client_commands_dispatched_witness:
  "let m = empty_message\<lparr>cm_Text := ''hi'', cm_Destination := Some ''bob'', cm_Identity := Some ''00''\<rparr>
   in getTypeFromMessage False m = ''private'' \<and>
      processClientMessages flat_hash toy_app rev (\<lambda>_. None) (sample_node ''a'') NewFileHandler m \<noteq> Some (Inl NilDereference)"
  using client_commands_dispatched [of "''hi''" "''bob''" "[]" "[]" "[]" 0 "''00''"]
  by (simp add: convertInputToMessage_def getInputType_def branch_of_def)

text \<open>
  A download the user asks for in the web form, with the hexadecimal metahash the program shows for a file, starts the download of
  exactly that hash under that name, from that peer.
\<close>

theorem web_download_starts:
  assumes "form ''text'' = []" and "form ''keywords'' = []" and "form ''identity'' = []"
    and "form ''file'' \<noteq> []" and "form ''request'' = EncodeToString metaHash" and "metaHash \<noteq> []" and "\<not> app_simpleMode app"
  shows "\<exists>m. postMessageHandler form = Some m \<and>
    processClientMessages H app ords share nd fh m = Some (Inr (nd, fh, [StartDownload (form ''file'') (form ''destination'') metaHash]))"
proof -
  have "EncodeToString metaHash \<noteq> []" using assms(6) by (metis length_0_conv length_EncodeToString mult_is_0 zero_neq_numeral)
  then show ?thesis
    using assms by (simp add: postMessageHandler_def convertInputToMessage_def getInputType_def processClientMessages_def getTypeFromMessage_def
        empty_message_def client_dataRequest_def hex_valid_EncodeToString hex_roundtrip Let_def)
qed

theorem web_download_starts_witness:
  "\<exists>m. postMessageHandler ((\<lambda>_. [])(''file'' := ''f'', ''request'' := ''0fa0'', ''destination'' := ''bob'')) = Some m \<and>
    processClientMessages flat_hash toy_app rev (\<lambda>_. None) (sample_node ''a'') NewFileHandler m
      = Some (Inr (sample_node ''a'', NewFileHandler, [StartDownload ''f'' ''bob'' [15, 160]]))"
proof -
  have "EncodeToString [15, 160] = ''0fa0''" by (simp add: hexdigits_def)
  then show ?thesis
    using web_download_starts [of "(\<lambda>_. [])(''file'' := ''f'', ''request'' := ''0fa0'', ''destination'' := ''bob'')" "[15, 160]" toy_app]
    by (simp add: toy_app_def)
qed

end
