(* ===== verification/Network.thy ===== *)
theory Network
  imports Mongering Ledger
begin

text \<open>
  A network of gossipers as a step relation: nodes publish rumors, Whisper statuses and blockchain messages, handle gossip messages, and answer
  status packets, in any order. Packets that were ever sent stay in the network, so delay, loss, duplication and reordering are all covered;
  sender addresses, peers, random choices and status packets are arbitrary. What a node does in a step is the code's: the handlers
  \<open>HandleGossipMessage\<close> and \<open>handlePeerStatus\<close>, and the three parts of \<open>CreateRumorMessage\<close>, \<open>SendWhisperStatus\<close> and \<open>createTLCMessage\<close>, which
  run in different goroutines: a publisher loads the sequence number, adds one to it, and then builds, stores and sends its message.

  The code assumes that no other publisher comes between the load and the add. In the runs where this holds (\<open>serial_reachable\<close>) the nodes agree on
  every message and the handlers keep returning (\<open>gossip_agreement\<close>); where it does not, two different messages go out under one number, and the
  nodes that store one never take the other (\<open>overlapping_publishers_disagree\<close>). Storing a message and the update of the vector clock that follows
  it are one step; in the code the clock may lag behind the storage until the update that is under way has been done.
\<close>

section \<open>Steps\<close>

text \<open>What a publisher wants to say: a rumor with its text, a Whisper status, or a block with the number it confirms and its fitness.\<close>

datatype content = RumorOf string | StatusOf WhisperStatus | TLCOf BlockPublish "64 word" go_float

fun publish :: "clock_range \<Rightarrow> Node \<Rightarrow> uint32 \<Rightarrow> content \<Rightarrow> (GossipPacket \<times> Node) option" where
  "publish rng nd i (RumorOf text) =
     map_option (\<lambda>(ext, gh). (ext_Packet ext, nd\<lparr>nd_gossip := gh\<rparr>)) (publish_rumor (nd_Name nd) (nd_Address nd) (nd_gossip nd) i text)"
| "publish rng nd i (StatusOf status) =
     map_option (\<lambda>(packet, gh). (packet, nd\<lparr>nd_gossip := gh\<rparr>)) (publish_status (nd_Name nd) (nd_gossip nd) i status)"
| "publish rng nd i (TLCOf block confirmedFlag fitness) =
     map_option (\<lambda>(tlc, ext, nd'). (ext_Packet ext, nd')) (publish_TLC rng nd i block confirmedFlag fitness)"

text \<open>\<open>net_loaded\<close> are the publishers of a node that have loaded a number and not added yet, \<open>net_numbered\<close> those that have not stored yet.\<close>

record Net =
  net_nodes :: "string \<Rightarrow> Node"
  net_packets :: "GossipPacket set"
  net_loaded :: "string \<Rightarrow> (uint32 \<times> content) list"
  net_numbered :: "string \<Rightarrow> (uint32 \<times> content) list"

text \<open>The origin and the number of a gossip message.\<close>

definition gossip_id :: "GossipPacket \<Rightarrow> (string \<times> uint32) option" where
  "gossip_id p =
     (case gp_Rumor p of Some r \<Rightarrow> Some (rum_Origin r, rum_ID r)
      | None \<Rightarrow> (case gp_WhisperStatus p of Some w \<Rightarrow> Some (ws_Origin w, ws_ID w)
      | None \<Rightarrow> (case gp_TLCMessage p of Some t \<Rightarrow> Some (tlc_Origin t, tlc_ID t) | None \<Rightarrow> None)))"

text \<open>A mongered message is sent to peers sooner or later.\<close>

definition sent_packets :: "action list \<Rightarrow> GossipPacket set" where
  "sent_packets acts = {p. \<exists>a. SendPacket p a \<in> set acts} \<union> {ext_Packet e | e o' i. StartMongering e o' i \<in> set acts}"

text \<open>The number after the last one is 0 again; a node that publishes so many messages is out of scope.\<close>

inductive net_step :: "clock_range \<Rightarrow> Net \<Rightarrow> Net \<Rightarrow> bool" for rng where
  load:
    "net_step rng s (s\<lparr>net_loaded := (net_loaded s)(n := (load_seqID (nd_gossip (net_nodes s n)), c) # net_loaded s n)\<rparr>)"
| add:
    "(i, c) \<in> set (net_loaded s n) \<Longrightarrow> gh_seqID (nd_gossip (net_nodes s n)) \<noteq> - 1 \<Longrightarrow>
     net_step rng s (s\<lparr>net_nodes := (net_nodes s)(n := (net_nodes s n)\<lparr>nd_gossip := add_seqID (nd_gossip (net_nodes s n))\<rparr>),
                       net_loaded := (net_loaded s)(n := remove1 (i, c) (net_loaded s n)),
                       net_numbered := (net_numbered s)(n := (i, c) # net_numbered s n)\<rparr>)"
| store:
    "(i, c) \<in> set (net_numbered s n) \<Longrightarrow> publish rng (net_nodes s n) i c = Some (p, nd') \<Longrightarrow>
     net_step rng s (s\<lparr>net_nodes := (net_nodes s)(n := nd'), net_packets := insert p (net_packets s),
                       net_numbered := (net_numbered s)(n := remove1 (i, c) (net_numbered s n))\<rparr>)"
| handle_gossip:
    "ext_Packet ext \<in> net_packets s \<Longrightarrow> gossip_id (ext_Packet ext) = Some (origin, i) \<Longrightarrow>
     HandleGossipMessage rng (net_nodes s n) ext origin i = Some (nd', acts) \<Longrightarrow>
     net_step rng s (s\<lparr>net_nodes := (net_nodes s)(n := nd'), net_packets := net_packets s \<union> sent_packets acts\<rparr>)"
| handle_status:
    "handlePeerStatus rng (net_nodes s n) ext = Inr acts \<Longrightarrow>
     net_step rng s (s\<lparr>net_packets := net_packets s \<union> sent_packets acts\<rparr>)"

text \<open>At the start every node is fresh and carries its own name.\<close>

definition net_start :: "Net \<Rightarrow> bool" where
  "net_start s \<longleftrightarrow> net_packets s = {} \<and> (\<forall>n. net_loaded s n = [] \<and> net_numbered s n = []) \<and> (\<forall>n. nd_Name (net_nodes s n) = n \<and> nd_gossip (net_nodes s n) = NewGossipHandler)"

text \<open>The runs in which no two publishers of a node are between their load and their add.\<close>

definition serial :: "Net \<Rightarrow> bool" where
  "serial s \<longleftrightarrow> (\<forall>n. length (net_loaded s n) \<le> 1)"

inductive serial_reachable :: "clock_range \<Rightarrow> Net \<Rightarrow> bool" for rng where
  start: "net_start s \<Longrightarrow> serial_reachable rng s"
| step: "serial_reachable rng s \<Longrightarrow> net_step rng s s' \<Longrightarrow> serial s' \<Longrightarrow> serial_reachable rng s'"

section \<open>The invariant\<close>

abbreviation stored_at :: "Net \<Rightarrow> string \<Rightarrow> string \<Rightarrow> uint32 \<Rightarrow> GossipPacket option" where
  "stored_at s n \<equiv> stored (nd_gossip (net_nodes s n))"

definition net_inv :: "Net \<Rightarrow> bool" where
  "net_inv s \<longleftrightarrow>
     (\<forall>n. nd_Name (net_nodes s n) = n \<and> clock_inv (nd_gossip (net_nodes s n)) \<and> gh_seqID (nd_gossip (net_nodes s n)) \<noteq> 0)
   \<and> (\<forall>n o' i p. stored_at s n o' i = Some p \<longrightarrow> stored_at s o' o' i = Some p \<and> gossip_id p = Some (o', i))
   \<and> (\<forall>p \<in> net_packets s. \<forall>o' i. gossip_id p = Some (o', i) \<longrightarrow> stored_at s o' o' i = Some p)
   \<and> (\<forall>n i. stored_at s n n i \<noteq> None \<longrightarrow> i < gh_seqID (nd_gossip (net_nodes s n)))
   \<and> (\<forall>n. \<forall>x \<in> set (net_loaded s n). fst x = gh_seqID (nd_gossip (net_nodes s n)))
   \<and> (\<forall>n. distinct (map fst (net_numbered s n)))
   \<and> (\<forall>n. \<forall>x \<in> set (net_numbered s n). fst x < gh_seqID (nd_gossip (net_nodes s n)) \<and> stored_at s n n (fst x) = None)"

lemma net_invD:
  assumes "net_inv s"
  shows "nd_Name (net_nodes s n) = n" "clock_inv (nd_gossip (net_nodes s n))" "gh_seqID (nd_gossip (net_nodes s n)) \<noteq> 0"
    and "stored_at s n o' i = Some p \<Longrightarrow> stored_at s o' o' i = Some p" "stored_at s n o' i = Some p \<Longrightarrow> gossip_id p = Some (o', i)"
    and "p \<in> net_packets s \<Longrightarrow> gossip_id p = Some (o', i) \<Longrightarrow> stored_at s o' o' i = Some p"
    and "stored_at s n n i \<noteq> None \<Longrightarrow> i < gh_seqID (nd_gossip (net_nodes s n))"
    and "x \<in> set (net_loaded s n) \<Longrightarrow> fst x = gh_seqID (nd_gossip (net_nodes s n))" and "distinct (map fst (net_numbered s n))"
    and "x \<in> set (net_numbered s n) \<Longrightarrow> fst x < gh_seqID (nd_gossip (net_nodes s n)) \<and> stored_at s n n (fst x) = None"
  using assms unfolding net_inv_def by blast+

lemma stored_New [simp]: "stored NewGossipHandler o' i = None"
  by (simp add: stored_def NewGossipHandler_def)

lemma net_inv_start: "net_start s \<Longrightarrow> net_inv s"
  by (auto simp: net_start_def net_inv_def clock_inv_New) (simp add: NewGossipHandler_def)

lemma stored_seqID [simp]: "stored (gh\<lparr>gh_seqID := k\<rparr>) = stored gh"
  by (rule ext) (simp add: stored_def)

lemma clock_inv_seqID [simp]: "clock_inv (gh\<lparr>gh_seqID := k\<rparr>) = clock_inv gh"
  by (simp add: clock_inv_def)

text \<open>The last number is never used, so every origin has a free one.\<close>

lemma last_number_free:
  assumes "net_inv s"
  shows "stored_at s n o' (- 1) = None"
proof (rule ccontr)
  assume "stored_at s n o' (- 1) \<noteq> None"
  then have "stored_at s o' o' (- 1) \<noteq> None" using net_invD(4) [OF assms] by blast
  then have "(- 1 :: uint32) < gh_seqID (nd_gossip (net_nodes s o'))" by (rule net_invD(7) [OF assms])
  then show False by (simp add: word_n1_ge leD)
qed

lemma next_number_free: "net_inv s \<Longrightarrow> stored_at s n n (gh_seqID (nd_gossip (net_nodes s n))) = None"
  using net_invD(7) [of s n "gh_seqID (nd_gossip (net_nodes s n))"]
  by (cases "stored_at s n n (gh_seqID (nd_gossip (net_nodes s n)))") auto

lemma store_free:
  assumes "clock_inv gh" "stored gh o' (- 1) = None" "i \<noteq> - 1"
  shows "\<exists>gh'. storeMessage gh p o' i = Some (stored gh o' i \<noteq> None, gh') \<and> clock_inv gh' \<and> gh_seqID gh' = gh_seqID gh
    \<and> (\<forall>o2 j. stored gh' o2 j = (if o2 = o' \<and> j = i \<and> stored gh o' i = None then Some p else stored gh o2 j))"
proof -
  have "\<exists>j. j \<noteq> 0 \<and> j \<noteq> i \<and> stored gh o' j = None" using assms(2,3) by (intro exI [of _ "- 1"]) auto
  then obtain gh' where g: "storeMessage gh p o' i = Some (stored gh o' i \<noteq> None, gh')" "clock_inv gh'" "gh_seqID gh' = gh_seqID gh"
    "stored gh' = (stored gh)(o' := (if stored gh o' i = None then (stored gh o')(i \<mapsto> p) else stored gh o'))"
    using storeMessage_clock assms(1) by blast
  then show ?thesis by (intro exI [of _ gh']) auto
qed

lemma store_in_net:
  assumes inv: "net_inv s" and "i \<noteq> - 1"
  shows "\<exists>gh'. storeMessage (nd_gossip (net_nodes s n)) p o' i = Some (stored_at s n o' i \<noteq> None, gh') \<and> clock_inv gh'
    \<and> gh_seqID gh' = gh_seqID (nd_gossip (net_nodes s n))
    \<and> (\<forall>o2 j. stored gh' o2 j = (if o2 = o' \<and> j = i \<and> stored_at s n o' i = None then Some p else stored_at s n o2 j))"
  using store_free [OF net_invD(2) [OF inv] last_number_free [OF inv] assms(2)] by blast

text \<open>Every kind of message is built and stored in the same way.\<close>

lemma publish_shape:
  "publish rng nd i c = Some (p, nd') \<Longrightarrow>
   gossip_id p = Some (nd_Name nd, i) \<and> (\<exists>b gh. storeMessage (nd_gossip nd) p (nd_Name nd) i = Some (b, gh) \<and> nd' = nd\<lparr>nd_gossip := gh\<rparr>)"
  by (cases c) (auto simp: publish_rumor_def publish_status_def publish_TLC_def Let_def bind_eq_Some_conv gossip_id_def empty_packet_def)

section \<open>Preservation\<close>

lemma next_number: "(k :: uint32) \<noteq> - 1 \<Longrightarrow> k + 1 \<noteq> 0 \<and> (j < k + 1 \<longleftrightarrow> j \<le> k)"
proof -
  assume "k \<noteq> - 1"
  then have z: "1 + k \<noteq> 0" by (simp add: eq_neg_iff_add_eq_0 add.commute)
  then have "unat (1 + k) = Suc (unat k)" by (rule unatSuc)
  then show ?thesis using z by (simp add: word_less_nat_alt word_le_nat_alt add.commute less_Suc_eq_le)
qed

text \<open>One publisher at a time adds to the number it has loaded, which nobody else has.\<close>

lemma load_inv:
  "net_inv s \<Longrightarrow> net_inv (s\<lparr>net_loaded := (net_loaded s)(n := (load_seqID (nd_gossip (net_nodes s n)), c) # net_loaded s n)\<rparr>)"
  unfolding net_inv_def load_seqID_def by auto

lemma add_inv:
  assumes inv: "net_inv s" and "serial s" and x: "(i, c) \<in> set (net_loaded s n)" and last: "gh_seqID (nd_gossip (net_nodes s n)) \<noteq> - 1"
  shows "net_inv (s\<lparr>net_nodes := (net_nodes s)(n := (net_nodes s n)\<lparr>nd_gossip := add_seqID (nd_gossip (net_nodes s n))\<rparr>),
      net_loaded := (net_loaded s)(n := remove1 (i, c) (net_loaded s n)),
      net_numbered := (net_numbered s)(n := (i, c) # net_numbered s n)\<rparr>)" (is "net_inv ?s")
proof -
  let ?k = "gh_seqID (nd_gossip (net_nodes s n))"
  have i: "i = ?k" using net_invD(8) [OF inv x] by simp
  have "length (net_loaded s n) \<le> 1" using assms(2) by (simp add: serial_def)
  then have gone: "remove1 (i, c) (net_loaded s n) = []" using x by (cases "net_loaded s n") auto
  have at: "stored_at ?s m o2 j = stored_at s m o2 j" for m o2 j by (simp add: add_seqID_def)
  have seq: "gh_seqID (nd_gossip (net_nodes ?s m)) = (if m = n then ?k + 1 else gh_seqID (nd_gossip (net_nodes s m)))" for m
    by (simp add: add_seqID_def)
  have clock: "clock_inv (nd_gossip (net_nodes ?s m))" for m using net_invD(2) [OF inv] by (simp add: add_seqID_def)
  note kj = next_number [OF last]
  have free: "stored_at s n n i = None" unfolding i by (rule next_number_free [OF inv])
  have fresh: "i \<notin> fst ` set (net_numbered s n)" using net_invD(10) [OF inv, of _ n] i by fastforce
  show ?thesis unfolding net_inv_def at seq
  proof (intro conjI allI ballI impI)
    fix m show "nd_Name (net_nodes ?s m) = m" "clock_inv (nd_gossip (net_nodes ?s m))"
      "(if m = n then ?k + 1 else gh_seqID (nd_gossip (net_nodes s m))) \<noteq> 0"
      using net_invD(1,3) [OF inv] clock kj by simp_all
  next
    fix m o2 j q assume "stored_at s m o2 j = Some q"
    then show "stored_at s o2 o2 j = Some q" "gossip_id q = Some (o2, j)" using net_invD(4,5) [OF inv] by blast+
  next
    fix q o2 j assume "q \<in> net_packets ?s" "gossip_id q = Some (o2, j)"
    then show "stored_at s o2 o2 j = Some q" using net_invD(6) [OF inv] by simp
  next
    fix m j assume "stored_at s m m j \<noteq> None"
    from net_invD(7) [OF inv this] show "j < (if m = n then ?k + 1 else gh_seqID (nd_gossip (net_nodes s m)))" using kj [of j] by auto
  next
    fix m x assume "x \<in> set (net_loaded ?s m)"
    then show "fst x = (if m = n then ?k + 1 else gh_seqID (nd_gossip (net_nodes s m)))"
      using gone net_invD(8) [OF inv, of x m] by (auto split: if_splits)
  next
    fix m show "distinct (map fst (net_numbered ?s m))" using net_invD(9) [OF inv] fresh by simp
  next
    fix m x assume x: "x \<in> set (net_numbered ?s m)"
    consider "x = (i, c)" "m = n" | "x \<in> set (net_numbered s m)" using x by (auto split: if_splits)
    then show "fst x < (if m = n then ?k + 1 else gh_seqID (nd_gossip (net_nodes s m)))" "stored_at s m m (fst x) = None"
      using net_invD(10) [OF inv, of x m] kj [of "fst x"] i free by (cases; auto)+
  qed
qed

lemma remove1_numbered:
  assumes "distinct (map fst xs)" "(i, c) \<in> set xs"
  shows "set (remove1 (i, c) xs) \<subseteq> set xs" "distinct (map fst (remove1 (i, c) xs))" "i \<notin> fst ` set (remove1 (i, c) xs)"
proof -
  show sub: "set (remove1 (i, c) xs) \<subseteq> set xs" by (rule set_remove1_subset)
  have d: "distinct xs" "inj_on fst (set xs)" using assms(1) by (simp_all add: distinct_map)
  then show "distinct (map fst (remove1 (i, c) xs))" using inj_on_subset [OF d(2) sub] by (simp add: distinct_map)
  have "set (remove1 (i, c) xs) = set xs - {(i, c)}" using d(1) by simp
  then show "i \<notin> fst ` set (remove1 (i, c) xs)" using inj_onD [OF d(2) _ _ assms(2)] by auto
qed

text \<open>Storing and sending a message under the number that was taken.\<close>

lemma publish_inv:
  assumes inv: "net_inv s" and x: "(k, c) \<in> set (net_numbered s n)" and pub: "publish rng (net_nodes s n) k c = Some (p, nd')"
  shows "net_inv (s\<lparr>net_nodes := (net_nodes s)(n := nd'), net_packets := insert p (net_packets s),
      net_numbered := (net_numbered s)(n := remove1 (k, c) (net_numbered s n))\<rparr>)"
    (is "net_inv ?s")
proof -
  from publish_shape [OF pub] obtain b gh' where p: "gossip_id p = Some (n, k)"
    and st: "storeMessage (nd_gossip (net_nodes s n)) p n k = Some (b, gh')" "nd' = (net_nodes s n)\<lparr>nd_gossip := gh'\<rparr>"
    using net_invD(1) [OF inv, of n] by auto
  have less: "k < gh_seqID (nd_gossip (net_nodes s n))" and none: "stored_at s n n k = None" using net_invD(10) [OF inv x] by simp_all
  then have k: "k \<noteq> - 1" by (metis leD word_n1_ge)
  from store_in_net [OF inv k, of n p n] st none have g: "clock_inv gh'" "gh_seqID gh' = gh_seqID (nd_gossip (net_nodes s n))"
    and new: "\<And>o2 j. stored gh' o2 j = (if o2 = n \<and> j = k then Some p else stored_at s n o2 j)" by auto
  have at: "stored_at ?s m o2 j = (if m = n \<and> o2 = n \<and> j = k then Some p else stored_at s m o2 j)" for m o2 j
    by (simp add: new st(2))
  have seq: "gh_seqID (nd_gossip (net_nodes ?s m)) = gh_seqID (nd_gossip (net_nodes s m))" for m using g(2) st(2) by simp
  have old: "stored_at s m n k = None" for m using net_invD(4) [OF inv, of m n k] none by (cases "stored_at s m n k") auto
  note rest = remove1_numbered [OF net_invD(9) [OF inv] x]
  show ?thesis unfolding net_inv_def at seq
  proof (intro conjI allI ballI impI)
    fix m show "nd_Name (net_nodes ?s m) = m" "clock_inv (nd_gossip (net_nodes ?s m))" "gh_seqID (nd_gossip (net_nodes s m)) \<noteq> 0"
      using net_invD(1-3) [OF inv] g(1) st(2) by simp_all
  next
    fix m o2 j q assume q: "(if m = n \<and> o2 = n \<and> j = k then Some p else stored_at s m o2 j) = Some q"
    then show "(if o2 = n \<and> o2 = n \<and> j = k then Some p else stored_at s o2 o2 j) = Some q"
      using net_invD(4) [OF inv, of m o2 j q] old [of m] by (auto split: if_splits)
    from q show "gossip_id q = Some (o2, j)" using net_invD(5) [OF inv] p by (auto split: if_splits)
  next
    fix q o2 j assume "q \<in> net_packets ?s" "gossip_id q = Some (o2, j)"
    then show "(if o2 = n \<and> o2 = n \<and> j = k then Some p else stored_at s o2 o2 j) = Some q"
      using net_invD(6) [OF inv, of q o2 j] p none by auto
  next
    fix m j assume "(if m = n \<and> m = n \<and> j = k then Some p else stored_at s m m j) \<noteq> None"
    then show "j < gh_seqID (nd_gossip (net_nodes s m))" using net_invD(7) [OF inv, of m j] less by (auto split: if_splits)
  next
    fix m x assume "x \<in> set (net_loaded ?s m)"
    then show "fst x = gh_seqID (nd_gossip (net_nodes s m))" using net_invD(8) [OF inv, of x m] by simp
  next
    fix m show "distinct (map fst (net_numbered ?s m))" using net_invD(9) [OF inv] rest(2) by simp
  next
    fix m x assume x: "x \<in> set (net_numbered ?s m)"
    then have "x \<in> set (net_numbered s m)" "m = n \<longrightarrow> fst x \<noteq> k" using rest by (auto split: if_splits)
    then show "fst x < gh_seqID (nd_gossip (net_nodes s m))" "(if m = n \<and> m = n \<and> fst x = k then Some p else stored_at s m m (fst x)) = None"
      using net_invD(10) [OF inv, of x m] by auto
  qed
qed

text \<open>Packets that leave after a gossip message: status packets and the message itself.\<close>

lemma gossip_id_status [simp]: "gossip_id (status_packet rng gh) = None"
  by (simp add: gossip_id_def status_packet_def empty_packet_def)

lemma sent_by_HandleGossip:
  assumes "HandleGossipMessage rng nd ext origin i = Some (nd', acts)" and "p \<in> sent_packets acts"
  shows "p = ext_Packet ext \<or> gossip_id p = None"
  using assms by (auto simp: HandleGossipMessage_def sent_packets_def rumor_actions_def bind_eq_Some_conv split: if_splits option.splits)

lemma sent_packets_simps [simp]:
  "sent_packets [] = {}" "sent_packets (SendPacket p a # acts) = insert p (sent_packets acts)"
  by (auto simp: sent_packets_def)

lemma getPacket_stored: "getPacketFromPeerStatus gh ps = Inr p \<Longrightarrow> stored gh (ps_Identifier ps) (ps_NextID ps) = Some p"
  by (auto simp: getPacketFromPeerStatus_def stored_def split: option.splits)

lemma sent_by_handlePeerStatus:
  assumes "handlePeerStatus rng nd ext = Inr acts" and "p \<in> sent_packets acts"
  shows "gossip_id p = None \<or> (\<exists>o' i. stored (nd_gossip nd) o' i = Some p)"
proof -
  obtain st where st: "gp_Status (ext_Packet ext) = Some st" using assms(1) by (auto simp: handlePeerStatus_def go_bind_eq_Inr)
  show ?thesis
  proof (cases "getPeerStatusForPeer (rng (gh_Entries (nd_gossip nd))) (st_Want st)")
    case None
    with assms st show ?thesis by (auto simp: handlePeerStatus_def split: if_splits)
  next
    case (Some ps)
    with assms st obtain q where "getPacketFromPeerStatus (nd_gossip nd) ps = Inr q" "acts = [SendPacket q (ext_SenderAddr ext)]"
      by (auto simp: handlePeerStatus_def go_bind_eq_Inr)
    with assms(2) getPacket_stored [of "nd_gossip nd" ps q] show ?thesis by auto
  qed
qed

lemma gossip_inv:
  assumes inv: "net_inv s" and flight: "ext_Packet ext \<in> net_packets s" "gossip_id (ext_Packet ext) = Some (origin, i)"
    and h: "HandleGossipMessage rng (net_nodes s n) ext origin i = Some (nd', acts)"
  shows "net_inv (s\<lparr>net_nodes := (net_nodes s)(n := nd'), net_packets := net_packets s \<union> sent_packets acts\<rparr>)" (is "net_inv ?s")
proof -
  let ?p = "ext_Packet ext" and ?g = "nd_gossip (net_nodes s n)"
  have own: "stored_at s origin origin i = Some ?p" by (rule net_invD(6) [OF inv flight])
  then have "i < gh_seqID (nd_gossip (net_nodes s origin))" using net_invD(7) [OF inv] by simp
  then have i: "i \<noteq> - 1" by (metis leD word_n1_ge)
  have nm: "nd_Name nd' = n \<and> clock_inv (nd_gossip nd') \<and> gh_seqID (nd_gossip nd') = gh_seqID ?g
    \<and> (\<forall>o2 j. stored (nd_gossip nd') o2 j = (if n \<noteq> origin \<and> o2 = origin \<and> j = i \<and> stored_at s n origin i = None then Some ?p else stored_at s n o2 j))"
  proof (cases "origin = n")
    case True
    then have "nd' = net_nodes s n" using h net_invD(1) [OF inv] by (simp add: HandleGossipMessage_def)
    with True net_invD(1,2) [OF inv] show ?thesis by simp
  next
    case False
    from store_in_net [OF inv i, of n ?p origin] obtain gh' where
      g: "storeMessage ?g ?p origin i = Some (stored_at s n origin i \<noteq> None, gh')" "clock_inv gh'" "gh_seqID gh' = gh_seqID ?g"
      "\<forall>o2 j. stored gh' o2 j = (if o2 = origin \<and> j = i \<and> stored_at s n origin i = None then Some ?p else stored_at s n o2 j)" by auto
    have "nd_Name nd' = n" "nd_gossip nd' = gh'" using h g(1) False net_invD(1) [OF inv] by (auto simp: HandleGossipMessage_def Let_def)
    with g False show ?thesis by simp
  qed
  have at: "stored_at ?s m o2 j = (if m = n \<and> n \<noteq> origin \<and> o2 = origin \<and> j = i \<and> stored_at s n origin i = None then Some ?p else stored_at s m o2 j)" for m o2 j
    using nm by simp
  have same: "stored_at ?s m m j = stored_at s m m j" for m j using at by auto
  show ?thesis unfolding net_inv_def
  proof (intro conjI allI ballI impI)
    fix m show "nd_Name (net_nodes ?s m) = m" "clock_inv (nd_gossip (net_nodes ?s m))" "gh_seqID (nd_gossip (net_nodes ?s m)) \<noteq> 0"
      using net_invD(1-3) [OF inv] nm by simp_all
  next
    fix m o2 j q assume q: "stored_at ?s m o2 j = Some q"
    then have "q = ?p \<and> o2 = origin \<and> j = i \<or> stored_at s m o2 j = Some q" unfolding at by (auto split: if_splits)
    then show "stored_at ?s o2 o2 j = Some q" "gossip_id q = Some (o2, j)"
      using net_invD(4,5) [OF inv] own flight(2) unfolding same by blast+
  next
    fix q o2 j assume "q \<in> net_packets ?s" and q: "gossip_id q = Some (o2, j)"
    then have "q \<in> net_packets s" using sent_by_HandleGossip [OF h, of q] flight(1) by auto
    then show "stored_at ?s o2 o2 j = Some q" unfolding same using net_invD(6) [OF inv _ q] by blast
  next
    fix m j assume "stored_at ?s m m j \<noteq> None"
    then show "j < gh_seqID (nd_gossip (net_nodes ?s m))" unfolding same using net_invD(7) [OF inv] nm by auto
  next
    fix m x assume "x \<in> set (net_loaded ?s m)"
    then show "fst x = gh_seqID (nd_gossip (net_nodes ?s m))" using net_invD(8) [OF inv, of x m] nm by simp
  next
    fix m show "distinct (map fst (net_numbered ?s m))" using net_invD(9) [OF inv] by simp
  next
    fix m x assume "x \<in> set (net_numbered ?s m)"
    then show "fst x < gh_seqID (nd_gossip (net_nodes ?s m))" "stored_at ?s m m (fst x) = None"
      unfolding same using net_invD(10) [OF inv, of x m] nm by auto
  qed
qed

lemma status_inv:
  assumes inv: "net_inv s" and h: "handlePeerStatus rng (net_nodes s n) ext = Inr acts"
  shows "net_inv (s\<lparr>net_packets := net_packets s \<union> sent_packets acts\<rparr>)"
proof -
  have "stored_at s o2 o2 j = Some q" if "q \<in> sent_packets acts" "gossip_id q = Some (o2, j)" for q o2 j
  proof -
    from sent_by_handlePeerStatus [OF h that(1)] that(2) obtain o3 j3 where "stored_at s n o3 j3 = Some q" by auto
    with net_invD(4,5) [OF inv this] that(2) show ?thesis by simp
  qed
  then show ?thesis using inv unfolding net_inv_def by auto
qed

lemma net_step_inv: "net_step rng s s' \<Longrightarrow> serial s \<Longrightarrow> net_inv s \<Longrightarrow> net_inv s'"
proof (induction rule: net_step.induct)
  case (load s n c)
  then show ?case by (intro load_inv)
next
  case (add i c s n)
  then show ?case by (intro add_inv)
next
  case (store i c s n p nd')
  then show ?case by (intro publish_inv)
next
  case (handle_gossip ext s origin i n nd' acts)
  then show ?case by (intro gossip_inv)
next
  case (handle_status s n ext acts)
  then show ?case by (intro status_inv)
qed

lemma serial_reachable_inv: "serial_reachable rng s \<Longrightarrow> net_inv s \<and> serial s"
  by (induction rule: serial_reachable.induct) (auto simp: net_start_def serial_def intro: net_inv_start net_step_inv)

section \<open>Agreement\<close>

text \<open>
  Claim C4. In every state that a network of honest nodes can reach while no two publishers of a node overlap between reading its sequence number and
  advancing it, whatever is delayed, lost, repeated or reordered and whatever status packets are made
  up: two nodes that hold a rumor, Whisper status or blockchain message of the same origin and number hold the same message, the one the origin
  published; every vector clock is exact; and a node handles any gossip message in flight without looping.
\<close>

theorem gossip_agreement:
  assumes "serial_reachable rng s"
  shows "(\<forall>m n origin i p q. stored_at s m origin i = Some p \<longrightarrow> stored_at s n origin i = Some q \<longrightarrow> p = q \<and> stored_at s origin origin i = Some p)
    \<and> (\<forall>n. clock_inv (nd_gossip (net_nodes s n)))
    \<and> (\<forall>n ext origin i. ext_Packet ext \<in> net_packets s \<longrightarrow> gossip_id (ext_Packet ext) = Some (origin, i) \<longrightarrow>
         HandleGossipMessage rng (net_nodes s n) ext origin i \<noteq> None)"
proof -
  have inv: "net_inv s" using serial_reachable_inv [OF assms] by blast
  have agree: "p = q \<and> stored_at s origin origin i = Some p" if "stored_at s m origin i = Some p" "stored_at s n origin i = Some q" for m n origin i p q
    using net_invD(4) [OF inv that(1)] net_invD(4) [OF inv that(2)] by simp
  have returns: "HandleGossipMessage rng (net_nodes s n) ext origin i \<noteq> None"
    if "ext_Packet ext \<in> net_packets s" "gossip_id (ext_Packet ext) = Some (origin, i)" for n ext origin i
  proof -
    have "i < gh_seqID (nd_gossip (net_nodes s origin))" using net_invD(6) [OF inv that] net_invD(7) [OF inv] by simp
    then have i: "i \<noteq> - 1" by (metis leD word_n1_ge)
    from store_in_net [OF inv i, of n "ext_Packet ext" origin] show ?thesis
      by (auto simp: HandleGossipMessage_def Let_def)
  qed
  show ?thesis using agree returns net_invD(2) [OF inv] by blast
qed

section \<open>Publishers that overlap\<close>

text \<open>Nothing stored is ever replaced, in any run.\<close>

lemma storeMessage_keeps: "storeMessage gh p o' i = Some (b, gh') \<Longrightarrow> stored gh o2 j = Some q \<Longrightarrow> stored gh' o2 j = Some q"
  by (auto simp: storeMessage_def updateStatus_def Let_def stored_def bind_eq_Some_conv split: if_splits option.splits)

lemma net_step_keeps: "net_step rng s s' \<Longrightarrow> stored_at s m o2 j = Some q \<Longrightarrow> stored_at s' m o2 j = Some q"
proof (induction rule: net_step.induct)
  case (add i c s n)
  then show ?case by (auto simp: add_seqID_def)
next
  case (store i c s n p nd')
  from publish_shape [OF store(2)] store(3) storeMessage_keeps show ?case by fastforce
next
  case (handle_gossip ext s origin i n nd' acts)
  then show ?case using storeMessage_keeps
    by (fastforce simp: HandleGossipMessage_def Let_def bind_eq_Some_conv split: if_splits)
qed simp_all

lemma net_steps_keep: "(net_step rng)\<^sup>*\<^sup>* s s' \<Longrightarrow> stored_at s m o2 j = Some q \<Longrightarrow> stored_at s' m o2 j = Some q"
  by (induction rule: rtranclp_induct) (auto dest: net_step_keeps)

definition rumor_of :: "string \<Rightarrow> uint32 \<Rightarrow> string \<Rightarrow> GossipPacket" where
  "rumor_of n i text = empty_packet\<lparr>gp_Rumor := Some \<lparr>rum_Origin = n, rum_ID = i, rum_Text = text\<rparr>\<rparr>"

lemma publish_rumor_of:
  assumes "nd_Name nd = n" "clock_inv (nd_gossip nd)" "stored (nd_gossip nd) n (- 1) = None" "i \<noteq> - 1"
  shows "\<exists>gh. publish rng nd i (RumorOf text) = Some (rumor_of n i text, nd\<lparr>nd_gossip := gh\<rparr>) \<and> clock_inv gh \<and>
    (\<forall>o2 j. stored gh o2 j = (if o2 = n \<and> j = i \<and> stored (nd_gossip nd) n i = None then Some (rumor_of n i text) else stored (nd_gossip nd) o2 j))"
proof -
  from store_free [OF assms(2-4), of "rumor_of n i text"] obtain gh
    where "storeMessage (nd_gossip nd) (rumor_of n i text) n i = Some (stored (nd_gossip nd) n i \<noteq> None, gh)" "clock_inv gh"
      "\<forall>o2 j. stored gh o2 j = (if o2 = n \<and> j = i \<and> stored (nd_gossip nd) n i = None then Some (rumor_of n i text) else stored (nd_gossip nd) o2 j)"
    by blast
  with assms(1) show ?thesis by (intro exI [of _ gh]) (simp add: publish_rumor_def rumor_of_def)
qed

lemma handle_new:
  assumes inv: "clock_inv (nd_gossip nd)" and "nd_Name nd \<noteq> n" "stored (nd_gossip nd) n (- 1) = None" "i \<noteq> - 1" "stored (nd_gossip nd) n i = None"
  shows "\<exists>nd' acts. HandleGossipMessage rng nd ext n i = Some (nd', acts) \<and> stored (nd_gossip nd') n i = Some (ext_Packet ext)"
  using store_free [OF inv assms(3,4), of "ext_Packet ext"] assms(2,5) by (auto simp: HandleGossipMessage_def Let_def)

lemma rumor_of_inject: "rumor_of n i text1 = rumor_of n i text2 \<longleftrightarrow> text1 = text2"
  by (auto simp: rumor_of_def dest: arg_cong [where f = gp_Rumor])

text \<open>Two publishers of a node that both load before either adds.\<close>

lemma both_numbered:
  assumes idle: "net_loaded s n = []" and seq: "gh_seqID (nd_gossip (net_nodes s n)) = i" "i \<noteq> - 1" "i + 1 \<noteq> - 1" and c: "c1 \<noteq> c2"
  shows "(net_step rng)\<^sup>*\<^sup>* s (s\<lparr>net_nodes := (net_nodes s)(n := (net_nodes s n)\<lparr>nd_gossip := add_seqID (add_seqID (nd_gossip (net_nodes s n)))\<rparr>),
    net_loaded := (net_loaded s)(n := []), net_numbered := (net_numbered s)(n := (i, c2) # (i, c1) # net_numbered s n)\<rparr>)" (is "(net_step rng)\<^sup>*\<^sup>* s ?s4")
proof -
  let ?nd = "net_nodes s n"
  let ?s1 = "s\<lparr>net_loaded := (net_loaded s)(n := [(i, c1)])\<rparr>"
  let ?s2 = "s\<lparr>net_loaded := (net_loaded s)(n := [(i, c2), (i, c1)])\<rparr>"
  let ?s3 = "s\<lparr>net_nodes := (net_nodes s)(n := ?nd\<lparr>nd_gossip := add_seqID (nd_gossip ?nd)\<rparr>), net_loaded := (net_loaded s)(n := [(i, c2)]),
      net_numbered := (net_numbered s)(n := (i, c1) # net_numbered s n)\<rparr>"
  have "net_step rng s ?s1" using net_step.load [of rng s n c1] idle seq(1) by (simp add: load_seqID_def)
  moreover have "net_step rng ?s1 ?s2" using net_step.load [of rng ?s1 n c2] seq(1) by (simp add: load_seqID_def)
  moreover have "net_step rng ?s2 ?s3" using net_step.add [of i c1 ?s2 n rng] seq(1,2) c by simp
  moreover have "net_step rng ?s3 ?s4" using net_step.add [of i c2 ?s3 n rng] seq(1,3) by (simp add: add_seqID_def)
  ultimately show ?thesis by (meson rtranclp.rtrancl_into_rtrancl rtranclp.rtrancl_refl)
qed

text \<open>
  Two goroutines of a node that publish at the same time may load the same number. Then two different messages go out under it; the node itself
  stores the first, another node that hears of the second first stores that, and neither ever takes the other message. It can happen in every
  state of a network in which the node has numbers left.
\<close>

theorem overlapping_publishers_disagree:
  assumes r: "serial_reachable rng s" and idle: "net_loaded s n = []" and seq: "gh_seqID (nd_gossip (net_nodes s n)) = i" "i < - 2"
    and texts: "text1 \<noteq> text2" and other: "m \<noteq> n"
  shows "\<exists>s'. (net_step rng)\<^sup>*\<^sup>* s s' \<and> rumor_of n i text1 \<noteq> rumor_of n i text2 \<and>
    (\<forall>s''. (net_step rng)\<^sup>*\<^sup>* s' s'' \<longrightarrow> stored_at s'' n n i = Some (rumor_of n i text1) \<and> stored_at s'' m n i = Some (rumor_of n i text2))"
proof -
  have inv: "net_inv s" using serial_reachable_inv [OF r] by blast
  let ?nd = "net_nodes s n" and ?c1 = "RumorOf text1" and ?c2 = "RumorOf text2"
  have i: "i \<noteq> - 1" "i + 1 \<noteq> - 1"
  proof -
    have u: "unat i < unat (- 2 :: uint32)" using seq(2) by (simp add: word_less_nat_alt)
    then have "unat (i + 1) = unat i + 1" by (simp add: unat_word_ariths)
    moreover have "unat (- 1 :: uint32) = 2 ^ 32 - 1" by (simp add: unsigned_minus_1_eq_mask mask_eq_exp_minus_1)
    moreover have "unat (- 2 :: uint32) = 2 ^ 32 - 2" by simp
    ultimately show "i \<noteq> - 1" "i + 1 \<noteq> - 1" using u by (auto simp only: word_unat_eq_iff)
  qed
  let ?nd4 = "?nd\<lparr>nd_gossip := add_seqID (add_seqID (nd_gossip ?nd))\<rparr>"
  let ?s4 = "s\<lparr>net_nodes := (net_nodes s)(n := ?nd4), net_loaded := (net_loaded s)(n := []), net_numbered := (net_numbered s)(n := (i, ?c2) # (i, ?c1) # net_numbered s n)\<rparr>"
  have run4: "(net_step rng)\<^sup>*\<^sup>* s ?s4" by (rule both_numbered [OF idle seq(1) i]) (use texts in simp)
  have nd4: "nd_Name ?nd4 = n" "clock_inv (nd_gossip ?nd4)" "stored (nd_gossip ?nd4) = stored (nd_gossip ?nd)"
    using net_invD(1,2) [OF inv, of n] by (simp_all add: add_seqID_def)
  have none: "stored (nd_gossip ?nd) n i = None" using next_number_free [OF inv, of n] seq(1) by simp
  have last: "stored_at s k n (- 1) = None" for k by (rule last_number_free [OF inv])
  from publish_rumor_of [OF nd4(1,2) _ i(1), of rng text1] last [of n] nd4(3) none obtain gh5 where
    p5: "publish rng ?nd4 i ?c1 = Some (rumor_of n i text1, ?nd4\<lparr>nd_gossip := gh5\<rparr>)" "clock_inv gh5"
    and st5: "\<forall>o2 j. stored gh5 o2 j = (if o2 = n \<and> j = i then Some (rumor_of n i text1) else stored (nd_gossip ?nd) o2 j)" by auto
  let ?nd5 = "?nd4\<lparr>nd_gossip := gh5\<rparr>"
  let ?s5 = "?s4\<lparr>net_nodes := (net_nodes ?s4)(n := ?nd5), net_packets := insert (rumor_of n i text1) (net_packets ?s4),
      net_numbered := (net_numbered ?s4)(n := remove1 (i, ?c1) (net_numbered ?s4 n))\<rparr>"
  have s5: "net_step rng ?s4 ?s5" by (rule net_step.store) (use p5(1) in simp_all)
  have nd5: "nd_Name ?nd5 = n" "clock_inv (nd_gossip ?nd5)" "stored (nd_gossip ?nd5) n (- 1) = None" using nd4(1) p5(2) st5 last [of n] i(1) by simp_all
  from publish_rumor_of [OF nd5 i(1), of rng text2] obtain gh6 where
    p6: "publish rng ?nd5 i ?c2 = Some (rumor_of n i text2, ?nd5\<lparr>nd_gossip := gh6\<rparr>)" by blast
  let ?s6 = "?s5\<lparr>net_nodes := (net_nodes ?s5)(n := ?nd5\<lparr>nd_gossip := gh6\<rparr>), net_packets := insert (rumor_of n i text2) (net_packets ?s5),
      net_numbered := (net_numbered ?s5)(n := remove1 (i, ?c2) (net_numbered ?s5 n))\<rparr>"
  have s6: "net_step rng ?s5 ?s6" by (rule net_step.store) (use p6 texts in simp_all)
  have "stored_at ?s5 n n i = Some (rumor_of n i text1)" using st5 by simp
  then have own: "stored_at ?s6 n n i = Some (rumor_of n i text1)" by (rule net_step_keeps [OF s6])
  let ?ext = "\<lparr>ext_Packet = rumor_of n i text2, ext_SenderAddr = []\<rparr>"
  have "stored_at s m n i = None" using net_invD(4) [OF inv, of m n i] none by (cases "stored_at s m n i") auto
  with handle_new [of "net_nodes s m" n i rng ?ext] net_invD(1,2) [OF inv, of m] other last [of m] i(1) obtain nd' acts
    where h: "HandleGossipMessage rng (net_nodes ?s6 m) ?ext n i = Some (nd', acts)" "stored (nd_gossip nd') n i = Some (rumor_of n i text2)" by auto
  let ?s7 = "?s6\<lparr>net_nodes := (net_nodes ?s6)(m := nd'), net_packets := net_packets ?s6 \<union> sent_packets acts\<rparr>"
  have s7: "net_step rng ?s6 ?s7" by (rule net_step.handle_gossip [OF _ _ h(1)]) (simp_all add: gossip_id_def rumor_of_def)
  have "stored_at ?s7 n n i = Some (rumor_of n i text1)" by (rule net_step_keeps [OF s7 own])
  moreover have "stored_at ?s7 m n i = Some (rumor_of n i text2)" using h(2) by simp
  ultimately have keep: "\<forall>s''. (net_step rng)\<^sup>*\<^sup>* ?s7 s'' \<longrightarrow> stored_at s'' n n i = Some (rumor_of n i text1) \<and> stored_at s'' m n i = Some (rumor_of n i text2)"
    using net_steps_keep by blast
  have "(net_step rng)\<^sup>*\<^sup>* s ?s7" using run4 s5 s6 s7 by (meson rtranclp.rtrancl_into_rtrancl)
  moreover have "rumor_of n i text1 \<noteq> rumor_of n i text2" using texts by (simp add: rumor_of_inject)
  ultimately show ?thesis using keep by blast
qed

section \<open>Runs\<close>

definition two_nodes :: Net where
  "two_nodes = \<lparr>net_nodes = (\<lambda>n. \<lparr>nd_Name = n, nd_Address = n, nd_Peers = [], nd_gossip = NewGossipHandler, nd_routing = NewRoutingHandler\<rparr>),
     net_packets = {}, net_loaded = (\<lambda>_. []), net_numbered = (\<lambda>_. [])\<rparr>"

lemma two_nodes_start: "net_start two_nodes"
  by (simp add: net_start_def two_nodes_def)

text \<open>A publisher that is not disturbed reaches the state after its message is stored and sent.\<close>

lemma publish_alone:
  assumes r: "serial_reachable rng s" and idle: "\<forall>k. net_loaded s k = []" and seq: "gh_seqID (nd_gossip (net_nodes s n)) = i" "i \<noteq> - 1"
    and p: "publish rng ((net_nodes s n)\<lparr>nd_gossip := add_seqID (nd_gossip (net_nodes s n))\<rparr>) i c = Some (p, nd')"
  shows "serial_reachable rng (s\<lparr>net_nodes := (net_nodes s)(n := nd'), net_packets := insert p (net_packets s)\<rparr>)"
proof -
  let ?nd = "(net_nodes s n)\<lparr>nd_gossip := add_seqID (nd_gossip (net_nodes s n))\<rparr>"
  let ?s1 = "s\<lparr>net_loaded := (net_loaded s)(n := [(i, c)])\<rparr>"
  let ?s2 = "s\<lparr>net_nodes := (net_nodes s)(n := ?nd), net_numbered := (net_numbered s)(n := (i, c) # net_numbered s n)\<rparr>"
  let ?s3 = "s\<lparr>net_nodes := (net_nodes s)(n := nd'), net_packets := insert p (net_packets s)\<rparr>"
  have same: "(net_loaded s)(n := []) = net_loaded s" using idle by auto
  have serial: "serial ?s1" "serial ?s2" "serial ?s3" using idle by (simp_all add: serial_def)
  have "net_step rng s ?s1" using net_step.load [of rng s n c] idle seq(1) by (simp add: load_seqID_def)
  note r1 = serial_reachable.step [OF r this serial(1)]
  have "net_step rng ?s1 ?s2" using net_step.add [of i c ?s1 n rng] seq by (simp add: same)
  note r2 = serial_reachable.step [OF r1 this serial(2)]
  have "net_step rng ?s2 ?s3" using net_step.store [of i c ?s2 n rng p nd'] p by simp
  from serial_reachable.step [OF r2 this serial(3)] show ?thesis .
qed

text \<open>A run: \<open>a\<close> creates a rumor, \<open>b\<close> stores it.\<close>

lemma run_reachable:
  "\<exists>s. serial_reachable (\<lambda>_. []) s \<and> stored_at s ''a'' ''a'' 1 = Some (rumor_of ''a'' 1 ''hi'') \<and> stored_at s ''b'' ''a'' 1 = Some (rumor_of ''a'' 1 ''hi'')"
proof -
  let ?rng = "\<lambda>_. [] :: (string \<times> uint32) list"
  have r0: "serial_reachable ?rng two_nodes" by (rule serial_reachable.start [OF two_nodes_start])
  have inv0: "net_inv two_nodes" using serial_reachable_inv [OF r0] by blast
  have q: "gh_seqID (nd_gossip (net_nodes two_nodes n)) = 1" for n by (simp add: two_nodes_def NewGossipHandler_def)
  have e: "stored_at two_nodes n o' j = None" for n o' j by (simp add: two_nodes_def)
  let ?nd = "(net_nodes two_nodes ''a'')\<lparr>nd_gossip := add_seqID (nd_gossip (net_nodes two_nodes ''a''))\<rparr>"
  have "nd_Name ?nd = ''a''" "clock_inv (nd_gossip ?nd)" "stored (nd_gossip ?nd) = stored_at two_nodes ''a''"
    using net_invD(1,2) [OF inv0, of "''a''"] by (simp_all add: add_seqID_def)
  with publish_rumor_of [of ?nd "''a''" 1 ?rng "''hi''"] e [of "''a''"] obtain gh where
    p: "publish ?rng ?nd 1 (RumorOf ''hi'') = Some (rumor_of ''a'' 1 ''hi'', ?nd\<lparr>nd_gossip := gh\<rparr>)" and gh: "stored gh ''a'' 1 = Some (rumor_of ''a'' 1 ''hi'')"
    by auto
  let ?s1 = "two_nodes\<lparr>net_nodes := (net_nodes two_nodes)(''a'' := ?nd\<lparr>nd_gossip := gh\<rparr>), net_packets := insert (rumor_of ''a'' 1 ''hi'') (net_packets two_nodes)\<rparr>"
  have r1: "serial_reachable ?rng ?s1" by (rule publish_alone [OF r0 _ q _ p]) (simp_all add: two_nodes_def)
  have inv1: "net_inv ?s1" using serial_reachable_inv [OF r1] by blast
  let ?ext = "\<lparr>ext_Packet = rumor_of ''a'' 1 ''hi'', ext_SenderAddr = ''x''\<rparr>"
  from handle_new [of "net_nodes ?s1 ''b''" "''a''" 1 ?rng ?ext] net_invD(1,2) [OF inv1, of "''b''"] e [of "''b''"] obtain nd' acts
    where h: "HandleGossipMessage ?rng (net_nodes ?s1 ''b'') ?ext ''a'' 1 = Some (nd', acts)" and st: "stored (nd_gossip nd') ''a'' 1 = Some (rumor_of ''a'' 1 ''hi'')"
    by auto
  let ?s2 = "?s1\<lparr>net_nodes := (net_nodes ?s1)(''b'' := nd'), net_packets := net_packets ?s1 \<union> sent_packets acts\<rparr>"
  have "net_step ?rng ?s1 ?s2" by (rule net_step.handle_gossip [OF _ _ h]) (simp_all add: gossip_id_def rumor_of_def)
  moreover have "serial ?s2" by (simp add: serial_def two_nodes_def)
  ultimately have "serial_reachable ?rng ?s2" by (rule serial_reachable.step [OF r1])
  then show ?thesis using gh st by (intro exI [of _ ?s2]) simp
qed

theorem gossip_agreement_witness:
  "\<exists>s. serial_reachable (\<lambda>_. []) s \<and> stored_at s ''b'' ''a'' 1 = Some (rumor_of ''a'' 1 ''hi'') \<and>
     (\<forall>n q. stored_at s n ''a'' 1 = Some q \<longrightarrow> q = rumor_of ''a'' 1 ''hi'')"
proof -
  obtain s where r: "serial_reachable (\<lambda>_. []) s" and b: "stored_at s ''b'' ''a'' 1 = Some (rumor_of ''a'' 1 ''hi'')" using run_reachable by blast
  have "\<forall>m n origin i p q. stored_at s m origin i = Some p \<longrightarrow> stored_at s n origin i = Some q \<longrightarrow> p = q"
    using gossip_agreement [OF r] by blast
  with b have "q = rumor_of ''a'' 1 ''hi''" if "stored_at s n ''a'' 1 = Some q" for n q using that by blast
  with r b show ?thesis by blast
qed

theorem overlapping_publishers_disagree_witness:
  "\<exists>s. (net_step (\<lambda>_. []))\<^sup>*\<^sup>* two_nodes s \<and> stored_at s ''a'' ''a'' 1 = Some (rumor_of ''a'' 1 ''hi'') \<and> stored_at s ''b'' ''a'' 1 = Some (rumor_of ''a'' 1 ''ho'')"
proof -
  have "net_loaded two_nodes ''a'' = []" "gh_seqID (nd_gossip (net_nodes two_nodes ''a'')) = 1" by (simp_all add: two_nodes_def NewGossipHandler_def)
  moreover have "(1 :: uint32) < - 2" by (simp add: word_less_nat_alt)
  moreover note overlapping_publishers_disagree [OF serial_reachable.start [OF two_nodes_start], of "''a''" 1 "''hi''" "''ho''" "''b''" "\<lambda>_. []"]
  ultimately have "\<exists>s'. (net_step (\<lambda>_. []))\<^sup>*\<^sup>* two_nodes s' \<and> (\<forall>s''. (net_step (\<lambda>_. []))\<^sup>*\<^sup>* s' s'' \<longrightarrow>
      stored_at s'' ''a'' ''a'' 1 = Some (rumor_of ''a'' 1 ''hi'') \<and> stored_at s'' ''b'' ''a'' 1 = Some (rumor_of ''a'' 1 ''ho''))" by (simp add: rumor_of_inject)
  then show ?thesis by (blast intro: rtranclp.rtrancl_refl)
qed

end
