(* ===== verification/Transport.thy ===== *)
theory Transport
  imports Network
begin

text \<open>
  Packets on the wire (\<open>src/gossiper/connectionhandler.go\<close>) and the queues by peer of \<open>processStatusMessages\<close>
  (\<open>src/gossiper/mainhandler.go\<close>). \<open>encode\<close> and \<open>decode\<close> stand for \<open>protobuf.Encode\<close> and \<open>protobuf.Decode\<close>; a decoding error is ignored by the code,
  so \<open>decode\<close> gives what the packet holds afterwards. A read fills at most the buffer: the rest of a longer datagram is lost.
\<close>

definition maxBufferSize :: nat where "maxBufferSize = 60000"

definition read_datagram :: "nat \<Rightarrow> bytes \<Rightarrow> bytes" where
  "read_datagram bufferSize datagram = take bufferSize datagram"

definition wire_send :: "(GossipPacket \<Rightarrow> bytes) \<Rightarrow> GossipPacket \<Rightarrow> address \<Rightarrow> bytes \<times> address" where
  "wire_send encode packet address = (encode packet, address)"

text \<open>One round of the loops: the buffer size for the next round, and what was received.\<close>

definition receivePacketsFromClient :: "(bytes \<Rightarrow> ClientMessage) \<Rightarrow> nat \<Rightarrow> bytes \<Rightarrow> nat \<times> ClientMessage option" where
  "receivePacketsFromClient decode bufferSize datagram =
     (let packetBytes = read_datagram bufferSize datagram; n = length packetBytes
      in if n > bufferSize then (bufferSize + n, None) else (bufferSize, Some (decode packetBytes)))"

definition receivePacketsFromPeers ::
  "AppConstants \<Rightarrow> (bytes \<Rightarrow> GossipPacket) \<Rightarrow> nat \<Rightarrow> Node \<Rightarrow> bytes \<Rightarrow> address \<Rightarrow> nat \<times> Node \<times> (string \<times> ExtendedGossipPacket) option" where
  "receivePacketsFromPeers app decode bufferSize nd datagram addr =
     (let packetBytes = read_datagram bufferSize datagram; n = length packetBytes
      in if n > bufferSize then (bufferSize + n, nd, None)
         else
           let nd' = nd\<lparr>nd_Peers := AddPeer (nd_Address nd) (nd_Peers nd) addr\<rparr>; packet = decode packetBytes
           in (bufferSize, nd', map_option (\<lambda>m. (m, \<lparr>ext_Packet = packet, ext_SenderAddr = addr\<rparr>)) (receive_channel (app_simpleMode app) packet)))"

text \<open>The peers whose status queue has a goroutine; the flag tells whether one is started, the address is the queue the packet goes to.\<close>

definition processStatusMessages :: "address set \<Rightarrow> ExtendedGossipPacket \<Rightarrow> address set \<times> bool \<times> address \<times> ExtendedGossipPacket" where
  "processStatusMessages statusChannels ext =
     (insert (ext_SenderAddr ext) statusChannels, ext_SenderAddr ext \<notin> statusChannels, ext_SenderAddr ext, ext)"

text \<open>
  A packet that fits the buffer arrives as it was sent, on the channel of its type, and its sender becomes a peer; the peers stay without
  duplicates and without the node itself. The buffer never grows, since no read exceeds it.
\<close>

theorem packet_transmitted:
  assumes "decode (encode p) = p" and "length (encode p) \<le> bufferSize" and "gp_Simple p = None" and "\<not> app_simpleMode app"
    and "distinct (nd_Peers nd)" and "nd_Address nd \<notin> set (nd_Peers nd)"
  shows "\<exists>nd'. receivePacketsFromPeers app decode bufferSize nd (fst (wire_send encode p addr)) from_addr =
      (bufferSize, nd', Some (getTypeFromGossip p, \<lparr>ext_Packet = p, ext_SenderAddr = from_addr\<rparr>))
    \<and> distinct (nd_Peers nd') \<and> nd_Address nd' \<notin> set (nd_Peers nd') \<and> (from_addr \<noteq> nd_Address nd \<longrightarrow> from_addr \<in> set (nd_Peers nd'))"
proof -
  have "receive_channel False p = Some (getTypeFromGossip p)" using assms(3) receive_dispatch [of p] by blast
  with assms show ?thesis
    by (auto simp: receivePacketsFromPeers_def read_datagram_def wire_send_def AddPeer_distinct) (auto simp: AddPeer_def)
qed

theorem packet_transmitted_witness:
  "\<exists>nd'. receivePacketsFromPeers \<lparr>app_simpleMode = False, app_hw3ex2Mode = False, app_hw3ex3Mode = False, app_hw3ex4Mode = False, app_ackAllMode = False,
       app_SignalMode = False, app_hopLimit = 10, app_stubbornTimeout = 5, app_routeRumorTimeout = 0, app_antiEntropyTimeout = 10\<rparr>
     (\<lambda>_. empty_packet) maxBufferSize (net_nodes two_nodes ''a'') (fst (wire_send (\<lambda>_. [1]) empty_packet ''a'')) ''b''
     = (maxBufferSize, nd', Some (''unknown'', \<lparr>ext_Packet = empty_packet, ext_SenderAddr = ''b''\<rparr>)) \<and> ''b'' \<in> set (nd_Peers nd')"
  using packet_transmitted [of "\<lambda>_. empty_packet" "\<lambda>_. [1]" empty_packet maxBufferSize "\<lparr>app_simpleMode = False, app_hw3ex2Mode = False,
       app_hw3ex3Mode = False, app_hw3ex4Mode = False, app_ackAllMode = False, app_SignalMode = False, app_hopLimit = 10, app_stubbornTimeout = 5,
       app_routeRumorTimeout = 0, app_antiEntropyTimeout = 10\<rparr>" "net_nodes two_nodes ''a''" "''a''" "''b''"]
  by (auto simp: maxBufferSize_def two_nodes_def empty_packet_def getTypeFromGossip_def)

end
