(* ===== verification/FileIntegrity.thy ===== *)
theory FileIntegrity
  imports Search
begin

text \<open>
  What a hostile network can do to the data a node shares. The steps are all operations of the gossiper that touch the file handler: indexing, fetching data
  from a peer (with any replies that \<open>processDataReply\<close> hands to the channel of the request), search results, the metafile work behind
  them, and search requests. The invariant: the data map holds nothing but data that hash to their key.
\<close>

section \<open>Keys of replies\<close>

lemma EncodeToString_append: "EncodeToString (xs @ ys) = EncodeToString xs @ EncodeToString ys"
  by (induction xs) simp_all

lemma EncodeToString_take: "take (2 * n) (EncodeToString xs) = EncodeToString (take n xs)"
  using EncodeToString_append [of "take n xs" "drop n xs"] by (cases "n \<le> length xs") (simp_all add: min_def)

text \<open>
  The key of a reply joins the hexadecimal hash and the name of the peer without a separator, so a reply may carry a longer or a
  shorter hash with a name that makes up for the difference: a prefix of the hash that was asked for, or an extension of it. The
  hash is compared as an array of 32 bytes, cut or padded with zeros.
\<close>

definition cut_hash :: "bytes \<Rightarrow> bytes \<Rightarrow> bool" where
  "cut_hash h y \<longleftrightarrow> (\<exists>k. y = array32 (take k h)) \<or> (\<exists>x. y = array32 (h @ x))"

lemma array32_exact: "length h = 32 \<Longrightarrow> array32 h = h" by (simp add: array32_def)

lemma array32_long: "32 \<le> length h \<Longrightarrow> array32 (h @ x) = take 32 h" "32 \<le> length h \<Longrightarrow> array32 h = take 32 h"
  by (simp_all add: array32_def)

lemma cut_hash_refl: "length h = 32 \<Longrightarrow> cut_hash h h"
  unfolding cut_hash_def by (metis append_Nil2 array32_exact)

lemma reply_hash:
  assumes "EncodeToString h' @ origin = EncodeToString h @ peer"
  shows "cut_hash h (array32 h')"
proof (cases "length h' \<le> length h")
  case True
  have "EncodeToString h' = take (2 * length h') (EncodeToString h' @ origin)" by simp
  also have "\<dots> = take (2 * length h') (EncodeToString h)" unfolding assms(1) using True by simp
  also have "\<dots> = EncodeToString (take (length h') h)" by (rule EncodeToString_take)
  finally have "h' = take (length h') h" by (simp add: EncodeToString_inj)
  then show ?thesis unfolding cut_hash_def by metis
next
  case False
  have "EncodeToString h = take (2 * length h) (EncodeToString h @ peer)" by simp
  also have "\<dots> = take (2 * length h) (EncodeToString h')" unfolding assms(1) [symmetric] using False by simp
  also have "\<dots> = EncodeToString (take (length h) h')" by (rule EncodeToString_take)
  finally have "h = take (length h) h'" by (simp add: EncodeToString_inj)
  then have "h' = h @ drop (length h) h'" by (metis append_take_drop_id)
  then show ?thesis unfolding cut_hash_def by metis
qed

text \<open>What this says about a full hash, and about a shorter key.\<close>

lemma cut_hash_long:
  assumes "cut_hash h y" and "32 \<le> length h"
  shows "y = take 32 h \<or> (\<exists>k < 32. y = array32 (take k h))"
proof -
  have "array32 (take k h) = take 32 h" if "32 \<le> k" for k using that assms(2) by (simp add: array32_def)
  then show ?thesis using assms unfolding cut_hash_def by (metis array32_long(1) not_le_imp_less)
qed

section \<open>Steps\<close>

text \<open>A reply that the node handed to the channel of its request for \<open>h\<close> from \<open>peer\<close>; the keys of the two do not collide.\<close>

definition handed_over :: "(bytes \<Rightarrow> bytes) \<Rightarrow> Node \<Rightarrow> bytes \<Rightarrow> string \<Rightarrow> DataReply \<Rightarrow> bool" where
  "handed_over H nd h peer d \<longleftrightarrow>
     (\<exists>fh ext. processDataReply H nd fh ext = Inr [HandOver (reply_key H h peer) d]) \<and>
     (reply_key H (dr_HashValue d) (dr_Origin d) = reply_key H h peer \<longrightarrow>
        EncodeToString (dr_HashValue d) @ dr_Origin d = EncodeToString h @ peer)"

inductive files_step :: "(bytes \<Rightarrow> bytes) \<Rightarrow> AppConstants \<Rightarrow> Node \<Rightarrow> FileHandler \<Rightarrow> FileHandler \<Rightarrow> bool" for H app nd where
  index: "files_step H app nd fh (fst (indexFile H app fh name content))"
| fetch: "downloadDataFromPeer H app nd fh peer h events = Some (found, fh', acts, events') \<Longrightarrow>
    (\<And>d. Reply d \<in> set events \<Longrightarrow> handed_over H nd h peer d) \<Longrightarrow> files_step H app nd fh fh'"
| owner: "files_step H app nd fh (add_owner ords fh h peer)"
| metadata: "files_step H app nd fh (store_metadata fh key f)"
| result: "handleSearchResult fh origin res = (fh', acts) \<Longrightarrow> files_step H app nd fh fh'"
| located: "updateFromMetafile ord ords fh key f origin chunkMap = Inr fh' \<Longrightarrow> files_step H app nd fh fh'"
| request: "isRecentSearchRequest H now fh sr = (recent, fh', sr') \<Longrightarrow> files_step H app nd fh fh'"

inductive files_reachable :: "(bytes \<Rightarrow> bytes) \<Rightarrow> AppConstants \<Rightarrow> Node \<Rightarrow> FileHandler \<Rightarrow> bool" for H app nd where
  fresh: "files_reachable H app nd NewFileHandler"
| step: "files_reachable H app nd fh \<Longrightarrow> files_step H app nd fh fh' \<Longrightarrow> files_reachable H app nd fh'"

definition intact :: "(bytes \<Rightarrow> bytes) \<Rightarrow> FileHandler \<Rightarrow> bool" where
  "intact H fh \<longleftrightarrow> (\<forall>h v. data_Load fh h = Some v \<longrightarrow> cut_hash h (H v))"

lemma intact_LoadOrStore: "intact H fh \<Longrightarrow> cut_hash h (H v) \<Longrightarrow> intact H (data_LoadOrStore fh h v)"
  by (auto simp: intact_def data_Load_LoadOrStore)

lemma intact_same: "same_data fh fh' \<Longrightarrow> intact H fh = intact H fh'"
  by (simp add: intact_def same_data_def)

lemma same_data_refl [simp]: "same_data fh fh" by (simp add: same_data_def)

lemma same_data_trans: "same_data a b \<Longrightarrow> same_data b c \<Longrightarrow> same_data a c" by (simp add: same_data_def)

lemma same_data_store_metadata [simp]: "same_data fh (store_metadata fh key f)" "same_data fh (add_owner ords fh h peer)"
  by (simp_all add: same_data_def)

lemma handed_over_hash:
  assumes "handed_over H nd h peer d"
  shows "\<exists>data. dr_Data d = Some data \<and> cut_hash h (H data)"
proof -
  obtain fh ext where p: "processDataReply H nd fh ext = Inr [HandOver (reply_key H h peer) d]" using assms by (auto simp: handed_over_def)
  then obtain d' where d': "gp_DataReply (ext_Packet ext) = Some d'" by (auto simp: processDataReply_def go_bind_eq_Inr)
  have me: "dr_Destination d' = nd_Name nd"
    using p d' by (auto simp: processDataReply_def forward_to_def split: if_splits prod.splits option.splits)
  from p processDataReply_exact [OF d' me, of H fh] obtain data where
    x: "d' = d" "dr_Data d = Some data" "checkHash H (dr_HashValue d) data" "reply_key H (dr_HashValue d) (dr_Origin d) = reply_key H h peer"
    by (auto split: if_splits)
  have "EncodeToString (dr_HashValue d) @ dr_Origin d = EncodeToString h @ peer"
    using x(4) assms by (simp add: handed_over_def)
  then show ?thesis using x reply_hash [of "dr_HashValue d" "dr_Origin d" h peer] by (simp add: checkHash_def)
qed

section \<open>The invariant\<close>

text \<open>A wait that ends with a reply ends with one of the events.\<close>

lemma download_wait_reply: "download_wait nd dq events = Some (Some d, acts, es) \<Longrightarrow> Reply d \<in> set events"
proof (induction nd dq events arbitrary: acts rule: download_wait.induct)
  case (4 nd dq events)
  then show ?case by (auto split: prod.splits)
qed auto

lemma download_intact:
  assumes "intact H fh" and "downloadDataFromPeer H app nd fh peer h events = Some (found, fh', acts, es)"
    and "\<And>d. Reply d \<in> set events \<Longrightarrow> handed_over H nd h peer d"
  shows "intact H fh'"
proof -
  let ?fh = "fh\<lparr>fh_hashChannels := insert (reply_key H h peer) (fh_hashChannels fh)\<rparr>"
  have i: "intact H ?fh" using assms(1) by (simp add: intact_def)
  obtain hop acts0 where f: "forward_to nd (dq_HopLimit (data_request app nd peer h)) (dq_Destination (data_request app nd peer h))
      (data_request_packet (data_request app nd peer h)) = (hop, acts0)" by (metis surj_pair)
  have "map_option (\<lambda>(r, acts', events').
             (case r of
                None \<Rightarrow> (False, ?fh, acts0 @ acts', events')
              | Some d \<Rightarrow> (True, data_LoadOrStore ?fh h (case dr_Data d of None \<Rightarrow> [] | Some b \<Rightarrow> b), acts0 @ acts', events')))
           (download_wait nd ((data_request app nd peer h)\<lparr>dq_HopLimit := hop\<rparr>) events) = Some (found, fh', acts, es)"
    using assms(2) unfolding downloadDataFromPeer_def Let_def f by simp
  then obtain z where z: "download_wait nd ((data_request app nd peer h)\<lparr>dq_HopLimit := hop\<rparr>) events = Some z"
    and e: "(\<lambda>(r, acts', events').
             (case r of
                None \<Rightarrow> (False, ?fh, acts0 @ acts', events')
              | Some d \<Rightarrow> (True, data_LoadOrStore ?fh h (case dr_Data d of None \<Rightarrow> [] | Some b \<Rightarrow> b), acts0 @ acts', events'))) z = (found, fh', acts, es)"
    unfolding map_option_eq_Some by blast
  obtain r acts1 es1 where Z: "z = (r, acts1, es1)" by (metis surj_pair)
  note w = z [unfolded Z] and r = e [unfolded Z prod.case]
  show ?thesis
  proof (cases r)
    case None
    with r i show ?thesis by simp
  next
    case (Some d)
    with w have "Reply d \<in> set events" using download_wait_reply by blast
    from handed_over_hash [OF assms(3) [OF this]] obtain data where "dr_Data d = Some data" "cut_hash h (H data)" by blast
    with r Some intact_LoadOrStore [OF i] show ?thesis by auto
  qed
qed

lemma index_intact:
  assumes "\<And>x. length (H x) = 32" and "intact H fh"
  shows "intact H (fst (indexFile H app fh name content))"
proof (cases content)
  case None
  with assms show ?thesis by (simp add: indexFile_def)
next
  case (Some data)
  have own: "intact H fh1 \<Longrightarrow> intact H (data_LoadOrStore fh1 (H x) x)" for fh1 x
    by (intro intact_LoadOrStore cut_hash_refl assms(1))
  have fold: "intact H fh1 \<Longrightarrow> intact H (fst (foldl (index_chunk H data) (fh1, hs, cm) is))" for fh1 hs cm "is"
    by (induction "is" arbitrary: fh1 hs cm) (simp_all add: index_chunk_step own)
  obtain fh1 hs cm where f: "foldl (index_chunk H data) (fh, [], []) [0..<numFileChunks data] = (fh1, hs, cm)" by (metis surj_pair)
  have i1: "intact H (data_LoadOrStore fh1 (H hs) hs)" using own fold [OF assms(2), of "[]" "[]" "[0..<numFileChunks data]"] f by simp
  have "intact H (store_metadata (data_LoadOrStore fh1 (H hs) hs) key f')" for key f' using i1 by (simp add: intact_def)
  with i1 Some f show ?thesis by (simp add: indexFile_def Let_def metadata_LoadOrStore_def split: option.splits)
qed

lemma locate_same_data:
  assumes "updateFromMetafile ord ords fh key f origin chunkMap = Inr fh'"
  shows "same_data fh fh'"
proof -
  have "same_data fh fh2" if "updateChunkOwnerMap ords fh origin chunkMap metafile = Inr fh2" for fh2 metafile
    using that
  proof (induction chunkMap arbitrary: fh)
    case (Cons e es)
    then obtain h where "updateChunkOwnerMap ords (add_owner ords fh h origin) origin es metafile = Inr fh2"
      by (auto simp: updateChunkOwnerMap_def go_bind_eq_Inr)
    from Cons.IH [OF this] show ?case by (simp add: same_data_def)
  qed (simp add: updateChunkOwnerMap_def)
  then show ?thesis using assms by (auto simp: updateFromMetafile_def go_bind_eq_Inr same_data_def split: option.splits)
qed

lemma files_step_intact:
  assumes "\<And>x. length (H x) = 32"
  shows "files_step H app nd fh fh' \<Longrightarrow> intact H fh \<Longrightarrow> intact H fh'"
proof (induction rule: files_step.induct)
  case (index fh name content)
  then show ?case using index_intact [where H = H, OF assms] by blast
next
  case (fetch fh peer h events found fh' acts events')
  then show ?case using download_intact by blast
next
  case (result fh origin res fh' acts)
  then show ?case by (auto simp: handleSearchResult_def Let_def metadata_LoadOrStore_def intact_def split: option.splits)
next
  case (located ords ord fh key f origin chunkMap fh')
  then show ?case using locate_same_data intact_same by blast
next
  case (request now fh sr recent fh' sr')
  then show ?case by (auto simp: isRecentSearchRequest_def Let_def intact_def data_Load_def split: if_splits)
qed (simp_all add: intact_def)

text \<open>
  Claim C7. Whatever packets the network sends, and whatever hashes the node is made to ask for, of whatever length, every entry of the data map is
  a byte string whose SHA-256 fits the key it is stored under: it is the first 32 bytes of the key, or a prefix of the key followed
  by zeros (the one ambiguity of the reply key), or, for a key shorter than a hash, some extension of the key. So when SHA-256
  never yields such a padded prefix, an entry under a full hash is exact, and under a shorter key its hash begins with the key.
\<close>

theorem stored_data_authentic:
  assumes "files_reachable H app nd fh" and "\<And>x. length (H x) = 32" and "data_Load fh h = Some v"
  shows "if 32 \<le> length h then H v = take 32 h \<or> (\<exists>k < 32. H v = take k h @ replicate (32 - k) 0)
    else take (length h) (H v) = h \<or> (\<exists>k < length h. H v = take k h @ replicate (32 - k) 0)"
proof -
  have "intact H fh"
    using assms(1)
  proof (induction rule: files_reachable.induct)
    case fresh
    show ?case by (simp add: intact_def NewFileHandler_def data_Load_def)
  next
    case (step fh fh')
    then show ?case using files_step_intact [where H = H, OF assms(2)] by blast
  qed
  with assms(3) have c: "cut_hash h (H v)" by (auto simp: intact_def)
  have pad: "array32 (take k h) = take k h @ replicate (32 - k) 0" if "k \<le> length h" "k < 32" for k
    using that by (simp add: array32_def min_absorb2)
  show ?thesis
  proof (cases "32 \<le> length h")
    case True
    from cut_hash_long [OF c True] have "H v = take 32 h \<or> (\<exists>k < 32. H v = take k h @ replicate (32 - k) 0)" using pad True by fastforce
    with True show ?thesis by simp
  next
    case False
    have whole: "take (length h) (array32 (h @ x)) = h" for x using False by (simp add: array32_def min_absorb1)
    from c have "take (length h) (H v) = h \<or> (\<exists>k < length h. H v = array32 (take k h))"
      unfolding cut_hash_def by (metis whole append_Nil2 not_le_imp_less take_all)
    then have "take (length h) (H v) = h \<or> (\<exists>k < length h. H v = take k h @ replicate (32 - k) 0)" using pad False by fastforce
    with False show ?thesis by simp
  qed
qed

text \<open>
  The length of a hash is checked nowhere, neither in the search results it comes from nor in the request or the reply. So a peer
  that is asked for the empty hash, under a name that begins with the hexadecimal hash of any data, makes the node store these data there.
\<close>

lemma empty_hash_stores_anything:
  assumes "\<And>x. length (H x) = 32"
  shows "\<exists>fh. files_reachable H app nd fh \<and> data_Load fh [] = Some v"
proof -
  let ?peer = "EncodeToString (H v) @ ''o''"
  let ?d = "\<lparr>dr_Origin = ''o'', dr_Destination = nd_Name nd, dr_HopLimit = 1, dr_HashValue = H v, dr_Data = Some v\<rparr>"
  have key: "reply_key H (H v) ''o'' = reply_key H [] ?peer" by (simp add: reply_key_def)
  have "processDataReply H nd (NewFileHandler\<lparr>fh_hashChannels := {reply_key H [] ?peer}\<rparr>)
      \<lparr>ext_Packet = empty_packet\<lparr>gp_DataReply := Some ?d\<rparr>, ext_SenderAddr = []\<rparr> = Inr [HandOver (reply_key H [] ?peer) ?d]"
    using key by (simp add: processDataReply_def checkHash_def array32_exact assms(1))
  then have over: "handed_over H nd [] ?peer ?d" unfolding handed_over_def by (intro conjI exI) simp_all
  obtain acts where run: "downloadDataFromPeer H app nd NewFileHandler ?peer [] [Reply ?d] =
      Some (True, data_LoadOrStore (NewFileHandler\<lparr>fh_hashChannels := {reply_key H [] ?peer}\<rparr>) [] v, acts, [])"
    by (cases "forward_to nd (dq_HopLimit (data_request app nd ?peer [])) (dq_Destination (data_request app nd ?peer []))
        (data_request_packet (data_request app nd ?peer []))") (simp add: downloadDataFromPeer_def Let_def NewFileHandler_def)
  have "files_step H app nd NewFileHandler (data_LoadOrStore (NewFileHandler\<lparr>fh_hashChannels := {reply_key H [] ?peer}\<rparr>) [] v)"
    by (rule files_step.fetch [OF run]) (use over in simp)
  then have "files_reachable H app nd (data_LoadOrStore (NewFileHandler\<lparr>fh_hashChannels := {reply_key H [] ?peer}\<rparr>) [] v)"
    by (rule files_reachable.step [OF files_reachable.fresh])
  moreover have "data_Load (data_LoadOrStore (NewFileHandler\<lparr>fh_hashChannels := {reply_key H [] ?peer}\<rparr>) [] v) [] = Some v"
    by (simp add: data_Load_LoadOrStore) (simp add: data_Load_def NewFileHandler_def)
  ultimately show ?thesis by blast
qed

theorem stored_data_authentic_witness:
  "\<exists>fh. files_reachable flat_hash toy_app (sample_node ''a'') fh \<and> data_Load fh (flat_hash [1, 2, 3]) = Some [1, 2, 3]
     \<and> (flat_hash [1, 2, 3] = take 32 (flat_hash [1, 2, 3]) \<or> (\<exists>k < 32. flat_hash [1, 2, 3] = take k (flat_hash [1, 2, 3]) @ replicate (32 - k) 0))"
proof -
  let ?fh = "fst (indexFile flat_hash toy_app NewFileHandler ''g'' (Some [1, 2, 3]))"
  have l: "length (flat_hash x) = 32" for x by (simp add: flat_hash_def)
  have n: "numFileChunks [1, 2, 3 :: 8 word] = 1" by (simp add: numFileChunks_def fileChunk_def)
  have c: "file_chunk [1, 2, 3 :: 8 word] 0 = [1, 2, 3]" by (simp add: file_chunk_def fileChunk_def)
  have m: "metafile_of flat_hash [1, 2, 3] = flat_hash [1, 2, 3]" by (simp add: metafile_of_def n c)
  have p: "file_parts flat_hash [1, 2, 3] = {flat_hash [1, 2, 3], [1, 2, 3]}" by (auto simp: file_parts_def n c m)
  have "hd (flat_hash (flat_hash [1, 2, 3])) \<noteq> hd (flat_hash [1, 2, 3])" by (simp add: flat_hash_def)
  then have inj: "inj_on flat_hash (file_parts flat_hash [1, 2, 3])" unfolding p by (auto simp: inj_on_def)
  have h: "holds_only flat_hash P NewFileHandler" for P by (simp add: holds_only_def data_Load_def NewFileHandler_def)
  have r: "files_reachable flat_hash toy_app (sample_node ''a'') ?fh"
    by (rule files_reachable.step [OF files_reachable.fresh files_step.index])
  have d: "data_Load ?fh (flat_hash [1, 2, 3]) = Some [1, 2, 3]" using indexFile_holds [OF inj h] p by (simp add: holds_all_def)
  from stored_data_authentic [OF r l d] have "flat_hash [1, 2, 3] = take 32 (flat_hash [1, 2, 3]) \<or>
      (\<exists>k < 32. flat_hash [1, 2, 3] = take k (flat_hash [1, 2, 3]) @ replicate (32 - k) 0)"
    by (simp only: l if_True order_refl)
  with r d show ?thesis by blast
qed

end
