(* ===== verification/Console.thy ===== *)
theory Console
  imports Client
begin

text \<open>
  What the gossiper prints and logs (\<open>src/gossiper/printhandler.go\<close>), with the numbers as \<open>fmt.Sprint\<close> writes them. A print is the
  list of its lines; the consensus and gossip logs also go to the channel the web interface reads. The results: numbers
  are read back as they were written, and the consensus log lists the committed files, the oldest first.
\<close>

section \<open>Numbers\<close>

fun decimal :: "nat \<Rightarrow> string" where
  "decimal n = (if n < 10 then [char_of (48 + n)] else decimal (n div 10) @ [char_of (48 + n mod 10)])"

declare decimal.simps [simp del]

definition Sprint :: "'a :: len word \<Rightarrow> string" where
  "Sprint w = decimal (unat w)"

definition Sprint_signed :: "64 word \<Rightarrow> string" where
  "Sprint_signed w = (if sint w < 0 then CHR ''-'' # decimal (nat (- sint w)) else decimal (nat (sint w)))"

lemma digit_of_char: "d < 10 \<Longrightarrow> digit_of (char_of (48 + d)) = Some d"
  by (simp add: digit_of_def)

lemma ParseUint_loop_append:
  "\<forall>c \<in> set xs. digit_of c \<noteq> None \<Longrightarrow>
   ParseUint_loop n (xs @ [c]) =
     (let v = foldl (\<lambda>v c. 10 * v + the (digit_of c)) n xs in
      if v < 2 ^ 64 \<or> xs = [] then ParseUint_loop v [c] else - 1)"
proof (induction xs arbitrary: n)
  case Nil
  then show ?case by (simp add: Let_def)
next
  case (Cons x xs)
  then obtain d where d: "digit_of x = Some d" by auto
  have grow: "m \<le> foldl (\<lambda>v c. 10 * v + the (digit_of c)) m xs" for m :: nat
  proof (induction xs arbitrary: m)
    case (Cons y ys)
    have "m \<le> 10 * m + the (digit_of y)" by simp
    also have "\<dots> \<le> foldl (\<lambda>v c. 10 * v + the (digit_of c)) (10 * m + the (digit_of y)) ys" by (rule Cons.IH)
    finally show ?case by simp
  qed simp
  show ?case
  proof (cases "10 * n + d < 2 ^ 64")
    case True
    with Cons d show ?thesis by (simp add: Let_def)
  next
    case False
    with grow [of "10 * n + d"] d show ?thesis by (simp add: Let_def)
  qed
qed

lemma decimal_digits: "\<forall>c \<in> set (decimal n). digit_of c \<noteq> None"
  by (induction n rule: decimal.induct) (subst decimal.simps, auto simp: digit_of_char)

lemma decimal_value: "foldl (\<lambda>v c. 10 * v + the (digit_of c)) 0 (decimal n) = n"
  by (induction n rule: decimal.induct) (subst decimal.simps, auto simp: digit_of_char)

lemma decimal_nonempty: "decimal n \<noteq> []"
  by (subst decimal.simps) simp

lemma ParseUint_decimal: "ParseUint (decimal n) = (if n < 2 ^ 64 then of_nat n else - 1)"
proof (cases "n < 10")
  case True
  then show ?thesis by (subst decimal.simps) (simp add: ParseUint_def digit_of_char)
next
  case False
  let ?q = "n div 10" and ?r = "n mod 10"
  have d: "decimal n = decimal ?q @ [char_of (48 + ?r)]" using False by (subst decimal.simps) simp
  have "ParseUint (decimal n) = (if ?q < 2 ^ 64 then ParseUint_loop ?q [char_of (48 + ?r)] else - 1)"
    using ParseUint_loop_append [OF decimal_digits, of 0 ?q "char_of (48 + ?r)"]
    by (simp add: ParseUint_def d decimal_value decimal_nonempty Let_def)
  also have "\<dots> = (if n < 2 ^ 64 then of_nat n else - 1)" by (auto simp: digit_of_char)
  finally show ?thesis .
qed

text \<open>
  Numbers survive the web form: a number written in decimal is read back by the form as itself if it fits 64 bits and as the
  largest value otherwise, so every 64-bit number that is printed is read back exactly, and the
  message of a posted search carries that budget.
\<close>

theorem form_reads_numbers:
  "ParseUint (decimal k) = (if k < 2 ^ 64 then of_nat k else - 1) \<and> (\<forall>n :: uint64. ParseUint (Sprint n) = n) \<and>
   postMessageHandler ((\<lambda>_. [])(''keywords'' := CHR ''a'' # kws, ''budget'' := decimal k)) =
     Some (empty_message\<lparr>cm_Keywords := Some (CHR ''a'' # kws), cm_Budget := Some (if k < 2 ^ 64 then of_nat k else - 1)\<rparr>)"
proof -
  have "ParseUint (Sprint n) = n" for n :: uint64
  proof -
    have "unat n < 2 ^ 64" using unsigned_less [of n] by simp
    then show ?thesis by (simp add: Sprint_def ParseUint_decimal)
  qed
  then show ?thesis
    by (simp add: ParseUint_decimal postMessageHandler_def decimal_nonempty convertInputToMessage_def getInputType_def Let_def)
qed

section \<open>Prints\<close>

text \<open>The debug flags are never set; \<open>peers\<close> are the known peers as strings.\<close>

definition hw1 :: bool where "hw1 = False"
definition hw2 :: bool where "hw2 = False"
definition hw3 :: bool where "hw3 = False"

text \<open>\<open>strings.Join\<close>\<close>

fun strings_Join :: "string list \<Rightarrow> string \<Rightarrow> string" where
  "strings_Join [] sep = []"
| "strings_Join [s] sep = s"
| "strings_Join (s # ss) sep = s @ sep @ strings_Join ss sep"

definition GetArrayStringFromAddresses :: "address list \<Rightarrow> string list" where
  "GetArrayStringFromAddresses peers = foldl (\<lambda>list p. list @ [p]) [] peers"

definition printPeers :: "address list \<Rightarrow> string list" where
  "printPeers peers = (if hw1 then [''PEERS '' @ strings_Join (GetArrayStringFromAddresses peers) '',''] else [])"

definition printStatusMessage :: "ExtendedGossipPacket \<Rightarrow> address list \<Rightarrow> string list go" where
  "printStatusMessage ext peers =
     go_bind (go_deref (gp_Status (ext_Packet ext))) (\<lambda>st.
       let message = foldl (\<lambda>message v. message @ ''peer '' @ ps_Identifier v @ '' nextID '' @ Sprint (ps_NextID v) @ '' '')
                       (''STATUS from '' @ ext_SenderAddr ext @ '' '') (st_Want st)
       in if hw1 then go_bind (go_slice message 0 (length message - 1)) (\<lambda>line. Inr (line # printPeers peers)) else Inr [])"

definition printSearchMatchMessage :: "string \<Rightarrow> SearchResult \<Rightarrow> string list go" where
  "printSearchMatchMessage origin res =
     (let message = foldl (\<lambda>message elem. message @ Sprint elem @ '','')
                      (''FOUND match '' @ res_FileName res @ '' at '' @ origin @ '' metafile='' @ EncodeToString (res_MetafileHash res) @ '' chunks='')
                      (res_ChunkMap res)
      in if hw3 then go_bind (go_slice message 0 (length message - 1)) (\<lambda>line. Inr [line]) else Inr [])"

text \<open>The second component is what is sent to the log channel.\<close>

definition tlc_line :: "TLCMessage \<Rightarrow> string" where
  "tlc_line t =
     (let tx = bp_Transaction (tlc_TxBlock t)
      in ''GOSSIP origin '' @ tlc_Origin t @ '' ID '' @ Sprint (tlc_ID t) @ '' filename '' @ tx_Name tx @ '' size '' @ Sprint_signed (tx_Size tx) @
         '' metahash '' @ EncodeToString (tx_MetafileHash tx))"

definition printPeerMessage :: "ExtendedGossipPacket \<Rightarrow> address list \<Rightarrow> (string list \<times> string list) go" where
  "printPeerMessage ext peers =
     (let packet = ext_Packet ext; typePacket = getTypeFromGossip packet in
      go_bind
        (if typePacket = ''simple'' then
           go_bind (go_deref (gp_Simple packet)) (\<lambda>m.
             Inr (if hw1 then [''SIMPLE MESSAGE origin '' @ sm_OriginalName m @ '' from '' @ sm_RelayPeerAddr m @ '' contents '' @ sm_Contents m] else [], []))
         else if typePacket = ''private'' then
           go_bind (go_deref (gp_Private packet)) (\<lambda>m.
             Inr (if hw2 then [''PRIVATE origin '' @ pm_Origin m @ '' hop-limit '' @ Sprint (pm_HopLimit m) @ '' contents '' @ pm_Text m] else [], []))
         else if typePacket = ''tlcMes'' then
           go_bind (go_deref (gp_TLCMessage packet)) (\<lambda>t.
             if sint (tlc_Confirmed t) > -1 then Inr ([''CONFIRMED '' @ tlc_line t], [''CONFIRMED '' @ tlc_line t])
             else Inr ([''UNCONFIRMED '' @ tlc_line t], []))
         else Inr ([], []))
        (\<lambda>(lines, logs). Inr (lines @ printPeers peers, logs)))"

definition printClientMessage :: "ClientMessage \<Rightarrow> address list \<Rightarrow> string list" where
  "printClientMessage message peers =
     (case cm_Destination message of
        Some dest \<Rightarrow> ''CLIENT MESSAGE '' @ cm_Text message @ '' dest '' @ dest
      | None \<Rightarrow> ''CLIENT MESSAGE '' @ cm_Text message) # (if hw1 then printPeers peers else [])"

definition printDownloadMessage :: "string \<Rightarrow> string \<Rightarrow> uint64 \<Rightarrow> string list" where
  "printDownloadMessage fileName destination seqNum =
     (if seqNum = 0 then [''DOWNLOADING metafile of '' @ fileName @ '' from '' @ destination]
      else [''DOWNLOADING '' @ fileName @ '' chunk '' @ Sprint seqNum @ '' from '' @ destination])"

text \<open>\<open>confirmations\<close> in the order of the range. The line is cut by two bytes, also when there are no confirmations.\<close>

definition getIDForConfirmations :: "tlc_map \<Rightarrow> (string \<rightharpoonup> uint32)" where
  "getIDForConfirmations confirmations = foldl (\<lambda>m (key, value). m(key \<mapsto> tlc_ID value)) Map.empty confirmations"

definition round_line :: "uint32 \<Rightarrow> tlc_map \<Rightarrow> string" where
  "round_line roundNr confirmations =
     fst (foldl (\<lambda>(message, i) (key, value).
            (message @ ''origin'' @ decimal i @ '' '' @ key @ '' ID'' @ decimal i @ '' '' @ Sprint (tlc_ID value) @ '', '', i + 1))
          (''ADVANCING TO round '' @ Sprint roundNr @ '' BASED ON CONFIRMED MESSAGES '', 1) confirmations)"

definition printRoundMessage :: "AppConstants \<Rightarrow> uint32 \<Rightarrow> tlc_map \<Rightarrow> (string list \<times> string list) go" where
  "printRoundMessage app roundNr confirmations =
     (let message = round_line roundNr confirmations
      in if app_hw3ex3Mode app then
           go_bind (go_slice message 0 (length message - 2)) (\<lambda>line. Inr ([line], [line]))
         else Inr ([], []))"

definition printConfirmMessage :: "AppConstants \<Rightarrow> uint32 \<Rightarrow> string list \<Rightarrow> string list go" where
  "printConfirmMessage app i witnesses =
     (let message = foldl (\<lambda>message key. message @ key @ '', '') (''RE-BROADCAST ID '' @ Sprint i @ '' WITNESSES '') witnesses
      in if app_hw3ex2Mode app then go_bind (go_slice message 0 (length message - 2)) (\<lambda>line. Inr [line]) else Inr [])"

text \<open>The loop over the chain; a cycle would not end, and a block that is not known faults.\<close>

partial_function (option) consensus_filenames :: "(bytes \<times> BlockPublish) list \<Rightarrow> string \<Rightarrow> bytes \<Rightarrow> string go option" where
  "consensus_filenames history filenames blockHash =
     (if blockHash \<noteq> zero32 then
        (case map_of history blockHash of
           None \<Rightarrow> Some (Inl FailedTypeAssertion)
         | Some block \<Rightarrow> consensus_filenames history (tx_Name (bp_Transaction block) @ '' '' @ filenames) (bp_PrevHash block))
      else Some (Inr filenames))"

declare consensus_filenames.simps [code]

definition printConsensusMessage :: "BlockchainHandler \<Rightarrow> TLCMessage \<Rightarrow> (string list \<times> string list) go option" where
  "printConsensusMessage bh tlcChosen =
     map_option (\<lambda>r. go_bind r (\<lambda>filenames.
       let tx = bp_Transaction (tlc_TxBlock tlcChosen);
           message = ''CONSENSUS ON QSC round '' @ Sprint (bh_myTime bh) @ '' message origin '' @ tlc_Origin tlcChosen @ '' ID '' @
             Sprint (tlc_ID tlcChosen) @ '' filenames '' @ filenames @ ''size '' @ Sprint_signed (tx_Size tx) @
             '' metahash '' @ EncodeToString (tx_MetafileHash tx)
       in Inr ([message], [message])))
       (consensus_filenames (bh_committedHistory bh) [] (bh_topBlockchainHash bh))"

section \<open>The logs of consensus\<close>

lemma consensus_filenames_chain:
  "Ledger.chain history h hs \<Longrightarrow> consensus_filenames history filenames h =
     Some (Inr (concat (map (\<lambda>k. tx_Name (bp_Transaction (the (map_of history k))) @ '' '') (rev hs)) @ filenames))"
proof (induction hs arbitrary: h filenames)
  case Nil
  then show ?case by (subst consensus_filenames.simps) simp
next
  case (Cons k ks)
  then obtain b where b: "h = k" "k \<noteq> zero32" "map_of history k = Some b" "Ledger.chain history (bp_PrevHash b) ks"
    by (auto split: option.splits)
  then show ?case by (subst consensus_filenames.simps) (simp add: Cons.IH)
qed

lemma consensus_filenames_ledger:
  assumes "ledger_is bh txs"
  shows "consensus_filenames (bh_committedHistory bh) [] (bh_topBlockchainHash bh) =
    Some (Inr (concat (map (\<lambda>tx. tx_Name tx @ '' '') (rev txs))))"
proof -
  obtain hs where hs: "Ledger.chain (bh_committedHistory bh) (bh_topBlockchainHash bh) hs" "set hs = fst ` set (bh_committedHistory bh)"
    "committed bh hs = txs" using assms by (auto simp: ledger_is_def)
  have known: "\<exists>b. map_of (bh_committedHistory bh) k = Some b" if "k \<in> set hs" for k
    using that hs(2) map_of_eq_None_iff [of "bh_committedHistory bh" k] by auto
  have "map (\<lambda>k. tx_Name (bp_Transaction (the (map_of (bh_committedHistory bh) k))) @ '' '') (rev hs) = map (\<lambda>tx. tx_Name tx @ '' '') (rev txs)"
    unfolding hs(3) [symmetric] committed_def rev_map map_map by (intro map_cong) (auto dest: known)
  with consensus_filenames_chain [OF hs(1), of "[]"] show ?thesis by simp
qed

text \<open>
  Claim C19. The consensus log is complete and in order: after any sequence of commits without hash collision, announcing the
  message that was decided ends without a fault and writes one line, which names the files of all committed blocks, the oldest
  first, and the same line goes to the log of the web interface.
\<close>

theorem consensus_log_lists_commits:
  assumes "admissible_run (fresh_block H) (commit H) NewBlockchainHandler bs" and "bh = fold (commit H) bs NewBlockchainHandler"
  shows "\<exists>line. printConsensusMessage bh tlc = Some (Inr ([line], [line])) \<and>
    line = ''CONSENSUS ON QSC round '' @ Sprint (bh_myTime bh) @ '' message origin '' @ tlc_Origin tlc @ '' ID '' @ Sprint (tlc_ID tlc) @
      '' filenames '' @ concat (map (\<lambda>b. tx_Name (bp_Transaction b) @ '' '') bs) @
      ''size '' @ Sprint_signed (tx_Size (bp_Transaction (tlc_TxBlock tlc))) @
      '' metahash '' @ EncodeToString (tx_MetafileHash (bp_Transaction (tlc_TxBlock tlc)))"
proof -
  have "ledger_is bh (rev (map bp_Transaction bs))"
    using committed_log.run_view [OF assms(1) ledger_is_New] assms(2) by simp
  from consensus_filenames_ledger [OF this]
  have "consensus_filenames (bh_committedHistory bh) [] (bh_topBlockchainHash bh) =
      Some (Inr (concat (map (\<lambda>b. tx_Name (bp_Transaction b) @ '' '') bs)))" by (simp add: o_def)
  then show ?thesis by (simp add: printConsensusMessage_def Let_def)
qed

theorem consensus_log_lists_commits_witness:
  "\<exists>pre. printConsensusMessage (fold (commit toy_count) [toy_block ''a'', toy_block ''b''] NewBlockchainHandler) (toy_tlc ''n'' 4 0) =
     Some (Inr ([pre @ ''a b size 3 metahash 07''], [pre @ ''a b size 3 metahash 07'']))"
proof -
  let ?bs = "[toy_block ''a'', toy_block ''b'']"
  have "admissible_run (fresh_block toy_count) (commit toy_count) NewBlockchainHandler ?bs"
    by (simp add: toy_hashes commit_def commit_block_def fresh_block_def NewBlockchainHandler_def toy_block_def Let_def)
  from consensus_log_lists_commits [OF this refl, of "toy_tlc ''n'' 4 0"] obtain line where
    l: "printConsensusMessage (fold (commit toy_count) ?bs NewBlockchainHandler) (toy_tlc ''n'' 4 0) = Some (Inr ([line], [line]))"
    "\<exists>pre. line = pre @ ''a b '' @ ''size '' @ Sprint_signed 3 @ '' metahash '' @ EncodeToString [7]"
    by (auto simp: toy_block_def toy_tlc_def)
  have "Sprint_signed 3 = ''3''" "EncodeToString [7] = ''07''" by code_simp+
  with l show ?thesis by auto
qed

text \<open>The other prints never fault on the packets they are called with.\<close>

lemma go_slice_prefix: "\<exists>ys. go_slice xs 0 (length xs - n) = Inr ys"
  by (simp add: go_slice_def)

lemma type_present:
  "getTypeFromGossip packet = ''simple'' \<Longrightarrow> gp_Simple packet \<noteq> None"
  "getTypeFromGossip packet = ''private'' \<Longrightarrow> gp_Private packet \<noteq> None"
  "getTypeFromGossip packet = ''tlcMes'' \<Longrightarrow> gp_TLCMessage packet \<noteq> None"
  by (auto simp: getTypeFromGossip_def split: if_splits)

lemma printPeerMessage_total: "\<exists>r. printPeerMessage ext peers = Inr r"
proof -
  let ?t = "getTypeFromGossip (ext_Packet ext)"
  consider "?t = ''simple''" | "?t = ''private''" | "?t = ''tlcMes''" | "?t \<noteq> ''simple''" "?t \<noteq> ''private''" "?t \<noteq> ''tlcMes''" by blast
  then show ?thesis
  proof cases
    case 1
    from type_present(1) [OF this] 1 show ?thesis by (auto simp: printPeerMessage_def)
  next
    case 2
    from type_present(2) [OF this] 2 show ?thesis by (auto simp: printPeerMessage_def)
  next
    case 3
    from type_present(3) [OF this] 3 show ?thesis by (auto simp: printPeerMessage_def)
  next
    case 4
    then show ?thesis by (simp add: printPeerMessage_def)
  qed
qed

lemma other_prints_total:
  "gp_Status (ext_Packet ext) \<noteq> None \<Longrightarrow> \<exists>ls. printStatusMessage ext peers = Inr ls"
  "\<exists>ls. printSearchMatchMessage origin res = Inr ls" "\<exists>r. printRoundMessage app rn confs = Inr r"
  "\<exists>ls. printConfirmMessage app i ws = Inr ls"
  by (auto simp: printStatusMessage_def printSearchMatchMessage_def printRoundMessage_def printConfirmMessage_def go_slice_def Let_def)

end
