(* ===== verification/WebServer.thy ===== *)
theory WebServer
  imports Console
begin

text \<open>
  The web interface (\<open>src/webserver/webserver.go\<close>), the getters of \<open>src/gossiper/gossiper.go\<close> it reads and the client it posts
  through. A response of \<open>net/http\<close> is a record: the header map that handlers may change, the copy of it that
  \<open>WriteHeader\<close> sends, and the body. JSON encoding, form parsing, name resolution and the detection of content types are
  parameters; the routing package is used as a table of paths and methods.
\<close>

section \<open>Responses\<close>

record ResponseWriter =
  rw_header :: "string \<rightharpoonup> string"
  rw_sent :: "(nat \<times> (string \<rightharpoonup> string)) option"
  rw_body :: bytes

definition new_response :: ResponseWriter where
  "new_response = \<lparr>rw_header = Map.empty, rw_sent = None, rw_body = []\<rparr>"

text \<open>The first call sends the header map as it is then; later calls are ignored.\<close>

definition WriteHeader :: "nat \<Rightarrow> ResponseWriter \<Rightarrow> ResponseWriter" where
  "WriteHeader code w = (case rw_sent w of None \<Rightarrow> w\<lparr>rw_sent := Some (code, rw_header w)\<rparr> | Some _ \<Rightarrow> w)"

definition Header_Set :: "string \<Rightarrow> string \<Rightarrow> ResponseWriter \<Rightarrow> ResponseWriter" where
  "Header_Set key v w = w\<lparr>rw_header := (rw_header w)(key \<mapsto> v)\<rparr>"

definition rw_Write :: "bytes \<Rightarrow> ResponseWriter \<Rightarrow> ResponseWriter" where
  "rw_Write bs w = (let w' = WriteHeader 200 w in w'\<lparr>rw_body := rw_body w' @ bs\<rparr>)"

text \<open>What the browser is told: the type in the sent header, or else the one detected from the body.\<close>

definition response_type :: "(bytes \<Rightarrow> string) \<Rightarrow> ResponseWriter \<Rightarrow> string option" where
  "response_type detect w =
     (case rw_sent w of None \<Rightarrow> None
      | Some (code, h) \<Rightarrow> Some (case h ''Content-Type'' of Some t \<Rightarrow> t | None \<Rightarrow> detect (rw_body w)))"

section \<open>State\<close>

datatype payload =
    JString string
  | JStrings "string list"
  | JFiles "FileGUI list"
  | JRumors "RumorMessage list"
  | JRound uint32

text \<open>What the handlers reach through the gossiper and the Signal handler; channels as the lists of what they hold.\<close>

record Webserver =
  ws_node :: Node
  ws_blockchain :: BlockchainHandler
  ws_latestRumors :: "RumorMessage list"
  ws_filesSearched :: "FileGUI list"
  ws_filesIndexed :: "FileGUI list"
  ws_filesDownloaded :: "FileGUI list"
  ws_blockchainLogs :: "string list"
  ws_Signal :: SignalHandler
  ws_Client :: address

definition BaseAddress :: string where "BaseAddress = ''127.0.0.1''"

text \<open>\<open>NewClient\<close> panics when the address does not resolve; \<open>resolve\<close> is \<open>net.ResolveUDPAddr\<close>.\<close>

definition NewClient :: "(string \<Rightarrow> address option) \<Rightarrow> string \<Rightarrow> address go" where
  "NewClient resolve uiPort =
     (case resolve (BaseAddress @ '':'' @ uiPort) of None \<Rightarrow> Inl ExplicitPanic | Some a \<Rightarrow> Inr a)"

definition NewWebserver :: "(string \<Rightarrow> address option) \<Rightarrow> string \<Rightarrow> Webserver \<Rightarrow> Webserver go" where
  "NewWebserver resolve uiPort parts = go_bind (NewClient resolve uiPort) (\<lambda>a. Inr (parts\<lparr>ws_Client := a\<rparr>))"

text \<open>\<open>SendMessage\<close>: the datagram sent, if any; \<open>encode\<close> is \<open>protobuf.Encode\<close>.\<close>

definition SendMessage ::
  "(ClientMessage \<Rightarrow> bytes) \<Rightarrow> string \<Rightarrow> string \<Rightarrow> string \<Rightarrow> string \<Rightarrow> string \<Rightarrow> uint64 \<Rightarrow> string \<Rightarrow> bytes option" where
  "SendMessage encode msg dest file request kws budget identity =
     map_option encode (convertInputToMessage msg dest file request kws budget identity)"

section \<open>Getters\<close>

definition GetName :: "Webserver \<Rightarrow> string" where "GetName ws = nd_Name (ws_node ws)"
definition GetRound :: "Webserver \<Rightarrow> uint32" where "GetRound ws = bh_myTime (ws_blockchain ws)"
definition GetSearchedFiles :: "Webserver \<Rightarrow> FileGUI list" where "GetSearchedFiles ws = ws_filesSearched ws"
definition GetIndexedFiles :: "Webserver \<Rightarrow> FileGUI list" where "GetIndexedFiles ws = ws_filesIndexed ws"
definition GetDownloadedFiles :: "Webserver \<Rightarrow> FileGUI list" where "GetDownloadedFiles ws = ws_filesDownloaded ws"
definition GetLatestRumorMessages :: "Webserver \<Rightarrow> RumorMessage list" where "GetLatestRumorMessages ws = ws_latestRumors ws"
definition GetBlockchainLogs :: "Webserver \<Rightarrow> string list" where "GetBlockchainLogs ws = ws_blockchainLogs ws"
definition GetPeers :: "Webserver \<Rightarrow> address list" where "GetPeers ws = nd_Peers (ws_node ws)"

section \<open>Handlers\<close>

type_synonym response = "(ResponseWriter \<times> Webserver) go option"

text \<open>\<open>marshal\<close> is \<open>json.Marshal\<close>.\<close>

definition writeJSON :: "(payload \<Rightarrow> bytes option) \<Rightarrow> payload \<Rightarrow> ResponseWriter \<Rightarrow> ResponseWriter" where
  "writeJSON marshal payload w =
     (case marshal payload of
        None \<Rightarrow> w
      | Some bs \<Rightarrow> rw_Write bs (Header_Set ''Content-Type'' ''application/json'' (WriteHeader 200 w)))"

definition respond :: "(payload \<Rightarrow> bytes option) \<Rightarrow> payload \<Rightarrow> ResponseWriter \<Rightarrow> Webserver \<Rightarrow> response" where
  "respond marshal payload w ws = Some (Inr (writeJSON marshal payload w, ws))"

definition getIdentityHandler :: "(payload \<Rightarrow> bytes option) \<Rightarrow> ResponseWriter \<Rightarrow> Webserver \<Rightarrow> response" where
  "getIdentityHandler marshal w ws = respond marshal (JString (GetIdentity (ws_Signal ws))) w ws"

text \<open>\<open>form\<close> is the parsed form, \<open>None\<close> if parsing fails; absent fields are empty.\<close>

definition postSignalHandler :: "(payload \<Rightarrow> bytes option) \<Rightarrow> (string \<Rightarrow> string) option \<Rightarrow> ResponseWriter \<Rightarrow> Webserver \<Rightarrow> response" where
  "postSignalHandler marshal form w ws =
     (case form of None \<Rightarrow> Some (Inr (w, ws))
      | Some get \<Rightarrow> respond marshal (JRumors (GetRatchetMessages (ws_Signal ws) (get ''name''))) w ws)"

definition getBlockchainHandler :: "(payload \<Rightarrow> bytes option) \<Rightarrow> ResponseWriter \<Rightarrow> Webserver \<Rightarrow> response" where
  "getBlockchainHandler marshal w ws =
     map_option (\<lambda>r. go_bind r (\<lambda>files. Inr (writeJSON marshal (JFiles files) w, ws))) (GetBlockchain (ws_blockchain ws))"

definition getBCLogsHandler :: "(payload \<Rightarrow> bytes option) \<Rightarrow> ResponseWriter \<Rightarrow> Webserver \<Rightarrow> response" where
  "getBCLogsHandler marshal w ws =
     Option.bind (GetBlockchainList (GetBlockchainLogs ws)) (\<lambda>(logs, rest).
       respond marshal (JStrings logs) w (ws\<lparr>ws_blockchainLogs := rest\<rparr>))"

definition getRoundHandler :: "(payload \<Rightarrow> bytes option) \<Rightarrow> ResponseWriter \<Rightarrow> Webserver \<Rightarrow> response" where
  "getRoundHandler marshal w ws = respond marshal (JRound (GetRound ws)) w ws"

definition getSearchHandler :: "(payload \<Rightarrow> bytes option) \<Rightarrow> ResponseWriter \<Rightarrow> Webserver \<Rightarrow> response" where
  "getSearchHandler marshal w ws =
     Option.bind (GetFilesList (GetSearchedFiles ws)) (\<lambda>(files, rest). respond marshal (JFiles files) w (ws\<lparr>ws_filesSearched := rest\<rparr>))"

definition getDownloadHandler :: "(payload \<Rightarrow> bytes option) \<Rightarrow> ResponseWriter \<Rightarrow> Webserver \<Rightarrow> response" where
  "getDownloadHandler marshal w ws =
     Option.bind (GetFilesList (GetDownloadedFiles ws)) (\<lambda>(files, rest). respond marshal (JFiles files) w (ws\<lparr>ws_filesDownloaded := rest\<rparr>))"

definition getFileHandler :: "(payload \<Rightarrow> bytes option) \<Rightarrow> ResponseWriter \<Rightarrow> Webserver \<Rightarrow> response" where
  "getFileHandler marshal w ws =
     Option.bind (GetFilesList (GetIndexedFiles ws)) (\<lambda>(files, rest). respond marshal (JFiles files) w (ws\<lparr>ws_filesIndexed := rest\<rparr>))"

definition getMessageHandler :: "(payload \<Rightarrow> bytes option) \<Rightarrow> ResponseWriter \<Rightarrow> Webserver \<Rightarrow> response" where
  "getMessageHandler marshal w ws =
     Option.bind (GetMessagesList (GetLatestRumorMessages ws)) (\<lambda>(ms, rest). respond marshal (JRumors ms) w (ws\<lparr>ws_latestRumors := rest\<rparr>))"

definition getNodeHandler :: "(payload \<Rightarrow> bytes option) \<Rightarrow> ResponseWriter \<Rightarrow> Webserver \<Rightarrow> response" where
  "getNodeHandler marshal w ws = respond marshal (JStrings (GetArrayStringFromAddresses (GetPeers ws))) w ws"

definition getIDHandler :: "(payload \<Rightarrow> bytes option) \<Rightarrow> ResponseWriter \<Rightarrow> Webserver \<Rightarrow> response" where
  "getIDHandler marshal w ws = respond marshal (JString (GetName ws)) w ws"

definition getOriginHandler :: "clock_range \<Rightarrow> (payload \<Rightarrow> bytes option) \<Rightarrow> ResponseWriter \<Rightarrow> Webserver \<Rightarrow> response" where
  "getOriginHandler rng marshal w ws = respond marshal (JStrings (GetOrigins rng (nd_routing (ws_node ws)))) w ws"

section \<open>Routes\<close>

datatype web_handler =
    GetMessage | PostMessage | GetNode | PostNode | GetID | GetOrigin | GetFile | GetDownload | GetSearch | GetRoundNr
  | GetBCLogs | GetChain | GetOwnIdentity | PostSignal | FileServer

definition web_routes :: "(string \<times> string \<times> web_handler) list" where
  "web_routes =
     [(''/message'', ''GET'', GetMessage), (''/message'', ''POST'', PostMessage), (''/node'', ''GET'', GetNode), (''/node'', ''POST'', PostNode),
      (''/id'', ''GET'', GetID), (''/origin'', ''GET'', GetOrigin), (''/file'', ''GET'', GetFile), (''/download'', ''GET'', GetDownload),
      (''/search'', ''GET'', GetSearch), (''/round'', ''GET'', GetRoundNr), (''/bcLogs'', ''GET'', GetBCLogs),
      (''/blockchain'', ''GET'', GetChain), (''/identity'', ''get'', GetOwnIdentity), (''/signal'', ''post'', PostSignal)]"

text \<open>\<open>canon\<close> is what the routing package makes of a method name; the first matching route serves, the files are behind all of them.\<close>

definition dispatch :: "(string \<Rightarrow> string) \<Rightarrow> string \<Rightarrow> string \<Rightarrow> web_handler" where
  "dispatch canon path method =
     (case find (\<lambda>(p, m, h). p = path \<and> canon m = method) web_routes of None \<Rightarrow> FileServer | Some (p, m, h) \<Rightarrow> h)"

text \<open>
  Serving a request; \<open>form\<close> is its form, \<open>body\<close> its body, and \<open>files\<close> answers the requests for files as the library does. A
  message is posted through the client: the datagram is the last component.
\<close>

definition serve ::
  "(ResponseWriter \<Rightarrow> ResponseWriter) \<Rightarrow> clock_range \<Rightarrow> (string \<Rightarrow> address option) \<Rightarrow> (ClientMessage \<Rightarrow> bytes) \<Rightarrow> (payload \<Rightarrow> bytes option) \<Rightarrow>
   (string \<Rightarrow> string) option \<Rightarrow> string \<Rightarrow> web_handler \<Rightarrow> Webserver \<Rightarrow> (ResponseWriter \<times> Webserver \<times> bytes option) go option" where
  "serve files rng resolve encode marshal form body h ws =
     (let w = new_response;
          plain = map_option (\<lambda>r. go_bind r (\<lambda>(w', ws'). Inr (w', ws', None)))
      in case h of
           GetMessage \<Rightarrow> plain (getMessageHandler marshal w ws)
         | PostMessage \<Rightarrow> Some (Inr (w, ws, case form of None \<Rightarrow> None | Some get \<Rightarrow> map_option encode (postMessageHandler get)))
         | GetNode \<Rightarrow> plain (getNodeHandler marshal w ws)
         | PostNode \<Rightarrow> Some (Inr (w, ws\<lparr>ws_node := postNodeHandler resolve (ws_node ws) body\<rparr>, None))
         | GetID \<Rightarrow> plain (getIDHandler marshal w ws)
         | GetOrigin \<Rightarrow> plain (getOriginHandler rng marshal w ws)
         | GetFile \<Rightarrow> plain (getFileHandler marshal w ws)
         | GetDownload \<Rightarrow> plain (getDownloadHandler marshal w ws)
         | GetSearch \<Rightarrow> plain (getSearchHandler marshal w ws)
         | GetRoundNr \<Rightarrow> plain (getRoundHandler marshal w ws)
         | GetBCLogs \<Rightarrow> plain (getBCLogsHandler marshal w ws)
         | GetChain \<Rightarrow> plain (getBlockchainHandler marshal w ws)
         | GetOwnIdentity \<Rightarrow> plain (getIdentityHandler marshal w ws)
         | PostSignal \<Rightarrow> plain (postSignalHandler marshal form w ws)
         | FileServer \<Rightarrow> Some (Inr (files w, ws, None)))"

lemma web_routes_reached:
  assumes "\<And>m. canon m = map (\<lambda>c. if c \<in> set ''gepost'' then char_of (of_char c - 32 :: nat) else c) m"
  shows "\<forall>(p, m, h) \<in> set web_routes. dispatch canon p (canon m) = h"
  by (simp add: web_routes_def dispatch_def assms)

section \<open>The type of a response\<close>

lemma writeJSON_new:
  "marshal payload = Some bs \<Longrightarrow> rw_sent (writeJSON marshal payload new_response) = Some (200, Map.empty) \<and>
   rw_body (writeJSON marshal payload new_response) = bs"
  by (simp add: writeJSON_def new_response_def WriteHeader_def Header_Set_def rw_Write_def Let_def)

text \<open>
  JSON is never announced as JSON: \<open>writeJSON\<close> sends the header before it sets the content type, so whichever
  handler answers a request with a body, the sent header is empty and the browser is told the type detected from the body.
\<close>

theorem json_never_announced:
  assumes "serve files rng resolve encode marshal form body h ws = Some (Inr (w, ws', dgram))" and "h \<noteq> FileServer"
    and "rw_body w \<noteq> []"
  shows "rw_sent w = Some (200, Map.empty) \<and> response_type detect w = Some (detect (rw_body w))"
proof -
  have "w = new_response \<or> (\<exists>payload. w = writeJSON marshal payload new_response)"
    using assms(1,2) by (cases h; cases form) (auto simp: serve_def Let_def go_bind_eq_Inr respond_def bind_eq_Some_conv
      getMessageHandler_def getNodeHandler_def getIDHandler_def getOriginHandler_def getFileHandler_def getDownloadHandler_def
      getSearchHandler_def getRoundHandler_def getBCLogsHandler_def getBlockchainHandler_def getIdentityHandler_def postSignalHandler_def)
  then obtain payload where w: "w = writeJSON marshal payload new_response"
    using assms(3) by (auto simp: new_response_def)
  with assms(3) obtain bs where "marshal payload = Some bs"
    by (cases "marshal payload") (auto simp: writeJSON_def new_response_def)
  from writeJSON_new [where marshal = marshal, OF this] w show ?thesis by (simp add: response_type_def)
qed

section \<open>The log is shown once\<close>

datatype gui_event = Logged string | PollLogs

text \<open>A run of log lines and polls: what the polls show, and what is left.\<close>

fun gui_run :: "(payload \<Rightarrow> bytes option) \<Rightarrow> Webserver \<Rightarrow> gui_event list \<Rightarrow> (bytes list \<times> Webserver) go option" where
  "gui_run marshal ws [] = Some (Inr ([], ws))"
| "gui_run marshal ws (Logged line # es) = gui_run marshal (ws\<lparr>ws_blockchainLogs := ws_blockchainLogs ws @ [line]\<rparr>) es"
| "gui_run marshal ws (PollLogs # es) =
     Option.bind (getBCLogsHandler marshal new_response ws) (\<lambda>r.
       case r of Inl e \<Rightarrow> Some (Inl e)
       | Inr (w, ws') \<Rightarrow> map_option (\<lambda>r. go_bind r (\<lambda>(shown, ws''). Inr (rw_body w # shown, ws''))) (gui_run marshal ws' es))"

definition logged :: "gui_event list \<Rightarrow> string list" where
  "logged es = List.map_filter (\<lambda>e. case e of Logged line \<Rightarrow> Some line | PollLogs \<Rightarrow> None) es"

text \<open>
  The interface shows every log line once: however log lines and polls interleave, the polls return, and what they
  show, read one after the other, followed by what is still in the channel, is what was in the channel at first followed by what was
  logged, in order: nothing is lost, repeated or reordered.
\<close>

theorem log_shown_once:
  assumes "\<And>ls. \<exists>bs. marshal (JStrings ls) = Some bs \<and> read bs = ls"
  shows "\<exists>shown ws'. gui_run marshal ws es = Some (Inr (shown, ws')) \<and>
    concat (map read shown) @ ws_blockchainLogs ws' = ws_blockchainLogs ws @ logged es"
proof (induction es arbitrary: ws)
  case Nil
  then show ?case by (simp add: logged_def map_filter_simps)
next
  case (Cons e es)
  show ?case
  proof (cases e)
    case (Logged line)
    from Cons.IH [of "ws\<lparr>ws_blockchainLogs := ws_blockchainLogs ws @ [line]\<rparr>"] Logged show ?thesis
      by (auto simp: logged_def map_filter_simps)
  next
    case PollLogs
    obtain bs where bs: "marshal (JStrings (ws_blockchainLogs ws)) = Some bs" "read bs = ws_blockchainLogs ws" using assms by blast
    have poll: "getBCLogsHandler marshal new_response ws =
        Some (Inr (writeJSON marshal (JStrings (ws_blockchainLogs ws)) new_response, ws\<lparr>ws_blockchainLogs := []\<rparr>))"
      by (simp add: getBCLogsHandler_def GetBlockchainList_def GetBlockchainLogs_def drain_all respond_def)
    obtain shown ws' where "gui_run marshal (ws\<lparr>ws_blockchainLogs := []\<rparr>) es = Some (Inr (shown, ws'))"
      "concat (map read shown) @ ws_blockchainLogs ws' = logged es" using Cons.IH [of "ws\<lparr>ws_blockchainLogs := []\<rparr>"] by auto
    with poll bs writeJSON_new [where marshal = marshal, OF bs(1)] PollLogs show ?thesis by (simp add: logged_def map_filter_simps)
  qed
qed

section \<open>A concrete encoding\<close>

fun enc_lines :: "string list \<Rightarrow> bytes" where
  "enc_lines [] = []"
| "enc_lines ([] # ls) = 0 # enc_lines ls"
| "enc_lines ((c # cs) # ls) = 1 # of_nat (of_char c) # enc_lines (cs # ls)"

fun dec_lines :: "bytes \<Rightarrow> string list" where
  "dec_lines [] = []"
| "dec_lines [x] = [[]]"
| "dec_lines (x # b # bs) =
     (if x = 0 then [] # dec_lines (b # bs)
      else case dec_lines bs of [] \<Rightarrow> [[char_of (unat b)]] | s # ss \<Rightarrow> (char_of (unat b) # s) # ss)"

lemma dec_enc_lines: "dec_lines (enc_lines ls) = ls"
proof (induction ls rule: enc_lines.induct)
  case (2 ls)
  then show ?case by (cases "enc_lines ls") auto
next
  case (3 c cs ls)
  have "bytes_string (string_bytes [c]) = [c]" by simp
  with 3 show ?case by (simp add: bytes_string_def string_bytes_def)
qed simp

definition sample_marshal :: "payload \<Rightarrow> bytes option" where
  "sample_marshal p = (case p of JStrings ls \<Rightarrow> Some (enc_lines ls) | _ \<Rightarrow> None)"

definition sample_web :: Webserver where
  "sample_web = \<lparr>ws_node = ld_node toy_ledger, ws_blockchain = NewBlockchainHandler, ws_latestRumors = [], ws_filesSearched = [],
     ws_filesIndexed = [], ws_filesDownloaded = [], ws_blockchainLogs = [''first''],
     ws_Signal = toy_node ''alice'' \<lparr>si_IK = undefined, si_SPK = undefined, si_Sign = None, si_OPK = []\<rparr>, ws_Client = ''c''\<rparr>"

theorem log_shown_once_witness:
  "\<exists>shown ws'. gui_run sample_marshal sample_web [Logged ''second'', PollLogs, Logged ''third''] = Some (Inr (shown, ws')) \<and>
     concat (map dec_lines shown) @ ws_blockchainLogs ws' = [''first'', ''second'', ''third'']"
  using log_shown_once [of sample_marshal dec_lines sample_web "[Logged ''second'', PollLogs, Logged ''third'']"]
  by (simp add: sample_marshal_def dec_enc_lines sample_web_def logged_def map_filter_simps)

theorem json_never_announced_witness:
  "\<exists>w ws' dgram. serve (\<lambda>w. w) (\<lambda>_. []) (\<lambda>_. None) (\<lambda>_. []) sample_marshal None [] GetBCLogs sample_web = Some (Inr (w, ws', dgram)) \<and>
     response_type (\<lambda>_. ''text/plain'') w = Some ''text/plain''"
proof -
  obtain w ws' dgram where s: "serve (\<lambda>w. w) (\<lambda>_. []) (\<lambda>_. None) (\<lambda>_. []) sample_marshal None [] GetBCLogs sample_web = Some (Inr (w, ws', dgram))"
    and b: "rw_body w = enc_lines [''first'']"
    by (simp add: serve_def getBCLogsHandler_def GetBlockchainLogs_def GetBlockchainList_def sample_web_def drain_all respond_def
        sample_marshal_def writeJSON_def new_response_def WriteHeader_def Header_Set_def rw_Write_def)
  have "rw_body w \<noteq> []" by (simp add: b)
  from json_never_announced [OF s _ this, of "\<lambda>_. ''text/plain''"] s show ?thesis by blast
qed

end
