(* ===== verification/WhisperNode.thy ===== *)
theory WhisperNode
  imports Whisper
begin

text \<open>
  A running Whisper node (the goroutines of \<open>src/whisper/whisper.go\<close> and \<open>src/whisper/routing.go\<close>): which goroutines
  \<open>Run\<close> starts, what each does in one turn of its loop, how \<open>Stop\<close> ends some of them, and the timers started by the
  parameter changes. The goroutines and the calls of the application interleave in any order: \<open>wn_step\<close> is one turn of
  one of them. Two maps are accessed without a lock: \<open>handleEnvelope\<close> ranges over \<open>peerStatus\<close>, which the status goroutine writes
  under the mutex of the routing handler, and the blacklist has no lock at all. A turn with such an access has a beginning and an end, and a
  state in which two of them overlap is \<open>raced\<close>: there the Go run time may stop the program with a fatal error, so a run goes no further.
\<close>

section \<open>Goroutines\<close>

datatype turn = PacketTurn | StatusTurn | SendCall

text \<open>
  \<open>wn_pending\<close> are the actions started so far (the sleeping goroutines among them store a parameter when they wake up),
  \<open>wn_workers\<close> the number of goroutines in \<open>processQueue\<close>; \<open>wn_serving\<close> tells whether the goroutines that range over the packet
  channels run, \<open>wn_ticking\<close> whether \<open>updateEnvelopes\<close> does. \<open>wn_active\<close> are the turns under way that access a map without its lock.
\<close>

record WNode =
  wn_state :: Whisper
  wn_pending :: "whisper_action list"
  wn_quit :: bool
  wn_workers :: nat
  wn_serving :: bool
  wn_ticking :: bool
  wn_active :: "turn list"

definition NewWNode :: WNode where
  "NewWNode = \<lparr>wn_state = NewWhisper, wn_pending = [], wn_quit = False, wn_workers = 0, wn_serving = False, wn_ticking = False, wn_active = []\<rparr>"

definition whisper_Run :: "nat \<Rightarrow> WNode \<Rightarrow> WNode" where
  "whisper_Run numCPU n = n\<lparr>wn_serving := True, wn_ticking := True, wn_workers := wn_workers n + numCPU\<rparr>"

text \<open>Closing the quit channel a second time faults.\<close>

definition whisper_Stop :: "WNode \<Rightarrow> WNode go" where
  "whisper_Stop n = (if wn_quit n then Inl ExplicitPanic else Inr (n\<lparr>wn_quit := True\<rparr>))"

datatype loop_event =
    Expire uint32
  | Transmit "(address \<times> Status) list"
  | Quit

text \<open>One turn of \<open>updateEnvelopes\<close>; \<open>None\<close> is the return on \<open>quit\<close>.\<close>

fun updateEnvelopes ::
  "WCrypto \<Rightarrow> address list \<Rightarrow> ((bytes \<rightharpoonup> EnvelopeOrigin) \<Rightarrow> EnvelopeOrigin list) \<Rightarrow> Whisper \<Rightarrow> loop_event \<Rightarrow>
   (Whisper \<times> whisper_action list) go option" where
  "updateEnvelopes wc known rng wh (Expire now) = Some (Inr (removeExpiredEnvelopes now wh, []))"
| "updateEnvelopes wc known rng wh (Transmit peers) =
     Some (go_bind (broadcastMessages wc known rng peers wh) (\<lambda>acts. Inr (wh, acts)))"
| "updateEnvelopes wc known rng wh Quit = None"

text \<open>What \<open>sendStatusPeriodically\<close> sends: the status of the start, and the current one at every tick.\<close>

definition sendStatusPeriodically :: "Whisper \<Rightarrow> Whisper list \<Rightarrow> whisper_action list" where
  "sendStatusPeriodically wh ticks = sendStatus wh # map sendStatus ticks"

section \<open>Turns\<close>

text \<open>\<open>peers\<close> lists the entries of a table in the order of one range over it.\<close>

definition table_range :: "(address \<rightharpoonup> Status) \<Rightarrow> (address \<times> Status) list \<Rightarrow> bool" where
  "table_range m peers \<longleftrightarrow> distinct (map fst peers) \<and> map_of peers = m"

text \<open>
  The accesses that collide: the range over \<open>peerStatus\<close> of a packet turn or of a sending call with the writes of a status turn, and
  the writes to the blacklist of a packet turn with the reads of a status turn or of another packet turn.
\<close>

definition raced :: "WNode \<Rightarrow> bool" where
  "raced n \<longleftrightarrow> StatusTurn \<in> set (wn_active n) \<and> (PacketTurn \<in> set (wn_active n) \<or> SendCall \<in> set (wn_active n)) \<or>
     2 \<le> count_list (wn_active n) PacketTurn"

definition turn_over :: "turn \<Rightarrow> Whisper \<Rightarrow> WNode \<Rightarrow> WNode" where
  "turn_over k wh' n = n\<lparr>wn_state := wh', wn_active := remove1 k (wn_active n)\<rparr>"

text \<open>
  A turn that begins does so in \<open>begins\<close> and has its effect when it is over; between the two nothing it reads without a lock is
  written, unless the state is raced. \<open>decode\<close> is the decoder of envelopes. A key operation may leave any key store. A turn whose lock is never released
  (\<open>None\<close>) or that faults has no successor.
\<close>

inductive wn_step :: "(bytes \<Rightarrow> Envelope \<times> bool) \<Rightarrow> WCrypto \<Rightarrow> WNode \<Rightarrow> WNode \<Rightarrow> bool" for decode wc where
  start: "wn_step decode wc n (whisper_Run numCPU n)"
| stop: "whisper_Stop n = Inr n' \<Longrightarrow> wn_step decode wc n n'"
| begins: "k = SendCall \<or> wn_serving n \<Longrightarrow> wn_step decode wc n (n\<lparr>wn_active := k # wn_active n\<rparr>)"
| packet: "PacketTurn \<in> set (wn_active n) \<Longrightarrow> table_range (wr_peerStatus (wh_routing (wn_state n))) peers \<Longrightarrow>
    processWhisperPacket wc decode now peers (wn_state n) ext = Inr wh' \<Longrightarrow> wn_step decode wc n (turn_over PacketTurn wh' n)"
| status: "StatusTurn \<in> set (wn_active n) \<Longrightarrow> processWhisperStatus rngc (wn_state n) nd ext = Inr (wh', out) \<Longrightarrow>
    wn_step decode wc n (turn_over StatusTurn wh' n)"
| work: "0 < wn_workers n \<Longrightarrow> processQueue rngs wc (wn_state n) = Some (Inr wh') \<Longrightarrow> wn_step decode wc n (n\<lparr>wn_state := wh'\<rparr>)"
| work_ends: "wn_quit n \<Longrightarrow> 0 < wn_workers n \<Longrightarrow> wn_step decode wc n (n\<lparr>wn_workers := wn_workers n - 1\<rparr>)"
| turn: "wn_ticking n \<Longrightarrow> updateEnvelopes wc known rnge (wn_state n) ev = Some (Inr (wh', acts)) \<Longrightarrow> wn_step decode wc n (n\<lparr>wn_state := wh'\<rparr>)"
| turns_end: "wn_quit n \<Longrightarrow> updateEnvelopes wc known rnge (wn_state n) Quit = None \<Longrightarrow> wn_step decode wc n (n\<lparr>wn_ticking := False\<rparr>)"
| wake: "a \<in> set (wn_pending n) \<Longrightarrow> wn_step decode wc n (n\<lparr>wn_state := after_sync (wn_state n) a, wn_pending := remove1 a (wn_pending n)\<rparr>)"
| send: "SendCall \<in> set (wn_active n) \<Longrightarrow> table_range (wr_peerStatus (wh_routing (wn_state n))) peers \<Longrightarrow>
    NewWhisperMessage wc pub_of nonce rnd rounds now peers self (wn_state n) message = Inr (r, wh') \<Longrightarrow>
    wn_step decode wc n (turn_over SendCall wh' n)"
| subscribe: "fs_heap (wh_filters (wn_state n)) p = None \<Longrightarrow> NewMessageFilter (wn_state n) p rnd req = Some (Inr (s, wh', acts)) \<Longrightarrow>
    wn_step decode wc n (n\<lparr>wn_state := wh', wn_pending := wn_pending n @ acts\<rparr>)"
| demand: "SetMinPoW (wn_state n) pow = (ok, wh', acts) \<Longrightarrow> wn_step decode wc n (n\<lparr>wn_state := wh', wn_pending := wn_pending n @ acts\<rparr>)"
| widen: "SetBloomFilter (wn_state n) bloom = (ok, wh', acts) \<Longrightarrow> wn_step decode wc n (n\<lparr>wn_state := wh', wn_pending := wn_pending n @ acts\<rparr>)"
| poll: "GetFilterMessages rngm (wn_state n) i = Some (Inr (ms, wh')) \<Longrightarrow> wn_step decode wc n (n\<lparr>wn_state := wh'\<rparr>)"
| keys: "wn_step decode wc n (n\<lparr>wn_state := (wn_state n)\<lparr>wh_cryptoKeys := ks\<rparr>\<rparr>)"

inductive wn_reachable :: "(bytes \<Rightarrow> Envelope \<times> bool) \<Rightarrow> WCrypto \<Rightarrow> WNode \<Rightarrow> bool" for decode wc where
  new: "wn_reachable decode wc NewWNode"
| next_turn: "wn_reachable decode wc n \<Longrightarrow> \<not> raced n \<Longrightarrow> wn_step decode wc n n' \<Longrightarrow> wn_reachable decode wc n'"

section \<open>The invariant\<close>

definition env_ok :: "Envelope \<Rightarrow> bool" where
  "env_ok e \<longleftrightarrow> (\<forall>b. en_bloom e = Some b \<longrightarrow> valid_bloom b)"

definition stored_ok :: "WCrypto \<Rightarrow> Whisper \<Rightarrow> bool" where
  "stored_ok wc wh \<longleftrightarrow>
     (\<forall>h eo. wh_envelopes wh h = Some eo \<longrightarrow> env_ok (eo_Envelope eo) \<and> GetHash wc (eo_Envelope eo) = h)"

definition blooms_ok :: "Whisper \<Rightarrow> bool" where
  "blooms_ok wh \<longleftrightarrow> (\<exists>b. wh_bloomFilter wh = Some b \<and> valid_bloom b) \<and>
     (\<forall>b. wh_bloomFilterTolerance wh = Some b \<longrightarrow> valid_bloom b)"

definition wh_inv :: "WCrypto \<Rightarrow> Whisper \<Rightarrow> bool" where
  "wh_inv wc wh \<longleftrightarrow> stored_ok wc wh \<and> blooms_ok wh \<and> wr_inv (wh_routing wh) \<and> fs_inv (wh_filters wh)"

fun pending_ok :: "whisper_action \<Rightarrow> bool" where
  "pending_ok (BloomToleranceAfterSync b) \<longleftrightarrow> valid_bloom b"
| "pending_ok _ \<longleftrightarrow> True"

definition wn_inv :: "WCrypto \<Rightarrow> WNode \<Rightarrow> bool" where
  "wn_inv wc n \<longleftrightarrow> wh_inv wc (wn_state n) \<and> (\<forall>a \<in> set (wn_pending n). pending_ok a)"

text \<open>The caches of an envelope are not part of its encoding: a decoded envelope has none.\<close>

definition decodes_no_bloom :: "(bytes \<Rightarrow> Envelope \<times> bool) \<Rightarrow> bool" where
  "decodes_no_bloom decode \<longleftrightarrow> (\<forall>bs. en_bloom (fst (decode bs)) = None)"

lemma env_ok_computePow [simp]: "env_ok (computePow wc d e) = env_ok e"
  by (simp add: env_ok_def)

lemma env_ok_GetBloom: "env_ok e \<Longrightarrow> valid_bloom (fst (GetBloom e)) \<and> env_ok (snd (GetBloom e))"
  by (auto simp: env_ok_def GetBloom_def Let_def split: option.splits)

lemma env_ok_GetPow [simp]: "env_ok (snd (GetPow wc e)) = env_ok e"
  by (simp add: GetPow_def Let_def)

lemma CheckFilterMatch_total:
  "(\<And>f. flt = Some f \<Longrightarrow> valid_bloom f) \<Longrightarrow> valid_bloom b \<Longrightarrow> \<exists>m. CheckFilterMatch flt b = Inr m"
  by (cases flt) (auto simp: CheckFilterMatch_bits CheckFilterMatch_def [of None])

definition peers_ok :: "(address \<times> Status) list \<Rightarrow> bool" where
  "peers_ok peers \<longleftrightarrow> (\<forall>(a, st) \<in> set peers. \<forall>f. st_Bloom st = Some f \<longrightarrow> valid_bloom f)"

lemma table_range_ok: "wr_inv rh \<Longrightarrow> table_range (wr_peerStatus rh) peers \<Longrightarrow> peers_ok peers"
  unfolding wr_inv_def table_range_def peers_ok_def by (auto dest: map_of_is_SomeI)

lemma interesting_total:
  "peers_ok peers \<Longrightarrow> env_ok e \<Longrightarrow> \<exists>i e'. interesting_loop wc origin e peers = Inr (i, e') \<and> env_ok e'"
proof (induction peers arbitrary: e)
  case Nil
  then show ?case by auto
next
  case (Cons p peers)
  obtain peer status where p: "p = (peer, status)" by (cases p)
  have rest: "peers_ok peers" and st: "\<And>f. st_Bloom status = Some f \<Longrightarrow> valid_bloom f"
    using Cons.prems(1) p by (auto simp: peers_ok_def)
  obtain b e1 where b: "GetBloom e = (b, e1)" by (cases "GetBloom e")
  obtain w e2 where w: "GetPow wc e1 = (w, e2)" by (cases "GetPow wc e1")
  have ok: "valid_bloom b" "env_ok e1" "env_ok e2"
    using env_ok_GetBloom [OF Cons.prems(2)] b w env_ok_GetPow [of wc e1] by simp_all
  obtain m where "CheckFilterMatch (st_Bloom status) b = Inr m" using CheckFilterMatch_total [OF st ok(1)] by blast
  with p b w ok Cons.prems(2) Cons.IH [OF rest] show ?case by auto
qed

lemma check_total:
  assumes "blooms_ok wh" "env_ok e"
  shows "\<exists>err e'. check_envelope wc now wh e = Inr (err, e') \<and> env_ok e'"
proof -
  obtain err1 e1 where t: "check_time wc now e = (err1, e1)" by (cases "check_time wc now e")
  have e1: "env_ok e1" using t assms(2) by (auto simp: check_time_def Let_def split: if_splits)
  obtain w e2 where w: "GetPow wc e1 = (w, e2)" by (cases "GetPow wc e1")
  obtain b e3 where b: "GetBloom e2 = (b, e3)" by (cases "GetBloom e2")
  have e2: "env_ok e2" using e1 w env_ok_GetPow [of wc e1] by simp
  then have ok: "valid_bloom b" "env_ok e3" using env_ok_GetBloom [of e2] b by simp_all
  obtain m m' where "CheckFilterMatch (GetBloomFilter wh) b = Inr m" "CheckFilterMatch (GetBloomFilterTolerated wh) b = Inr m'"
    using assms(1) CheckFilterMatch_total [of "GetBloomFilter wh", OF _ ok(1)] CheckFilterMatch_total [of "GetBloomFilterTolerated wh", OF _ ok(1)]
    unfolding blooms_ok_def GetBloomFilter_def GetBloomFilterTolerated_def by (metis option.sel)
  with t w b ok show ?thesis unfolding check_envelope_def by simp
qed


lemma handle_total:
  assumes "wh_inv wc wh" "peers_ok peers" "env_ok (eo_Envelope eo)"
  shows "\<exists>err wh'. handleEnvelope wc now peers wh eo = Inr (err, wh') \<and> wh_inv wc wh' \<and>
    wh_filters wh' = wh_filters wh \<and> wh_bloomFilter wh' = wh_bloomFilter wh"
proof -
  obtain i e0 where 0: "interesting_loop wc (eo_Origin eo) (eo_Envelope eo) peers = Inr (i, e0)" "env_ok e0"
    using interesting_total [OF assms(2,3)] by blast
  have "blooms_ok wh" using assms(1) by (simp add: wh_inv_def)
  then obtain err e where 1: "check_envelope wc now wh e0 = Inr (err, e)" "env_ok e" using check_total [OF _ 0(2)] by blast
  have h: "GetHash wc e = GetHash wc (eo_Envelope eo)"
    using interesting_exported [OF 0(1)] check_exported [OF 1(1)] by (intro GetHash_exported) simp
  have keep: "wh_inv wc (wh\<lparr>wh_envelopes := (wh_envelopes wh)(GetHash wc e \<mapsto> eo\<lparr>eo_Envelope := e\<rparr>), wh_queue := q\<rparr>)" for q
    using assms(1) 1(2) by (simp add: wh_inv_def stored_ok_def blooms_ok_def)
  from assms(1) keep show ?thesis by (simp add: handleEnvelope_def 0(1) 1(1) Let_def)
qed

text \<open>Handling an envelope and processing a packet keep the invariant and never fault.\<close>

lemma handle_inv:
  assumes "wh_inv wc wh" "peers_ok peers" "env_ok (eo_Envelope eo)" "handleEnvelope wc now peers wh eo = Inr (err, wh')"
  shows "wh_inv wc wh'"
  using handle_total [OF assms(1-3), of now] assms(4) by auto

lemma packet_total:
  assumes "wh_inv wc wh" "peers_ok peers" "decodes_no_bloom decode" "gp_WhisperPacket (ext_Packet ext) = Some packet"
  shows "\<exists>wh'. processWhisperPacket wc decode now peers wh ext = Inr wh' \<and> wh_inv wc wh'"
proof (cases "ext_SenderAddr ext \<in> wh_blacklist wh \<or> wp_Code packet \<noteq> messagesCode")
  case True
  with assms(1,4) show ?thesis by (auto simp: processWhisperPacket_def Let_def)
next
  case False
  obtain e failed where d: "decode (wp_Payload packet) = (e, failed)" by (cases "decode (wp_Payload packet)")
  have "en_bloom e = None" using assms(3) d unfolding decodes_no_bloom_def by (metis fst_conv)
  then have ok: "env_ok (eo_Envelope \<lparr>eo_Envelope = e, eo_Origin = ext_SenderAddr ext\<rparr>)" by (simp add: env_ok_def)
  from handle_total [OF assms(1,2) ok, of now] obtain err wh'
    where "handleEnvelope wc now peers wh \<lparr>eo_Envelope = e, eo_Origin = ext_SenderAddr ext\<rparr> = Inr (err, wh')" "wh_inv wc wh'" by blast
  then show ?thesis using False assms(4) d
    by (simp add: processWhisperPacket_def Let_def wh_inv_def stored_ok_def blooms_ok_def)
qed

lemma packet_inv:
  assumes "wh_inv wc wh" "peers_ok peers" "decodes_no_bloom decode" "processWhisperPacket wc decode now peers wh ext = Inr wh'"
  shows "wh_inv wc wh'"
proof (cases "gp_WhisperPacket (ext_Packet ext)")
  case None
  with assms show ?thesis by (simp add: processWhisperPacket_def Let_def split: if_splits)
next
  case (Some packet)
  from packet_total [OF assms(1-3) Some, of now] assms(4) show ?thesis by auto
qed

lemma wn_status_inv:
  assumes "wh_inv wc wh" "processWhisperStatus rng wh nd ext = Inr (wh', out)"
  shows "wh_inv wc wh'"
proof (cases "ext_SenderAddr ext \<in> wh_blacklist wh")
  case True
  with assms show ?thesis by (simp add: processWhisperStatus_def)
next
  case False
  with assms(2) obtain ws rh where rh: "w_updateRoutingTable (wh_routing wh) ws (ext_SenderAddr ext) = Inr rh" "wh' = wh\<lparr>wh_routing := rh\<rparr>"
    by (auto simp: processWhisperStatus_def go_bind_eq_Inr)
  have "wr_inv rh" using w_update_step [OF _ rh(1)] assms(1) by (simp add: wh_inv_def)
  with assms(1) rh(2) show ?thesis by (simp add: wh_inv_def stored_ok_def blooms_ok_def)
qed

lemma queue_inv:
  assumes "wh_inv wc wh" "processQueue rng wc wh = Some (Inr wh')"
  shows "wh_inv wc wh'"
proof (cases "wh_queue wh")
  case Nil
  with assms show ?thesis by (simp add: processQueue_def)
next
  case (Cons e rest)
  with assms(2) obtain fs where fs: "NotifySubscribers rng wc (wh_filters wh) e = Some (Inr fs)" "wh' = wh\<lparr>wh_filters := fs, wh_queue := rest\<rparr>"
    by (auto simp: processQueue_def go_bind_eq_Inr)
  from fs(1) have "same_filters (wh_filters wh) fs" using notify_all_same by (auto simp: NotifySubscribers_def split: if_splits)
  then have "fs_inv fs" using assms(1) same_filters_inv by (auto simp: wh_inv_def)
  with assms(1) fs(2) show ?thesis by (simp add: wh_inv_def stored_ok_def blooms_ok_def)
qed

lemma expire_inv: "wh_inv wc wh \<Longrightarrow> wh_inv wc (removeExpiredEnvelopes now wh)"
  by (auto simp: wh_inv_def stored_ok_def blooms_ok_def removeExpiredEnvelopes_def split: option.splits if_splits)

lemma turn_inv:
  "wh_inv wc wh \<Longrightarrow> updateEnvelopes wc known rng wh ev = Some (Inr (wh', acts)) \<Longrightarrow> wh_inv wc wh'"
  by (cases ev) (auto simp: go_bind_eq_Inr expire_inv)

lemma after_sync_inv: "wh_inv wc wh \<Longrightarrow> pending_ok a \<Longrightarrow> wh_inv wc (after_sync wh a)"
  by (cases a) (simp_all add: wh_inv_def stored_ok_def blooms_ok_def)

lemma SetBloomFilter_inv:
  "wh_inv wc wh \<Longrightarrow> SetBloomFilter wh bloom = (ok, wh', acts) \<Longrightarrow> wh_inv wc wh' \<and> (\<forall>a \<in> set acts. pending_ok a)"
  by (auto simp: SetBloomFilter_def wh_inv_def stored_ok_def blooms_ok_def split: if_splits)

lemma SetMinPoW_inv:
  "wh_inv wc wh \<Longrightarrow> SetMinPoW wh pow = (ok, wh', acts) \<Longrightarrow> wh_inv wc wh' \<and> (\<forall>a \<in> set acts. pending_ok a)"
  by (auto simp: SetMinPoW_def wh_inv_def stored_ok_def blooms_ok_def split: if_splits)

lemma updateBloomFilter_inv:
  assumes "wh_inv wc wh"
  shows "\<exists>wh' acts. updateBloomFilter wh f = Inr (wh', acts) \<and> wh_inv wc wh' \<and> (\<forall>a \<in> set acts. pending_ok a)"
proof -
  obtain b where b: "wh_bloomFilter wh = Some b" "valid_bloom b" using assms by (auto simp: wh_inv_def blooms_ok_def)
  from updateBloomFilter_bits [OF b, of f] obtain wh' acts where u: "updateBloomFilter wh f = Inr (wh', acts)" by blast
  then have "wh' = wh \<and> acts = [] \<or> (\<exists>a. snd (SetBloomFilter wh a) = (wh', acts))"
    by (auto simp: updateBloomFilter_def go_bind_eq_Inr split: if_splits)
  then consider "wh' = wh" "acts = []" | a ok where "SetBloomFilter wh a = (ok, wh', acts)"
    by (metis prod.collapse)
  then show ?thesis using u assms SetBloomFilter_inv by cases auto
qed

lemma subscribe_inv:
  assumes inv: "wh_inv wc wh" and fresh: "fs_heap (wh_filters wh) p = None"
    and sub: "NewMessageFilter wh p rnd req = Some (Inr (s, wh', acts))"
  shows "wh_inv wc wh' \<and> (\<forall>a \<in> set acts. pending_ok a)"
proof -
  have "(wh' = wh \<and> acts = []) \<or> (\<exists>f. add_filter wh p rnd f = Some (Inr (s, wh', acts)))"
    using sub by (auto simp: NewMessageFilter_def Let_def split: if_splits option.splits sum.splits)
  then show ?thesis
  proof
    assume "\<exists>f. add_filter wh p rnd f = Some (Inr (s, wh', acts))"
    then obtain f where f: "add_filter wh p rnd f = Some (Inr (s, wh', acts))" by blast
    then obtain s' fs where a: "AddFilter (wh_filters wh) p f rnd = Some (s', fs)"
      by (auto simp: add_filter_def split: option.splits)
    with f have r: "(s' \<noteq> None \<and> updateBloomFilter (wh\<lparr>wh_filters := fs\<rparr>) f = Inr (wh', acts)) \<or> wh' = wh\<lparr>wh_filters := fs\<rparr> \<and> acts = []"
      by (auto simp: add_filter_def go_bind_eq_Inr Let_def split: if_splits)
    have "fs_inv fs" using AddFilter_inv [OF _ fresh a] inv by (simp add: wh_inv_def)
    then have i: "wh_inv wc (wh\<lparr>wh_filters := fs\<rparr>)" using inv by (simp add: wh_inv_def stored_ok_def blooms_ok_def)
    from r show ?thesis using i updateBloomFilter_inv [OF i, of f] by auto
  qed (use inv in simp)
qed

lemma poll_inv:
  assumes "wh_inv wc wh" "GetFilterMessages rng wh i = Some (Inr (ms, wh'))"
  shows "wh_inv wc wh'"
proof (cases "wh' = wh")
  case True
  with assms(1) show ?thesis by simp
next
  case False
  then obtain p where i: "GetFilterFromID (wh_filters wh) i = Some (Some p)"
    using assms(2) by (auto simp: GetFilterMessages_def split: option.splits)
  with assms(2) obtain f where h: "fs_heap (wh_filters wh) p = Some f" by (auto simp: GetFilterMessages_def go_bind_eq_Inr)
  define f' where "f' = f\<lparr>fl_Messages := Map.empty\<rparr>"
  have f: "fs_heap (wh_filters wh) p = Some f" "fl_Topics f' = fl_Topics f"
    "wh' = wh\<lparr>wh_filters := (wh_filters wh)\<lparr>fs_heap := (fs_heap (wh_filters wh))(p \<mapsto> f')\<rparr>\<rparr>"
    using assms(2) h by (auto simp: GetFilterMessages_def i GetReceivedMessagesFromFilter_def f'_def)
  have "same_filters (wh_filters wh) ((wh_filters wh)\<lparr>fs_heap := (fs_heap (wh_filters wh))(p \<mapsto> f')\<rparr>)"
    using f(1,2) by (simp add: same_filters_def)
  then have "fs_inv ((wh_filters wh)\<lparr>fs_heap := (fs_heap (wh_filters wh))(p \<mapsto> f')\<rparr>)"
    using assms(1) same_filters_inv by (auto simp: wh_inv_def)
  with assms(1) f(3) show ?thesis by (simp add: wh_inv_def stored_ok_def blooms_ok_def)
qed

lemma no_pow_env_ok: "env_ok (NewEnvelope now ttl topic data)"
  by (simp add: env_ok_def NewEnvelope_def)

lemma GetEnvelopeFromMessage_ok: "GetEnvelopeFromMessage wc nonce rnd rounds now params = Some env \<Longrightarrow> env_ok env"
  by (auto simp: GetEnvelopeFromMessage_def addNonceForPow_def Let_def env_ok_def NewEnvelope_def bind_eq_Some_conv split: if_splits option.splits)

lemma send_inv:
  assumes inv: "wh_inv wc wh" and ok: "peers_ok peers"
    and new: "NewWhisperMessage wc pub_of nonce rnd rounds now peers self wh message = Inr (r, wh')"
  shows "wh_inv wc wh'"
proof -
  define send where "send dst key = (case GetEnvelopeFromMessage wc nonce rnd rounds now
      \<lparr>mp_Src = None, mp_Dst = dst, mp_KeySym = key, mp_Topic = nm_Topic message, mp_PowTime = nm_PowTime message,
        mp_TTL = nm_TTL message, mp_Payload = nm_Payload message, mp_Padding = []\<rparr> of
      None \<Rightarrow> Inr (Refused, wh)
    | Some env \<Rightarrow> go_bind (SendEnvelope wc now peers self wh env) (\<lambda>(err, wh').
        Inr (case err of None \<Rightarrow> Sent (GetHash wc env) | Some x \<Rightarrow> SendFailed x, wh')))" for dst key
  have sent: "wh_inv wc wh'" if "send dst key = Inr (r, wh')" for dst key
  proof -
    from that consider "wh' = wh"
      | env err where "GetEnvelopeFromMessage wc nonce rnd rounds now
          \<lparr>mp_Src = None, mp_Dst = dst, mp_KeySym = key, mp_Topic = nm_Topic message, mp_PowTime = nm_PowTime message,
            mp_TTL = nm_TTL message, mp_Payload = nm_Payload message, mp_Padding = []\<rparr> = Some env"
        "handleEnvelope wc now peers wh \<lparr>eo_Envelope = env, eo_Origin = self\<rparr> = Inr (err, wh')"
      by (auto simp: send_def go_bind_eq_Inr SendEnvelope_def split: option.splits)
    then show ?thesis
    proof cases
      case 2
      from handle_inv [OF inv ok _ 2(2)] GetEnvelopeFromMessage_ok [OF 2(1)] show ?thesis by simp
    qed (use inv in simp)
  qed
  have "NewWhisperMessage wc pub_of nonce rnd rounds now peers self wh message =
      (let isSymKey = (0 < length (nm_SymKeyID message)); isPubKey = (0 < length (nm_PublicKey message))
       in if isSymKey \<and> isPubKey then Inr (Refused, wh)
          else if isSymKey then
            if nm_Topic message = replicate TopicLength 0 then Inr (Refused, wh)
            else go_bind (GetSymKeyFromID (wh_cryptoKeys wh) (nm_SymKeyID message)) (\<lambda>k.
              case k of None \<Rightarrow> Inr (Refused, wh)
              | Some key \<Rightarrow> if length key \<noteq> aesKeyLength then Inr (Refused, wh) else send None (Some key))
          else if isPubKey then
            case pub_of (nm_PublicKey message) of None \<Rightarrow> Inr (Refused, wh) | Some key \<Rightarrow> send (Some key) None
          else send None None)"
    unfolding NewWhisperMessage_def Let_def send_def ..
  with new inv sent show ?thesis by (auto simp: go_bind_eq_Inr Let_def split: if_splits option.splits)
qed

lemma wn_inv_state: "wn_inv wc n \<Longrightarrow> wh_inv wc wh' \<Longrightarrow> wn_inv wc (n\<lparr>wn_state := wh'\<rparr>)"
  by (simp add: wn_inv_def)

lemma wn_inv_over: "wn_inv wc n \<Longrightarrow> wh_inv wc wh' \<Longrightarrow> wn_inv wc (turn_over k wh' n)"
  by (simp add: wn_inv_def turn_over_def)

lemma wn_inv_started:
  "wn_inv wc n \<Longrightarrow> wh_inv wc wh' \<and> (\<forall>a \<in> set acts. pending_ok a) \<Longrightarrow> wn_inv wc (n\<lparr>wn_state := wh', wn_pending := wn_pending n @ acts\<rparr>)"
  by (auto simp: wn_inv_def)

lemma wn_step_inv:
  assumes "wn_step decode wc n n'" "wn_inv wc n" "decodes_no_bloom decode"
  shows "wn_inv wc n'"
proof -
  have inv: "wh_inv wc (wn_state n)" using assms(2) by (simp add: wn_inv_def)
  then have ok: "\<And>peers. table_range (wr_peerStatus (wh_routing (wn_state n))) peers \<Longrightarrow> peers_ok peers"
    using table_range_ok by (auto simp: wh_inv_def)
  note to = wn_inv_state [OF assms(2)] and over = wn_inv_over [OF assms(2)] and started = wn_inv_started [OF assms(2)]
  from assms(1) show ?thesis
  proof cases
    case start
    with assms(2) show ?thesis by (simp add: wn_inv_def whisper_Run_def)
  next
    case stop
    with assms(2) show ?thesis by (auto simp: wn_inv_def whisper_Stop_def split: if_splits)
  next
    case begins
    with assms(2) show ?thesis by (simp add: wn_inv_def)
  next
    case (packet peers now ext wh')
    from over [OF packet_inv [OF inv ok [OF packet(3)] assms(3) packet(4)]] packet(1) show ?thesis by simp
  next
    case (status rngc nd ext wh' out)
    from over [OF wn_status_inv [OF inv status(3)]] status(1) show ?thesis by simp
  next
    case (work rngs wh')
    from to [OF queue_inv [OF inv work(3)]] work(1) show ?thesis by simp
  next
    case work_ends
    with assms(2) show ?thesis by (simp add: wn_inv_def)
  next
    case (turn known rnge ev wh' acts)
    from to [OF turn_inv [OF inv turn(3)]] turn(1) show ?thesis by simp
  next
    case turns_end
    with assms(2) show ?thesis by (simp add: wn_inv_def)
  next
    case (wake a)
    from wake(2) assms(2) have "pending_ok a" by (simp add: wn_inv_def)
    with after_sync_inv [OF inv] wake assms(2) set_remove1_subset [of a "wn_pending n"] show ?thesis
      by (auto simp: wn_inv_def)
  next
    case (send peers pub_of nonce rnd rounds now self message r wh')
    from over [OF send_inv [OF inv ok [OF send(3)] send(4)]] send(1) show ?thesis by simp
  next
    case (subscribe p rnd req s wh' acts)
    from started [OF subscribe_inv [OF inv subscribe(2,3)]] subscribe(1) show ?thesis by simp
  next
    case (demand pow ok wh' acts)
    from started [OF SetMinPoW_inv [OF inv demand(2)]] demand(1) show ?thesis by simp
  next
    case (widen bloom ok wh' acts)
    from started [OF SetBloomFilter_inv [OF inv widen(2)]] widen(1) show ?thesis by simp
  next
    case (poll rngm i ms wh')
    from to [OF poll_inv [OF inv poll(2)]] poll(1) show ?thesis by simp
  next
    case (keys ks)
    have "wh_inv wc ((wn_state n)\<lparr>wh_cryptoKeys := ks\<rparr>)"
      using inv by (simp add: wh_inv_def stored_ok_def blooms_ok_def)
    from to [OF this] keys show ?thesis by simp
  qed
qed

lemma wn_start_inv: "wn_inv wc NewWNode"
proof -
  have "fs_inv NewFilterStorage" by (rule fs_reachable_inv) (rule fs_reachable.start)
  then show ?thesis
    by (simp add: wn_inv_def NewWNode_def wh_inv_def NewWhisper_def stored_ok_def blooms_ok_def wr_inv_def w_NewRoutingHandler_def)
qed

lemma wn_reachable_inv: "wn_reachable decode wc n \<Longrightarrow> decodes_no_bloom decode \<Longrightarrow> wn_inv wc n"
  by (induction rule: wn_reachable.induct) (auto intro: wn_start_inv wn_step_inv)

lemma forward_total:
  "peers_ok peers \<Longrightarrow> env_ok (eo_Envelope eo) \<Longrightarrow> \<exists>acts. forwardEnvelope wc known eo peers = Inr acts"
proof (induction peers arbitrary: eo)
  case Nil
  then show ?case by simp
next
  case (Cons p peers)
  obtain peer status where p: "p = (peer, status)" by (cases p)
  have rest: "peers_ok peers" and st: "\<And>f. st_Bloom status = Some f \<Longrightarrow> valid_bloom f"
    using Cons.prems(1) p by (auto simp: peers_ok_def)
  obtain b e1 where b: "GetBloom (eo_Envelope eo) = (b, e1)" by (cases "GetBloom (eo_Envelope eo)")
  obtain w e2 where w: "GetPow wc e1 = (w, e2)" by (cases "GetPow wc e1")
  have ok: "valid_bloom b" "env_ok e1" "env_ok e2"
    using env_ok_GetBloom [OF Cons.prems(2)] b w env_ok_GetPow [of wc e1] by simp_all
  obtain m where m: "CheckFilterMatch (st_Bloom status) b = Inr m" using CheckFilterMatch_total [OF st ok(1)] by blast
  have "\<exists>acts. forwardEnvelope wc known (eo\<lparr>eo_Envelope := if m then e2 else e1\<rparr>) peers = Inr acts"
    by (rule Cons.IH [OF rest]) (use ok in simp)
  moreover have "\<exists>acts. forwardEnvelope wc known eo peers = Inr acts" by (rule Cons.IH [OF rest Cons.prems(2)])
  ultimately show ?case using p b w m by (auto simp: Let_def)
qed

lemma go_foldM_total:
  "(\<And>s x. x \<in> set xs \<Longrightarrow> \<exists>s'. f s x = Inr s') \<Longrightarrow> \<exists>s'. go_foldM f s xs = Inr s'"
proof (induction xs arbitrary: s)
  case Nil
  then show ?case by simp
next
  case (Cons x xs)
  obtain s1 where "f s x = Inr s1" using Cons.prems [of x s] by auto
  moreover have "\<exists>s'. go_foldM f s1 xs = Inr s'" by (rule Cons.IH) (use Cons.prems in simp)
  ultimately show ?case by simp
qed

lemma broadcast_total:
  assumes "wh_inv wc wh" "peers_ok peers" "\<And>m. set (rng m) \<subseteq> ran m"
  shows "\<exists>acts. broadcastMessages wc known rng peers wh = Inr acts"
  unfolding broadcastMessages_def
proof (rule go_foldM_total)
  fix acts env
  assume "env \<in> set (Envelopes rng wh)"
  then have "env \<in> ran (wh_envelopes wh)" using assms(3) unfolding Envelopes_def by blast
  then have "env_ok (eo_Envelope env)" using assms(1) unfolding wh_inv_def stored_ok_def ran_def by blast
  from forward_total [OF assms(2) this, of wc known]
  show "\<exists>acts'. go_bind (forwardEnvelope wc known env peers) (\<lambda>as. Inr (acts @ as)) = Inr acts'" by auto
qed

section \<open>What a running node survives\<close>

lemma removed_parameters:
  "GetMinPow (removeExpiredEnvelopes now wh) = GetMinPow wh" "GetMinPowTolerated (removeExpiredEnvelopes now wh) = GetMinPowTolerated wh"
  "GetBloomFilter (removeExpiredEnvelopes now wh) = GetBloomFilter wh"
  "GetBloomFilterTolerated (removeExpiredEnvelopes now wh) = GetBloomFilterTolerated wh"
  by (simp_all add: removeExpiredEnvelopes_def GetMinPow_def GetMinPowTolerated_def GetBloomFilter_def GetBloomFilterTolerated_def)

lemma check_removed: "check_envelope wc later (removeExpiredEnvelopes now wh) e = check_envelope wc later wh e"
  unfolding check_envelope_def removed_parameters ..

lemma notify_long_total:
  assumes "gcm_NonceSize \<le> length (en_Data e)"
  shows "\<forall>p \<in> set ps. fs_heap fs p \<noteq> None \<Longrightarrow> \<exists>fs'. go_foldM (notify_one wc e) fs ps = Inr fs'"
proof (induction ps arbitrary: fs)
  case Nil
  then show ?case by simp
next
  case (Cons p ps)
  then obtain sub where "fs_heap fs p = Some sub" by auto
  from notify_one_step [OF assms this, of wc] obtain fs1 where 1: "notify_one wc e fs p = Inr fs1"
    "\<forall>q. q \<noteq> p \<longrightarrow> fs_heap fs1 q = fs_heap fs q" "fs_heap fs1 p \<noteq> None" by blast
  have "\<forall>q \<in> set ps. fs_heap fs1 q \<noteq> None" using Cons.prems 1(2,3) by (metis list.set_intros(2))
  with Cons.IH 1(1) show ?case by simp
qed

lemma subscribers_in_heap:
  assumes "fs_inv fs" "\<And>s. finite s \<Longrightarrow> set (rng s) = s"
  shows "set (getSubscribersByTopic rng fs topic) = subscribed fs topic \<and> (\<forall>p \<in> set (getSubscribersByTopic rng fs topic). fs_heap fs p \<noteq> None)"
  using getSubscribersByTopic_set [OF assms] by (auto simp: subscribed_def)

text \<open>
  Claim C5. A running node survives what the network sends, up to the faults stated elsewhere: in every state that an
  interleaving of its goroutines, timers and calls reaches, as long as no two turns overlap that access \<open>peerStatus\<close> or the blacklist without
  a lock, every Whisper packet is processed without a fault, both ticks of
  \<open>updateEnvelopes\<close> complete, every subscription can be installed in the node's filter, the envelope at the head of the queue is
  handed to the subscribers if it is at least as long as a nonce and the storage is not locked, and every stored envelope is
  found under its own hash. Such an overlap is reachable (\<open>race_reachable\<close>), and may stop the program.
\<close>

theorem whisper_node_survives:
  assumes "wn_reachable decode wc n" and "\<not> raced n" and "decodes_no_bloom decode"
    and "table_range (wr_peerStatus (wh_routing (wn_state n))) peers"
    and "\<And>m. set (rnge m) \<subseteq> ran m" and "\<And>s. finite s \<Longrightarrow> set (rngs s) = s"
  shows "(\<forall>now ext packet. gp_WhisperPacket (ext_Packet ext) = Some packet \<longrightarrow>
        (\<exists>wh'. processWhisperPacket wc decode now peers (wn_state n) ext = Inr wh')) \<and>
    (\<forall>ev. ev = Expire now \<or> ev = Transmit peers \<longrightarrow> (\<exists>r. updateEnvelopes wc known rnge (wn_state n) ev = Some (Inr r))) \<and>
    (\<forall>f. \<exists>r. updateBloomFilter (wn_state n) f = Inr r) \<and>
    (\<forall>e rest. wh_queue (wn_state n) = e # rest \<and> gcm_NonceSize \<le> length (en_Data e) \<and> \<not> fs_locked (wh_filters (wn_state n)) \<longrightarrow>
        (\<exists>wh'. processQueue rngs wc (wn_state n) = Some (Inr wh'))) \<and>
    (\<forall>h eo. GetEnvelope (wn_state n) h = Some eo \<longrightarrow> GetHash wc (eo_Envelope eo) = h)"
proof -
  let ?wh = "wn_state n"
  have inv: "wh_inv wc ?wh" using wn_reachable_inv [OF assms(1,3)] by (simp add: wn_inv_def)
  then have ok: "peers_ok peers" and fs: "fs_inv (wh_filters ?wh)" using table_range_ok assms(4) by (auto simp: wh_inv_def)
  have "\<exists>r. updateEnvelopes wc known rnge ?wh ev = Some (Inr r)" if "ev = Expire now \<or> ev = Transmit peers" for ev
    using that broadcast_total [OF inv ok assms(5), of known] by auto
  moreover have "\<exists>wh'. processQueue rngs wc ?wh = Some (Inr wh')"
    if "wh_queue ?wh = e # rest" "gcm_NonceSize \<le> length (en_Data e)" "\<not> fs_locked (wh_filters ?wh)" for e rest
    using notify_long_total [OF that(2), of "getSubscribersByTopic rngs (wh_filters ?wh) (en_Topic e)" "wh_filters ?wh" wc]
      subscribers_in_heap [where rng = rngs, OF fs assms(6)] that by (auto simp: processQueue_def NotifySubscribers_def)
  moreover have "\<exists>wh'. processWhisperPacket wc decode t peers ?wh ext = Inr wh'"
    if "gp_WhisperPacket (ext_Packet ext) = Some packet" for t ext packet
    using packet_total [OF inv ok assms(3) that, of t] by blast
  moreover have "\<exists>r. updateBloomFilter ?wh f = Inr r" for f using updateBloomFilter_inv [OF inv, of f] by blast
  moreover have "\<forall>h eo. GetEnvelope ?wh h = Some eo \<longrightarrow> GetHash wc (eo_Envelope eo) = h"
    using inv by (simp add: wh_inv_def stored_ok_def GetEnvelope_def)
  ultimately show ?thesis by blast
qed

text \<open>
  Claim C37. An expired envelope comes back: while it is stored, a further copy of it is ignored; but once the expiry tick has
  removed it, a copy that any neighbour sends is accepted as new at any later time, if the routing table shows another neighbour
  that is interested. It is stored again and queued to the subscribers again, however old it is.
\<close>

theorem expired_envelope_comes_back:
  assumes "wn_reachable decode wc n" and "decodes_no_bloom decode" and "wh = wn_state n"
    and "table_range (wr_peerStatus (wh_routing wh)) peers"
    and "GetEnvelope wh h = Some eo" and "en_Expiry (eo_Envelope eo) < now"
    and "exported e = exported (eo_Envelope eo)" and "en_bloom e = None" and "interesting_loop wc origin e peers = Inr (True, e1)"
  shows "handleEnvelope wc later peers wh \<lparr>eo_Envelope = e, eo_Origin = origin\<rparr> = Inr (None, wh) \<and>
    (\<exists>e2. exported e2 = exported e \<and>
      handleEnvelope wc later peers (removeExpiredEnvelopes now wh) \<lparr>eo_Envelope = e, eo_Origin = origin\<rparr> =
        Inr (None, (removeExpiredEnvelopes now wh)\<lparr>
          wh_envelopes := (wh_envelopes (removeExpiredEnvelopes now wh))(h \<mapsto> \<lparr>eo_Envelope = e2, eo_Origin = origin\<rparr>),
          wh_queue := wh_queue wh @ [e2]\<rparr>))"
proof -
  have inv: "wh_inv wc wh" using wn_reachable_inv [OF assms(1,2)] assms(3) by (simp add: wn_inv_def)
  then have ok: "peers_ok peers" and "blooms_ok wh" using table_range_ok assms(4) by (auto simp: wh_inv_def)
  have h: "GetHash wc e = h" using GetHash_exported [OF assms(7), of wc] inv assms(5) by (simp add: wh_inv_def stored_ok_def GetEnvelope_def)
  have "env_ok e" using assms(8) by (simp add: env_ok_def)
  then have "env_ok e1" using interesting_total [OF ok, of e wc origin] assms(9) by auto
  from check_total [OF \<open>blooms_ok wh\<close> this, of wc later] obtain err e2 where c: "check_envelope wc later wh e1 = Inr (err, e2)" by blast
  have ex: "exported e2 = exported e" using check_exported [OF c] interesting_exported [OF assms(9)] by simp
  then have h2: "GetHash wc e2 = h" using GetHash_exported h by metis
  have c': "check_envelope wc later (removeExpiredEnvelopes now wh) e1 = Inr (err, e2)"
    using c unfolding check_removed .
  have "wh_envelopes (removeExpiredEnvelopes now wh) h = None" "wh_queue (removeExpiredEnvelopes now wh) = wh_queue wh"
    using assms(5,6) by (simp_all add: removeExpiredEnvelopes_def GetEnvelope_def)
  note gone = this
  have "handleEnvelope wc later peers wh \<lparr>eo_Envelope = e, eo_Origin = origin\<rparr> = Inr (None, wh)"
    using assms(5) by (simp add: handleEnvelope_def assms(9) c h2 Let_def GetEnvelope_def)
  moreover have "handleEnvelope wc later peers (removeExpiredEnvelopes now wh) \<lparr>eo_Envelope = e, eo_Origin = origin\<rparr> =
      Inr (None, (removeExpiredEnvelopes now wh)\<lparr>
        wh_envelopes := (wh_envelopes (removeExpiredEnvelopes now wh))(h \<mapsto> \<lparr>eo_Envelope = e2, eo_Origin = origin\<rparr>),
        wh_queue := wh_queue wh @ [e2]\<rparr>)"
    by (simp add: handleEnvelope_def assms(9) c' h2 Let_def gone)
  ultimately show ?thesis using ex by blast
qed

lemma notify_one_short:
  assumes "fs_heap fs q = Some sub"
  shows "notify_one wc e fs q = Inl SliceOutOfRange \<or>
    (\<exists>fs'. notify_one wc e fs q = Inr fs' \<and> (\<forall>p f. fs_heap fs p = Some f \<longrightarrow> (\<exists>ms. fs_heap fs' p = Some (f\<lparr>fl_Messages := ms\<rparr>))))"
proof -
  have id: "\<exists>ms. f = f\<lparr>fl_Messages := ms\<rparr>" for f :: Filter by (intro exI [of _ "fl_Messages f"]) simp
  have "GetMessageFromEnvelope wc e sub = Inl SliceOutOfRange \<or> (\<exists>m. GetMessageFromEnvelope wc e sub = Inr m)"
    by (auto simp: GetMessageFromEnvelope_def decryptWithSymmetricKey_def go_slice_def Let_def split: option.splits)
  then consider "GetMessageFromEnvelope wc e sub = Inl SliceOutOfRange" | "GetMessageFromEnvelope wc e sub = Inr None"
    | msg where "GetMessageFromEnvelope wc e sub = Inr (Some msg)" by (metis option.exhaust)
  then show ?thesis
  proof cases
    case 1
    with assms id show ?thesis by (simp add: notify_one_def)
  next
    case 2
    with assms id show ?thesis by (simp add: notify_one_def)
  next
    case 3
    with assms id show ?thesis
      by (cases "fl_Messages sub (rm_EnvelopeHash msg) = None") (auto simp: notify_one_def)
  qed
qed

lemma notify_all_short:
  assumes "length (en_Data e) < gcm_NonceSize" "fl_KeyAsym f = None" "fl_KeySym f = Some key" "length key = aesKeyLength"
    "float_geq (Fin 0) (fl_Pow f) \<or> float_geq (en_pow e) (fl_Pow f)"
  shows "p \<in> set ps \<Longrightarrow> \<forall>q \<in> set ps. fs_heap fs q \<noteq> None \<Longrightarrow> \<exists>ms. fs_heap fs p = Some (f\<lparr>fl_Messages := ms\<rparr>) \<Longrightarrow>
    go_foldM (notify_one wc e) fs ps = Inl SliceOutOfRange"
proof (induction ps arbitrary: fs)
  case Nil
  then show ?case by simp
next
  case (Cons q ps)
  then obtain sub where q: "fs_heap fs q = Some sub" by auto
  show ?case
  proof (cases "notify_one wc e fs q = Inl SliceOutOfRange")
    case True
    then show ?thesis by simp
  next
    case False
    with notify_one_short [OF q, of wc e] obtain fs1 where fs1: "notify_one wc e fs q = Inr fs1"
      "\<forall>p f. fs_heap fs p = Some f \<longrightarrow> (\<exists>ms. fs_heap fs1 p = Some (f\<lparr>fl_Messages := ms\<rparr>))" by blast
    have "q \<noteq> p"
    proof
      assume "q = p"
      with Cons.prems(3) obtain ms where "fs_heap fs q = Some (f\<lparr>fl_Messages := ms\<rparr>)" by blast
      then have "notify_one wc e fs q = Inl SliceOutOfRange"
        using assms by (simp add: notify_one_def GetMessageFromEnvelope_def decryptWithSymmetricKey_def aes_key_ok_def aesKeyLength_def)
      with False show False by simp
    qed
    moreover have "\<forall>r \<in> set ps. fs_heap fs1 r \<noteq> None" using Cons.prems(2) fs1(2) by fastforce
    moreover have "\<exists>ms. fs_heap fs1 p = Some (f\<lparr>fl_Messages := ms\<rparr>)" using Cons.prems(3) fs1(2) by fastforce
    ultimately show ?thesis using Cons.IH [of fs1] Cons.prems(1) fs1(1) by simp
  qed
qed

text \<open>
  Claim C36. A short envelope crashes a subscriber: if a node subscribes a topic with a symmetric key, any neighbour that is not
  on the blacklist can send it an envelope on the topic with less data than a nonce; once the packet is processed and the envelope
  is accepted, the next turn of \<open>processQueue\<close> slices beyond the data and panics, whichever other subscriptions exist.
\<close>

theorem short_envelope_crashes_subscriber:
  assumes "wn_reachable decode wc n" and "decodes_no_bloom decode" and "wh = wn_state n"
    and "wh_queue wh = []" and "\<not> fs_locked (wh_filters wh)" and "\<And>s. finite s \<Longrightarrow> set (rngs s) = s"
    and sub: "fs_subscribers (wh_filters wh) i = Some p" "fs_heap (wh_filters wh) p = Some f" "t \<in> set (fl_Topics f)"
      "fl_KeyAsym f = None" "fl_KeySym f = Some key" "length key = aesKeyLength" "float_geq (Fin 0) (fl_Pow f)"
    and packet: "ext_SenderAddr ext \<notin> wh_blacklist wh" "gp_WhisperPacket (ext_Packet ext) = Some pkt" "wp_Code pkt = messagesCode"
      "fst (decode (wp_Payload pkt)) = e" "en_Topic e = ConvertBytesToTopic t" "length (en_Data e) < gcm_NonceSize"
    and accepted: "handleEnvelope wc now peers wh \<lparr>eo_Envelope = e, eo_Origin = ext_SenderAddr ext\<rparr> = Inr (None, wh1)"
      "GetEnvelope wh (GetHash wc e) = None"
  shows "processWhisperPacket wc decode now peers wh ext = Inr wh1 \<and> processQueue rngs wc wh1 = Some (Inl SliceOutOfRange)"
proof -
  have fs: "fs_inv (wh_filters wh)" using wn_reachable_inv [OF assms(1,2)] assms(3) by (simp add: wn_inv_def wh_inv_def)
  have 1: "processWhisperPacket wc decode now peers wh ext = Inr wh1"
    using packet accepted(1) by (simp add: processWhisperPacket_def Let_def split_beta)
  obtain e' where e': "exported e' = exported e" "wh_queue wh1 = [e']" "wh_filters wh1 = wh_filters wh"
    using handleEnvelope_cases [OF accepted(1)] accepted(2) assms(4) by (auto simp: GetEnvelope_def)
  have t: "en_Topic e' = ConvertBytesToTopic t" "length (en_Data e') < gcm_NonceSize" using e'(1) packet(5,6) by simp_all
  let ?ps = "getSubscribersByTopic rngs (wh_filters wh) (en_Topic e')"
  have in_heap: "\<forall>q \<in> set ?ps. fs_heap (wh_filters wh) q \<noteq> None" and "p \<in> set ?ps"
    using subscribers_in_heap [where rng = rngs, OF fs assms(6)] sub(1-3) t(1) by (auto simp: subscribed_def)
  moreover have "\<exists>ms. fs_heap (wh_filters wh) p = Some (f\<lparr>fl_Messages := ms\<rparr>)"
    using sub(2) by (intro exI [of _ "fl_Messages f"]) simp
  ultimately have "go_foldM (notify_one wc e') (wh_filters wh) ?ps = Inl SliceOutOfRange"
    using notify_all_short [OF t(2) sub(4-6)] sub(7) by blast
  with 1 e'(2,3) assms(5) show ?thesis by (simp add: processQueue_def NotifySubscribers_def)
qed

section \<open>A node with a neighbour and a subscription\<close>

definition sample_decode :: "bytes \<Rightarrow> Envelope \<times> bool" where
  "sample_decode bs = (NewEnvelope 100 0 [1, 2, 3, 4] bs, False)"

definition sample_peers :: "(address \<times> Status) list" where
  "sample_peers = [(''b'', \<lparr>st_Pow = Fin 0, st_Bloom = None\<rparr>)]"

definition sample_status :: ExtendedGossipPacket where
  "sample_status = \<lparr>ext_Packet = empty_packet\<lparr>gp_WhisperStatus := Some (status_of statusCode None (Fin 0))\<rparr>, ext_SenderAddr = ''b''\<rparr>"

definition sample_packet :: ExtendedGossipPacket where
  "sample_packet = \<lparr>ext_Packet = empty_packet\<lparr>gp_WhisperPacket := Some \<lparr>wp_Code = messagesCode, wp_Size = 0, wp_Payload = []\<rparr>\<rparr>,
     ext_SenderAddr = ''a''\<rparr>"

definition sample_filter :: Filter where
  "sample_filter = \<lparr>fl_KeyAsym = None, fl_KeySym = Some (replicate 32 5), fl_Pow = Fin 0, fl_Topics = [[1, 2, 3, 4]], fl_Messages = Map.empty\<rparr>"

lemma sample_decodes: "decodes_no_bloom sample_decode"
  by (simp add: decodes_no_bloom_def sample_decode_def NewEnvelope_def)

lemma sample_range: "table_range [''b'' \<mapsto> \<lparr>st_Pow = Fin 0, st_Bloom = None\<rparr>] sample_peers"
  by (auto simp: table_range_def sample_peers_def fun_eq_iff)

lemma sample_interest: "\<exists>e1. interesting_loop toy_wcrypto ''a'' (NewEnvelope 100 0 [1, 2, 3, 4] []) sample_peers = Inr (True, e1)"
proof -
  let ?e = "NewEnvelope 100 0 [1, 2, 3, 4] []"
  have "fst (GetPow toy_wcrypto ?e) = PInf"
    by (rule zero_ttl_GetPow) (simp_all add: NewEnvelope_def GetSize_def encode_Envelope_def toy_wcrypto_def)
  then show ?thesis by (simp add: sample_peers_def Let_def split_beta CheckFilterMatch_def)
qed

lemma quiet: "wn_active n = [] \<Longrightarrow> \<not> raced n" "wn_active n = [] \<Longrightarrow> \<not> raced (n\<lparr>wn_active := [k]\<rparr>)"
  by (simp_all add: raced_def)

lemma turn_alone: "wn_active n = [] \<Longrightarrow> turn_over k wh' (n\<lparr>wn_active := [k]\<rparr>) = n\<lparr>wn_state := wh'\<rparr>"
  by (simp add: turn_over_def)

lemma begins_alone:
  assumes "wn_reachable decode wc n" "wn_active n = []" "k = SendCall \<or> wn_serving n"
  shows "wn_reachable decode wc (n\<lparr>wn_active := [k]\<rparr>)"
  using wn_reachable.next_turn [OF assms(1) quiet(1) [OF assms(2)] wn_step.begins [OF assms(3)]] assms(2) by simp

lemma sample_status_step:
  assumes "wn_reachable decode wc n" "wn_serving n" "wn_active n = []" "wh_routing (wn_state n) = w_NewRoutingHandler" "wh_blacklist (wn_state n) = {}"
  shows "\<exists>rh. wn_reachable decode wc (n\<lparr>wn_state := (wn_state n)\<lparr>wh_routing := rh\<rparr>\<rparr>) \<and>
    wr_peerStatus rh = [''b'' \<mapsto> \<lparr>st_Pow = Fin 0, st_Bloom = None\<rparr>]"
proof -
  obtain rh where rh: "w_updateRoutingTable (wh_routing (wn_state n)) (status_of statusCode None (Fin 0)) ''b'' = Inr rh"
    "wr_peerStatus rh = [''b'' \<mapsto> \<lparr>st_Pow = Fin 0, st_Bloom = None\<rparr>]"
    using assms(4) by (auto simp: w_updateRoutingTable_def w_NewRoutingHandler_def w_updateLastOriginID_def status_of_def update_Bloom_def update_Pow_def)
  let ?n = "n\<lparr>wn_active := [StatusTurn]\<rparr>"
  have "\<exists>out. processWhisperStatus rng (wn_state ?n) nd sample_status = Inr ((wn_state n)\<lparr>wh_routing := rh\<rparr>, out)" for rng nd
    using assms(5) rh(1) by (simp add: processWhisperStatus_def sample_status_def)
  then have "wn_step decode wc ?n (turn_over StatusTurn ((wn_state n)\<lparr>wh_routing := rh\<rparr>) ?n)" using wn_step.status [of ?n] by fastforce
  from wn_reachable.next_turn [OF begins_alone [OF assms(1,3)] quiet(2) [OF assms(3)] this] assms(2) rh(2) turn_alone [OF assms(3)]
  show ?thesis by auto
qed

lemma started_reachable: "wn_reachable decode wc (whisper_Run 1 NewWNode)"
  by (rule wn_reachable.next_turn [OF wn_reachable.new _ wn_step.start]) (simp add: quiet NewWNode_def)

text \<open>A node that serves can always come to an overlap: the packet goroutine begins while a status is being processed.\<close>

lemma race_reachable:
  assumes "wn_reachable decode wc n" "wn_serving n" "wn_active n = []"
  shows "\<exists>n'. wn_reachable decode wc n' \<and> raced n' \<and> wn_state n' = wn_state n"
proof -
  let ?n = "n\<lparr>wn_active := [StatusTurn]\<rparr>"
  have r: "wn_reachable decode wc ?n" by (rule begins_alone [OF assms(1,3)]) (use assms(2) in simp)
  have "wn_step decode wc ?n (?n\<lparr>wn_active := PacketTurn # wn_active ?n\<rparr>)" by (rule wn_step.begins) (use assms(2) in simp)
  from wn_reachable.next_turn [OF r quiet(2) [OF assms(3)] this] show ?thesis by (intro exI [of _ "n\<lparr>wn_active := [PacketTurn, StatusTurn]\<rparr>"]) (simp add: raced_def)
qed

theorem whisper_node_survives_witness:
  "\<exists>wh'. processWhisperPacket toy_wcrypto sample_decode 5 [] (wn_state (whisper_Run 1 NewWNode)) sample_packet = Inr wh'"
proof -
  let ?n = "whisper_Run 1 NewWNode"
  have "table_range (wr_peerStatus (wh_routing (wn_state ?n))) []"
    by (simp add: table_range_def whisper_Run_def NewWNode_def NewWhisper_def w_NewRoutingHandler_def)
  from whisper_node_survives [of sample_decode toy_wcrypto ?n "[]" "\<lambda>m. []" sorted_list_of_set, OF started_reachable _ sample_decodes this]
  show ?thesis by (auto simp: sample_packet_def quiet whisper_Run_def NewWNode_def)
qed

lemma sample_stored:
  obtains n where "wn_reachable sample_decode toy_wcrypto n"
    "table_range (wr_peerStatus (wh_routing (wn_state n))) sample_peers"
    "\<exists>eo. GetEnvelope (wn_state n) (GetHash toy_wcrypto (NewEnvelope 100 0 [1, 2, 3, 4] [])) = Some eo \<and>
      exported (eo_Envelope eo) = exported (NewEnvelope 100 0 [1, 2, 3, 4] [])"
proof -
  let ?n = "whisper_Run 1 NewWNode" and ?e = "NewEnvelope 100 0 [1, 2, 3, 4] []"
  have n: "wn_serving ?n" "wn_active ?n = []" "wh_routing (wn_state ?n) = w_NewRoutingHandler" "wh_blacklist (wn_state ?n) = {}" "wh_envelopes (wn_state ?n) = Map.empty"
    by (simp_all add: whisper_Run_def NewWNode_def NewWhisper_def)
  from sample_status_step [OF started_reachable n(1-4)] obtain rh
    where r1: "wn_reachable sample_decode toy_wcrypto (?n\<lparr>wn_state := (wn_state ?n)\<lparr>wh_routing := rh\<rparr>\<rparr>)"
      and rh: "wr_peerStatus rh = [''b'' \<mapsto> \<lparr>st_Pow = Fin 0, st_Bloom = None\<rparr>]" by blast
  let ?n1 = "?n\<lparr>wn_state := (wn_state ?n)\<lparr>wh_routing := rh\<rparr>\<rparr>"
  have range: "table_range (wr_peerStatus (wh_routing (wn_state ?n1))) sample_peers" using sample_range rh by simp
  have inv: "wh_inv toy_wcrypto (wn_state ?n1)" using wn_reachable_inv [OF r1 sample_decodes] by (simp add: wn_inv_def)
  have ok: "peers_ok sample_peers" by (simp add: peers_ok_def sample_peers_def)
  obtain e1 where i: "interesting_loop toy_wcrypto ''a'' ?e sample_peers = Inr (True, e1)" using sample_interest by blast
  obtain err wh2 where h: "handleEnvelope toy_wcrypto 100 sample_peers (wn_state ?n1) \<lparr>eo_Envelope = ?e, eo_Origin = ''a''\<rparr> = Inr (err, wh2)"
    using handle_total [OF inv ok, of "\<lparr>eo_Envelope = ?e, eo_Origin = ''a''\<rparr>" 100] no_pow_env_ok by auto
  have err: "err = None" using h i by (auto simp: handleEnvelope_def go_bind_eq_Inr Let_def split: if_splits)
  have new: "wh_envelopes (wn_state ?n1) (GetHash toy_wcrypto ?e) = None" using n(5) by simp
  from handleEnvelope_cases [OF h] err new obtain e where e: "exported e = exported ?e"
    "wh2 = (wn_state ?n1)\<lparr>wh_envelopes := (wh_envelopes (wn_state ?n1))(GetHash toy_wcrypto ?e \<mapsto> \<lparr>eo_Envelope = e, eo_Origin = ''a''\<rparr>),
      wh_queue := wh_queue (wn_state ?n1) @ [e]\<rparr>" by auto
  let ?n2 = "?n1\<lparr>wn_active := [PacketTurn]\<rparr>"
  have "processWhisperPacket toy_wcrypto sample_decode 100 sample_peers (wn_state ?n2) sample_packet = Inr wh2"
    using h err n(4) by (simp add: processWhisperPacket_def sample_packet_def sample_decode_def Let_def)
  with range have st: "wn_step sample_decode toy_wcrypto ?n2 (turn_over PacketTurn wh2 ?n2)" by (intro wn_step.packet) simp_all
  have a: "wn_active ?n1 = []" using n(2) by simp
  have "wn_reachable sample_decode toy_wcrypto ?n2" by (rule begins_alone [OF r1 a]) (use n(1) in simp)
  from wn_reachable.next_turn [OF this quiet(2) [OF a] st]
  have "wn_reachable sample_decode toy_wcrypto (?n1\<lparr>wn_state := wh2\<rparr>)" unfolding turn_alone [OF a] .
  then show thesis by (rule that) (use range e in \<open>simp_all add: GetEnvelope_def\<close>)
qed

theorem expired_envelope_comes_back_witness:
  "\<exists>n e2. wn_reachable sample_decode toy_wcrypto n \<and>
    (let e = NewEnvelope 100 0 [1, 2, 3, 4] []; wh = removeExpiredEnvelopes 200 (wn_state n)
     in handleEnvelope toy_wcrypto 5000 sample_peers wh \<lparr>eo_Envelope = e, eo_Origin = ''a''\<rparr> =
       Inr (None, wh\<lparr>wh_envelopes := (wh_envelopes wh)(GetHash toy_wcrypto e \<mapsto> \<lparr>eo_Envelope = e2, eo_Origin = ''a''\<rparr>),
         wh_queue := wh_queue (wn_state n) @ [e2]\<rparr>))"
proof -
  let ?e = "NewEnvelope 100 0 [1, 2, 3, 4] []"
  obtain n eo where n: "wn_reachable sample_decode toy_wcrypto n" "table_range (wr_peerStatus (wh_routing (wn_state n))) sample_peers"
    "GetEnvelope (wn_state n) (GetHash toy_wcrypto ?e) = Some eo" "exported (eo_Envelope eo) = exported ?e"
    using sample_stored by metis
  obtain e1 where i: "interesting_loop toy_wcrypto ''a'' ?e sample_peers = Inr (True, e1)" using sample_interest by blast
  have "en_Expiry (eo_Envelope eo) < 200" "en_bloom ?e = None" using n(4) by (simp_all add: NewEnvelope_def)
  from expired_envelope_comes_back [OF n(1) sample_decodes refl n(2,3) this(1) n(4) [symmetric] this(2) i, of 5000]
  show ?thesis using n(1) by (auto simp: Let_def)
qed

lemma updateBloomFilter_rest:
  "updateBloomFilter wh f = Inr (wh', acts) \<Longrightarrow> \<exists>b. wh' = wh\<lparr>wh_bloomFilter := b\<rparr>"
proof -
  have "\<exists>b. wh = wh\<lparr>wh_bloomFilter := b\<rparr>" by (rule exI [of _ "wh_bloomFilter wh"]) simp
  moreover assume "updateBloomFilter wh f = Inr (wh', acts)"
  then have "wh' = wh \<or> (\<exists>b. wh' = wh\<lparr>wh_bloomFilter := b\<rparr>)"
    by (auto simp: updateBloomFilter_def go_bind_eq_Inr SetBloomFilter_def split: if_splits)
  ultimately show ?thesis by blast
qed

lemma sample_subscription:
  obtains n i where "wn_reachable sample_decode toy_wcrypto n"
    "table_range (wr_peerStatus (wh_routing (wn_state n))) sample_peers" "wh_queue (wn_state n) = []" "wh_blacklist (wn_state n) = {}"
    "\<not> fs_locked (wh_filters (wn_state n))" "fs_subscribers (wh_filters (wn_state n)) i = Some 7"
    "fs_heap (wh_filters (wn_state n)) 7 = Some sample_filter" "wh_envelopes (wn_state n) = Map.empty"
proof -
  let ?n0 = "whisper_Run 1 NewWNode"
  let ?wh = "(wn_state ?n0)\<lparr>wh_cryptoKeys := [''k'' \<mapsto> SymKey (replicate 32 5)]\<rparr>"
  let ?n1 = "?n0\<lparr>wn_state := ?wh\<rparr>" and ?rnd = "Some (replicate 32 5)"
  let ?req = "\<lparr>fo_SymKeyID = ''k'', fo_PrivateKeyID = [], fo_MinPow = Fin 0, fo_Topics = [[1, 2, 3, 4]]\<rparr>"
  have r1: "wn_reachable sample_decode toy_wcrypto ?n1" by (rule wn_reachable.next_turn [OF started_reachable _ wn_step.keys]) (simp add: quiet whisper_Run_def NewWNode_def)
  have inv: "wh_inv toy_wcrypto ?wh" using wn_reachable_inv [OF r1 sample_decodes] by (simp add: wn_inv_def)
  have f0: "wh_filters ?wh = NewFilterStorage" by (simp add: whisper_Run_def NewWNode_def NewWhisper_def)
  obtain i fs where add: "AddFilter NewFilterStorage 7 sample_filter ?rnd = Some (Some i, fs)"
    and fs: "\<not> fs_locked fs" "fs_subscribers fs i = Some 7" "fs_heap fs 7 = Some sample_filter"
    by (simp add: AddFilter_def NewFilterStorage_def generateRandomID_def generateRandomBytes_def keyIDSize_def sample_filter_def del: EncodeToString.simps)
  have "fs_inv fs" using AddFilter_inv [OF _ _ add] inv f0 by (auto simp: wh_inv_def NewFilterStorage_def)
  then have "wh_inv toy_wcrypto (?wh\<lparr>wh_filters := fs\<rparr>)" using inv by (simp add: wh_inv_def stored_ok_def blooms_ok_def)
  from updateBloomFilter_inv [OF this, of sample_filter] obtain wh2 acts
    where u: "updateBloomFilter (?wh\<lparr>wh_filters := fs\<rparr>) sample_filter = Inr (wh2, acts)" by blast
  from updateBloomFilter_rest [OF u] obtain b where wh2: "wh2 = ?wh\<lparr>wh_filters := fs, wh_bloomFilter := b\<rparr>" by blast
  have "NewMessageFilter ?wh 7 ?rnd ?req = Some (Inr (Some i, wh2, acts))"
    using add u f0 by (simp add: NewMessageFilter_def add_filter_def GetSymKeyFromID_def aesKeyLength_def sample_filter_def Let_def)
  then have "wn_step sample_decode toy_wcrypto ?n1 (?n1\<lparr>wn_state := wh2, wn_pending := wn_pending ?n1 @ acts\<rparr>)"
    using f0 by (intro wn_step.subscribe) (simp_all add: NewFilterStorage_def)
  moreover have "\<not> raced ?n1" by (simp add: quiet whisper_Run_def NewWNode_def)
  ultimately have r2: "wn_reachable sample_decode toy_wcrypto (?n1\<lparr>wn_state := wh2, wn_pending := wn_pending ?n1 @ acts\<rparr>)" (is "wn_reachable _ _ ?n2")
    using r1 wn_reachable.next_turn by blast
  have n2: "wn_serving ?n2" "wn_active ?n2 = []" "wh_routing (wn_state ?n2) = w_NewRoutingHandler" "wh_blacklist (wn_state ?n2) = {}"
    "wh_queue (wn_state ?n2) = []" "wh_envelopes (wn_state ?n2) = Map.empty" "wh_filters (wn_state ?n2) = fs"
    by (simp_all add: wh2 whisper_Run_def NewWNode_def NewWhisper_def)
  from sample_status_step [OF r2 n2(1-4)] obtain rh where
    r3: "wn_reachable sample_decode toy_wcrypto (?n2\<lparr>wn_state := (wn_state ?n2)\<lparr>wh_routing := rh\<rparr>\<rparr>)"
    and rh: "wr_peerStatus rh = [''b'' \<mapsto> \<lparr>st_Pow = Fin 0, st_Bloom = None\<rparr>]" by blast
  from r3 show thesis by (rule that) (use rh n2 fs sample_range in simp_all)
qed

theorem short_envelope_crashes_subscriber_witness:
  "\<exists>n wh1. wn_reachable sample_decode toy_wcrypto n \<and>
     processWhisperPacket toy_wcrypto sample_decode 100 sample_peers (wn_state n) sample_packet = Inr wh1 \<and>
     processQueue sorted_list_of_set toy_wcrypto wh1 = Some (Inl SliceOutOfRange)"
proof -
  let ?e = "NewEnvelope 100 0 [1, 2, 3, 4] []"
  obtain n i where n: "wn_reachable sample_decode toy_wcrypto n"
    "table_range (wr_peerStatus (wh_routing (wn_state n))) sample_peers" "wh_queue (wn_state n) = []" "wh_blacklist (wn_state n) = {}"
    "\<not> fs_locked (wh_filters (wn_state n))" "fs_subscribers (wh_filters (wn_state n)) i = Some 7"
    "fs_heap (wh_filters (wn_state n)) 7 = Some sample_filter" "wh_envelopes (wn_state n) = Map.empty"
    using sample_subscription .
  have inv: "wh_inv toy_wcrypto (wn_state n)" using wn_reachable_inv [OF n(1) sample_decodes] by (simp add: wn_inv_def)
  have ok: "peers_ok sample_peers" by (simp add: peers_ok_def sample_peers_def)
  obtain err wh1 where h: "handleEnvelope toy_wcrypto 100 sample_peers (wn_state n) \<lparr>eo_Envelope = ?e, eo_Origin = ''a''\<rparr> = Inr (err, wh1)"
    using handle_total [OF inv ok, of "\<lparr>eo_Envelope = ?e, eo_Origin = ''a''\<rparr>" 100] no_pow_env_ok by auto
  obtain e1 where i: "interesting_loop toy_wcrypto ''a'' ?e sample_peers = Inr (True, e1)" using sample_interest by blast
  have err: "err = None" using h i by (auto simp: handleEnvelope_def go_bind_eq_Inr Let_def split: if_splits)
  have acc: "handleEnvelope toy_wcrypto 100 sample_peers (wn_state n) \<lparr>eo_Envelope = ?e, eo_Origin = ext_SenderAddr sample_packet\<rparr> = Inr (None, wh1)"
    using h err by (simp add: sample_packet_def)
  have topic: "en_Topic ?e = ConvertBytesToTopic [1, 2, 3, 4]"
    by (simp add: NewEnvelope_def ConvertBytesToTopic_def TopicLength_def upt_rec eval_nat_numeral)
  have f: "[1, 2, 3, 4] \<in> set (fl_Topics sample_filter)" "fl_KeyAsym sample_filter = None" "fl_KeySym sample_filter = Some (replicate 32 5)"
    "length (replicate 32 (5 :: byte)) = aesKeyLength" "float_geq (Fin 0) (fl_Pow sample_filter)"
    by (simp_all add: sample_filter_def aesKeyLength_def)
  have p: "ext_SenderAddr sample_packet \<notin> wh_blacklist (wn_state n)"
    "gp_WhisperPacket (ext_Packet sample_packet) = Some \<lparr>wp_Code = messagesCode, wp_Size = 0, wp_Payload = []\<rparr>"
    using n(4) by (simp_all add: sample_packet_def)
  have d: "fst (sample_decode (wp_Payload \<lparr>wp_Code = messagesCode, wp_Size = 0, wp_Payload = []\<rparr>)) = ?e"
    "length (en_Data ?e) < gcm_NonceSize"
    by (simp_all add: sample_decode_def NewEnvelope_def gcm_NonceSize_def)
  from short_envelope_crashes_subscriber [OF n(1) sample_decodes refl n(3,5) _ n(6,7) f p _ d(1) topic d(2) acc, of sorted_list_of_set]
  show ?thesis using n(1,8) by (auto simp: GetEnvelope_def)
qed

end
