(* ===== verification/SignalNode.thy ===== *)
theory SignalNode
  imports Signal WhisperNode
begin

text \<open>
  A running Signal handler (\<open>Run\<close> and the loops of \<open>src/adssignal/signalhandler.go\<close>): the start-up, whose goroutines
  evaluate the packet channels before or after these are created, the poll of the Whisper filter, and the three loops that
  take packets from their channels. A channel is the list of packets that its senders have put or will put on it.
\<close>

section \<open>Start-up\<close>

definition identityDH :: nat where "identityDH = 0"
definition messageDH :: nat where "messageDH = 1"
definition ratchet :: nat where "ratchet = 2"

text \<open>
  \<open>sn_loops m\<close> is the loop of kind \<open>m\<close> once its \<open>range\<close> expression is evaluated: whether it ranges over a channel, or over the nil
  channel a missing entry yields, on which it blocks for ever.
\<close>

record SignalNode =
  sn_handler :: SignalHandler
  sn_whisper :: Whisper
  sn_filterHash :: string
  sn_channels :: "nat \<rightharpoonup> SignalPacket list"
  sn_loops :: "nat \<rightharpoonup> bool"

text \<open>
  The goroutines run concurrently with the rest of \<open>Run\<close>: \<open>Schedule m\<close> is the first step of the loop of kind \<open>m\<close>, \<open>Create i\<close> the
  assignment of the loop that makes the channels.
\<close>

datatype start_event = Schedule nat | Create nat

fun signal_Run_step :: "SignalNode \<Rightarrow> start_event \<Rightarrow> SignalNode" where
  "signal_Run_step sn (Schedule m) =
     (if sn_loops sn m = None then sn\<lparr>sn_loops := (sn_loops sn)(m \<mapsto> sn_channels sn m \<noteq> None)\<rparr> else sn)"
| "signal_Run_step sn (Create i) = sn\<lparr>sn_channels := (sn_channels sn)(i \<mapsto> [])\<rparr>"

definition makes_channels :: "start_event list \<Rightarrow> bool" where
  "makes_channels es \<longleftrightarrow> filter (\<lambda>e. \<exists>i. e = Create i) es = map Create [identityDH..<Suc ratchet]"

text \<open>
  Without a filter the hash is the empty string, and every poll fails. \<open>p\<close> is the address of the filter.
\<close>

definition signal_Run_filter :: "nat \<Rightarrow> bytes option \<Rightarrow> SignalNode \<Rightarrow> (SignalNode \<times> whisper_action list) go option" where
  "signal_Run_filter p rnd sn =
     map_option (\<lambda>r. go_bind r (\<lambda>(filterHash, wh, acts).
       Inr (sn\<lparr>sn_whisper := wh, sn_filterHash := (case filterHash of None \<Rightarrow> [] | Some i \<Rightarrow> i)\<rparr>, acts)))
       (NewMessageFilter (sn_whisper sn) p rnd (signal_filter (sg_Name (sn_handler sn))))"

section \<open>The loops\<close>

text \<open>Sending on the nil channel of a missing entry blocks its goroutine for ever: the packet is lost.\<close>

definition put_packet :: "(nat \<rightharpoonup> SignalPacket list) \<Rightarrow> SignalPacket \<Rightarrow> (nat \<rightharpoonup> SignalPacket list)" where
  "put_packet chans packet =
     (case signal_mode packet of
        None \<Rightarrow> chans
      | Some m \<Rightarrow> (case chans m of None \<Rightarrow> chans | Some q \<Rightarrow> chans(m \<mapsto> q @ [packet])))"

text \<open>
  One tick of \<open>listenForIncomingMessages\<close>. \<open>rng\<close> is the order of the range over the messages of the filter; the goroutines of one
  tick put the packets on their channels in that order. The packet a failed decoding leaves is used all the same.
\<close>

definition listenForIncomingMessages ::
  "SignalCodec \<Rightarrow> ((bytes \<rightharpoonup> ReceivedMessage) \<Rightarrow> ReceivedMessage list) \<Rightarrow> SignalNode \<Rightarrow> SignalNode go option" where
  "listenForIncomingMessages co rng sn =
     map_option (\<lambda>r. go_bind r (\<lambda>(mess, wh).
       let sn1 = sn\<lparr>sn_whisper := wh\<rparr> in
       case mess of
         None \<Rightarrow> Inr sn1
       | Some ms \<Rightarrow> Inr (sn1\<lparr>sn_channels := foldl put_packet (sn_channels sn) (map (\<lambda>m. sp_Decode co (rm_Payload m)) ms)\<rparr>)))
       (GetFilterMessages rng (sn_whisper sn) (sn_filterHash sn))"

text \<open>A loop takes a packet when it ranges over a channel that has one.\<close>

definition take_packet :: "nat \<Rightarrow> SignalNode \<Rightarrow> (SignalPacket \<times> SignalNode) option" where
  "take_packet m sn =
     (if sn_loops sn m = Some True then
        (case sn_channels sn m of
           Some (packet # q) \<Rightarrow> Some (packet, sn\<lparr>sn_channels := (sn_channels sn)(m \<mapsto> q)\<rparr>)
         | _ \<Rightarrow> None)
      else None)"

definition with_handler :: "SignalNode \<Rightarrow> (SignalHandler \<times> signal_action list) go \<Rightarrow> (SignalNode \<times> signal_action list) go" where
  "with_handler sn r = go_bind r (\<lambda>(sg, acts). Inr (sn\<lparr>sn_handler := sg\<rparr>, acts))"

text \<open>\<open>ek\<close>, \<open>d\<close> and \<open>ok\<close> are the random keys and the outcome of the file operations of the turn; \<open>None\<close> waits.\<close>

definition signal_turn ::
  "Crypto \<Rightarrow> SignalCodec \<Rightarrow> bool \<Rightarrow> bytes \<Rightarrow> bytes \<Rightarrow> nat \<Rightarrow> SignalNode \<Rightarrow> (SignalNode \<times> signal_action list) go option" where
  "signal_turn cr co ok ek d m sn =
     map_option (\<lambda>(packet, sn').
       with_handler sn'
         (if m = identityDH then processIdentityMessage cr ek d (sn_handler sn') packet
          else if m = messageDH then processDHMessage cr co ok d (sn_handler sn') packet
          else processRatchetMessage cr co ok d (sn_handler sn') packet))
       (take_packet m sn)"

inductive sn_step :: "Crypto \<Rightarrow> SignalCodec \<Rightarrow> SignalNode \<Rightarrow> SignalNode \<Rightarrow> bool" for cr co where
  start: "signal_Run_step sn e = sn' \<Longrightarrow> \<not> (\<exists>i. e = Create i) \<Longrightarrow> sn_step cr co sn sn'"
| poll: "listenForIncomingMessages co rng sn = Some (Inr sn') \<Longrightarrow> sn_step cr co sn sn'"
| turn: "m \<le> ratchet \<Longrightarrow> signal_turn cr co ok ek d m sn = Some (Inr (sn', acts)) \<Longrightarrow> sn_step cr co sn sn'"
| other: "sn_step cr co sn (sn\<lparr>sn_handler := sg, sn_whisper := wh\<rparr>)"

inductive sn_steps :: "Crypto \<Rightarrow> SignalCodec \<Rightarrow> SignalNode \<Rightarrow> SignalNode \<Rightarrow> bool" for cr co where
  refl: "sn_steps cr co sn sn"
| step: "sn_steps cr co sn sn' \<Longrightarrow> sn_step cr co sn' sn'' \<Longrightarrow> sn_steps cr co sn sn''"

section \<open>A poll hands over every packet\<close>

definition queue_of :: "SignalNode \<Rightarrow> nat \<Rightarrow> SignalPacket list" where
  "queue_of sn m = (case sn_channels sn m of None \<Rightarrow> [] | Some q \<Rightarrow> q)"

lemma signal_mode_le: "signal_mode packet = Some m \<Longrightarrow> m \<le> ratchet"
  by (auto simp: signal_mode_def ratchet_def split: if_splits)

lemma put_packet_at:
  "chans k \<noteq> None \<Longrightarrow> put_packet chans packet k = Some (the (chans k) @ filter (\<lambda>p. signal_mode p = Some k) [packet])"
  by (auto simp: put_packet_def split: option.splits)

lemma put_packets_at:
  "chans k \<noteq> None \<Longrightarrow>
   foldl put_packet chans packets k = Some (the (chans k) @ filter (\<lambda>p. signal_mode p = Some k) packets)"
proof (induction packets arbitrary: chans)
  case Nil
  then show ?case by auto
next
  case (Cons packet packets)
  have 1: "put_packet chans packet k = Some (the (chans k) @ filter (\<lambda>p. signal_mode p = Some k) [packet])"
    using Cons.prems by (rule put_packet_at)
  with Cons.IH [of "put_packet chans packet"] show ?case by simp
qed

text \<open>
  A poll hands every message of the node's filter to the loop of its kind: each is decoded and put on exactly the
  channel of its kind, behind what is there and in the order of the range, a message without any part is dropped, and the
  filter is empty afterwards, so that the next poll delivers nothing twice.
\<close>

theorem polled_packets_dispatched:
  assumes "\<not> fs_locked (wh_filters (sn_whisper sn))"
    and "fs_subscribers (wh_filters (sn_whisper sn)) (sn_filterHash sn) = Some p" and "fs_heap (wh_filters (sn_whisper sn)) p = Some f"
    and "\<And>k. k \<le> ratchet \<Longrightarrow> sn_channels sn k \<noteq> None" and "rng Map.empty = []"
  shows "\<exists>sn' sn''. listenForIncomingMessages co rng sn = Some (Inr sn') \<and>
    (\<forall>k \<le> ratchet. queue_of sn' k = queue_of sn k @
       filter (\<lambda>packet. signal_mode packet = Some k) (map (\<lambda>m. sp_Decode co (rm_Payload m)) (rng (fl_Messages f)))) \<and>
    listenForIncomingMessages co rng sn' = Some (Inr sn'') \<and> sn_channels sn'' = sn_channels sn'"
proof -
  let ?wh = "sn_whisper sn" and ?f = "f\<lparr>fl_Messages := Map.empty\<rparr>"
  let ?wh' = "?wh\<lparr>wh_filters := (wh_filters ?wh)\<lparr>fs_heap := (fs_heap (wh_filters ?wh))(p \<mapsto> ?f)\<rparr>\<rparr>"
  let ?packets = "map (\<lambda>m. sp_Decode co (rm_Payload m)) (rng (fl_Messages f))"
  let ?sn' = "sn\<lparr>sn_whisper := ?wh', sn_channels := foldl put_packet (sn_channels sn) ?packets\<rparr>"
  have "GetFilterMessages rng ?wh (sn_filterHash sn) = Some (Inr (Some (rng (fl_Messages f)), ?wh'))"
    using assms(1-3) by (simp add: GetFilterMessages_def GetFilterFromID_def GetReceivedMessagesFromFilter_def)
  then have 1: "listenForIncomingMessages co rng sn = Some (Inr ?sn')" by (simp add: listenForIncomingMessages_def)
  have 2: "queue_of ?sn' k = queue_of sn k @ filter (\<lambda>packet. signal_mode packet = Some k) ?packets" if "k \<le> ratchet" for k
    using put_packets_at [of "sn_channels sn" k ?packets] assms(4) [OF that] by (auto simp: queue_of_def)
  have "GetFilterMessages rng ?wh' (sn_filterHash sn) = Some (Inr (Some [], ?wh'))"
    using assms(1-3,5) by (simp add: GetFilterMessages_def GetFilterFromID_def GetReceivedMessagesFromFilter_def)
  then have "listenForIncomingMessages co rng ?sn' = Some (Inr ?sn')" by (simp add: listenForIncomingMessages_def)
  with 1 2 show ?thesis by blast
qed

section \<open>Loops that start too early\<close>

lemma start_loops_kept: "sn_loops sn m = Some b \<Longrightarrow> sn_loops (foldl signal_Run_step sn es) m = Some b"
proof (induction es arbitrary: sn)
  case (Cons e es)
  have "sn_loops (signal_Run_step sn e) m = Some b" using Cons.prems by (cases e) auto
  with Cons.IH show ?case by simp
qed simp

lemma start_channels_missing:
  "Create m \<notin> set es \<Longrightarrow> sn_channels (foldl signal_Run_step sn es) m = sn_channels sn m"
proof (induction es arbitrary: sn)
  case (Cons e es)
  then show ?case by (cases e) auto
qed simp

lemma start_loops_unscheduled:
  "Schedule m \<notin> set es \<Longrightarrow> sn_loops (foldl signal_Run_step sn es) m = sn_loops sn m"
proof (induction es arbitrary: sn)
  case (Cons e es)
  then show ?case by (cases e) auto
qed simp

lemma start_channels_made:
  "Create m \<in> set es \<or> sn_channels sn m \<noteq> None \<Longrightarrow> sn_channels (foldl signal_Run_step sn es) m \<noteq> None"
proof (induction es arbitrary: sn)
  case (Cons e es)
  then show ?case by (cases e) auto
qed simp

lemma sn_step_blocked:
  assumes "sn_step cr co sn sn'" "sn_loops sn m = Some False" "sn_channels sn m = Some q"
  shows "sn_loops sn' m = Some False \<and> (\<exists>new. sn_channels sn' m = Some (q @ new))"
  using assms(1)
proof cases
  case (start e)
  with assms(2,3) show ?thesis by (cases e) auto
next
  case (poll rng)
  then obtain mess wh where "GetFilterMessages rng (sn_whisper sn) (sn_filterHash sn) = Some (Inr (mess, wh))"
    by (auto simp: listenForIncomingMessages_def go_bind_eq_Inr)
  with poll assms(2,3) put_packets_at [of "sn_channels sn" m] show ?thesis
    by (cases mess) (auto simp: listenForIncomingMessages_def)
next
  case (turn k ok ek d acts)
  then obtain packet q' where "sn_loops sn k = Some True" and sn1: "sn_loops sn' = sn_loops sn" "sn_channels sn' = (sn_channels sn)(k \<mapsto> q')"
    by (auto simp: signal_turn_def take_packet_def with_handler_def go_bind_eq_Inr split: if_splits option.splits list.splits)
  with assms(2,3) show ?thesis by (cases "k = m") auto
next
  case (other sg wh)
  with assms(2,3) show ?thesis by simp
qed

lemma sn_steps_blocked:
  "sn_steps cr co sn sn' \<Longrightarrow> sn_loops sn m = Some False \<Longrightarrow> sn_channels sn m = Some q \<Longrightarrow>
   sn_loops sn' m = Some False \<and> (\<exists>new. sn_channels sn' m = Some (q @ new))"
proof (induction rule: sn_steps.induct)
  case (step sn sn' sn'')
  then obtain new where "sn_loops sn' m = Some False" "sn_channels sn' m = Some (q @ new)" by blast
  from sn_step_blocked [OF step.hyps(2) this] show ?case by auto
qed simp

text \<open>
  Claim C38. A loop that starts too early never serves: \<open>Run\<close> starts the loops before it makes the channels. The loop of a kind
  takes packets exactly if its first step comes after its channel is made; otherwise it ranges over a nil channel, and in every
  run from then on no packet of that kind is ever taken: the channel only grows.
\<close>

theorem early_loop_never_serves:
  assumes "makes_channels es" and "es = before @ Schedule m # after_it" and "Schedule m \<notin> set before" and "m \<le> ratchet"
    and "sn_loops sn m = None" and "sn_channels sn m = None" and "sn_steps cr co (foldl signal_Run_step sn es) sn'"
  shows "(Create m \<in> set before \<longleftrightarrow> sn_loops (foldl signal_Run_step sn es) m = Some True) \<and>
    (Create m \<notin> set before \<longrightarrow> signal_turn cr co ok ek d m sn' = None \<and>
       (\<forall>sn''. sn_step cr co sn' sn'' \<longrightarrow> (\<exists>new. queue_of sn'' m = queue_of sn' m @ new)))"
proof -
  let ?last = "foldl signal_Run_step sn es" and ?mid = "foldl signal_Run_step sn before"
  have mid: "sn_loops ?mid m = None" using start_loops_unscheduled [OF assms(3)] assms(5) by simp
  have made: "sn_channels ?mid m \<noteq> None \<longleftrightarrow> Create m \<in> set before"
    using start_channels_made [of m before sn] start_channels_missing [of m before sn] assms(6) by metis
  have "sn_loops (signal_Run_step ?mid (Schedule m)) m = Some (Create m \<in> set before)" using mid made by auto
  from start_loops_kept [OF this, of after_it] have e: "sn_loops ?last m = Some (Create m \<in> set before)" by (simp add: assms(2))
  have "Create m \<in> set (filter (\<lambda>e. \<exists>i. e = Create i) es)"
    using assms(1,4) unfolding makes_channels_def by (auto simp: identityDH_def)
  then have "sn_channels ?last m \<noteq> None" using start_channels_made by auto
  then obtain q where q: "sn_channels ?last m = Some q" by blast
  have "signal_turn cr co ok ek d m sn' = None \<and> (\<forall>sn''. sn_step cr co sn' sn'' \<longrightarrow> (\<exists>new. queue_of sn'' m = queue_of sn' m @ new))"
    if "Create m \<notin> set before"
  proof -
    from sn_steps_blocked [OF assms(7) _ q] e that obtain new where
      b: "sn_loops sn' m = Some False" "sn_channels sn' m = Some (q @ new)" by auto
    then have "\<exists>new. queue_of sn'' m = queue_of sn' m @ new" if "sn_step cr co sn' sn''" for sn''
      using sn_step_blocked [OF that b] by (auto simp: queue_of_def)
    with b show ?thesis by (simp add: signal_turn_def take_packet_def)
  qed
  with e show ?thesis by simp
qed

section \<open>A node at its start\<close>

definition sample_signal :: "SignalHandler \<Rightarrow> Whisper \<Rightarrow> SignalNode" where
  "sample_signal sg wh = \<lparr>sn_handler = sg, sn_whisper = wh, sn_filterHash = ''h'', sn_channels = Map.empty, sn_loops = Map.empty\<rparr>"

definition sample_start :: "start_event list" where
  "sample_start = [Create 0, Schedule 0, Schedule 2, Create 1, Create 2, Schedule 1]"

lemma sample_start_makes: "makes_channels sample_start"
  by (simp add: makes_channels_def sample_start_def identityDH_def ratchet_def upt_rec)

theorem early_loop_never_serves_witness:
  "\<forall>sg wh cr co ek d. let sn = foldl signal_Run_step (sample_signal sg wh) sample_start
     in sn_loops sn 2 \<noteq> Some True \<and> signal_turn cr co True ek d 2 sn = None"
proof (intro allI)
  fix sg :: SignalHandler and wh :: Whisper and cr :: Crypto and co :: SignalCodec and ek d :: bytes
  let ?sn = "sample_signal sg wh"
  have "sample_start = [Create 0, Schedule 0] @ Schedule 2 # [Create 1, Create 2, Schedule 1]" by (simp add: sample_start_def)
  from early_loop_never_serves [OF sample_start_makes this, of ?sn cr co "foldl signal_Run_step ?sn sample_start" True ek d]
  have "sn_loops (foldl signal_Run_step ?sn sample_start) 2 \<noteq> Some True \<and>
      signal_turn cr co True ek d 2 (foldl signal_Run_step ?sn sample_start) = None"
    by (simp add: ratchet_def sample_signal_def sn_steps.refl)
  then show "let sn = foldl signal_Run_step ?sn sample_start in sn_loops sn 2 \<noteq> Some True \<and> signal_turn cr co True ek d 2 sn = None"
    by (simp add: Let_def)
qed

theorem polled_packets_dispatched_witness:
  "\<exists>sn sn' i. listenForIncomingMessages (toy_codec undefined undefined (x3dh_packet None))
       (\<lambda>m. case m [] of None \<Rightarrow> [] | Some x \<Rightarrow> [x]) sn = Some (Inr sn') \<and>
     queue_of sn' identityDH = [identity_packet i] \<and> queue_of sn' messageDH = []"
proof -
  let ?rng = "\<lambda>m :: bytes \<rightharpoonup> ReceivedMessage. case m [] of None \<Rightarrow> [] | Some x \<Rightarrow> [x]"
  let ?co = "toy_codec undefined undefined (x3dh_packet None)"
  let ?m = "\<lparr>rm_Sent = 0, rm_TTL = 0, rm_Src = None, rm_Dst = None, rm_Payload = [], rm_Topic = [], rm_SymKeyHash = [],
    rm_EnvelopeHash = []\<rparr> :: ReceivedMessage"
  let ?f = "\<lparr>fl_KeyAsym = None, fl_KeySym = None, fl_Pow = Fin 0, fl_Topics = [], fl_Messages = [[] \<mapsto> ?m]\<rparr>"
  let ?wh = "NewWhisper\<lparr>wh_filters := NewFilterStorage\<lparr>fs_heap := [7 \<mapsto> ?f], fs_subscribers := [''h'' \<mapsto> 7]\<rparr>\<rparr>"
  let ?sn = "(sample_signal undefined ?wh)\<lparr>sn_channels := (\<lambda>_. Some [])\<rparr>"
  let ?i = "\<lparr>xi_Origin = [], xi_Destination = [], xi_HopLimit = 0, xi_IK = [], xi_SPK = [], xi_Sign = None, xi_OPK = None\<rparr>"
  have d: "map (\<lambda>m. sp_Decode ?co (rm_Payload m)) (?rng (fl_Messages ?f)) = [identity_packet ?i]" "signal_mode (identity_packet ?i) = Some identityDH"
    by (simp_all add: toy_codec_def signal_mode_def identity_packet_def identityDH_def)
  have k: "identityDH \<le> ratchet" "messageDH \<le> ratchet" "identityDH \<noteq> messageDH"
    by (simp_all add: identityDH_def messageDH_def ratchet_def)
  have "\<exists>sn' sn''. listenForIncomingMessages ?co ?rng ?sn = Some (Inr sn') \<and>
    (\<forall>k \<le> ratchet. queue_of sn' k = queue_of ?sn k @
       filter (\<lambda>packet. signal_mode packet = Some k) (map (\<lambda>m. sp_Decode ?co (rm_Payload m)) (?rng (fl_Messages ?f)))) \<and>
    listenForIncomingMessages ?co ?rng sn' = Some (Inr sn'') \<and> sn_channels sn'' = sn_channels sn'"
    by (rule polled_packets_dispatched [where p = 7]) (simp_all add: sample_signal_def NewWhisper_def NewFilterStorage_def)
  then obtain sn' where s: "listenForIncomingMessages ?co ?rng ?sn = Some (Inr sn')"
    and q: "\<And>k. k \<le> ratchet \<Longrightarrow> queue_of sn' k = queue_of ?sn k @ filter (\<lambda>packet. signal_mode packet = Some k) [identity_packet ?i]"
    unfolding d(1) by blast
  have "queue_of sn' identityDH = [identity_packet ?i] \<and> queue_of sn' messageDH = []"
    using q [OF k(1)] q [OF k(2)] d(2) k(3) by (simp add: queue_of_def)
  with s show ?thesis by blast
qed

end
