(* ===== verification/Program.thy ===== *)
theory Program
  imports WebServer SignalNode FileIntegrity
begin

text \<open>
  The outer shell of the program: the flags of \<open>src/main.go\<close> and \<open>src/client/main.go\<close> and what they configure, the working
  directories, sockets and the files of \<open>src/gossiper/utils.go\<close>, and the goroutines that \<open>Run\<close> of the gossiper starts.
\<close>

section \<open>Flags\<close>

record Flags =
  fg_GUIPort :: string
  fg_UIPort :: string
  fg_gossipAddr :: string
  fg_gossipName :: string
  fg_peers :: string
  fg_N :: uint64
  fg_simple :: bool
  fg_hw3ex2 :: bool
  fg_hw3ex3 :: bool
  fg_hw3ex4 :: bool
  fg_ackAll :: bool
  fg_signal :: bool
  fg_antiEntropy :: nat
  fg_rtimer :: nat
  fg_hopLimit :: nat
  fg_stubbornTimeout :: nat

definition default_flags :: Flags where
  "default_flags = \<lparr>fg_GUIPort = [], fg_UIPort = ''8080'', fg_gossipAddr = ''127.0.0.1:5000'', fg_gossipName = [], fg_peers = [], fg_N = 1,
     fg_simple = False, fg_hw3ex2 = False, fg_hw3ex3 = False, fg_hw3ex4 = False, fg_ackAll = False, fg_signal = False,
     fg_antiEntropy = 10, fg_rtimer = 0, fg_hopLimit = 10, fg_stubbornTimeout = 5\<rparr>"

definition main_constants :: "Flags \<Rightarrow> AppConstants" where
  "main_constants f = SetAppConstants (fg_simple f) (fg_hw3ex2 f) (fg_hw3ex3 f) (fg_hw3ex4 f) (fg_ackAll f) (fg_signal f)
     (fg_hopLimit f) (fg_stubbornTimeout f) (fg_rtimer f) (fg_antiEntropy f)"

text \<open>The node that \<open>main\<close> builds: gossiper, Whisper node, Signal handler; \<open>None\<close> if the gossip address does not resolve.\<close>

definition main_gossiper :: "(bytes \<Rightarrow> bytes) \<Rightarrow> (string \<Rightarrow> address option) \<Rightarrow> Flags \<Rightarrow> Gossiper option" where
  "main_gossiper sha256 resolve f =
     NewGossiper sha256 resolve (fg_gossipName f) (fg_gossipAddr f) (fg_peers f) (fg_N f)"

definition main_web :: "(string \<Rightarrow> address option) \<Rightarrow> Flags \<Rightarrow> Webserver \<Rightarrow> Webserver go option" where
  "main_web resolve f parts = (if fg_GUIPort f \<noteq> [] then Some (NewWebserver resolve (fg_UIPort f) parts) else None)"

record ClientFlags =
  cf_UIPort :: string
  cf_dest :: string
  cf_msg :: string
  cf_file :: string
  cf_request :: string
  cf_keywords :: string
  cf_budget :: uint64
  cf_identity :: string

definition default_client_flags :: ClientFlags where
  "default_client_flags = \<lparr>cf_UIPort = ''8080'', cf_dest = [], cf_msg = [], cf_file = [], cf_request = [], cf_keywords = [], cf_budget = 0,
     cf_identity = []\<rparr>"

text \<open>The client: the address it connects to and the datagram it sends.\<close>

definition client_main :: "(string \<Rightarrow> address option) \<Rightarrow> (ClientMessage \<Rightarrow> bytes) \<Rightarrow> ClientFlags \<Rightarrow> (address \<times> bytes option) go" where
  "client_main resolve encode f =
     go_bind (NewClient resolve (cf_UIPort f)) (\<lambda>a.
       Inr (a, SendMessage encode (cf_msg f) (cf_dest f) (cf_file f) (cf_request f) (cf_keywords f) (cf_budget f) (cf_identity f)))"

section \<open>Start of the gossiper\<close>

datatype gossiper_goroutine =
    ProcessClientMessages | ProcessSimpleMessages | ProcessStatusMessages | ProcessRumorMessages | StartAntiEntropy
  | StartRouteRumormongering | ProcessPrivateMessages | ProcessDataRequest | ProcessDataReply | ProcessSearchRequest
  | ProcessSearchReply | ProcessTLCMessage | ProcessTLCAck | HandleTLCMessage | ProcessClientBlocks
  | ReceivePacketsFromClient | ReceivePacketsFromPeers | ProcessDStorage | SendDStoreMessages

text \<open>
  The goroutines in the order they are started, before and after the initialisation of the distributed store. The messages that
  the store sends wait for the last one: while \<open>Init\<close> runs, no ping is answered.
\<close>

definition gossiper_Run ::
  "(bytes \<Rightarrow> bytes) \<Rightarrow> Gossiper \<Rightarrow> (gossiper_goroutine list \<times> Gossiper \<times> gossiper_goroutine list) go" where
  "gossiper_Run sha256 g =
     go_bind (store_Init sha256 (\<lambda>_. False) (gs_dstore g) (GetArrayStringFromAddresses (nd_Peers (ld_node (gs_ledger g))))) (\<lambda>ds.
       Inr ([ProcessClientMessages, ProcessSimpleMessages, ProcessStatusMessages, ProcessRumorMessages, StartAntiEntropy,
             StartRouteRumormongering, ProcessPrivateMessages, ProcessDataRequest, ProcessDataReply, ProcessSearchRequest,
             ProcessSearchReply, ProcessTLCMessage, ProcessTLCAck, HandleTLCMessage, ProcessClientBlocks,
             ReceivePacketsFromClient, ReceivePacketsFromPeers, ProcessDStorage],
            g\<lparr>gs_dstore := ds\<rparr>, [SendDStoreMessages]))"

section \<open>Working directories\<close>

definition shareFolder :: string where "shareFolder = ''/_SharedFiles/''"
definition downloadFolder :: string where "downloadFolder = ''/_Downloads/''"

text \<open>
  The folders that are named and made (that making one fails is not noticed); \<open>wd\<close> is the working directory, without which the start
  panics.
\<close>

definition createWorkingDirectories :: "string option \<Rightarrow> (string \<times> string) go" where
  "createWorkingDirectories wd = (case wd of None \<Rightarrow> Inl ExplicitPanic | Some d \<Rightarrow> Inr (d @ shareFolder, d @ downloadFolder))"

text \<open>\<open>app_Init\<close> makes the packet channels and the folders.\<close>

definition app_Init :: "bool \<Rightarrow> string option \<Rightarrow> (string set \<times> string \<times> string) go" where
  "app_Init simpleMode wd = go_bind (createWorkingDirectories wd) (\<lambda>folders. Inr (initPacketChannels simpleMode, folders))"

section \<open>Construction\<close>

text \<open>An error is either fatal or ignored.\<close>

definition ErrorCheck :: "bool \<Rightarrow> bool \<Rightarrow> unit go" where
  "ErrorCheck failed doPanic = (if failed \<and> doPanic then Inl ExplicitPanic else Inr ())"

record ConnectionHandler =
  ch_clientData :: address
  ch_GossiperData :: address

text \<open>\<open>listen bound a\<close> tells whether a socket can be opened at \<open>a\<close> when the program has opened those at \<open>bound\<close>.\<close>

definition createConnectionData ::
  "(string \<Rightarrow> address option) \<Rightarrow> (address set \<Rightarrow> address \<Rightarrow> bool) \<Rightarrow> address set \<Rightarrow> string \<Rightarrow> address go" where
  "createConnectionData resolve listen bound addressString =
     go_bind (ErrorCheck (resolve addressString = None) True) (\<lambda>_.
       go_bind (go_deref (resolve addressString)) (\<lambda>a.
         go_bind (ErrorCheck (\<not> listen bound a) True) (\<lambda>_. Inr a)))"

definition NewConnectionHandler ::
  "(string \<Rightarrow> address option) \<Rightarrow> (address set \<Rightarrow> address \<Rightarrow> bool) \<Rightarrow> string \<Rightarrow> string \<Rightarrow> ConnectionHandler go" where
  "NewConnectionHandler resolve listen gossiperAddress clientAddress =
     go_bind (createConnectionData resolve listen {} gossiperAddress) (\<lambda>gossiperData.
       go_bind (createConnectionData resolve listen {gossiperData} clientAddress) (\<lambda>clientData.
         Inr \<lparr>ch_clientData = clientData, ch_GossiperData = gossiperData\<rparr>))"

text \<open>
  What \<open>main\<close> builds before anything runs: the constants, the packet channels, the folders, the two sockets and the gossiper.
\<close>

definition main_start ::
  "(bytes \<Rightarrow> bytes) \<Rightarrow> (string \<Rightarrow> address option) \<Rightarrow> (address set \<Rightarrow> address \<Rightarrow> bool) \<Rightarrow> string option \<Rightarrow> Flags \<Rightarrow>
   (AppConstants \<times> string set \<times> (string \<times> string) \<times> ConnectionHandler \<times> Gossiper) go" where
  "main_start sha256 resolve listen wd f =
     go_bind (app_Init (app_simpleMode (main_constants f)) wd) (\<lambda>(channels, folders).
       go_bind (NewConnectionHandler resolve listen (fg_gossipAddr f) (BaseAddress @ '':'' @ fg_UIPort f)) (\<lambda>ch.
         go_bind (go_deref (main_gossiper sha256 resolve f)) (\<lambda>g. Inr (main_constants f, channels, folders, ch, g))))"

text \<open>
  A node starts exactly if it has a working directory and can open both sockets; then it reads from the address its packets
  come from, it has the channels of its mode, and simple mode leaves it no channel but one.
\<close>

lemma main_start_exact:
  "(\<exists>r. main_start sha256 resolve listen wd f = Inr r) \<longleftrightarrow>
     wd \<noteq> None \<and> (\<exists>a c. resolve (fg_gossipAddr f) = Some a \<and> resolve (BaseAddress @ '':'' @ fg_UIPort f) = Some c \<and>
       listen {} a \<and> listen {a} c)"
  by (cases wd; cases "resolve (fg_gossipAddr f)"; cases "resolve (BaseAddress @ '':'' @ fg_UIPort f)")
    (auto simp: main_start_def app_Init_def createWorkingDirectories_def NewConnectionHandler_def createConnectionData_def ErrorCheck_def
      main_gossiper_def NewGossiper_def)

lemma main_start_channels:
  assumes "main_start sha256 resolve listen wd f = Inr (app, channels, folders, ch, g)"
  shows "nd_Address (ld_node (gs_ledger g)) = ch_GossiperData ch \<and>
    (app_simpleMode app \<longrightarrow> channels = {''simple''}) \<and> (\<not> app_simpleMode app \<longrightarrow> channels = set modeTypes - {''simple''})"
  using assms by (auto simp: main_start_def app_Init_def NewConnectionHandler_def createConnectionData_def ErrorCheck_def go_bind_eq_Inr
      main_gossiper_def NewGossiper_def initPacketChannels_def modeTypes_def split: option.splits if_splits)

section \<open>Files on disk\<close>

text \<open>
  Disks are maps from paths to contents. \<open>created\<close> and \<open>written\<close> are the outcomes of creating the file and of writing it: a file
  that was created and not written is empty (a partial write counts as none).
\<close>

definition saveFileOnDisk :: "bool \<Rightarrow> bool \<Rightarrow> string \<Rightarrow> files \<Rightarrow> string \<Rightarrow> bytes \<Rightarrow> files" where
  "saveFileOnDisk created written folder disk fileName data =
     (if \<not> created then disk
      else if \<not> written then disk(folder @ fileName \<mapsto> [])
      else disk(folder @ fileName \<mapsto> data))"

definition copyFile :: "bool \<Rightarrow> bool \<Rightarrow> string \<Rightarrow> files \<Rightarrow> string \<Rightarrow> string \<Rightarrow> files" where
  "copyFile created written folder disk source target =
     (case disk (folder @ source) of
        None \<Rightarrow> disk
      | Some content \<Rightarrow>
          if \<not> created then disk
          else if \<not> written \<or> source = target then disk(folder @ target \<mapsto> [])
          else disk(folder @ target \<mapsto> content))"

text \<open>What the file actions of a download leave on a disk where nothing fails.\<close>

fun on_disk :: "string \<Rightarrow> files \<Rightarrow> file_action list \<Rightarrow> files" where
  "on_disk folder disk [] = disk"
| "on_disk folder disk (SaveFile name data # acts) = on_disk folder (saveFileOnDisk True True folder disk name data) acts"
| "on_disk folder disk (CopyFile source target # acts) = on_disk folder (copyFile True True folder disk source target) acts"
| "on_disk folder disk (_ # acts) = on_disk folder disk acts"

lemma on_disk_append: "on_disk folder disk (xs @ ys) = on_disk folder (on_disk folder disk xs) ys"
proof (induction xs arbitrary: disk)
  case (Cons x xs)
  then show ?case by (cases x) simp_all
qed simp

text \<open>
  A finished download is on disk: when all chunks were retrieved and the download ends, the file has the retrieved bytes on
  disk, cut to the sum of the chunk lengths, and only then does the interface list it.
\<close>

lemma finished_download_on_disk:
  assumes "finish_download key dl = Inr (fh, acts, es)" and "unat (fm_ChunkCount (dl_meta dl)) = dl_retrieved dl"
  shows "dl_size dl \<le> length (dl_data dl) \<and>
    on_disk folder disk acts (folder @ fm_FileName (dl_meta dl)) = Some (take (dl_size dl) (dl_data dl)) \<and>
    (\<exists>before f. acts = before @ [SaveFile (fm_FileName (dl_meta dl)) (take (dl_size dl) (dl_data dl)), GuiDownloaded f])"
proof -
  have size: "dl_size dl \<le> length (dl_data dl)"
    using assms by (auto simp: finish_download_def go_slice_def go_bind_eq_Inr Let_def split: if_splits)
  then have "\<exists>f. acts = dl_actions dl @ [SaveFile (fm_FileName (dl_meta dl)) (take (dl_size dl) (dl_data dl)), GuiDownloaded f]"
    using assms by (auto simp: finish_download_def Let_def)
  with size show ?thesis by (auto simp: on_disk_append saveFileOnDisk_def)
qed

end
