(* ===== verification/StoreNode.thy ===== *)
theory StoreNode
  imports Console
begin

text \<open>
  A running node of the distributed store (\<open>src/storage/store.go\<close>, \<open>chunk_store.go\<close>, \<open>logger.go\<close>): the acknowledgements of
  \<open>storeChunk\<close>, the log lines, and the timers by which a node republishes the chunks it holds.
\<close>

section \<open>Acknowledgements and logs\<close>

definition newline :: char where "newline = CHR 0x0A"

text \<open>The log shown to the user, and the lines printed; the arguments are already formatted.\<close>

definition logMessage :: "string \<Rightarrow> string list \<Rightarrow> string list \<times> string list" where
  "logMessage formatted displayLogs =
     (let s = newline # ''DStorage: '' @ formatted in (displayLogs @ [s], [s]))"

text \<open>Standard error only.\<close>

definition logError :: "string \<Rightarrow> string" where
  "logError formatted = ''DStorage: '' @ formatted @ [newline]"

definition logDebug :: "string \<Rightarrow> string" where
  "logDebug formatted = ''DStorage: '' @ formatted @ [newline]"

definition logPing :: "string \<Rightarrow> string \<Rightarrow> string" where
  "logPing addr rpcid = logError (''Ping from '' @ addr @ '' rpcid '' @ rpcid)"

definition logNodeLookUp :: "bytes \<Rightarrow> RoutingEntry list \<Rightarrow> string list \<Rightarrow> string list \<times> string list" where
  "logNodeLookUp query res displayLogs =
     logMessage (''NodeLookup query '' @ EncodeToString query @ '' nodes'' @
       foldl (\<lambda>resStr r. resStr @ '' '' @ EncodeToString (ID r) @ ''['' @ Address r @ '']'') [] res) displayLogs"

definition GenerateRandomRPCID :: "bytes \<Rightarrow> string" where
  "GenerateRandomRPCID rnd = EncodeToString rnd"

text \<open>
  Storing a chunk at the nodes the lookup returned: the requests, then one outcome per node in the order in which the waiting
  goroutines end (the reply, or \<open>None\<close> after the time-out), and the log line with the nodes that acknowledged.
\<close>

definition chunk_acks :: "MessageAddrPair option list \<Rightarrow> address list" where
  "chunk_acks outcomes = foldl (\<lambda>ack m. case m of None \<Rightarrow> ack | Some p \<Rightarrow> ack @ [ma_Address p]) [] outcomes"

definition storeChunk_run ::
  "RoutingEntry list \<Rightarrow> bytes \<Rightarrow> bytes \<Rightarrow> MessageAddrPair option list \<Rightarrow> string list \<Rightarrow>
   ((DStoreMessage \<times> address) list \<times> address list \<times> string list \<times> string list) go" where
  "storeChunk_run ns key chunk outcomes displayLogs =
     go_bind (storeChunk_key key) (\<lambda>lookUpID.
       let ack = chunk_acks (take (length ns) outcomes)
       in case logMessage (''Chunk with hash '' @ EncodeToString key @ '' stored in {'' @ strings_Join ack '', '' @ ''}'') displayLogs of
            (logs, printed) \<Rightarrow> Inr (storeChunk ns key chunk, ack, logs, printed))"

lemma chunk_acks_exact: "chunk_acks outcomes = List.map_filter (map_option ma_Address) outcomes"
proof -
  have "foldl (\<lambda>ack m. case m of None \<Rightarrow> ack | Some p \<Rightarrow> ack @ [ma_Address p]) ack outcomes =
      ack @ List.map_filter (map_option ma_Address) outcomes" for ack
    by (induction outcomes arbitrary: ack) (auto simp: map_filter_simps split: option.splits)
  then show ?thesis by (simp add: chunk_acks_def)
qed

section \<open>Republishing\<close>

text \<open>
  \<open>rp_timers\<close> are the goroutines that \<open>Put\<close> started, one per new chunk; \<open>Tick i\<close> is a turn of the one with number \<open>i\<close>, with the nodes
  that its lookup returns and the outcomes of the calls.
\<close>

record StoreNode =
  rp_store :: DStore
  rp_timers :: "(bytes \<times> bytes) list"
  rp_logs :: "string list"

datatype store_event =
    Incoming MessageAddrPair
  | Tick nat "RoutingEntry list" "MessageAddrPair option list"

definition started :: "store_action list \<Rightarrow> (bytes \<times> bytes) list" where
  "started acts = List.map_filter (\<lambda>a. case a of Republish key value \<Rightarrow> Some (key, value) | _ \<Rightarrow> None) acts"

text \<open>The calls that a turn makes, and the node after it.\<close>

fun store_turn ::
  "(string \<Rightarrow> bool) \<Rightarrow> StoreNode \<Rightarrow> store_event \<Rightarrow> ((DStoreMessage \<times> address) list \<times> StoreNode) go option" where
  "store_turn ping sn (Incoming p) =
     map_option (\<lambda>r. go_bind r (\<lambda>(ds, acts). Inr ([], sn\<lparr>rp_store := ds, rp_timers := rp_timers sn @ started acts\<rparr>)))
       (handleIncomingMessages ping (rp_store sn) p)"
| "store_turn ping sn (Tick i ns outcomes) =
     Some (go_bind (go_nth (rp_timers sn) i) (\<lambda>(key, value).
       go_bind (storeChunk_run ns key value outcomes (rp_logs sn)) (\<lambda>(calls, ack, logs, printed). Inr (calls, sn\<lparr>rp_logs := logs\<rparr>))))"

fun store_run ::
  "(string \<Rightarrow> bool) \<Rightarrow> StoreNode \<Rightarrow> store_event list \<Rightarrow> ((DStoreMessage \<times> address) list \<times> StoreNode) go option" where
  "store_run ping sn [] = Some (Inr ([], sn))"
| "store_run ping sn (e # es) =
     Option.bind (store_turn ping sn e) (\<lambda>r. case r of Inl x \<Rightarrow> Some (Inl x)
       | Inr (calls, sn') \<Rightarrow> map_option (\<lambda>r. go_bind r (\<lambda>(more, sn''). Inr (calls @ more, sn''))) (store_run ping sn' es))"

text \<open>Every chunk held has one timer, which carries the value held.\<close>

definition timers_exact :: "StoreNode \<Rightarrow> bool" where
  "timers_exact sn \<longleftrightarrow> distinct (map fst (rp_timers sn)) \<and>
     (\<forall>key value. (key, value) \<in> set (rp_timers sn) \<longleftrightarrow> chunk_Get (st_chunkStore (rp_store sn)) key = Some value)"

lemma started_simps [simp]:
  "started [] = []" "started (Republish key value # acts) = (key, value) # started acts"
  "started (sendAsyncReply ds msg addr # acts) = started acts" "started (handleRPCReply ds p) = []"
  by (simp_all add: started_def map_filter_simps sendAsyncReply_def handleRPCReply_def split: option.split)

lemma chunk_Put_known: "chunk_Get cs key = Some v \<Longrightarrow> chunk_Put cs key value = cs"
  by (simp add: chunk_Get_def chunk_Put_def Let_def)

lemma handle_stores:
  assumes "handleIncomingMessages ping ds p = Some (Inr (ds', acts))"
  shows "st_chunkStore ds' = st_chunkStore ds \<and> started acts = [] \<or>
    (\<exists>key value. st_chunkStore ds' = chunk_Put (st_chunkStore ds) key value \<and>
       started acts = (if chunk_Get (st_chunkStore ds) key = None then [(key, value)] else []))"
proof -
  have one: "started [a] = []" if "invokeFindNodeRPC d p = Some (Inr a) \<or> invokeFindValueRPC d p = Some (Inr a)" for d a
    using that by (auto simp: invokeFindNodeRPC_def invokeFindValueRPC_def Let_def split: option.splits sum.splits)
  have ping: "started [invokePingRPC d p] = []" for d by (simp add: invokePingRPC_def)
  show ?thesis using assms one ping
    by (auto simp: handleIncomingMessages_def Let_def go_bind_eq_Inr invokeStoreRPC_def chunk_Put_known split: sum.splits if_splits)
qed

lemma storeChunk_run_calls:
  assumes "storeChunk_run ns key value outcomes logs = Inr (calls, r)"
  shows "fst ` set calls \<subseteq> {NewStoreRequest key value 0 0}"
  using assms by (auto simp: storeChunk_run_def go_bind_eq_Inr storeChunk_def Let_def logMessage_def)

lemma store_turn_kept:
  assumes "store_turn ping sn e = Some (Inr (calls, sn'))" and "timers_exact sn"
  shows "timers_exact sn' \<and>
    (\<forall>key value. chunk_Get (st_chunkStore (rp_store sn)) key = Some value \<longrightarrow> chunk_Get (st_chunkStore (rp_store sn')) key = Some value) \<and>
    (\<forall>msg \<in> fst ` set calls. \<exists>key value. msg = NewStoreRequest key value 0 0 \<and> chunk_Get (st_chunkStore (rp_store sn')) key = Some value)"
proof (cases e)
  case (Incoming p)
  then obtain ds acts where h: "handleIncomingMessages ping (rp_store sn) p = Some (Inr (ds, acts))" and calls: "calls = []"
    and sn': "sn' = sn\<lparr>rp_store := ds, rp_timers := rp_timers sn @ started acts\<rparr>"
    using assms(1) by (auto simp: go_bind_eq_Inr)
  from handle_stores [OF h] show ?thesis
  proof (elim disjE exE conjE)
    assume "st_chunkStore ds = st_chunkStore (rp_store sn)" "started acts = []"
    with assms(2) calls sn' show ?thesis by (simp add: timers_exact_def)
  next
    fix k v
    assume put: "st_chunkStore ds = chunk_Put (st_chunkStore (rp_store sn)) k v"
      and new: "started acts = (if chunk_Get (st_chunkStore (rp_store sn)) k = None then [(k, v)] else [])"
    show ?thesis
    proof (cases "chunk_Get (st_chunkStore (rp_store sn)) k")
      case None
      then have "k \<notin> fst ` set (rp_timers sn)" using assms(2) by (auto simp: timers_exact_def)
      with None assms(2) calls sn' put new show ?thesis by (auto simp: timers_exact_def chunks.get_put)
    next
      case (Some u)
      with assms(2) calls sn' put new show ?thesis by (auto simp: timers_exact_def chunks.get_put)
    qed
  qed
next
  case (Tick i ns outcomes)
  then obtain k v ack logs printed where t: "i < length (rp_timers sn)" "rp_timers sn ! i = (k, v)"
    and run: "storeChunk_run ns k v outcomes (rp_logs sn) = Inr (calls, ack, logs, printed)" and sn': "sn' = sn\<lparr>rp_logs := logs\<rparr>"
    using assms(1) by (auto simp: go_bind_eq_Inr go_nth_def split: if_splits)
  from t have "(k, v) \<in> set (rp_timers sn)" using nth_mem by force
  with storeChunk_run_calls [OF run] assms(2) sn' show ?thesis by (auto simp: timers_exact_def)
qed

text \<open>
  Claim C33. A node republishes exactly what it holds: however requests and timers interleave, after any run every chunk in the store
  has exactly one timer and every timer the chunk held under its key, a chunk is never replaced or lost, and every call that any timer
  made stores the chunk that the node still holds under that key.
\<close>

theorem republished_exactly:
  assumes "store_run ping sn es = Some (Inr (calls, sn'))" and "timers_exact sn"
  shows "timers_exact sn' \<and>
    (\<forall>key value. chunk_Get (st_chunkStore (rp_store sn)) key = Some value \<longrightarrow> chunk_Get (st_chunkStore (rp_store sn')) key = Some value) \<and>
    (\<forall>msg \<in> fst ` set calls. \<exists>key value. msg = NewStoreRequest key value 0 0 \<and> chunk_Get (st_chunkStore (rp_store sn')) key = Some value)"
  using assms
proof (induction es arbitrary: sn calls)
  case Nil
  then show ?case by simp
next
  case (Cons e es)
  then obtain r where "store_turn ping sn e = Some r" by (auto simp: bind_eq_Some_conv)
  with Cons.prems(1) obtain c1 sn1 c2 where 1: "store_turn ping sn e = Some (Inr (c1, sn1))"
    and 2: "store_run ping sn1 es = Some (Inr (c2, sn'))" and calls: "calls = c1 @ c2"
    by (cases r) (auto simp: go_bind_eq_Inr)
  have kept: "timers_exact sn1"
      "\<And>k v. chunk_Get (st_chunkStore (rp_store sn)) k = Some v \<Longrightarrow> chunk_Get (st_chunkStore (rp_store sn1)) k = Some v"
      "\<And>msg. msg \<in> fst ` set c1 \<Longrightarrow> \<exists>k v. msg = NewStoreRequest k v 0 0 \<and> chunk_Get (st_chunkStore (rp_store sn1)) k = Some v"
    using store_turn_kept [OF 1 Cons.prems(2)] by blast+
  have later: "timers_exact sn'"
      "\<And>k v. chunk_Get (st_chunkStore (rp_store sn1)) k = Some v \<Longrightarrow> chunk_Get (st_chunkStore (rp_store sn')) k = Some v"
      "\<And>msg. msg \<in> fst ` set c2 \<Longrightarrow> \<exists>k v. msg = NewStoreRequest k v 0 0 \<and> chunk_Get (st_chunkStore (rp_store sn')) k = Some v"
    using Cons.IH [OF 2 kept(1)] by blast+
  have "\<exists>k v. msg = NewStoreRequest k v 0 0 \<and> chunk_Get (st_chunkStore (rp_store sn')) k = Some v" if msg: "msg \<in> fst ` set calls" for msg
  proof (cases "msg \<in> fst ` set c1")
    case True
    with kept(3) later(2) show ?thesis by blast
  next
    case False
    with msg have "msg \<in> fst ` set c2" unfolding calls by auto
    with later(3) show ?thesis by blast
  qed
  with later(1,2) kept(2) show ?case by blast
qed

text \<open>
  Claim C35. A short key crashes the node: a request to store anything under a new key of fewer than ten bytes is accepted and
  answered like any other, and the first turn of the timer that it starts panics, whatever the lookup would return.
\<close>

theorem short_key_crashes_at_republish:
  assumes "handleIncomingMessages ping (rp_store sn) p = Some (Inr (ds, acts))" and "ds_StoreRequest (ma_Message p) = Some req"
    and "ds_PingRequest (ma_Message p) = None" "ds_FindNodeRequest (ma_Message p) = None" "ds_FindValueRequest (ma_Message p) = None"
    and "length (srq_Key req) < 2 + DStoreIDSize" and "chunk_Get (st_chunkStore (rp_store sn)) (srq_Key req) = None"
  shows "\<exists>sn1. store_turn ping sn (Incoming p) = Some (Inr ([], sn1)) \<and>
    store_turn ping sn1 (Tick (length (rp_timers sn)) ns outcomes) = Some (Inl SliceOutOfRange)"
proof -
  have acts: "started acts = [(srq_Key req, srq_Value req)]"
    using assms by (auto simp: handleIncomingMessages_def Let_def go_bind_eq_Inr invokeStoreRPC_def split: sum.splits)
  have "storeChunk_run ns (srq_Key req) (srq_Value req) outcomes logs = Inl SliceOutOfRange" for logs
    using assms(6) by (simp add: storeChunk_run_def storeChunk_key_def go_slice_def)
  with assms(1) acts show ?thesis by (simp add: go_nth_def)
qed

section \<open>A concrete node\<close>

definition sample_store :: StoreNode where
  "sample_store = \<lparr>rp_store = NewDStore (\<lambda>_. replicate 32 0) ''a'' ''a'' 3 3, rp_timers = [], rp_logs = []\<rparr>"

definition store_packet :: "bytes \<Rightarrow> MessageAddrPair" where
  "store_packet key = \<lparr>ma_Message = (NewStoreRequest key [42] 0 0)\<lparr>ds_SourceID := replicate 8 255\<rparr>, ma_Address = ''b''\<rparr>"

lemma sample_store_handles:
  "\<exists>ds acts. handleIncomingMessages (\<lambda>_. True) (rp_store sample_store) (store_packet key) = Some (Inr (ds, acts)) \<and>
     st_chunkStore ds = chunk_Put NewChunkStore key [42] \<and> started acts = [(key, [42])]"
proof -
  have "\<not> isl (Update (replicate 8 0) 3 (\<lambda>_. True) NewRoutingTable \<lparr>ID = replicate 8 255, Address = ''b''\<rparr>)"
    by code_simp
  then obtain rt where "Update (replicate 8 0) 3 (\<lambda>_. True) NewRoutingTable \<lparr>ID = replicate 8 255, Address = ''b''\<rparr> = Inr rt"
    by (auto simp: isl_def) (metis sum.exhaust)
  then show ?thesis
    by (auto simp: sample_store_def store_packet_def handleIncomingMessages_def NewDStore_def NewStoreRequest_def empty_DStoreMessage_def
        GetDStoreIDForName_def invokeStoreRPC_def DStoreIDSize_def Let_def NewChunkStore_def chunk_Get_def)
qed

theorem republished_exactly_witness:
  "\<exists>sn'. store_run (\<lambda>_. True) sample_store [Incoming (store_packet (replicate 34 7)), Tick 0 [\<lparr>ID = [], Address = ''c''\<rparr>] [None]] =
       Some (Inr ([(NewStoreRequest (replicate 34 7) [42] 0 0, ''c'')], sn')) \<and>
     timers_exact sn' \<and> chunk_Get (st_chunkStore (rp_store sn')) (replicate 34 7) = Some [42]"
proof -
  let ?key = "replicate 34 7 :: bytes"
  obtain ds acts where h: "handleIncomingMessages (\<lambda>_. True) (rp_store sample_store) (store_packet ?key) = Some (Inr (ds, acts))"
    and ds: "st_chunkStore ds = chunk_Put NewChunkStore ?key [42]" "started acts = [(?key, [42])]"
    using sample_store_handles by blast
  have "storeChunk_key ?key = Inr (replicate 8 7)" by (simp add: storeChunk_key_def go_slice_def DStoreIDSize_def)
  then obtain sn' where run: "store_run (\<lambda>_. True) sample_store
      [Incoming (store_packet ?key), Tick 0 [\<lparr>ID = [], Address = ''c''\<rparr>] [None]] =
      Some (Inr ([(NewStoreRequest ?key [42] 0 0, ''c'')], sn'))"
    using h ds(2) by (simp add: go_nth_def storeChunk_run_def storeChunk_def logMessage_def Let_def sample_store_def)
  have "timers_exact sample_store"
    by (simp add: timers_exact_def sample_store_def NewDStore_def NewChunkStore_def chunk_Get_def)
  from republished_exactly [OF run this] have t: "timers_exact sn'"
    "\<exists>k v. NewStoreRequest ?key [42] 0 0 = NewStoreRequest k v 0 0 \<and> chunk_Get (st_chunkStore (rp_store sn')) k = Some v" by auto
  from t(2) have "chunk_Get (st_chunkStore (rp_store sn')) ?key = Some [42]"
    by (auto simp: NewStoreRequest_def empty_DStoreMessage_def)
  with run t(1) show ?thesis by blast
qed

theorem short_key_crashes_at_republish_witness:
  "\<exists>sn1. store_turn (\<lambda>_. True) sample_store (Incoming (store_packet [1, 7])) = Some (Inr ([], sn1)) \<and>
     store_turn (\<lambda>_. True) sn1 (Tick 0 [] []) = Some (Inl SliceOutOfRange)"
proof -
  obtain ds acts where h: "handleIncomingMessages (\<lambda>_. True) (rp_store sample_store) (store_packet [1, 7]) = Some (Inr (ds, acts))"
    using sample_store_handles by blast
  have t: "rp_timers sample_store = []" "chunk_Get (st_chunkStore (rp_store sample_store)) k = None" for k
    by (simp_all add: sample_store_def NewDStore_def NewChunkStore_def chunk_Get_def)
  show ?thesis
    using short_key_crashes_at_republish [OF h, of "\<lparr>srq_Key = [1, 7], srq_Value = [42], srq_ExpiryTime = 0, srq_RePublishTime = 0\<rparr>" "[]" "[]"]
    by (simp add: store_packet_def NewStoreRequest_def empty_DStoreMessage_def DStoreIDSize_def t)
qed

end
