(* ===== verification/Spec2Isabelle.thy ===== *)
theory Spec2Isabelle
  imports Ledger SecureFile Client Transport FileIntegrity Program StoreNode
begin

text \<open>
  A model of DSignal, a peer-to-peer messenger written in Go, and the theorems that make it correct. This theory imports all
  others; the definitions and lemmas stand in the theory of their component.

  \<^bold>\<open>The program.\<close> A node is a gossiper (\<open>src/gossiper\<close>) with three parts on top. The gossiper spreads numbered messages by rumor
  mongering and anti-entropy, routes private packets, shares and searches files, and runs a blockchain of file names with a threshold logical
  clock and a consensus (QSC). Whisper (\<open>src/whisper\<close>) floods encrypted envelopes to the neighbours whose bloom filter and work threshold
  admit them. The store (\<open>src/storage\<close>) is a Kademlia table with chunk storage and iterative lookups; it sends through the gossiper.
  Signal (\<open>src/adssignal\<close>) runs X3DH and the double ratchet over Whisper and publishes identities. A client and a web page
  (\<open>src/client\<close>, \<open>src/webserver\<close>) send commands; \<open>src/secure\<close> signs and encrypts files.

  \<^bold>\<open>Conventions\<close> (\<open>Prelude\<close>). A Go panic is the left value of \<open>'a go\<close>; a function with an error result returns an option; a loop that may run
  for ever returns an option whose \<open>None\<close> is not returning (\<open>partial_function\<close>), or runs on a list of events. Fixed-width integers are words, so
  arithmetic wraps as in Go; \<open>big.Int\<close> is \<open>int\<close>; bytes are lists of 8-bit words; \<open>float64\<close> is a rational with infinities and NaN, rounded to
  double precision where the code computes (\<open>GoFloat\<close>). Structs are records with a prefix for their fields, a nil pointer is \<open>None\<close>. A
  slice's capacity is taken to be its length. Effects that leave a component (packets, started goroutines, files written, values handed to the
  user) are action values in the order in which the code starts them. What the run time or the network chooses (map order, random draws, ticks, answers) is an argument,
  and the theorems quantify over it. Third-party and cryptographic code (elliptic curves, AES, HMAC, HKDF, ECDSA, RSA, protobuf, gob, JSON,
  regular expressions, SHA) is a parameter with named laws (\<open>crypto_laws\<close>, \<open>hash_laws\<close>, round trips of the encoding at the value used);
  toy instances in the witnesses show that the laws can hold.

  \<^bold>\<open>Theories.\<close>
  \<^item> \<open>XorMetric\<close>, \<open>Bucket\<close>, \<open>RoutingTable\<close>: \<open>storage/utils.go\<close>, \<open>storage/rtable.go\<close>. Identifiers, k-buckets as doubly linked lists in a heap, the
    table. The pointer code refines a least-recently-seen list; \<open>FindKClosest\<close> equals sorting by distance; updates keep the table well formed.
  \<^item> \<open>Store\<close>, \<open>Lookup\<close>, \<open>StoreNode\<close>: \<open>storage/store.go\<close>, \<open>chunk_store.go\<close>, \<open>channel_store.go\<close>, \<open>handlers.go\<close>, \<open>lookup.go\<close>. Chunks, calls, trees of hashes, the
    phases of node and value lookups over a stream of answers. Files come back; node lookups end and find the closest live nodes; a
    running node republishes exactly the chunks it holds (with \<open>logger.go\<close>).
  \<^item> \<open>Curve\<close>, \<open>Crypto\<close>, \<open>AEAD\<close>, \<open>Ratchet\<close>, \<open>X3DH\<close>, \<open>Signal\<close>: \<open>src/adssignal\<close>, one theory per file group. Point compression, key
    derivation, authenticated encryption, the double ratchet with skipped keys, both ends of X3DH, the Signal handler with its files. Conversations of any
    pattern decrypt, also out of order, and from the published identity on.
  \<^item> \<open>Packets\<close>, \<open>Gossip\<close>, \<open>Routing\<close>, \<open>GossipNode\<close>, \<open>Mongering\<close>, \<open>Network\<close>, \<open>Transport\<close>: \<open>gossiper/header.go\<close>, \<open>gossiphandler.go\<close>, \<open>status.go\<close>,
    \<open>routinghandler.go\<close>, \<open>peers.go\<close>, \<open>rumormongering.go\<close>, \<open>connectionhandler.go\<close> and the packet loops of \<open>mainhandler.go\<close>. Message storage with exact vector clocks,
    freshest routes, handlers, listeners and timers. \<open>Network\<close> is a step relation of many nodes whose steps are these handlers. A node publishes a rumor, a
    Whisper status or a TLC message in three steps, as the code does: it loads the sequence number, adds to it, stores the message. In runs in which the first
    two steps of two publishers of one node do not overlap (\<open>serial_reachable\<close>), nodes agree on every message; when they do overlap, nodes can disagree.
  \<^item> \<open>Bloom\<close>, \<open>WhisperRouting\<close>, \<open>WhisperEnvelope\<close>, \<open>WhisperFilters\<close>, \<open>Whisper\<close>: \<open>src/whisper\<close>. Bloom filters, announcements, sealed messages, proof of work, subscriptions in a heap,
    the node. No false negatives, announcements only widen, sealed messages reach matching subscriptions, envelopes are queued once.
  \<^item> \<open>WhisperNode\<close>, \<open>SignalNode\<close>: \<open>Run\<close>, \<open>Stop\<close> and the loops of \<open>whisper/whisper.go\<close>, \<open>whisper/routing.go\<close> and \<open>adssignal/signalhandler.go\<close>. The
    goroutines, timers and calls of a running node are steps that interleave in any order; results hold in every reachable state: packets, ticks and the
    queue are processed without a fault up to those stated below, every polled message reaches the loop of its kind, a loop that starts before its channel never serves.
    A turn of the packet or status goroutine or a call that forwards an envelope touches maps of the Whisper node without a lock; such turns begin and end in separate
    steps. When two of them overlap the state is \<open>raced\<close>: it is reachable, and no run goes on from it, as the Go run time may stop the program there.
  \<^item> \<open>Ledger\<close>: \<open>gossiper/blockchainhandler.go\<close>, \<open>tlc.go\<close>, \<open>qsc.go\<close>. Rounds end with a majority, deciding nodes agree, commits refine an append-only log.
  \<^item> \<open>Files\<close>, \<open>Search\<close>, \<open>FileIntegrity\<close>: \<open>gossiper/filehandler.go\<close>, \<open>filesharing.go\<close>, \<open>filesearching.go\<close>, slices of \<open>helpers/generalhelpers.go\<close>. Indexing and downloading round-trip; search
    budgets are shared evenly; results locate files; in all states a hostile network can bring about, with hashes of any length, the stored data hash to their keys.
  \<^item> \<open>Client\<close>: \<open>client/clientsender/client.go\<close>, the post handlers of \<open>webserver/webserver.go\<close>, \<open>uifunctions.go\<close>, the whole of \<open>processClientMessages\<close>, the
    constructor of the gossiper. \<open>SecureFile\<close>: \<open>secure/securefs.go\<close>.
  \<^item> \<open>Console\<close>, \<open>WebServer\<close>, \<open>Program\<close>: \<open>gossiper/printhandler.go\<close>, the rest of \<open>webserver/webserver.go\<close> with the getters it reads, \<open>main.go\<close>,
    \<open>client/main.go\<close>, \<open>Run\<close> and \<open>Init\<close> of the gossiper, files on disk. Lines are computed as text, responses as records of
    header and body. The consensus log names all commits in order, the interface shows every log line once, numbers survive the web form.

  \<^bold>\<open>Interfaces.\<close> Locales state what several components rely on: \<open>xor_metric\<close> (distances), \<open>lru_bucket\<close> (buckets), \<open>write_once\<close> (the chunk store and the data of
  shared files), \<open>freshness_filter\<close> (last identifiers of gossip and Whisper routing), \<open>filter_algebra\<close> (bloom filters), \<open>sealing\<close> (authenticated encryption),
  \<open>append_log\<close> (the committed history). Each is interpreted on the model's definitions in the theory that provides them.

  \<^bold>\<open>Bounds.\<close> No fuel is used: loops of the code that are not structural are functions with a measure, partial functions, or recursions over the list
  of events they wait for. Results about such loops say how many events are enough (six ticks for a default search, the requested replies for a
  download, the answers of a lookup until every learned node is contacted).
  Sequence numbers are 32 bits wide; the network invariant asks that the last one is never used. The record of a first
  round of consensus stays as it was for the two later rounds if the clock is below \<open>2 ^ 32 - 2\<close>.

  \<^bold>\<open>Faults of the code.\<close> Several theorems prove that the code misbehaves: a second message before the first reply, a round of consensus in which nothing was seen, a
  publishers of one node that overlap and share a number, a limit on skipped keys that is printed and not enforced, data stored under the empty hash, maps of Whisper that are read
  and written without a lock, a value lookup that misses, a chain of two blocks, a search request with budget 0, a search result with chunk number 0, an unsolicited data reply, a
  status that asks for message 0, restored prekeys, a routing-table index out of range, a store request with a short key, an envelope shorter than a nonce, an expired envelope that
  comes back, Signal loops that start before their channels, JSON sent without its content type. They are stated about the definitions as they are.

  \<^bold>\<open>Not modelled.\<close> What sockets, HTTP routing, the file server, JSON and protobuf do inside: they are parameters. Prints under debug
  flags that are never set, the records that only pair a map with its mutex, and
  \<open>handleClientPrivateMessage\<close>, which nothing calls. Between goroutines, a handler is one atomic step, as the mutexes and \<open>sync.Map\<close> make its
  parts, except for the sequence number of gossip and the unlocked maps of Whisper, which are modelled as above. So storing a message and updating the clock
  is one step, and a concurrent access to the map of channels while Signal starts, the registration of reply channels in the store and the overwriting of the
  ciphertext in place by \<open>DecryptFile\<close> are left out.
\<close>

end
